(* ===== verification/Go_Errors.thy ===== *)
theory Go_Errors
  imports Prelude
begin

section \<open>Error values\<close>

text \<open>
  Go errors are values, and the code compares them by identity with package-level variables.
  Each group of such variables is a datatype with one constructor per variable and a function
  with the texts; \<open>error\<close> is the sum of the groups, of the errors the code builds when it
  runs (\<open>errors.New\<close>, \<open>fmt.Errorf\<close>, \<open>errors.Wrap\<close>) and of the errors that calls outside the
  repository return. A result of type \<open>error\<close> in Go is an \<open>error option\<close> here, \<open>None\<close>
  for nil.
\<close>

datatype queue_error =
    ErrTaskCancelled | ErrTaskFinished | ErrTaskNotRunning | ErrTaskNotFound | ErrTaskFailed
  | ErrTaskQueueNotSpecified | ErrTaskTypeNotSpecified

fun queue_error_msg :: "queue_error \<Rightarrow> string" where
  "queue_error_msg ErrTaskCancelled = ''task has been canceled''"
| "queue_error_msg ErrTaskFinished = ''task has finished''"
| "queue_error_msg ErrTaskNotRunning = ''task has not started yet''"
| "queue_error_msg ErrTaskNotFound = ''task not found''"
| "queue_error_msg ErrTaskFailed = ''task failed''"
| "queue_error_msg ErrTaskQueueNotSpecified = ''task queue name cannot be blank''"
| "queue_error_msg ErrTaskTypeNotSpecified = ''task type cannot be blank''"

datatype scheduler_error = ErrNotScheduled

fun scheduler_error_msg :: "scheduler_error \<Rightarrow> string" where
  "scheduler_error_msg ErrNotScheduled = ''Task not currently scheduled''"

datatype task_worker_error = ErrHeartbeatTimeout

fun task_worker_error_msg :: "task_worker_error \<Rightarrow> string" where
  "task_worker_error_msg ErrHeartbeatTimeout = ''task timeout''"

datatype schedule_worker_error = ErrScheduleQueueIsEmpty

fun schedule_worker_error_msg :: "schedule_worker_error \<Rightarrow> string" where
  "schedule_worker_error_msg ErrScheduleQueueIsEmpty = ''nothing to schedule''"

text \<open>
  The two variables with the text of the serialization error, \<open>errSerializingHearbeat\<close> of the
  SQL task and \<open>ErrSerializingHearbeat\<close> of the API tasks, are different values.
\<close>

datatype handler_error = ErrNoHandlerFound | ErrSerializingHearbeat | SQL_ErrSerializingHearbeat

fun handler_error_msg :: "handler_error \<Rightarrow> string" where
  "handler_error_msg ErrNoHandlerFound = ''no handler found''"
| "handler_error_msg ErrSerializingHearbeat =
     ''failed to serialize progress payload while sending heartbeat''"
| "handler_error_msg SQL_ErrSerializingHearbeat =
     ''failed to serialize progress payload while sending heartbeat''"

datatype token_error =
    ErrNoPrivateKeySpecified | ErrKeyNotFound | ErrMalformedKeyID | ErrUnsupportedSigningMethod

fun token_error_msg :: "token_error \<Rightarrow> string" where
  "token_error_msg ErrNoPrivateKeySpecified = ''private key is nil''"
| "token_error_msg ErrKeyNotFound = ''specified key not found''"
| "token_error_msg ErrMalformedKeyID = ''malformed key ID in the JWT header''"
| "token_error_msg ErrUnsupportedSigningMethod = ''signing method is not supported''"

datatype auth_error = ErrMissingSub | ErrExpiration | ErrTooEarly | ErrTooSoon | ErrInvalidParty

fun auth_error_msg :: "auth_error \<Rightarrow> string" where
  "auth_error_msg ErrMissingSub = ''sub is required''"
| "auth_error_msg ErrExpiration = ''invalid exp''"
| "auth_error_msg ErrTooEarly = ''token is not valid yet''"
| "auth_error_msg ErrTooSoon = ''token used before issued''"
| "auth_error_msg ErrInvalidParty = ''invalid authorized party''"

datatype crypto_error = ErrCipherTooShort | ErrCorruptedMessage | ErrTokenExpired

fun crypto_error_msg :: "crypto_error \<Rightarrow> string" where
  "crypto_error_msg ErrCipherTooShort = ''crypto: cipher plainText is too short for AES encryption''"
| "crypto_error_msg ErrCorruptedMessage =
     ''crypto: the message didn'' @ [CHR 0x27] @ ''t pass the authentication check''"
| "crypto_error_msg ErrTokenExpired = ''crypto: token expired''"

text \<open>The errors of \<open>pkg/errors\<close>, whose texts are shown to users.\<close>

datatype http_error =
    ErrPermission | ErrAuthorization | ErrInternal | ErrInvalidParameters | ErrUnmarshalling
  | ErrForm | ErrNotFound | ErrNotImplemented | ErrUnsupportedMediaType

fun http_error_msg :: "http_error \<Rightarrow> string" where
  "http_error_msg ErrPermission =
     ''You don'' @ [CHR 0x27] @ ''t have required permission to perform this action''"
| "http_error_msg ErrAuthorization =
     ''User is unauthorized, make sure you'' @ [CHR 0x27] @ ''ve logged in''"
| "http_error_msg ErrInternal = ''Internal server error, please try again later''"
| "http_error_msg ErrInvalidParameters = ''Some of the request parameters are not correct''"
| "http_error_msg ErrUnmarshalling = ''Failed to read JSON from the request body''"
| "http_error_msg ErrForm = ''Failed to parse the submitted form''"
| "http_error_msg ErrNotFound = ''The requested object was not found''"
| "http_error_msg ErrNotImplemented = ''Method is not implemented''"
| "http_error_msg ErrUnsupportedMediaType = ''Unsupported Media Type''"

text \<open>Errors of the Go standard library that the code compares with.\<close>

datatype std_error = ErrNoRows | EOF | Canceled | DeadlineExceeded

fun std_error_msg :: "std_error \<Rightarrow> string" where
  "std_error_msg ErrNoRows = ''sql: no rows in result set''"
| "std_error_msg EOF = ''EOF''"
| "std_error_msg Canceled = ''context canceled''"
| "std_error_msg DeadlineExceeded = ''context deadline exceeded''"

text \<open>
  \<open>New m\<close> is an error made with text \<open>m\<close>, \<open>Wrap p e\<close> one with text \<open>p\<close> followed by the
  text of its cause \<open>e\<close>, and \<open>Ext m\<close> one that a call outside the repository returned.
  \<open>User_err\<close> is \<open>UserError\<close> and \<open>Parse_err\<close> the \<open>parseError\<close> of the base handler. A
  validation error is a map from field names to errors, of which the code only reads the
  texts (\<open>None\<close> for a nil error); the text of the whole is made by the validation
  library and kept beside it. The two versions of the library have different types.
\<close>

datatype validation_version = Ozzo3 | Ozzo4

datatype error =
    Queue_err queue_error
  | Scheduler_err scheduler_error
  | Task_worker_err task_worker_error
  | Schedule_worker_err schedule_worker_error
  | Handler_err handler_error
  | Token_err token_error
  | Auth_err auth_error
  | Crypto_err crypto_error
  | Http_err http_error
  | Std_err std_error
  | New string
  | Wrap string error
  | Ext string
  | User_err error
  | Parse_err error
  | Validation_err validation_version string "(string \<times> string option) list"

fun error_msg :: "error \<Rightarrow> string" where
  "error_msg (Queue_err e) = queue_error_msg e"
| "error_msg (Scheduler_err e) = scheduler_error_msg e"
| "error_msg (Task_worker_err e) = task_worker_error_msg e"
| "error_msg (Schedule_worker_err e) = schedule_worker_error_msg e"
| "error_msg (Handler_err e) = handler_error_msg e"
| "error_msg (Token_err e) = token_error_msg e"
| "error_msg (Auth_err e) = auth_error_msg e"
| "error_msg (Crypto_err e) = crypto_error_msg e"
| "error_msg (Http_err e) = http_error_msg e"
| "error_msg (Std_err e) = std_error_msg e"
| "error_msg (New m) = m"
| "error_msg (Wrap p e) = p @ error_msg e"
| "error_msg (Ext m) = m"
| "error_msg (User_err e) = error_msg e"
| "error_msg (Parse_err e) = http_error_msg ErrUnmarshalling @ '': '' @ error_msg e"
| "error_msg (Validation_err v m fields) = m"

text \<open>\<open>errors.Wrap(err, msg)\<close> of \<open>github.com/pkg/errors\<close>.\<close>

definition errors_Wrap :: "error \<Rightarrow> string \<Rightarrow> error" where
  "errors_Wrap e m = Wrap (m @ '': '') e"

text \<open>The error at the end of a chain of wrapped errors.\<close>

fun root_cause :: "error \<Rightarrow> error" where
  "root_cause (Wrap p e) = root_cause e"
| "root_cause e = e"

lemma root_cause_errors_Wrap [simp]: "root_cause (errors_Wrap e m) = root_cause e"
  by (simp add: errors_Wrap_def)

lemma error_msg_errors_Wrap [error_simps]:
  "error_msg (errors_Wrap e m) = m @ '': '' @ error_msg e"
  by (simp add: errors_Wrap_def)

text \<open>
  A type of results with one more outcome beside a return: a Go panic, which no caller in
  the repository recovers from unless the model says so.
\<close>

datatype 'a outcome = Ret 'a | Panic

subsection \<open>Ending a transaction\<close>

text \<open>
  The deferred function that the dequeuer, the schedule worker and the view setup share: with
  no error so far the transaction is committed and the error of the commit is returned,
  otherwise it is rolled back, and the error of the rollback is put in front of the one
  there is. \<open>base\<close> is the database without the transaction and \<open>work\<close> the one with it:
  only a successful commit makes it the database. An error of the commit is taken to mean that
  nothing was written; that the server has committed and only its answer was lost is left out.
\<close>

record tx_env =
  begin_err :: "error option"
  commit_err :: "error option"
  rollback_err :: "error option"

definition tx_ok :: tx_env where
  "tx_ok = \<lparr>begin_err = None, commit_err = None, rollback_err = None\<rparr>"

fun end_tx :: "tx_env \<Rightarrow> 'd \<Rightarrow> 'd \<times> error option \<Rightarrow> 'd \<times> error option" where
  "end_tx t base (work, None) =
     (case commit_err t of None \<Rightarrow> (work, None) | Some e \<Rightarrow> (base, Some e))"
| "end_tx t base (work, Some e) =
     (base, Some (case rollback_err t of None \<Rightarrow> e | Some r \<Rightarrow> errors_Wrap e (error_msg r)))"

lemma end_tx_None:
  "end_tx t base (work, err) = (d, None) \<longleftrightarrow> err = None \<and> commit_err t = None \<and> d = work"
  by (cases err) (auto split: option.splits)

lemma end_tx_Some: "end_tx t base w = (d, Some e) \<Longrightarrow> d = base"
  by (cases "(t, base, w)" rule: end_tx.cases) (auto split: option.splits)

lemma end_tx_cases:
  assumes "end_tx t base (work, err) = (d, err')"
  obtains (committed) "err = None" "err' = None" "d = work"
    | (aborted) e where "err' = Some e" "d = base"
proof (cases err')
  case None
  with assms committed show ?thesis by (simp add: end_tx_None)
next
  case (Some e)
  with assms aborted show ?thesis by (auto dest: end_tx_Some)
qed

lemma end_tx_root:
  "end_tx t base (work, Some e) = (d, Some e') \<Longrightarrow> root_cause e' = root_cause e"
  by (auto split: option.splits)

end
