(* ===== verification/Queue_Types.thy ===== *)
theory Queue_Types
  imports Go_Errors
begin

section \<open>Tasks\<close>

text \<open>
  The data types of \<open>pkg/queue/task.go\<close>. A Go struct is a record, and a struct embedded in
  another one (\<open>TaskBase\<close>) is extended by it. \<open>TaskStatus\<close> is a Go string type with five
  named constants; a column can hold other texts, which the code treats alike, so they are
  one more constructor.
\<close>

datatype task_status = Waiting | Running | Cancelled | Finished | Failed | Unlisted string

text \<open>A value of an SQL parameter or column.\<close>

datatype sql_value = VNull | VText string | VInt int

text \<open>
  \<open>References\<close> is a Go map: a list of its entries in the order in which ranging over it
  yields them, \<open>None\<close> for a nil map.
\<close>

type_synonym references = "(string \<times> sql_value) list option"

definition GetNamesAndValues :: "references \<Rightarrow> string list \<times> sql_value list" where
  "GetNamesAndValues a =
     (case a of None \<Rightarrow> ([], [])
      | Some kvs \<Rightarrow> fold (\<lambda>(k, v) (keys, vals). (keys @ [k], vals @ [v])) kvs ([], []))"

record task_base =
  Queue :: string
  Type :: string
  Spec :: "bytes option"

record task_enqueue_request = task_base +
  References :: references

record task_schedule_request = task_base +
  CronSchedule :: string
  ScheduleReferences :: references

record task = task_base +
  ID :: string
  Status :: task_status
  Progress :: bytes
  CreatedAt :: time
  UpdatedAt :: time
  StartedAt :: "time option"
  FinishedAt :: "time option"
  LastHeartbeatAt :: "time option"

text \<open>\<open>emptyJSON\<close> of \<open>pkg/queue/postgres/queuer.go\<close>.\<close>

definition emptyJSON :: bytes where
  "emptyJSON = ''{}''"

lemma emptyJSON_nonempty [simp]: "emptyJSON \<noteq> []"
  by (simp add: emptyJSON_def)

text \<open>Ranging over the map splits it into its keys and its values, position by position.\<close>

lemma GetNamesAndValues_fold:
  "fold (\<lambda>(k, v) (keys, vals). (keys @ [k], vals @ [v])) kvs (ks, vs) =
     (ks @ map fst kvs, vs @ map snd kvs)"
  by (induction kvs arbitrary: ks vs) auto

lemma GetNamesAndValues_simps [simp]:
  "GetNamesAndValues None = ([], [])"
  "GetNamesAndValues (Some kvs) = (map fst kvs, map snd kvs)"
  by (simp_all add: GetNamesAndValues_def GetNamesAndValues_fold)

lemma zip_GetNamesAndValues:
  "GetNamesAndValues (Some kvs) = (ks, vs) \<Longrightarrow> zip ks vs = kvs"
  by (auto simp: zip_map_fst_snd)

end
