(* ===== verification/Pg_Store.thy ===== *)
theory Pg_Store
  imports Queue_Types
begin

section \<open>The tables of the queue\<close>

text \<open>
  The tables \<open>tasks\<close> and \<open>schedules\<close> that \<open>pkg/queue/postgres/setup.go\<close> creates: a record per
  row with the system columns, a column for every nullable one as an \<open>option\<close>, and the
  reference columns (the dictionary \<open>References\<close> of a request) as the list of the columns set.

  Postgres itself is outside the repository. What the statements depend on beyond SQL is the
  parameter \<open>pg\<close>: how a \<open>citext\<close> column compares (two texts are equal when their canonical
  forms are) and which text a \<open>jsonb\<close> column holds for an input (\<open>None\<close>: the input is no JSON
  and the statement fails). \<open>json_text\<close> is the operator \<open>->>\<close> that reads a field of an object,
  and \<open>nil_bytes\<close> says what the driver makes of a nil byte slice that is compared with a
  \<open>jsonb\<close> column: NULL when it is \<open>None\<close>, otherwise the statement fails with that error. What
  the code relies on is \<open>pg_ok\<close>: storing the text that a \<open>jsonb\<close> column holds gives the same
  text, and the empty object is JSON.

  Every call to the database can fail; each operation takes the outcome of its calls as part
  of an environment record.
\<close>

record pg =
  citext :: "string \<Rightarrow> string"
  jsonb :: "bytes \<Rightarrow> bytes option"
  json_text :: "bytes \<Rightarrow> string \<Rightarrow> string option"
  nil_bytes :: "error option"

definition pg_ok :: "pg \<Rightarrow> bool" where
  "pg_ok p \<longleftrightarrow> jsonb p emptyJSON = Some emptyJSON \<and>
     (\<forall>b c. jsonb p b = Some c \<longrightarrow> jsonb p c = Some c \<and> c \<noteq> [])"

text \<open>Equality of two values of a \<open>citext\<close> column.\<close>

definition ci_eq :: "pg \<Rightarrow> string \<Rightarrow> string \<Rightarrow> bool" where
  "ci_eq p a b \<longleftrightarrow> citext p a = citext p b"

record task_row =
  task_id :: string
  queue :: string
  task_kind :: string
  spec :: bytes
  status :: task_status
  progress :: bytes
  created_at :: time
  updated_at :: time
  started_at :: "time option"
  finished_at :: "time option"
  last_heartbeat_at :: "time option"
  refs :: "(string \<times> sql_value) list"

record schedule_row =
  schedule_id :: string
  task_queue :: string
  task_type :: string
  task_spec :: bytes
  cron_schedule :: string
  next_execution_time :: "time option"
  sched_created_at :: time
  sched_updated_at :: time
  sched_refs :: "(string \<times> sql_value) list"

record db =
  tasks :: "task_row list"
  schedules :: "schedule_row list"

text \<open>The texts of the errors with which Postgres refuses a statement.\<close>

definition pg_invalid_json :: error where
  "pg_invalid_json = Ext ''pq: invalid input syntax for type json''"

definition pg_duplicate_key :: error where
  "pg_duplicate_key = Ext ''pq: duplicate key value violates unique constraint''"

definition pg_duplicate_column :: error where
  "pg_duplicate_column = Ext ''pq: column specified more than once''"

lemma ci_eq_refl [simp]: "ci_eq p a a"
  by (simp add: ci_eq_def)

lemma ci_eq_sym: "ci_eq p a b \<Longrightarrow> ci_eq p b a"
  by (simp add: ci_eq_def)

lemma ci_eq_trans: "ci_eq p a b \<Longrightarrow> ci_eq p b c \<Longrightarrow> ci_eq p a c"
  by (simp add: ci_eq_def)

lemma pg_okD:
  assumes "pg_ok p"
  shows "jsonb p emptyJSON = Some emptyJSON" "jsonb p b = Some c \<Longrightarrow> jsonb p c = Some c"
    "jsonb p b = Some c \<Longrightarrow> c \<noteq> []"
  using assms by (auto simp: pg_ok_def)

text \<open>The row of a task, by its primary key.\<close>

definition task_of :: "db \<Rightarrow> string \<Rightarrow> task_row option" where
  "task_of d i = List.find (\<lambda>r. task_id r = i) (tasks d)"

lemma task_of_in: "task_of d i = Some r \<Longrightarrow> r \<in> set (tasks d) \<and> task_id r = i"
  by (auto simp: task_of_def find_Some_iff)

lemma task_of_None: "task_of d i = None \<longleftrightarrow> i \<notin> task_id ` set (tasks d)"
  by (auto simp: task_of_def find_None_iff)

lemma task_of_row: "distinct (map task_id (tasks d)) \<Longrightarrow> r \<in> set (tasks d) \<Longrightarrow> task_of d (task_id r) = Some r"
  by (simp add: task_of_def find_key)

text \<open>
  One Postgres that the hypotheses of the theorems allow, for their witnesses: it compares
  texts without regard to ASCII case, takes every text but the empty one as JSON, reads the
  field \<open>k\<close> of an object as what stands between \<open>"k":"\<close> and the next quote, and sends a nil
  byte slice as NULL.
\<close>

fun text_after :: "string \<Rightarrow> string \<Rightarrow> string option" where
  "text_after pat [] = None"
| "text_after pat (c # s) =
     (if has_prefix (c # s) pat then Some (takeWhile (\<lambda>c. c \<noteq> CHR 0x22) (drop (length pat) (c # s)))
      else text_after pat s)"

definition sample_pg :: pg where
  "sample_pg = \<lparr>citext = map to_lower, jsonb = (\<lambda>b. if b = [] then None else Some b),
     json_text = (\<lambda>b k. text_after (CHR 0x22 # k @ [CHR 0x22, CHR 0x3A, CHR 0x22]) b), nil_bytes = None\<rparr>"

lemma sample_pg_ok [simp]: "pg_ok sample_pg"
  by (auto simp: pg_ok_def sample_pg_def)

end
