(* ===== verification/Scheduler.thy ===== *)
theory Scheduler
  imports Pg_Store
begin

section \<open>The scheduler\<close>

text \<open>
  \<open>pkg/queue/postgres/scheduler.go\<close>: \<open>Schedule\<close> checks a request and inserts one row into
  \<open>schedules\<close>, \<open>EnsureSchedule\<close> looks for one, and \<open>AssertSchedule\<close> runs both in one transaction
  that holds a lock on the table.

  The cron library is a parameter: \<open>cron_parse_err\<close> is the error of parsing an expression and
  \<open>cron_next\<close> the next activation after an instant. Its documentation promises \<open>cron_ok\<close>: the
  next activation is later than the instant, or the zero time when there is none.
\<close>

record cron =
  cron_parse_err :: "string \<Rightarrow> error option"
  cron_next :: "string \<Rightarrow> time \<Rightarrow> time"

definition cron_ok :: "cron \<Rightarrow> bool" where
  "cron_ok c \<longleftrightarrow> (\<forall>s t. cron_parse_err c s = None \<longrightarrow> cron_next c s t = zero_time \<or> t < cron_next c s t)"

text \<open>\<open>CronTab\<close> of \<open>pkg/validation/rules.go\<close>.\<close>

definition CronTab :: "cron \<Rightarrow> string \<Rightarrow> error option" where
  "CronTab c value =
     (case cron_parse_err c value of
        Some cerr \<Rightarrow> Some (errors_Wrap cerr ''failed to parse crontab'')
      | None \<Rightarrow> None)"

record schedule_env =
  new_schedule_id :: string
  sched_clock :: time
  sched_insert_now :: time
  sched_insert_err :: "error option"

definition schedule_insert_columns :: "string list" where
  "schedule_insert_columns =
     [''schedule_id'', ''task_queue'', ''task_type'', ''task_spec'', ''cron_schedule'', ''next_execution_time'']"

text \<open>
  The unique index \<open>unique_retention_idx\<close> of \<open>pkg/queue/postgres/setup.go\<close>: two rows of the
  type \<open>retention\<close> conflict when they agree on the queue, the type and three fields of the
  specification; a missing field conflicts with nothing.
\<close>

definition retention_fields :: "string list" where
  "retention_fields = [''queueName'', ''taskType'', ''status'']"

definition retention_conflict :: "pg \<Rightarrow> schedule_row \<Rightarrow> schedule_row \<Rightarrow> bool" where
  "retention_conflict p r r' \<longleftrightarrow>
     ci_eq p (task_type r) ''retention'' \<and> ci_eq p (task_type r') ''retention'' \<and>
     ci_eq p (task_queue r) (task_queue r') \<and>
     (\<forall>k \<in> set retention_fields.
        json_text p (task_spec r) k = json_text p (task_spec r') k \<and> json_text p (task_spec r) k \<noteq> None)"

definition insert_schedule ::
  "pg \<Rightarrow> schedule_env \<Rightarrow> string \<Rightarrow> string \<Rightarrow> bytes \<Rightarrow> string \<Rightarrow> string list \<Rightarrow> sql_value list \<Rightarrow> db
    \<Rightarrow> db \<times> error option" where
  "insert_schedule p e q k b cr refColumns refValues d =
     (case sched_insert_err e of Some x \<Rightarrow> (d, Some x)
      | None \<Rightarrow>
        if \<not> distinct (refColumns @ schedule_insert_columns) then (d, Some pg_duplicate_column)
        else (case jsonb p b of
          None \<Rightarrow> (d, Some pg_invalid_json)
        | Some spec' \<Rightarrow>
          (let r = \<lparr>schedule_id = new_schedule_id e, task_queue = q, task_type = k, task_spec = spec',
                 cron_schedule = cr, next_execution_time = Some (sched_clock e),
                 sched_created_at = sched_insert_now e, sched_updated_at = sched_insert_now e,
                 sched_refs = zip refColumns refValues\<rparr>
           in if new_schedule_id e \<in> schedule_id ` set (schedules d) \<or> list_ex (retention_conflict p r) (schedules d)
              then (d, Some pg_duplicate_key)
              else (d\<lparr>schedules := schedules d @ [r]\<rparr>, None))))"

definition Schedule ::
  "pg \<Rightarrow> cron \<Rightarrow> schedule_env \<Rightarrow> task_schedule_request \<Rightarrow> db \<Rightarrow> db \<times> error option" where
  "Schedule p c e t d =
     (if Queue t = [] then (d, Some (Queue_err ErrTaskQueueNotSpecified))
      else if Type t = [] then (d, Some (Queue_err ErrTaskTypeNotSpecified))
      else
        let t = (if Spec t = None then t\<lparr>Spec := Some emptyJSON\<rparr> else t);
            err = (if CronSchedule t \<noteq> [] then CronTab c (CronSchedule t) else None)
        in case err of Some x \<Rightarrow> (d, Some x)
        | None \<Rightarrow>
          (let (refColumns, refValues) = GetNamesAndValues (ScheduleReferences t)
           in insert_schedule p e (Queue t) (Type t) (the (Spec t)) (CronSchedule t) refColumns refValues d))"

text \<open>
  The condition \<open>col = value\<close> that squirrel builds for a reference: \<open>IS NULL\<close> for a nil value.
\<close>

definition ref_matches :: "(string \<times> sql_value) list \<Rightarrow> string \<times> sql_value \<Rightarrow> bool" where
  "ref_matches refs' cv \<longleftrightarrow>
     (case map_of refs' (fst cv) of
        None \<Rightarrow> snd cv = VNull
      | Some v \<Rightarrow> v = snd cv)"

definition schedule_matches ::
  "pg \<Rightarrow> string \<Rightarrow> string \<Rightarrow> bytes \<Rightarrow> string list \<Rightarrow> sql_value list \<Rightarrow> schedule_row \<Rightarrow> bool" where
  "schedule_matches p q k spec' refColumns refValues r \<longleftrightarrow>
     ci_eq p (task_queue r) q \<and> ci_eq p (task_type r) k \<and> task_spec r = spec' \<and>
     list_all (ref_matches (sched_refs r)) (zip refColumns refValues)"

text \<open>The query of \<open>EnsureSchedule\<close>: the error of the scan, with \<open>ErrNoRows\<close> for no row.\<close>

definition query_schedule ::
  "pg \<Rightarrow> error option \<Rightarrow> task_schedule_request \<Rightarrow> db \<Rightarrow> error option" where
  "query_schedule p qerr t d =
     (case qerr of Some x \<Rightarrow> Some x
      | None \<Rightarrow>
        (case Spec t of
           None \<Rightarrow> (case nil_bytes p of Some x \<Rightarrow> Some x | None \<Rightarrow> Some (Std_err ErrNoRows))
         | Some b \<Rightarrow>
           (case jsonb p b of
              None \<Rightarrow> Some pg_invalid_json
            | Some spec' \<Rightarrow>
              (let (refColumns, refValues) = GetNamesAndValues (ScheduleReferences t)
               in if list_ex (schedule_matches p (Queue t) (Type t) spec' refColumns refValues) (schedules d)
                  then None else Some (Std_err ErrNoRows)))))"

definition EnsureSchedule :: "pg \<Rightarrow> error option \<Rightarrow> task_schedule_request \<Rightarrow> db \<Rightarrow> error option" where
  "EnsureSchedule p qerr t d =
     (if Queue t = [] then Some (Queue_err ErrTaskQueueNotSpecified)
      else if Type t = [] then Some (Queue_err ErrTaskTypeNotSpecified)
      else case query_schedule p qerr t d of
        None \<Rightarrow> None
      | Some err \<Rightarrow>
        if err \<noteq> Std_err ErrNoRows then Some err else Some (Scheduler_err ErrNotScheduled))"

record assert_env =
  as_tx :: tx_env
  lock_err :: "error option"
  ensure_err :: "error option"
  as_schedule :: schedule_env

text \<open>The deferred function of \<open>AssertSchedule\<close> drops the error of a rollback.\<close>

fun end_tx_quiet :: "tx_env \<Rightarrow> 'd \<Rightarrow> 'd \<times> error option \<Rightarrow> 'd \<times> error option" where
  "end_tx_quiet t base (work, Some e) = (base, Some e)"
| "end_tx_quiet t base (work, None) =
     (case commit_err t of None \<Rightarrow> (work, None) | Some e \<Rightarrow> (base, Some e))"

definition AssertSchedule ::
  "pg \<Rightarrow> cron \<Rightarrow> assert_env \<Rightarrow> task_schedule_request \<Rightarrow> db \<Rightarrow> db \<times> error option" where
  "AssertSchedule p c e t d =
     (case begin_err (as_tx e) of Some x \<Rightarrow> (d, Some x)
      | None \<Rightarrow>
        end_tx_quiet (as_tx e) d
          (case lock_err e of Some x \<Rightarrow> (d, Some (Wrap ''failed to lock `schedules`: '' x))
           | None \<Rightarrow>
             (case EnsureSchedule p (ensure_err e) t d of
                None \<Rightarrow> (d, None)
              | Some err \<Rightarrow>
                if err = Scheduler_err ErrNotScheduled then Schedule p c (as_schedule e) t d
                else (d, Some err))))"

subsection \<open>Inserting a schedule\<close>

text \<open>The row that a successful \<open>Schedule\<close> appends.\<close>

definition scheduled_row :: "pg \<Rightarrow> schedule_env \<Rightarrow> task_schedule_request \<Rightarrow> schedule_row" where
  "scheduled_row p e t =
     \<lparr>schedule_id = new_schedule_id e, task_queue = Queue t, task_type = Type t,
      task_spec = the (jsonb p (case Spec t of None \<Rightarrow> emptyJSON | Some b \<Rightarrow> b)),
      cron_schedule = CronSchedule t, next_execution_time = Some (sched_clock e),
      sched_created_at = sched_insert_now e, sched_updated_at = sched_insert_now e,
      sched_refs = (case ScheduleReferences t of None \<Rightarrow> [] | Some kvs \<Rightarrow> kvs)\<rparr>"

lemma insert_schedule_err: "insert_schedule p e q k b cr cs vs d = (d', Some x) \<Longrightarrow> d' = d"
  by (auto simp: insert_schedule_def Let_def split: option.splits if_splits)

lemma insert_schedule_ok:
  assumes "insert_schedule p e q k b cr cs vs d = (d', None)"
  shows "\<exists>c. jsonb p b = Some c \<and> distinct (cs @ schedule_insert_columns) \<and>
     new_schedule_id e \<notin> schedule_id ` set (schedules d) \<and>
     d' = d\<lparr>schedules := schedules d @
       [\<lparr>schedule_id = new_schedule_id e, task_queue = q, task_type = k, task_spec = c,
         cron_schedule = cr, next_execution_time = Some (sched_clock e),
         sched_created_at = sched_insert_now e, sched_updated_at = sched_insert_now e,
         sched_refs = zip cs vs\<rparr>]\<rparr>"
  using assms by (simp add: insert_schedule_def Let_def split: option.splits if_splits)

lemma Schedule_unfold:
  "Schedule p c e t d =
     (if Queue t = [] then (d, Some (Queue_err ErrTaskQueueNotSpecified))
      else if Type t = [] then (d, Some (Queue_err ErrTaskTypeNotSpecified))
      else case (if CronSchedule t \<noteq> [] then CronTab c (CronSchedule t) else None) of
        Some x \<Rightarrow> (d, Some x)
      | None \<Rightarrow> insert_schedule p e (Queue t) (Type t) (case Spec t of None \<Rightarrow> emptyJSON | Some b \<Rightarrow> b)
          (CronSchedule t) (fst (GetNamesAndValues (ScheduleReferences t)))
          (snd (GetNamesAndValues (ScheduleReferences t))) d)"
  by (cases "Spec t"; cases "ScheduleReferences t") (simp_all add: Schedule_def Let_def split: option.splits)

lemma Schedule_err: "Schedule p c e t d = (d', Some x) \<Longrightarrow> d' = d"
  by (auto simp: Schedule_unfold split: option.splits if_splits dest: insert_schedule_err)

lemma Schedule_ok:
  assumes "Schedule p c e t d = (d', None)"
  shows "d' = d\<lparr>schedules := schedules d @ [scheduled_row p e t]\<rparr>"
    and "Queue t \<noteq> []" "Type t \<noteq> []"
    and "CronSchedule t \<noteq> [] \<longrightarrow> cron_parse_err c (CronSchedule t) = None"
    and "jsonb p (case Spec t of None \<Rightarrow> emptyJSON | Some b \<Rightarrow> b) \<noteq> None"
    and "new_schedule_id e \<notin> schedule_id ` set (schedules d)"
    and "distinct (map fst (case ScheduleReferences t of None \<Rightarrow> [] | Some kvs \<Rightarrow> kvs))"
proof -
  have ins: "insert_schedule p e (Queue t) (Type t) (case Spec t of None \<Rightarrow> emptyJSON | Some b \<Rightarrow> b)
          (CronSchedule t) (fst (GetNamesAndValues (ScheduleReferences t)))
          (snd (GetNamesAndValues (ScheduleReferences t))) d = (d', None)"
    and ne: "Queue t \<noteq> []" "Type t \<noteq> []"
    and cr: "CronSchedule t \<noteq> [] \<longrightarrow> cron_parse_err c (CronSchedule t) = None"
    using assms by (auto simp: Schedule_unfold CronTab_def split: if_splits option.splits)
  show "Queue t \<noteq> []" "Type t \<noteq> []" "CronSchedule t \<noteq> [] \<longrightarrow> cron_parse_err c (CronSchedule t) = None"
    by (fact ne cr)+
  from insert_schedule_ok [OF ins]
  show "d' = d\<lparr>schedules := schedules d @ [scheduled_row p e t]\<rparr>"
    "jsonb p (case Spec t of None \<Rightarrow> emptyJSON | Some b \<Rightarrow> b) \<noteq> None"
    "new_schedule_id e \<notin> schedule_id ` set (schedules d)"
    "distinct (map fst (case ScheduleReferences t of None \<Rightarrow> [] | Some kvs \<Rightarrow> kvs))"
    by (cases "ScheduleReferences t"; auto simp: scheduled_row_def zip_map_fst_snd)+
qed

subsection \<open>Finding a schedule\<close>

lemma ref_matches_self: "distinct (map fst kvs) \<Longrightarrow> list_all (ref_matches kvs) kvs"
  by (auto simp: list_all_iff ref_matches_def)

lemma EnsureSchedule_found:
  assumes "Queue t \<noteq> []" "Type t \<noteq> []" and "Spec t = Some b" "jsonb p b = Some c"
    and "r \<in> set (schedules d)"
    and "schedule_matches p (Queue t) (Type t) c (fst (GetNamesAndValues (ScheduleReferences t)))
       (snd (GetNamesAndValues (ScheduleReferences t))) r"
  shows "EnsureSchedule p None t d = None"
  using assms by (auto simp: EnsureSchedule_def query_schedule_def list_ex_iff split: prod.splits)

lemma scheduled_row_found:
  assumes "Schedule p c e t d = (d', None)" and "Spec t = Some b"
  shows "EnsureSchedule p None t d' = None"
proof -
  note ok = Schedule_ok [OF assms(1)]
  from ok(5) assms(2) obtain c' where c: "jsonb p b = Some c'" by auto
  have "list_all (ref_matches (case ScheduleReferences t of None \<Rightarrow> [] | Some kvs \<Rightarrow> kvs))
      (case ScheduleReferences t of None \<Rightarrow> [] | Some kvs \<Rightarrow> kvs)"
    using ok(7) by (rule ref_matches_self)
  then have "schedule_matches p (Queue t) (Type t) c' (fst (GetNamesAndValues (ScheduleReferences t)))
       (snd (GetNamesAndValues (ScheduleReferences t))) (scheduled_row p e t)"
    using assms(2) c
    by (cases "ScheduleReferences t") (simp_all add: schedule_matches_def scheduled_row_def zip_map_fst_snd)
  moreover have "scheduled_row p e t \<in> set (schedules d')" using ok(1) by simp
  ultimately show ?thesis using ok(2,3) assms(2) c by (intro EnsureSchedule_found)
qed

lemma EnsureSchedule_env: "EnsureSchedule p qerr t d = None \<Longrightarrow> EnsureSchedule p None t d = None"
  by (auto simp: EnsureSchedule_def query_schedule_def split: option.splits if_splits)

lemma EnsureSchedule_nil: "Spec t = None \<Longrightarrow> EnsureSchedule p qerr t d \<noteq> None"
  by (auto simp: EnsureSchedule_def query_schedule_def split: option.splits if_splits)

subsection \<open>Asserting a schedule\<close>

lemma end_tx_quiet_None:
  "end_tx_quiet t base (work, err) = (d, None) \<longleftrightarrow> err = None \<and> commit_err t = None \<and> d = work"
  by (cases err) (auto split: option.splits)

lemma AssertSchedule_ok:
  assumes "AssertSchedule p c e t d = (d', None)"
  obtains (existed) "EnsureSchedule p (ensure_err e) t d = None" "d' = d"
    | (created) "EnsureSchedule p (ensure_err e) t d = Some (Scheduler_err ErrNotScheduled)"
        "Schedule p c (as_schedule e) t d = (d', None)"
proof (cases "EnsureSchedule p (ensure_err e) t d")
  case None
  with assms existed show ?thesis
    by (auto simp: AssertSchedule_def end_tx_quiet_None split: option.splits)
next
  case (Some x)
  obtain w err where w: "Schedule p c (as_schedule e) t d = (w, err)" by (metis surj_pair)
  with assms Some created show ?thesis
    by (auto simp: AssertSchedule_def end_tx_quiet_None split: option.splits if_splits)
qed

definition sample_cron :: cron where
  "sample_cron = \<lparr>cron_parse_err = (\<lambda>s. if s = [] then Some (Ext ''empty spec'') else None),
     cron_next = (\<lambda>s t. if s = ''0 0 31 2 *'' then zero_time else t + 60)\<rparr>"

lemma sample_cron_ok [simp]: "cron_ok sample_cron"
  by (simp add: cron_ok_def sample_cron_def)

definition ex_sched :: "string \<Rightarrow> time \<Rightarrow> schedule_env" where
  "ex_sched i n = \<lparr>new_schedule_id = i, sched_clock = n, sched_insert_now = n, sched_insert_err = None\<rparr>"

definition ex_assert :: "string \<Rightarrow> time \<Rightarrow> assert_env" where
  "ex_assert i n = \<lparr>as_tx = tx_ok, lock_err = None, ensure_err = None, as_schedule = ex_sched i n\<rparr>"

definition ex_schedule_req :: "bytes option \<Rightarrow> string \<Rightarrow> task_schedule_request" where
  "ex_schedule_req b cr = \<lparr>Queue = ''q'', Type = ''mail'', Spec = b, CronSchedule = cr,
     ScheduleReferences = Some [(''owner'', VText ''x''), (''team'', VNull)]\<rparr>"

definition no_rows_db :: db where
  "no_rows_db = \<lparr>tasks = [], schedules = []\<rparr>"



text \<open>
  For a request without a specification \<open>AssertSchedule\<close> never finds the schedule that it
  made before, because it stores an empty object and looks for a nil value: every call that
  returns without error adds one more schedule.
\<close>

theorem AssertSchedule_nil_spec_duplicates:
  assumes "Spec t = None" and "AssertSchedule p c e t d = (d', None)"
  shows "schedules d' = schedules d @ [scheduled_row p (as_schedule e) t]"
  using assms(2)
proof (cases rule: AssertSchedule_ok)
  case existed
  with EnsureSchedule_nil [OF assms(1)] show ?thesis by blast
next
  case created
  from Schedule_ok(1) [OF created(2)] show ?thesis by simp
qed

theorem AssertSchedule_nil_spec_duplicates_witness:
  "let t = ex_schedule_req None ''* * * * *'';
       d1 = fst (AssertSchedule sample_pg sample_cron (ex_assert ''s1'' 5) t no_rows_db);
       d2 = fst (AssertSchedule sample_pg sample_cron (ex_assert ''s2'' 9) t d1) in
   schedules d2 = schedules d1 @ [scheduled_row sample_pg (ex_sched ''s2'' 9) t] \<and> length (schedules d2) = 2"
proof -
  let ?t = "ex_schedule_req None ''* * * * *''"
  let ?d1 = "fst (AssertSchedule sample_pg sample_cron (ex_assert ''s1'' 5) ?t no_rows_db)"
  let ?a = "AssertSchedule sample_pg sample_cron (ex_assert ''s2'' 9) ?t ?d1"
  have a: "?a = (fst ?a, None)" "length (schedules (fst ?a)) = 2" by code_simp+
  have "Spec ?t = None" "as_schedule (ex_assert ''s2'' 9) = ex_sched ''s2'' 9"
    by (simp_all add: ex_schedule_req_def ex_assert_def)
  from AssertSchedule_nil_spec_duplicates [OF this(1) a(1)] this(2) a(2) show ?thesis
    by (simp only: Let_def)
qed

end
