(* ===== verification/Queuer.thy ===== *)
theory Queuer
  imports Pg_Store
begin

section \<open>The queuer\<close>

text \<open>
  \<open>pkg/queue/postgres/queuer.go\<close>: \<open>Enqueue\<close> checks the request and inserts one row into
  \<open>tasks\<close>. The environment holds the identifier that \<open>uuid.NewV4\<close> returned, the clock of the
  database (the default of \<open>created_at\<close> and \<open>updated_at\<close>) and the error of the statement, if it
  fails for a reason other than the ones the model knows.
\<close>

record enqueue_env =
  new_task_id :: string
  insert_now :: time
  insert_err :: "error option"

definition task_insert_columns :: "string list" where
  "task_insert_columns = [''task_id'', ''queue'', ''type'', ''spec'', ''status'', ''progress'']"

text \<open>
  The statement: a column may be named once only, the key must be new, and the text of the
  specification must be JSON. The references are values of reference columns, the ones that
  \<open>SetupTables\<close> adds to the table, as they are documented. The code does not check this: a request
  whose references name \<open>started_at\<close> or another system column outside of the list would set this
  column, which is not modelled.
\<close>

definition insert_task ::
  "pg \<Rightarrow> enqueue_env \<Rightarrow> string \<Rightarrow> string \<Rightarrow> bytes \<Rightarrow> string list \<Rightarrow> sql_value list \<Rightarrow> db \<Rightarrow> db \<times> error option"
where
  "insert_task p e q k b refColumns refValues d =
     (case insert_err e of Some x \<Rightarrow> (d, Some x)
      | None \<Rightarrow>
        if \<not> distinct (refColumns @ task_insert_columns) then (d, Some pg_duplicate_column)
        else if new_task_id e \<in> task_id ` set (tasks d) then (d, Some pg_duplicate_key)
        else (case (jsonb p b, jsonb p emptyJSON) of
          (Some spec', Some progress') \<Rightarrow>
            (d\<lparr>tasks := tasks d @
               [\<lparr>task_id = new_task_id e, queue = q, task_kind = k, spec = spec',
                 status = Waiting, progress = progress',
                 created_at = insert_now e, updated_at = insert_now e,
                 started_at = None, finished_at = None, last_heartbeat_at = None,
                 refs = zip refColumns refValues\<rparr>]\<rparr>, None)
        | _ \<Rightarrow> (d, Some pg_invalid_json)))"

definition Enqueue :: "pg \<Rightarrow> enqueue_env \<Rightarrow> task_enqueue_request \<Rightarrow> db \<Rightarrow> db \<times> error option" where
  "Enqueue p e t d =
     (if Queue t = [] then (d, Some (Queue_err ErrTaskQueueNotSpecified))
      else if Type t = [] then (d, Some (Queue_err ErrTaskTypeNotSpecified))
      else
        let t = (if Spec t = None then t\<lparr>Spec := Some emptyJSON\<rparr> else t);
            (refColumns, refValues) = GetNamesAndValues (References t)
        in insert_task p e (Queue t) (Type t) (the (Spec t)) refColumns refValues d)"

text \<open>The row that a successful \<open>Enqueue\<close> appends.\<close>

definition enqueued_row :: "pg \<Rightarrow> enqueue_env \<Rightarrow> task_enqueue_request \<Rightarrow> task_row" where
  "enqueued_row p e t =
     \<lparr>task_id = new_task_id e, queue = Queue t, task_kind = Type t,
      spec = the (jsonb p (case Spec t of None \<Rightarrow> emptyJSON | Some b \<Rightarrow> b)),
      status = Waiting, progress = the (jsonb p emptyJSON),
      created_at = insert_now e, updated_at = insert_now e,
      started_at = None, finished_at = None, last_heartbeat_at = None,
      refs = (case References t of None \<Rightarrow> [] | Some kvs \<Rightarrow> kvs)\<rparr>"

lemma enqueued_row_simps [simp, row_simps]:
  "task_id (enqueued_row p e t) = new_task_id e" "queue (enqueued_row p e t) = Queue t"
  "task_kind (enqueued_row p e t) = Type t" "status (enqueued_row p e t) = Waiting"
  "created_at (enqueued_row p e t) = insert_now e" "started_at (enqueued_row p e t) = None"
  "finished_at (enqueued_row p e t) = None" "last_heartbeat_at (enqueued_row p e t) = None"
  by (simp_all add: enqueued_row_def)

lemma insert_task_cases:
  assumes "insert_task p e q k b cs vs d = (d', err)"
  obtains (refused) x where "err = Some x" "d' = d"
    | (inserted) spec' progress' where "err = None" "jsonb p b = Some spec'"
        "jsonb p emptyJSON = Some progress'" "new_task_id e \<notin> task_id ` set (tasks d)"
        "insert_err e = None" "distinct (cs @ task_insert_columns)"
        "d' = d\<lparr>tasks := tasks d @
           [\<lparr>task_id = new_task_id e, queue = q, task_kind = k, spec = spec',
             status = Waiting, progress = progress',
             created_at = insert_now e, updated_at = insert_now e,
             started_at = None, finished_at = None, last_heartbeat_at = None,
             refs = zip cs vs\<rparr>]\<rparr>"
proof (cases err)
  case (Some x)
  with assms have "d' = d" by (simp add: insert_task_def split: option.splits if_splits)
  with Some refused show ?thesis by blast
next
  case None
  with assms have "insert_err e = None" "distinct (cs @ task_insert_columns)"
    "new_task_id e \<notin> task_id ` set (tasks d)"
    by (simp_all add: insert_task_def split: option.splits if_splits)
  moreover from None assms calculation obtain spec' progress'
    where "jsonb p b = Some spec'" "jsonb p emptyJSON = Some progress'"
    by (auto simp: insert_task_def split: option.splits)
  ultimately show ?thesis using None assms
    by (intro inserted [of spec' progress']) (simp_all add: insert_task_def)
qed

lemma insert_task_err: "insert_task p e q k b cs vs d = (d', Some x) \<Longrightarrow> d' = d"
  by (erule insert_task_cases) simp_all

lemma Enqueue_unfold:
  "Enqueue p e t d =
     (if Queue t = [] then (d, Some (Queue_err ErrTaskQueueNotSpecified))
      else if Type t = [] then (d, Some (Queue_err ErrTaskTypeNotSpecified))
      else insert_task p e (Queue t) (Type t) (case Spec t of None \<Rightarrow> emptyJSON | Some b \<Rightarrow> b)
        (fst (GetNamesAndValues (References t))) (snd (GetNamesAndValues (References t))) d)"
  by (cases "Spec t"; cases "References t") (simp_all add: Enqueue_def)

lemma Enqueue_err_unchanged: "Enqueue p e t d = (d', Some x) \<Longrightarrow> d' = d"
  by (auto simp: Enqueue_unfold split: if_splits dest: insert_task_err)

lemma Enqueue_ok:
  assumes "Enqueue p e t d = (d', None)"
  shows "d' = d\<lparr>tasks := tasks d @ [enqueued_row p e t]\<rparr>"
    and "Queue t \<noteq> []" and "Type t \<noteq> []"
    and "new_task_id e \<notin> task_id ` set (tasks d)"
proof -
  have ins: "insert_task p e (Queue t) (Type t) (case Spec t of None \<Rightarrow> emptyJSON | Some b \<Rightarrow> b)
      (fst (GetNamesAndValues (References t))) (snd (GetNamesAndValues (References t))) d = (d', None)"
    and ne: "Queue t \<noteq> []" "Type t \<noteq> []"
    using assms by (auto simp: Enqueue_unfold split: if_splits)
  show "d' = d\<lparr>tasks := tasks d @ [enqueued_row p e t]\<rparr>"
    using ins by (cases rule: insert_task_cases; cases "References t")
      (simp_all add: enqueued_row_def zip_map_fst_snd)
  show "Queue t \<noteq> []" "Type t \<noteq> []" by (fact ne)+
  show "new_task_id e \<notin> task_id ` set (tasks d)"
    using ins by (cases rule: insert_task_cases) auto
qed

lemma Enqueue_schedules: "schedules (fst (Enqueue p e t d)) = schedules d"
proof (cases "Enqueue p e t d")
  case (Pair d' err)
  then show ?thesis
    by (cases err) (auto dest: Enqueue_err_unchanged Enqueue_ok)
qed

text \<open>Nothing but the conditions of the statement makes a well-formed request fail.\<close>

lemma Enqueue_succeeds:
  assumes "pg_ok p" and "insert_err e = None" and "Queue t \<noteq> []" and "Type t \<noteq> []"
    and "new_task_id e \<notin> task_id ` set (tasks d)"
    and "jsonb p (case Spec t of None \<Rightarrow> emptyJSON | Some b \<Rightarrow> b) \<noteq> None"
    and "distinct (fst (GetNamesAndValues (References t)) @ task_insert_columns)"
  shows "Enqueue p e t d = (d\<lparr>tasks := tasks d @ [enqueued_row p e t]\<rparr>, None)"
proof -
  from assms(6) obtain c where
    c: "jsonb p (case Spec t of None \<Rightarrow> emptyJSON | Some b \<Rightarrow> b) = Some c" by blast
  with assms pg_okD(1) [OF assms(1)] show ?thesis
    by (cases "References t") (simp_all add: Enqueue_unfold insert_task_def enqueued_row_def zip_map_fst_snd)
qed

end
