(* ===== verification/Schedule_Worker.thy ===== *)
theory Schedule_Worker
  imports Scheduler Queuer "HOL-Library.Multiset"
begin

section \<open>The schedule worker\<close>

text \<open>
  \<open>pkg/queue/workers/schedule_worker.go\<close>. \<open>scheduleTask\<close> locks one due schedule in a
  transaction, enqueues its task through the interface \<open>Queuer\<close>, which works on a connection
  of its own, and then moves the schedule to its next execution time. So the model keeps two
  databases apart until the end: the one that everybody sees, which already holds the new
  task, and the one of the transaction. \<open>sw_locked\<close> are the schedules that other workers hold
  locked and the statement skips. Metrics, traces and logs are left out.
\<close>

type_synonym queuer = "enqueue_env \<Rightarrow> task_enqueue_request \<Rightarrow> db \<Rightarrow> db \<times> error option"

record schedule_worker_env =
  sw_tx :: tx_env
  sw_now :: time
  sw_locked :: "string list"
  sw_select_err :: "error option"
  sw_enqueue :: enqueue_env
  sw_next_now :: time
  sw_update_err :: "error option"
  sw_affected_err :: "error option"

definition due :: "time \<Rightarrow> schedule_row \<Rightarrow> bool" where
  "due now r \<longleftrightarrow> (case next_execution_time r of None \<Rightarrow> False | Some t \<Rightarrow> t \<le> now)"

definition select_schedule :: "schedule_worker_env \<Rightarrow> db \<Rightarrow> schedule_row option" where
  "select_schedule e d = first_min (\<lambda>r. the (next_execution_time r))
     (filter (\<lambda>r. due (sw_now e) r \<and> schedule_id r \<notin> set (sw_locked e)) (schedules d))"

definition schedule_request :: "schedule_row \<Rightarrow> task_enqueue_request" where
  "schedule_request r = \<lparr>Queue = task_queue r, Type = task_type r, Spec = Some (task_spec r),
     References = Some [(''schedule_id'', VText (schedule_id r))]\<rparr>"

text \<open>The next execution time: none for a schedule without a cron expression.\<close>

definition nextExecution :: "cron \<Rightarrow> time \<Rightarrow> string \<Rightarrow> error + time option" where
  "nextExecution c now cronSchedule =
     (if cronSchedule \<noteq> [] then
        (case cron_parse_err c cronSchedule of
           Some x \<Rightarrow> Inl x
         | None \<Rightarrow> Inr (Some (cron_next c cronSchedule now)))
      else Inr None)"

definition set_next :: "string \<Rightarrow> time option \<Rightarrow> db \<Rightarrow> db" where
  "set_next i nxt d =
     d\<lparr>schedules := update_where (\<lambda>r. schedule_id r = i) (\<lambda>r. r\<lparr>next_execution_time := nxt\<rparr>) (schedules d)\<rparr>"

text \<open>The public database, the one of the transaction and the error before the transaction ends.\<close>

definition schedule_body ::
  "queuer \<Rightarrow> cron \<Rightarrow> schedule_worker_env \<Rightarrow> db \<Rightarrow> db \<times> db \<times> error option" where
  "schedule_body enqueue c e d =
     (case sw_select_err e of Some x \<Rightarrow> (d, d, Some x)
      | None \<Rightarrow>
        (case select_schedule e d of
           None \<Rightarrow> (d, d, Some (Schedule_worker_err ErrScheduleQueueIsEmpty))
         | Some r \<Rightarrow>
           (let (d1, err) = enqueue (sw_enqueue e) (schedule_request r) d
            in case err of Some x \<Rightarrow> (d1, d1, Some x)
            | None \<Rightarrow>
              (case nextExecution c (sw_next_now e) (cron_schedule r) of
                 Inl x \<Rightarrow> (d1, d1, Some x)
               | Inr nxt \<Rightarrow>
                 (case sw_update_err e of Some x \<Rightarrow> (d1, d1, Some x)
                  | None \<Rightarrow> (d1, set_next (schedule_id r) nxt d1, sw_affected_err e))))))"

text \<open>
  The error of \<open>BeginTx\<close> is not looked at: the first statement then runs on a nil transaction
  and panics.
\<close>

definition scheduleTask ::
  "queuer \<Rightarrow> cron \<Rightarrow> schedule_worker_env \<Rightarrow> db \<Rightarrow> (db \<times> error option) outcome" where
  "scheduleTask enqueue c e d =
     (if begin_err (sw_tx e) \<noteq> None then Panic
      else let (base, work, err) = schedule_body enqueue c e d
        in Ret (end_tx (sw_tx e) base (work, err)))"

text \<open>
  The rounds of an iteration: the error of the context before the round and the environment
  of the round. The result is \<open>None\<close> when the iteration needs more rounds than there are.
\<close>

fun sched_iteration ::
  "queuer \<Rightarrow> cron \<Rightarrow> (error option \<times> schedule_worker_env) list \<Rightarrow> db \<Rightarrow> (db \<times> error option) outcome option"
where
  "sched_iteration enqueue c [] d = None"
| "sched_iteration enqueue c ((ctx_err, e) # rounds) d =
     (case ctx_err of Some x \<Rightarrow> Some (Ret (d, Some x))
      | None \<Rightarrow>
        (case scheduleTask enqueue c e d of
           Panic \<Rightarrow> Some Panic
         | Ret (d', err) \<Rightarrow>
           if err = Some (Schedule_worker_err ErrScheduleQueueIsEmpty) then Some (Ret (d', None))
           else if err \<noteq> None then Some (Ret (d', err))
           else sched_iteration enqueue c rounds d'))"

datatype sched_event = SDone error | STick "(error option \<times> schedule_worker_env) list"

fun sched_loop :: "queuer \<Rightarrow> cron \<Rightarrow> sched_event list \<Rightarrow> db \<Rightarrow> (db \<times> error option) outcome option" where
  "sched_loop enqueue c [] d = None"
| "sched_loop enqueue c (SDone x # evs) d = Some (Ret (d, Some x))"
| "sched_loop enqueue c (STick rounds # evs) d =
     (case sched_iteration enqueue c rounds d of
        None \<Rightarrow> None
      | Some Panic \<Rightarrow> Some Panic
      | Some (Ret (d', _)) \<Rightarrow> sched_loop enqueue c evs d')"

text \<open>\<open>time.NewTicker\<close> panics on an interval that is not positive.\<close>

definition sched_Work ::
  "queuer \<Rightarrow> cron \<Rightarrow> duration \<Rightarrow> (error option \<times> schedule_worker_env) list \<Rightarrow> sched_event list \<Rightarrow> db
    \<Rightarrow> (db \<times> error option) outcome option" where
  "sched_Work enqueue c interval rounds evs d =
     (if interval \<le> 0 then Some Panic else sched_loop enqueue c (STick rounds # evs) d)"

subsection \<open>What the worker needs of a queuer\<close>

text \<open>
  The contract of the interface \<open>Queuer\<close>: a failing call changes nothing, and a successful one
  appends one task, which carries the queue and the references of the request.
\<close>

locale queuer_contract =
  fixes enq :: queuer
    and new_task :: "enqueue_env \<Rightarrow> task_enqueue_request \<Rightarrow> task_row"
  assumes enq_err: "enq e t d = (d', Some x) \<Longrightarrow> d' = d"
    and enq_ok: "enq e t d = (d', None) \<Longrightarrow> d' = d\<lparr>tasks := tasks d @ [new_task e t]\<rparr>"
    and new_task_refs: "References t = Some kvs \<Longrightarrow> refs (new_task e t) = kvs"
begin

lemma schedule_body_cases:
  assumes "schedule_body enq c e d = (base, work, err)"
  obtains (idle) "base = d" "err \<noteq> None"
    | (stuck) r where "select_schedule e d = Some r" "err \<noteq> None"
        "base = d\<lparr>tasks := tasks d @ [new_task (sw_enqueue e) (schedule_request r)]\<rparr>"
    | (moved) r nxt where "select_schedule e d = Some r" "err = None"
        "nextExecution c (sw_next_now e) (cron_schedule r) = Inr nxt"
        "base = d\<lparr>tasks := tasks d @ [new_task (sw_enqueue e) (schedule_request r)]\<rparr>"
        "work = set_next (schedule_id r) nxt base"
proof (cases "sw_select_err e = None \<and> select_schedule e d \<noteq> None")
  case False
  then consider "select_schedule e d = None" "sw_select_err e = None" | x where "sw_select_err e = Some x"
    by (metis not_None_eq)
  then have "base = d \<and> err \<noteq> None"
  proof cases
    case 1
    with assms show ?thesis by (simp add: schedule_body_def) blast
  next
    case 2
    with assms show ?thesis by (simp add: schedule_body_def) blast
  qed
  with idle show thesis by blast
next
  case True
  then obtain r where r: "select_schedule e d = Some r" by blast
  obtain d1 err1 where d1: "enq (sw_enqueue e) (schedule_request r) d = (d1, err1)" by (metis surj_pair)
  show thesis
  proof (cases err1)
    case (Some x)
    with d1 enq_err have "d1 = d" by blast
    with assms True r d1 Some show ?thesis by (intro idle) (auto simp: schedule_body_def)
  next
    case None
    with d1 have d1': "d1 = d\<lparr>tasks := tasks d @ [new_task (sw_enqueue e) (schedule_request r)]\<rparr>"
      by (blast dest: enq_ok)
    show ?thesis
    proof (cases err)
      case (Some x)
      with assms True r d1 None d1' show ?thesis
        by (intro stuck [of r]) (auto simp: schedule_body_def split: option.splits sum.splits)
    next
      case err: None
      with assms True r d1 None d1' moved [of r] show ?thesis
        by (auto simp: schedule_body_def split: option.splits sum.splits)
    qed
  qed
qed

text \<open>Whatever happens, a round adds at most one task, and it is the task of a due schedule.\<close>

lemma scheduleTask_tasks:
  assumes "scheduleTask enq c e d = Ret (d', err)"
  shows "d' = d \<and> err \<noteq> None \<or>
    (\<exists>r. select_schedule e d = Some r \<and>
      tasks d' = tasks d @ [new_task (sw_enqueue e) (schedule_request r)] \<and>
      (if err = None then \<exists>nxt. nextExecution c (sw_next_now e) (cron_schedule r) = Inr nxt \<and>
          schedules d' = schedules (set_next (schedule_id r) nxt d)
       else schedules d' = schedules d))"
proof -
  obtain base work err' where b: "schedule_body enq c e d = (base, work, err')" by (metis prod.collapse)
  with assms have fin: "end_tx (sw_tx e) base (work, err') = (d', err)"
    by (auto simp: scheduleTask_def split: if_splits)
  from b show ?thesis
  proof (cases rule: schedule_body_cases)
    case idle
    from fin show ?thesis by (cases rule: end_tx_cases; insert idle; auto)
  next
    case (stuck r)
    from fin show ?thesis by (cases rule: end_tx_cases; insert stuck; auto)
  next
    case (moved r nxt)
    from fin show ?thesis by (cases rule: end_tx_cases; insert moved; auto simp: set_next_def)
  qed
qed

end

interpretation pgq: queuer_contract "Enqueue p" "enqueued_row p" for p
proof
  show "d' = d" if "Enqueue p e t d = (d', Some x)" for e t d d' x
    using that by (rule Enqueue_err_unchanged)
  show "d' = d\<lparr>tasks := tasks d @ [enqueued_row p e t]\<rparr>" if "Enqueue p e t d = (d', None)" for e t d d'
    using that by (rule Enqueue_ok)
  show "refs (enqueued_row p e t) = kvs" if "References t = Some kvs" for e t kvs
    using that by (simp add: enqueued_row_def)
qed

lemma select_schedule_Some:
  assumes "select_schedule e d = Some r"
  shows "r \<in> set (schedules d)" "due (sw_now e) r" "schedule_id r \<notin> set (sw_locked e)"
    "\<And>r'. r' \<in> set (schedules d) \<Longrightarrow> due (sw_now e) r' \<Longrightarrow> schedule_id r' \<notin> set (sw_locked e) \<Longrightarrow>
       the (next_execution_time r) \<le> the (next_execution_time r')"
  using first_min_Some [OF assms [unfolded select_schedule_def]] by auto

lemma select_schedule_None:
  "select_schedule e d = None \<longleftrightarrow>
     (\<forall>r \<in> set (schedules d). due (sw_now e) r \<longrightarrow> schedule_id r \<in> set (sw_locked e))"
  by (auto simp: select_schedule_def filter_empty_conv)

subsection \<open>One round\<close>

text \<open>
  A round of the schedule worker that succeeds picks a due schedule that no other worker
  holds, one with the earliest execution time; it enqueues exactly one task, with the queue,
  type and specification of the schedule and a reference to it, and moves exactly this schedule
  to its next execution time, or to none when it has no cron expression.
\<close>

theorem scheduleTask_success:
  assumes "scheduleTask (Enqueue p) c e d = Ret (d', None)"
  shows "\<exists>r nxt. r \<in> set (schedules d) \<and> due (sw_now e) r \<and> schedule_id r \<notin> set (sw_locked e) \<and>
     (\<forall>r' \<in> set (schedules d). due (sw_now e) r' \<and> schedule_id r' \<notin> set (sw_locked e) \<longrightarrow>
        the (next_execution_time r) \<le> the (next_execution_time r')) \<and>
     tasks d' = tasks d @ [enqueued_row p (sw_enqueue e) (schedule_request r)] \<and>
     (if cron_schedule r = [] then nxt = None else nxt = Some (cron_next c (cron_schedule r) (sw_next_now e))) \<and>
     schedules d' = map (\<lambda>s. if schedule_id s = schedule_id r then s\<lparr>next_execution_time := nxt\<rparr> else s) (schedules d)"
proof -
  from pgq.scheduleTask_tasks [OF assms] obtain r nxt where r: "select_schedule e d = Some r"
    "tasks d' = tasks d @ [enqueued_row p (sw_enqueue e) (schedule_request r)]"
    "nextExecution c (sw_next_now e) (cron_schedule r) = Inr nxt"
    "schedules d' = schedules (set_next (schedule_id r) nxt d)"
    by auto
  from r(3) have "if cron_schedule r = [] then nxt = None else nxt = Some (cron_next c (cron_schedule r) (sw_next_now e))"
    by (auto simp: nextExecution_def split: if_splits option.splits)
  with r(2,4) select_schedule_Some [OF r(1)] show ?thesis
    by (intro exI [of _ r] exI [of _ nxt]) (simp add: set_next_def update_where_def)
qed

text \<open>
  C18: A schedule is never skipped: a round that fails, at whatever point, leaves all schedules
  as they were, so a due one is due again in the next round; but the task may already be in
  the queue by then, so a schedule can be executed more than once.
\<close>

theorem scheduleTask_at_least_once:
  assumes "scheduleTask (Enqueue p) c e d = Ret (d', Some x)"
  shows "schedules d' = schedules d \<and>
     (tasks d' = tasks d \<or>
      (\<exists>r \<in> set (schedules d). due (sw_now e) r \<and>
         tasks d' = tasks d @ [enqueued_row p (sw_enqueue e) (schedule_request r)]))"
proof -
  from pgq.scheduleTask_tasks [OF assms] consider "d' = d"
    | r where "select_schedule e d = Some r" "schedules d' = schedules d"
        "tasks d' = tasks d @ [enqueued_row p (sw_enqueue e) (schedule_request r)]"
    by auto
  then show ?thesis
  proof cases
    case 2
    with select_schedule_Some(1,2) [OF this(1)] show ?thesis by blast
  qed simp
qed

subsection \<open>An iteration\<close>

text \<open>
  Rounds in which every call succeeds, with the clock at \<open>T\<close>, and schedules that such a round
  can execute: their request is well-formed, and their cron expression, if any, has a next
  activation after \<open>T\<close>.
\<close>

definition round_ready :: "time \<Rightarrow> schedule_worker_env \<Rightarrow> bool" where
  "round_ready T e \<longleftrightarrow> begin_err (sw_tx e) = None \<and> commit_err (sw_tx e) = None \<and>
     rollback_err (sw_tx e) = None \<and> sw_now e = T \<and>
     sw_locked e = [] \<and> sw_select_err e = None \<and> insert_err (sw_enqueue e) = None \<and>
     sw_update_err e = None \<and> sw_affected_err e = None"

definition schedule_ready :: "pg \<Rightarrow> cron \<Rightarrow> time \<Rightarrow> schedule_worker_env \<Rightarrow> schedule_row \<Rightarrow> bool" where
  "schedule_ready p c T e r \<longleftrightarrow> task_queue r \<noteq> [] \<and> task_type r \<noteq> [] \<and> jsonb p (task_spec r) \<noteq> None \<and>
     (cron_schedule r \<noteq> [] \<longrightarrow> cron_parse_err c (cron_schedule r) = None \<and>
        T < cron_next c (cron_schedule r) (sw_next_now e))"

definition iteration_ready :: "pg \<Rightarrow> cron \<Rightarrow> time \<Rightarrow> (error option \<times> schedule_worker_env) list \<Rightarrow> db \<Rightarrow> bool" where
  "iteration_ready p c T rounds d \<longleftrightarrow>
     list_all (\<lambda>(ctx_err, e). ctx_err = None \<and> round_ready T e \<and> list_all (schedule_ready p c T e) (schedules d)) rounds \<and>
     distinct (map (\<lambda>(_, e). new_task_id (sw_enqueue e)) rounds @ map task_id (tasks d)) \<and>
     distinct (map schedule_id (schedules d))"

lemma update_where_split:
  assumes "distinct (map k (xs @ r # ys))"
  shows "update_where (\<lambda>s. k s = k r) f (xs @ r # ys) = xs @ f r # ys"
proof -
  from assms have "\<And>s. s \<in> set xs \<union> set ys \<Longrightarrow> k s \<noteq> k r" by (auto simp: image_iff)
  then have "update_where (\<lambda>s. k s = k r) f xs = xs" "update_where (\<lambda>s. k s = k r) f ys = ys"
    by (auto intro: update_where_unmatched)
  then show ?thesis by simp
qed

lemma schedule_ready_next: "schedule_ready p c T e (r\<lparr>next_execution_time := n\<rparr>) = schedule_ready p c T e r"
  by (simp add: schedule_ready_def)

definition schedule_ref :: "schedule_row \<Rightarrow> (string \<times> sql_value) list" where
  "schedule_ref r = [(''schedule_id'', VText (schedule_id r))]"

lemma schedule_request_refs [simp]: "refs (enqueued_row p e (schedule_request r)) = schedule_ref r"
  by (simp add: enqueued_row_def schedule_request_def schedule_ref_def)

lemma ready_round:
  assumes "pg_ok p" and "iteration_ready p c T ((ctx_err, e) # rounds) d"
    and "filter (due T) (schedules d) \<noteq> []"
  obtains r xs ys nxt where "schedules d = xs @ r # ys" "due T r"
    "scheduleTask (Enqueue p) c e d =
       Ret (d\<lparr>tasks := tasks d @ [enqueued_row p (sw_enqueue e) (schedule_request r)],
             schedules := xs @ r\<lparr>next_execution_time := nxt\<rparr> # ys\<rparr>, None)"
    "\<not> due T (r\<lparr>next_execution_time := nxt\<rparr>)"
proof -
  from assms(2) have rr: "round_ready T e" and sr: "\<And>r. r \<in> set (schedules d) \<Longrightarrow> schedule_ready p c T e r"
    and new: "new_task_id (sw_enqueue e) \<notin> task_id ` set (tasks d)"
    and dist: "distinct (map schedule_id (schedules d))"
    by (auto simp: iteration_ready_def list_all_iff)
  have "select_schedule e d \<noteq> None"
    using rr assms(3) by (auto simp: select_schedule_None round_ready_def filter_empty_conv)
  then obtain r where sel: "select_schedule e d = Some r" by blast
  then have r: "r \<in> set (schedules d)" "due T r"
    using select_schedule_Some [OF sel] rr by (auto simp: round_ready_def)
  from r(1) obtain xs ys where xy: "schedules d = xs @ r # ys" by (meson split_list)
  note ready = sr [OF r(1), unfolded schedule_ready_def]
  define nxt where "nxt = (if cron_schedule r = [] then None else Some (cron_next c (cron_schedule r) (sw_next_now e)))"
  have nxt: "nextExecution c (sw_next_now e) (cron_schedule r) = Inr nxt"
    using ready by (simp add: nextExecution_def nxt_def)
  have enq: "Enqueue p (sw_enqueue e) (schedule_request r) d =
      (d\<lparr>tasks := tasks d @ [enqueued_row p (sw_enqueue e) (schedule_request r)]\<rparr>, None)"
    using ready rr new
    by (intro Enqueue_succeeds [OF assms(1)]) (auto simp: schedule_request_def round_ready_def task_insert_columns_def)
  have "schedules (set_next (schedule_id r) nxt d) = xs @ r\<lparr>next_execution_time := nxt\<rparr> # ys"
    using update_where_split [of schedule_id xs r ys] dist unfolding set_next_def xy by simp
  then have "scheduleTask (Enqueue p) c e d =
      Ret (d\<lparr>tasks := tasks d @ [enqueued_row p (sw_enqueue e) (schedule_request r)],
             schedules := xs @ r\<lparr>next_execution_time := nxt\<rparr> # ys\<rparr>, None)"
    using rr sel enq nxt by (simp add: scheduleTask_def schedule_body_def round_ready_def set_next_def)
  moreover have "\<not> due T (r\<lparr>next_execution_time := nxt\<rparr>)"
    using ready by (auto simp: due_def nxt_def)
  ultimately show thesis using that xy r(2) by blast
qed

lemma iteration_ready_step:
  assumes "iteration_ready p c T ((ctx_err, e) # rounds) d" and "schedules d = xs @ r # ys"
  shows "iteration_ready p c T rounds
    (d\<lparr>tasks := tasks d @ [enqueued_row p (sw_enqueue e) (schedule_request r)],
       schedules := xs @ r\<lparr>next_execution_time := nxt\<rparr> # ys\<rparr>)"
  using assms by (auto simp: iteration_ready_def list_all_iff schedule_ready_next)

text \<open>
  C19: An iteration of the schedule worker ends and executes every due schedule exactly once:
  when the calls succeed and no schedule becomes due again meanwhile, as many rounds as there
  are due schedules and one more are enough; after them the iteration has returned without an
  error, nothing is due, and the tasks added are one for each schedule that was due.
\<close>

theorem iteration_runs_due_once:
  assumes "pg_ok p" and "iteration_ready p c T rounds d"
    and "length (filter (due T) (schedules d)) < length rounds"
  shows "\<exists>d' new. sched_iteration (Enqueue p) c rounds d = Some (Ret (d', None)) \<and>
     tasks d' = tasks d @ new \<and>
     mset (map refs new) = mset (map schedule_ref (filter (due T) (schedules d))) \<and>
     filter (due T) (schedules d') = []"
  using assms(2,3)
proof (induction rounds arbitrary: d)
  case (Cons rd rounds)
  obtain ctx_err e where rd: "rd = (ctx_err, e)" by (metis surj_pair)
  with Cons.prems(1) have ctx: "ctx_err = None" and rr: "round_ready T e"
    by (auto simp: iteration_ready_def)
  show ?case
  proof (cases "filter (due T) (schedules d) = []")
    case True
    then have "select_schedule e d = None" using rr by (simp add: select_schedule_None round_ready_def filter_empty_conv)
    then have "scheduleTask (Enqueue p) c e d =
        Ret (d, Some (Schedule_worker_err ErrScheduleQueueIsEmpty))"
      using rr by (simp add: scheduleTask_def schedule_body_def round_ready_def)
    with True ctx rd show ?thesis by simp
  next
    case False
    obtain r xs ys nxt where r: "schedules d = xs @ r # ys" "due T r"
      and st: "scheduleTask (Enqueue p) c e d =
       Ret (d\<lparr>tasks := tasks d @ [enqueued_row p (sw_enqueue e) (schedule_request r)],
             schedules := xs @ r\<lparr>next_execution_time := nxt\<rparr> # ys\<rparr>, None)" (is "_ = Ret (?d, None)")
      and nd: "\<not> due T (r\<lparr>next_execution_time := nxt\<rparr>)"
      using assms(1) Cons.prems(1) [unfolded rd] False by (rule ready_round)
    have "iteration_ready p c T rounds ?d"
      using iteration_ready_step [OF Cons.prems(1) [unfolded rd] r(1)] .
    moreover have "length (filter (due T) (schedules ?d)) < length rounds"
      using Cons.prems(2) r nd by simp
    ultimately obtain d' new where "sched_iteration (Enqueue p) c rounds ?d = Some (Ret (d', None))"
      "tasks d' = tasks ?d @ new"
      "mset (map refs new) = mset (map schedule_ref (filter (due T) (schedules ?d)))"
      "filter (due T) (schedules d') = []"
      using Cons.IH by blast
    then show ?thesis using ctx rd st r nd
      by (intro exI [of _ d'] exI [of _ "enqueued_row p (sw_enqueue e) (schedule_request r) # new"])
        simp
  qed
qed simp

definition ex_round :: "string \<Rightarrow> time \<Rightarrow> error option \<times> schedule_worker_env" where
  "ex_round i n = (None, \<lparr>sw_tx = tx_ok, sw_now = n, sw_locked = [], sw_select_err = None,
     sw_enqueue = \<lparr>new_task_id = i, insert_now = n, insert_err = None\<rparr>, sw_next_now = n,
     sw_update_err = None, sw_affected_err = None\<rparr>)"

definition ex_schedules :: "string \<Rightarrow> db" where
  "ex_schedules cr = fst (Schedule sample_pg sample_cron (ex_sched ''s2'' 7) (ex_schedule_req (Some ''[]'') cr)
     (fst (Schedule sample_pg sample_cron (ex_sched ''s1'' 5) (ex_schedule_req None []) no_rows_db)))"

theorem iteration_runs_due_once_witness:
  "\<exists>d' new. sched_iteration (Enqueue sample_pg) sample_cron
       [ex_round ''t1'' 10, ex_round ''t2'' 10, ex_round ''t3'' 10] (ex_schedules ''* * * * *'') = Some (Ret (d', None)) \<and>
     tasks d' = new \<and>
     mset (map refs new) = mset (map schedule_ref (filter (due 10) (schedules (ex_schedules ''* * * * *'')))) \<and>
     filter (due 10) (schedules d') = []"
proof -
  have c: "iteration_ready sample_pg sample_cron 10 [ex_round ''t1'' 10, ex_round ''t2'' 10, ex_round ''t3'' 10]
      (ex_schedules ''* * * * *'')"
    "length (filter (due 10) (schedules (ex_schedules ''* * * * *''))) <
      length [ex_round ''t1'' 10, ex_round ''t2'' 10, ex_round ''t3'' 10]"
    "tasks (ex_schedules ''* * * * *'') = []"
    by code_simp+
  from iteration_runs_due_once [OF sample_pg_ok c(1,2)] c(3) show ?thesis by simp
qed

theorem scheduleTask_success_witness:
  "let d = ex_schedules ''* * * * *'' in
   \<exists>r \<in> set (schedules d). due 10 r \<and>
     scheduleTask (Enqueue sample_pg) sample_cron (snd (ex_round ''t1'' 10)) d =
       Ret (set_next ''s1'' None (d\<lparr>tasks := [enqueued_row sample_pg (sw_enqueue (snd (ex_round ''t1'' 10))) (schedule_request r)]\<rparr>), None)"
proof -
  let ?d = "ex_schedules ''* * * * *''" and ?e = "snd (ex_round ''t1'' 10)"
  let ?d' = "set_next ''s1'' None (?d\<lparr>tasks := [enqueued_row sample_pg (sw_enqueue ?e) (schedule_request (hd (schedules ?d)))]\<rparr>)"
  have s: "scheduleTask (Enqueue sample_pg) sample_cron ?e ?d = Ret (?d', None)" by code_simp
  have e: "sw_now ?e = 10" "tasks ?d = []" by code_simp+
  from scheduleTask_success [OF s] obtain r where r: "r \<in> set (schedules ?d)" "due 10 r"
    "tasks ?d' = [enqueued_row sample_pg (sw_enqueue ?e) (schedule_request r)]" using e by auto
  then have "?d' = set_next ''s1'' None (?d\<lparr>tasks := [enqueued_row sample_pg (sw_enqueue ?e) (schedule_request r)]\<rparr>)"
    by (simp add: set_next_def)
  with r s show ?thesis unfolding Let_def by metis
qed

theorem scheduleTask_at_least_once_witness:
  "let d = ex_schedules ''* * * * *''; e = (snd (ex_round ''t1'' 10))\<lparr>sw_tx := tx_ok\<lparr>commit_err := Some (Ext ''gone'')\<rparr>\<rparr>;
       d' = d\<lparr>tasks := [enqueued_row sample_pg (sw_enqueue e) (schedule_request (hd (schedules d)))]\<rparr> in
   scheduleTask (Enqueue sample_pg) sample_cron e d = Ret (d', Some (Ext ''gone'')) \<and> schedules d' = schedules d"
proof -
  let ?d = "ex_schedules ''* * * * *''"
  let ?e = "(snd (ex_round ''t1'' 10))\<lparr>sw_tx := tx_ok\<lparr>commit_err := Some (Ext ''gone'')\<rparr>\<rparr>"
  let ?d' = "?d\<lparr>tasks := [enqueued_row sample_pg (sw_enqueue ?e) (schedule_request (hd (schedules ?d)))]\<rparr>"
  have s: "scheduleTask (Enqueue sample_pg) sample_cron ?e ?d = Ret (?d', Some (Ext ''gone''))" by code_simp
  from scheduleTask_at_least_once [OF s] s show ?thesis by (simp only: Let_def)
qed

subsection \<open>A cron expression that is never due\<close>

lemma zero_time_due: "zero_time \<le> T \<Longrightarrow> due T (r\<lparr>next_execution_time := Some zero_time\<rparr>)"
  by (simp add: due_def)

text \<open>
  A schedule whose cron expression parses but has no activation, such as the 31st of
  February, makes the worker flood the queue: the library then returns the zero time, which is
  stored as the next execution time, so the schedule stays due and the iteration does not end.
  After every number of rounds it is still running and has enqueued one task per round.
\<close>

theorem unsatisfiable_cron_floods:
  assumes "pg_ok p" and "schedules d = [r]" and "due T r" and "zero_time \<le> T"
    and "task_queue r \<noteq> []" and "task_type r \<noteq> []" and "jsonb p (task_spec r) \<noteq> None"
    and "cron_schedule r \<noteq> []" and "cron_parse_err c (cron_schedule r) = None"
    and "\<forall>t. cron_next c (cron_schedule r) t = zero_time"
    and "list_all (\<lambda>(ctx_err, e). ctx_err = None \<and> round_ready T e) rounds"
    and "distinct (map (\<lambda>(_, e). new_task_id (sw_enqueue e)) rounds @ map task_id (tasks d))"
  shows "sched_iteration (Enqueue p) c rounds d = None \<and>
    (\<forall>ctx_err e d' err. sched_iteration (Enqueue p) c (rounds @ [(Some ctx_err, e)]) d = Some (Ret (d', err)) \<longrightarrow>
       length (tasks d') = length (tasks d) + length rounds)"
  using assms(2,3,5-9) assms(11,12) assms(10)
proof (induction rounds arbitrary: d r)
  case (Cons rd rounds)
  obtain ctx_err e where rd: "rd = (ctx_err, e)" by (metis surj_pair)
  with Cons.prems have ctx: "ctx_err = None" and rr: "round_ready T e"
    and new: "new_task_id (sw_enqueue e) \<notin> task_id ` set (tasks d)"
    by auto
  have sel: "select_schedule e d = Some r"
    using rr Cons.prems(1,2) by (simp add: select_schedule_def round_ready_def)
  have enq: "Enqueue p (sw_enqueue e) (schedule_request r) d =
      (d\<lparr>tasks := tasks d @ [enqueued_row p (sw_enqueue e) (schedule_request r)]\<rparr>, None)"
    using Cons.prems rr new
    by (intro Enqueue_succeeds [OF assms(1)]) (auto simp: schedule_request_def round_ready_def task_insert_columns_def)
  let ?r = "r\<lparr>next_execution_time := Some zero_time\<rparr>"
  let ?d = "d\<lparr>tasks := tasks d @ [enqueued_row p (sw_enqueue e) (schedule_request r)], schedules := [?r]\<rparr>"
  have st: "scheduleTask (Enqueue p) c e d = Ret (?d, None)"
    using rr sel enq Cons.prems
    by (simp add: scheduleTask_def schedule_body_def round_ready_def set_next_def nextExecution_def)
  have "sched_iteration (Enqueue p) c rounds ?d = None \<and>
    (\<forall>ctx_err e d' err. sched_iteration (Enqueue p) c (rounds @ [(Some ctx_err, e)]) ?d = Some (Ret (d', err)) \<longrightarrow>
       length (tasks d') = length (tasks ?d) + length rounds)"
    by (rule Cons.IH [of ?d ?r]) (use Cons.prems rd zero_time_due [OF assms(4)] in auto)
  with st ctx rd show ?case by auto
qed auto

theorem unsatisfiable_cron_floods_witness:
  "sched_iteration (Enqueue sample_pg) sample_cron [ex_round ''t1'' 10, ex_round ''t2'' 10]
     (fst (Schedule sample_pg sample_cron (ex_sched ''s2'' 7) (ex_schedule_req None ''0 0 31 2 *'') no_rows_db)) = None"
proof -
  let ?d = "fst (Schedule sample_pg sample_cron (ex_sched ''s2'' 7) (ex_schedule_req None ''0 0 31 2 *'') no_rows_db)"
  let ?r = "scheduled_row sample_pg (ex_sched ''s2'' 7) (ex_schedule_req None ''0 0 31 2 *'')"
  let ?rounds = "[ex_round ''t1'' 10, ex_round ''t2'' 10]"
  have c: "schedules ?d = [?r]" "due 10 ?r" "zero_time \<le> 10" "task_queue ?r \<noteq> []" "task_type ?r \<noteq> []"
    "jsonb sample_pg (task_spec ?r) \<noteq> None" "cron_schedule ?r \<noteq> []"
    "cron_parse_err sample_cron (cron_schedule ?r) = None"
    by code_simp+
  have n: "\<forall>t. cron_next sample_cron (cron_schedule ?r) t = zero_time"
    by (simp add: sample_cron_def scheduled_row_def ex_schedule_req_def)
  have l: "list_all (\<lambda>(ctx_err, e). ctx_err = None \<and> round_ready 10 e) ?rounds"
    "distinct (map (\<lambda>(_, e). new_task_id (sw_enqueue e)) ?rounds @ map task_id (tasks ?d))"
    by code_simp+
  from unsatisfiable_cron_floods [OF sample_pg_ok c n l] show ?thesis by blast
qed

end
