(* ===== verification/Retention.thy ===== *)
theory Retention
  imports Scheduler Json
begin

section \<open>Retention of ended tasks\<close>

text \<open>
  \<open>pkg/queue/postgres/retention.go\<close>: a retention schedule is a row of \<open>schedules\<close> whose task
  runs a \<open>DELETE\<close> on \<open>tasks\<close>. The statement that \<open>createRetentionSpec\<close> builds is kept as the
  list of its conditions, as it is given to squirrel; \<open>debug_sqlizer\<close>, the function of squirrel that
  prints it with its values in place and without escaping them, and \<open>minutes\<close>, the text of an age in
  minutes (\<open>%f\<close> of a float, with six decimals), are parameters. What Postgres makes of the printed
  text is not modelled.
\<close>

definition MaintenanceTaskQueue :: string where
  "MaintenanceTaskQueue = ''queue-maintenance''"

definition RetentionTask :: string where
  "RetentionTask = ''retention''"

fun status_text :: "task_status \<Rightarrow> string" where
  "status_text Waiting = ''waiting''"
| "status_text Running = ''running''"
| "status_text Cancelled = ''cancelled''"
| "status_text Finished = ''finished''"
| "status_text Failed = ''failed''"
| "status_text (Unlisted s) = s"

text \<open>A condition is \<open>squirrel.Eq\<close> of a column and a value, or a text.\<close>

datatype condition = Eq_cond string string | Text_cond string

definition older_than :: "string \<Rightarrow> string" where
  "older_than m = ''finished_at <= now() - interval '' @ CHR 0x27 # m @ '' minutes'' @ [CHR 0x27]"

record delete_stmt =
  from_table :: string
  wheres :: "condition list"

record retention_spec =
  SQL :: string
  QueueName :: string
  TaskType :: string
  RetentionStatus :: task_status
  Age :: duration

definition retention_delete ::
  "(duration \<Rightarrow> string) \<Rightarrow> string \<Rightarrow> string \<Rightarrow> task_status \<Rightarrow> duration \<Rightarrow> delete_stmt" where
  "retention_delete minutes queueName taskType st age =
     (let deletionSQL = \<lparr>from_table = ''tasks'', wheres = [Eq_cond ''status'' (status_text st), Text_cond (older_than (minutes age))]\<rparr>;
          deletionSQL = (if queueName \<noteq> [] then deletionSQL\<lparr>wheres := wheres deletionSQL @ [Eq_cond ''queue'' queueName]\<rparr>
             else deletionSQL)
      in if taskType \<noteq> [] then deletionSQL\<lparr>wheres := wheres deletionSQL @ [Eq_cond ''type'' taskType]\<rparr>
         else deletionSQL)"

definition createRetentionSpec ::
  "(delete_stmt \<Rightarrow> string) \<Rightarrow> (duration \<Rightarrow> string) \<Rightarrow> string \<Rightarrow> string \<Rightarrow> task_status \<Rightarrow> duration \<Rightarrow> retention_spec" where
  "createRetentionSpec debug_sqlizer minutes queueName taskType st age =
     \<lparr>SQL = debug_sqlizer (retention_delete minutes queueName taskType st age),
      QueueName = queueName, TaskType = taskType, RetentionStatus = st, Age = age\<rparr>"

text \<open>The fields of the specification in the order of the struct, the embedded one first.\<close>

definition retention_json :: "retention_spec \<Rightarrow> json" where
  "retention_json s = JObj
     [(''sql'', JStr (SQL s)), (''queueName'', JStr (QueueName s)), (''taskType'', JStr (TaskType s)),
      (''status'', JStr (status_text (RetentionStatus s))), (''age'', JNum (Age s))]"

record upsert_env =
  up_id :: string
  when_minute :: nat
  up_clock :: time
  up_insert_now :: time
  upsert_err :: "error option"
  affected_err :: "error option"

text \<open>
  \<open>INSERT ... ON CONFLICT ... DO UPDATE\<close>. The index of the conflict is the one of
  \<open>retention_conflict\<close>.
\<close>

definition upsert_schedule ::
  "pg \<Rightarrow> upsert_env \<Rightarrow> string \<Rightarrow> string \<Rightarrow> bytes \<Rightarrow> string \<Rightarrow> db \<Rightarrow> db \<times> error option" where
  "upsert_schedule p e q k b cr d =
     (case upsert_err e of Some x \<Rightarrow> (d, Some x)
      | None \<Rightarrow>
        (case jsonb p b of None \<Rightarrow> (d, Some pg_invalid_json)
         | Some spec' \<Rightarrow>
           (let r = \<lparr>schedule_id = up_id e, task_queue = q, task_type = k, task_spec = spec',
                 cron_schedule = cr, next_execution_time = Some (up_clock e),
                 sched_created_at = up_insert_now e, sched_updated_at = up_insert_now e,
                 sched_refs = []\<rparr>
            in if list_ex (retention_conflict p r) (schedules d)
               then (d\<lparr>schedules := update_where (retention_conflict p r)
                       (\<lambda>s. s\<lparr>sched_updated_at := up_clock e, next_execution_time := Some (up_clock e),
                              task_spec := spec', cron_schedule := cr\<rparr>) (schedules d)\<rparr>, None)
               else if up_id e \<in> schedule_id ` set (schedules d) then (d, Some pg_duplicate_key)
               else (d\<lparr>schedules := schedules d @ [r]\<rparr>, None))))"

definition AssertRetentionScheduleWithSpec ::
  "pg \<Rightarrow> cron \<Rightarrow> upsert_env \<Rightarrow> retention_spec \<Rightarrow> db \<Rightarrow> db \<times> error option" where
  "AssertRetentionScheduleWithSpec p c e s d =
     (let specBytes = Marshal (retention_json s);
          cr = nat_text (when_minute e mod 60) @ '' * * * *''
      in case CronTab c cr of Some x \<Rightarrow> (d, Some x)
      | None \<Rightarrow>
        (let (d', err) = upsert_schedule p e MaintenanceTaskQueue RetentionTask specBytes cr d
         in case err of
            Some x \<Rightarrow> (d', Some (Wrap ''can not upsert retention schedule: '' x))
          | None \<Rightarrow>
            (case affected_err e of
               Some x \<Rightarrow> (d', Some (Wrap ''can not determine the number of rows affected: '' x))
             | None \<Rightarrow> (d', None))))"

definition AssertRetentionSchedule ::
  "pg \<Rightarrow> cron \<Rightarrow> (delete_stmt \<Rightarrow> string) \<Rightarrow> (duration \<Rightarrow> string) \<Rightarrow> upsert_env \<Rightarrow> string \<Rightarrow> string \<Rightarrow> task_status \<Rightarrow> duration
    \<Rightarrow> db \<Rightarrow> db \<times> error option" where
  "AssertRetentionSchedule p c debug_sqlizer minutes e queueName taskType st age d =
     AssertRetentionScheduleWithSpec p c e (createRetentionSpec debug_sqlizer minutes queueName taskType st age) d"

subsection \<open>One schedule per kind of retention\<close>

definition same_retention :: "retention_spec \<Rightarrow> retention_spec \<Rightarrow> bool" where
  "same_retention s s' \<longleftrightarrow> QueueName s = QueueName s' \<and> TaskType s = TaskType s' \<and>
     status_text (RetentionStatus s) = status_text (RetentionStatus s')"

text \<open>Postgres stores the text of a specification and reads its three fields back.\<close>

definition stores_spec :: "pg \<Rightarrow> retention_spec \<Rightarrow> bool" where
  "stores_spec p s \<longleftrightarrow>
     (case jsonb p (Marshal (retention_json s)) of None \<Rightarrow> False
      | Some b \<Rightarrow> json_text p b ''queueName'' = Some (QueueName s) \<and>
         json_text p b ''taskType'' = Some (TaskType s) \<and>
         json_text p b ''status'' = Some (status_text (RetentionStatus s)))"

text \<open>The rows that hold the retention of \<open>s\<close>.\<close>

definition retention_rows :: "pg \<Rightarrow> retention_spec \<Rightarrow> db \<Rightarrow> schedule_row list" where
  "retention_rows p s d = filter (\<lambda>r.
     ci_eq p (task_type r) RetentionTask \<and> ci_eq p (task_queue r) MaintenanceTaskQueue \<and>
     json_text p (task_spec r) ''queueName'' = Some (QueueName s) \<and>
     json_text p (task_spec r) ''taskType'' = Some (TaskType s) \<and>
     json_text p (task_spec r) ''status'' = Some (status_text (RetentionStatus s))) (schedules d)"

lemma retention_rows_same: "same_retention s s' \<Longrightarrow> retention_rows p s d = retention_rows p s' d"
  by (simp add: retention_rows_def same_retention_def)

definition upserted :: "upsert_env \<Rightarrow> bytes \<Rightarrow> string \<Rightarrow> schedule_row \<Rightarrow> schedule_row" where
  "upserted e b cr s = s\<lparr>sched_updated_at := up_clock e, next_execution_time := Some (up_clock e),
     task_spec := b, cron_schedule := cr\<rparr>"

lemma upsert_cases:
  assumes "upsert_schedule p e MaintenanceTaskQueue RetentionTask (Marshal (retention_json s)) cr d = (d', None)"
    and "stores_spec p s"
  obtains (updated) b where "jsonb p (Marshal (retention_json s)) = Some b" "retention_rows p s d \<noteq> []"
      "retention_rows p s d' = map (upserted e b cr) (retention_rows p s d)"
    | (inserted) r where "retention_rows p s d = []" "retention_rows p s d' = [r]" "schedule_id r = up_id e"
proof -
  from assms(2) obtain b where b: "jsonb p (Marshal (retention_json s)) = Some b"
    "json_text p b ''queueName'' = Some (QueueName s)" "json_text p b ''taskType'' = Some (TaskType s)"
    "json_text p b ''status'' = Some (status_text (RetentionStatus s))"
    by (auto simp: stores_spec_def split: option.splits)
  define r where "r = \<lparr>schedule_id = up_id e, task_queue = MaintenanceTaskQueue, task_type = RetentionTask,
     task_spec = b, cron_schedule = cr, next_execution_time = Some (up_clock e),
     sched_created_at = up_insert_now e, sched_updated_at = up_insert_now e, sched_refs = []\<rparr>"
  have conf: "retention_conflict p r = (\<lambda>r'. ci_eq p (task_type r') RetentionTask \<and>
     ci_eq p (task_queue r') MaintenanceTaskQueue \<and>
     json_text p (task_spec r') ''queueName'' = Some (QueueName s) \<and>
     json_text p (task_spec r') ''taskType'' = Some (TaskType s) \<and>
     json_text p (task_spec r') ''status'' = Some (status_text (RetentionStatus s)))"
    using b by (auto simp: retention_conflict_def r_def retention_fields_def RetentionTask_def ci_eq_def fun_eq_iff)
  then have rows: "retention_rows p s d = filter (retention_conflict p r) (schedules d)" for d
    by (simp add: retention_rows_def)
  show thesis
  proof (cases "list_ex (retention_conflict p r) (schedules d)")
    case True
    with assms(1) b have d': "schedules d' = update_where (retention_conflict p r) (upserted e b cr) (schedules d)"
      by (auto simp: upsert_schedule_def r_def [symmetric] upserted_def [abs_def] Let_def split: option.splits)
    have "filter (retention_conflict p r) (update_where (retention_conflict p r) (upserted e b cr) xs) =
        map (upserted e b cr) (filter (retention_conflict p r) xs)" for xs
      using b by (induction xs) (auto simp: conf upserted_def)
    with True b d' show ?thesis
      by (intro updated [of b]) (auto simp: rows filter_empty_conv list_ex_iff)
  next
    case False
    with assms(1) b have d': "schedules d' = schedules d @ [r]"
      by (auto simp: upsert_schedule_def r_def [symmetric] Let_def split: option.splits if_splits)
    have "retention_conflict p r r" using b by (simp add: conf) (simp add: r_def)
    with False d' show ?thesis
      by (intro inserted [of r]) (auto simp: rows filter_empty_conv list_ex_iff r_def)
  qed
qed

lemma AssertRetention_upsert:
  "AssertRetentionScheduleWithSpec p c e s d = (d', None) \<Longrightarrow>
   upsert_schedule p e MaintenanceTaskQueue RetentionTask (Marshal (retention_json s))
     (nat_text (when_minute e mod 60) @ '' * * * *'') d = (d', None)"
  by (auto simp: AssertRetentionScheduleWithSpec_def Let_def split: option.splits prod.splits)

text \<open>
  A retention is scheduled exactly once: asserting it for the first time adds one schedule,
  and asserting it again for the same queue, type and status, with whatever age, statement and
  minute, replaces the specification of this one and keeps its identifier.
\<close>

theorem retention_scheduled_once:
  assumes "retention_rows p s d = []" and "same_retention s s'"
    and "stores_spec p s" and "stores_spec p s'"
    and "AssertRetentionScheduleWithSpec p c e s d = (d1, None)"
    and "AssertRetentionScheduleWithSpec p c e' s' d1 = (d2, None)"
  shows "\<exists>r1 r2. retention_rows p s d1 = [r1] \<and> retention_rows p s d2 = [r2] \<and>
     schedule_id r2 = schedule_id r1 \<and> schedule_id r1 = up_id e \<and>
     jsonb p (Marshal (retention_json s')) = Some (task_spec r2)"
proof -
  from AssertRetention_upsert [OF assms(5)] assms(3) obtain r1
    where r1: "retention_rows p s d1 = [r1]" "schedule_id r1 = up_id e"
    by (cases rule: upsert_cases) (use assms(1) in auto)
  from AssertRetention_upsert [OF assms(6)] assms(4) show ?thesis
  proof (cases rule: upsert_cases)
    case (updated b)
    with r1 show ?thesis
      by (simp add: retention_rows_same [OF assms(2)] upserted_def)
  next
    case inserted
    with r1 show ?thesis by (simp add: retention_rows_same [OF assms(2)])
  qed
qed

definition ex_upsert :: "string \<Rightarrow> time \<Rightarrow> upsert_env" where
  "ex_upsert i n = \<lparr>up_id = i, when_minute = 7, up_clock = n, up_insert_now = n, upsert_err = None,
     affected_err = None\<rparr>"

definition ex_retention :: "duration \<Rightarrow> retention_spec" where
  "ex_retention a = createRetentionSpec (\<lambda>_. ''DELETE'') (\<lambda>_. ''0.000000'') ''q'' ''mail'' Finished a"

theorem retention_scheduled_once_witness:
  "let d1 = fst (AssertRetentionScheduleWithSpec sample_pg sample_cron (ex_upsert ''s1'' 1) (ex_retention 5) no_rows_db);
       d2 = fst (AssertRetentionScheduleWithSpec sample_pg sample_cron (ex_upsert ''s2'' 2) (ex_retention 9) d1)
   in \<exists>r1 r2. retention_rows sample_pg (ex_retention 5) d1 = [r1] \<and> retention_rows sample_pg (ex_retention 5) d2 = [r2] \<and>
     schedule_id r2 = schedule_id r1 \<and> schedule_id r1 = ''s1'' \<and>
     jsonb sample_pg (Marshal (retention_json (ex_retention 9))) = Some (task_spec r2)"
proof -
  let ?a1 = "AssertRetentionScheduleWithSpec sample_pg sample_cron (ex_upsert ''s1'' 1) (ex_retention 5) no_rows_db"
  let ?a2 = "AssertRetentionScheduleWithSpec sample_pg sample_cron (ex_upsert ''s2'' 2) (ex_retention 9) (fst ?a1)"
  have c: "retention_rows sample_pg (ex_retention 5) no_rows_db = []"
    "same_retention (ex_retention 5) (ex_retention 9)"
    "stores_spec sample_pg (ex_retention 5)" "stores_spec sample_pg (ex_retention 9)"
    by code_simp+
  have "snd ?a1 = None" "snd ?a2 = None" by code_simp+
  then have a: "?a1 = (fst ?a1, None)" "?a2 = (fst ?a2, None)" by (metis prod.collapse)+
  from retention_scheduled_once [OF c a] show ?thesis by (simp add: ex_upsert_def Let_def)
qed

end
