(* ===== verification/Dequeuer.thy ===== *)
theory Dequeuer
  imports Pg_Store
begin

section \<open>The dequeuer\<close>

text \<open>
  \<open>pkg/queue/postgres/dequeuer.go\<close>. \<open>attemptDequeue\<close> reads two lists of queues on the
  connection pool and then picks and starts one task in a transaction; \<open>Dequeue\<close> repeats it
  until there is a task, an error or the end of the context. \<open>updateProgress\<close> is the
  transaction behind \<open>Heartbeat\<close>, \<open>Finish\<close> and \<open>Fail\<close>.

  The two lists are not read in the transaction, so the model keeps apart the database \<open>du\<close>
  in which the list of unfinished queues is read, \<open>di\<close> of the list of queues in flight and
  \<open>d\<close> of the transaction; they are the same when nobody else writes in between. The
  environment holds the clock, the number that \<open>rand.Intn\<close> drew (any number, reduced modulo
  the argument) and the errors of the calls.
\<close>

record queue_config =
  HeartbeatTTL :: duration
  PollFrequency :: duration
  SchedulingInterval :: duration
  MinReconnectTimeout :: duration
  MaxReconnectTimeout :: duration

record dequeue_env =
  dq_now :: time
  dq_tx :: tx_env
  unfinished_err :: "error option"
  inflight_err :: "error option"
  rand_n :: nat
  select_err :: "error option"
  update_err :: "error option"

subsection \<open>Queue lists\<close>

definition generateQueueList ::
  "pg \<Rightarrow> (task_row \<Rightarrow> bool) \<Rightarrow> error option \<Rightarrow> db \<Rightarrow> string list \<times> error option" where
  "generateQueueList p wh err d =
     (case err of Some e \<Rightarrow> ([], Some e)
      | None \<Rightarrow> (distinct_on (citext p) (map queue (filter wh (tasks d))), None))"

definition generateUnfinishedQueueList :: "pg \<Rightarrow> dequeue_env \<Rightarrow> db \<Rightarrow> string list \<times> error option" where
  "generateUnfinishedQueueList p e d =
     generateQueueList p (\<lambda>r. finished_at r = None) (unfinished_err e) d"

text \<open>A comparison with NULL is not true.\<close>

definition inflight :: "time \<Rightarrow> task_row \<Rightarrow> bool" where
  "inflight beforeDoubleTTL r \<longleftrightarrow>
     (case last_heartbeat_at r of None \<Rightarrow> False | Some h \<Rightarrow> h > beforeDoubleTTL) \<and>
     finished_at r = None"

definition generateInflightQueueList ::
  "pg \<Rightarrow> dequeue_env \<Rightarrow> time \<Rightarrow> db \<Rightarrow> string list \<times> error option" where
  "generateInflightQueueList p e beforeDoubleTTL d =
     generateQueueList p (inflight beforeDoubleTTL) (inflight_err e) d"

definition processableQueues :: "string list \<Rightarrow> string list \<Rightarrow> string list" where
  "processableQueues infl potential =
     (let inflightMap = fold (\<lambda>s m. m(s \<mapsto> True)) infl Map.empty
      in fold (\<lambda>s processableQs.
           if inflightMap s = None then processableQs @ [s] else processableQs) potential [])"

subsection \<open>Picking and starting a task\<close>

definition scan :: "task_row \<Rightarrow> task" where
  "scan r = \<lparr>Queue = queue r, Type = task_kind r,
     Spec = Some (if spec r = [] then emptyJSON else spec r),
     ID = task_id r, Status = status r,
     Progress = (if progress r = [] then emptyJSON else progress r),
     CreatedAt = created_at r, UpdatedAt = updated_at r, StartedAt = started_at r,
     FinishedAt = finished_at r, LastHeartbeatAt = last_heartbeat_at r\<rparr>"

text \<open>The condition and the order of the \<open>SELECT ... FOR UPDATE\<close>.\<close>

definition dequeuable :: "pg \<Rightarrow> string \<Rightarrow> time \<Rightarrow> task_row \<Rightarrow> bool" where
  "dequeuable p queueName doubleTTL r \<longleftrightarrow>
     (ci_eq p (queue r) queueName \<and> started_at r = None) \<or>
     ((ci_eq p (queue r) queueName \<and> finished_at r = None) \<and>
      (case last_heartbeat_at r of None \<Rightarrow> False | Some h \<Rightarrow> h < doubleTTL))"

definition select_task :: "pg \<Rightarrow> string \<Rightarrow> time \<Rightarrow> db \<Rightarrow> task_row option" where
  "select_task p queueName doubleTTL d =
     first_max created_at (filter (dequeuable p queueName doubleTTL) (tasks d))"

definition start_row :: "time \<Rightarrow> task_row \<Rightarrow> task_row" where
  "start_row now r =
     r\<lparr>started_at := Some now, last_heartbeat_at := Some now, status := Running\<rparr>"

definition take_task ::
  "pg \<Rightarrow> dequeue_env \<Rightarrow> string \<Rightarrow> time \<Rightarrow> db \<Rightarrow> db \<times> task option \<times> error option" where
  "take_task p e queueName doubleTTL d =
     (case select_err e of Some x \<Rightarrow> (d, None, Some x)
      | None \<Rightarrow>
        (case select_task p queueName doubleTTL d of None \<Rightarrow> (d, None, None)
         | Some r \<Rightarrow>
           (case update_err e of Some x \<Rightarrow> (d, None, Some x)
            | None \<Rightarrow>
              (d\<lparr>tasks := update_where (\<lambda>r'. task_id r' = task_id r) (start_row (dq_now e)) (tasks d)\<rparr>,
               Some ((scan r)\<lparr>StartedAt := Some (dq_now e), LastHeartbeatAt := Some (dq_now e)\<rparr>),
               None))))"

definition doubleTTL :: "queue_config \<Rightarrow> dequeue_env \<Rightarrow> time" where
  "doubleTTL cfg e = dq_now e + wrap64 (- 2 * HeartbeatTTL cfg)"

definition attempt_body ::
  "pg \<Rightarrow> queue_config \<Rightarrow> dequeue_env \<Rightarrow> string list \<Rightarrow> db \<Rightarrow> db \<Rightarrow> db \<Rightarrow> db \<times> task option \<times> error option"
where
  "attempt_body p cfg e queues du di d =
     (let (queues, err) =
        (if queues = [] then generateUnfinishedQueueList p e du else (queues, None))
      in case err of Some x \<Rightarrow> (d, None, Some x)
      | None \<Rightarrow>
        (let (infl, err) = generateInflightQueueList p e (doubleTTL cfg e) di
         in case err of Some x \<Rightarrow> (d, None, Some x)
         | None \<Rightarrow>
           (let processableQs = processableQueues infl queues
            in if processableQs = [] then (d, None, None)
               else take_task p e (processableQs ! (rand_n e mod length processableQs))
                      (doubleTTL cfg e) d)))"

definition attempt_dequeue_at ::
  "pg \<Rightarrow> queue_config \<Rightarrow> dequeue_env \<Rightarrow> string list \<Rightarrow> db \<Rightarrow> db \<Rightarrow> db \<Rightarrow> db \<times> task option \<times> error option"
where
  "attempt_dequeue_at p cfg e queues du di d =
     (case begin_err (dq_tx e) of Some x \<Rightarrow> (d, None, Some x)
      | None \<Rightarrow>
        (let (work, t, err) = attempt_body p cfg e queues du di d;
             (d', err') = end_tx (dq_tx e) d (work, err)
         in (d', t, err')))"

text \<open>The attempt that runs with no other writer in between.\<close>

definition attemptDequeue ::
  "pg \<Rightarrow> queue_config \<Rightarrow> dequeue_env \<Rightarrow> string list \<Rightarrow> db \<Rightarrow> db \<times> task option \<times> error option" where
  "attemptDequeue p cfg e queues d = attempt_dequeue_at p cfg e queues d d d"

subsection \<open>Waiting for a task\<close>

text \<open>
  What the \<open>select\<close> of the waiting loop receives, with what the other processes did to the
  database before it, the environment of the attempt and the error of the \<open>Ping\<close>. The
  result is \<open>None\<close> while the loop is still waiting.
\<close>

datatype wake = CtxDone error | Tick | Notified

type_synonym wake_event = "wake \<times> (db \<Rightarrow> db) \<times> dequeue_env \<times> error option"

fun wait_loop ::
  "pg \<Rightarrow> queue_config \<Rightarrow> string list \<Rightarrow> wake_event list \<Rightarrow> db \<Rightarrow> (db \<times> task option \<times> error option) option"
where
  "wait_loop p cfg queues [] d = None"
| "wait_loop p cfg queues ((w, others, e, ping) # evs) d =
     (case w of CtxDone x \<Rightarrow> Some (others d, None, Some x)
      | _ \<Rightarrow>
        (case attemptDequeue p cfg e queues (others d) of (d', t, err) \<Rightarrow>
           if t \<noteq> None \<or> err \<noteq> None then Some (d', t, err)
           else (case ping of Some x \<Rightarrow> Some (d', None, Some x)
                 | None \<Rightarrow> wait_loop p cfg queues evs d')))"

record listen_env =
  listen_err :: "error option"
  unlisten_err :: "error option"

text \<open>\<open>time.NewTicker\<close> panics on a period that is not positive.\<close>

definition Dequeue ::
  "pg \<Rightarrow> queue_config \<Rightarrow> dequeue_env \<Rightarrow> listen_env \<Rightarrow> string list \<Rightarrow> wake_event list \<Rightarrow> db
    \<Rightarrow> (db \<times> task option \<times> error option) outcome option" where
  "Dequeue p cfg e l queues evs d =
     (case attemptDequeue p cfg e queues d of (d', t, err) \<Rightarrow>
        if t = None \<and> err = None then
          (case listen_err l of Some x \<Rightarrow> Some (Ret (d', None, Some x))
           | None \<Rightarrow>
             if PollFrequency cfg \<le> 0 then Some Panic
             else map_option (\<lambda>(d'', t, err).
                 Ret (d'', t, if unlisten_err l \<noteq> None \<and> err = None then unlisten_err l else err))
               (wait_loop p cfg queues evs d'))
        else Some (Ret (d', t, err)))"

subsection \<open>Progress, success and failure\<close>

record progress_env =
  up_now :: time
  up_tx :: tx_env
  status_err :: "error option"
  progress_err :: "error option"

definition set_progress :: "time \<Rightarrow> bytes \<Rightarrow> bool \<Rightarrow> bool \<Rightarrow> task_row \<Rightarrow> task_row" where
  "set_progress now b isFinal isFailed r =
     (let r = r\<lparr>last_heartbeat_at := Some now, progress := b\<rparr> in
      if isFinal \<and> isFailed then r\<lparr>finished_at := Some now, status := Failed\<rparr>
      else if isFinal \<and> \<not> isFailed then r\<lparr>finished_at := Some now, status := Finished\<rparr>
      else if \<not> isFinal \<and> isFailed then r\<lparr>status := Failed\<rparr>
      else r\<lparr>status := Running\<rparr>)"

definition write_progress ::
  "pg \<Rightarrow> progress_env \<Rightarrow> string \<Rightarrow> bytes \<Rightarrow> bool \<Rightarrow> bool \<Rightarrow> db \<Rightarrow> db \<times> error option" where
  "write_progress p e taskID pr isFinal isFailed d =
     (case progress_err e of Some x \<Rightarrow> (d, Some x)
      | None \<Rightarrow>
        (case jsonb p pr of None \<Rightarrow> (d, Some pg_invalid_json)
         | Some b \<Rightarrow>
           (d\<lparr>tasks := update_where (\<lambda>r. task_id r = taskID)
                 (set_progress (up_now e) b isFinal isFailed) (tasks d)\<rparr>, None)))"

definition updateProgress ::
  "pg \<Rightarrow> progress_env \<Rightarrow> string \<Rightarrow> bytes \<Rightarrow> bool \<Rightarrow> bool \<Rightarrow> db \<Rightarrow> db \<times> error option" where
  "updateProgress p e taskID pr isFinal isFailed d =
     (let pr = (if length pr = 0 then emptyJSON else pr) in
      case begin_err (up_tx e) of Some x \<Rightarrow> (d, Some x)
      | None \<Rightarrow>
        end_tx (up_tx e) d
          (case status_err e of Some x \<Rightarrow> (d, Some x)
           | None \<Rightarrow>
             (case task_of d taskID of None \<Rightarrow> (d, Some (Queue_err ErrTaskNotFound))
              | Some r \<Rightarrow>
                (case status r of
                   Waiting \<Rightarrow> (d, Some (Queue_err ErrTaskNotRunning))
                 | Cancelled \<Rightarrow> (d, Some (Queue_err ErrTaskCancelled))
                 | Finished \<Rightarrow> (d, Some (Queue_err ErrTaskFinished))
                 | _ \<Rightarrow> write_progress p e taskID pr isFinal isFailed d))))"

definition Heartbeat :: "pg \<Rightarrow> progress_env \<Rightarrow> string \<Rightarrow> bytes \<Rightarrow> db \<Rightarrow> db \<times> error option" where
  "Heartbeat p e taskID pr d = updateProgress p e taskID pr False False d"

definition Finish :: "pg \<Rightarrow> progress_env \<Rightarrow> string \<Rightarrow> bytes \<Rightarrow> db \<Rightarrow> db \<times> error option" where
  "Finish p e taskID pr d = updateProgress p e taskID pr True False d"

definition Fail :: "pg \<Rightarrow> progress_env \<Rightarrow> string \<Rightarrow> bytes \<Rightarrow> db \<Rightarrow> db \<times> error option" where
  "Fail p e taskID pr d = updateProgress p e taskID pr True True d"

section \<open>What the operations of the dequeuer do\<close>

subsection \<open>Queue lists\<close>

lemma inflight_map:
  "fold (\<lambda>s m. m(s \<mapsto> True)) xs m x = (if x \<in> set xs then Some True else m x)"
  by (induction xs arbitrary: m) auto

lemma processable_fold:
  "fold (\<lambda>s acc. if P s then acc @ [s] else acc) xs acc = acc @ filter P xs"
  by (induction xs arbitrary: acc) auto

lemma processableQueues_eq: "processableQueues infl potential = filter (\<lambda>s. s \<notin> set infl) potential"
  by (simp add: processableQueues_def processable_fold inflight_map)

lemma queue_list_sound:
  "generateQueueList p wh err d = (qs, None) \<Longrightarrow> q \<in> set qs \<Longrightarrow> \<exists>r \<in> set (tasks d). wh r \<and> queue r = q"
  using set_distinct_on by (force simp: generateQueueList_def split: option.splits)

lemma queue_list_complete:
  assumes "generateQueueList p wh err d = (qs, None)" and "r \<in> set (tasks d)" and "wh r"
  shows "\<exists>q \<in> set qs. ci_eq p q (queue r)"
proof -
  from assms(2,3) have "queue r \<in> set (map queue (filter wh (tasks d)))" by simp
  from distinct_on_covers [OF this, of "citext p"] assms(1) show ?thesis
    by (auto simp: generateQueueList_def ci_eq_def split: option.splits)
qed

lemma queue_list_distinct:
  "generateQueueList p wh err d = (qs, None) \<Longrightarrow> distinct (map (citext p) qs)"
  by (auto simp: generateQueueList_def distinct_on_distinct split: option.splits)

lemma inflight_not_finished: "inflight t r \<Longrightarrow> finished_at r = None"
  by (simp add: inflight_def)

lemma inflightI: "last_heartbeat_at r = Some h \<Longrightarrow> t < h \<Longrightarrow> finished_at r = None \<Longrightarrow> inflight t r"
  by (simp add: inflight_def)

subsection \<open>Starting a task\<close>

lemma start_row_simps [simp, row_simps]:
  "task_id (start_row n r) = task_id r" "queue (start_row n r) = queue r"
  "task_kind (start_row n r) = task_kind r" "spec (start_row n r) = spec r"
  "status (start_row n r) = Running" "progress (start_row n r) = progress r"
  "created_at (start_row n r) = created_at r" "updated_at (start_row n r) = updated_at r"
  "started_at (start_row n r) = Some n" "finished_at (start_row n r) = finished_at r"
  "last_heartbeat_at (start_row n r) = Some n" "refs (start_row n r) = refs r"
  by (simp_all add: start_row_def)

lemma scan_simps [simp]:
  "ID (scan r) = task_id r" "Queue (scan r) = queue r" "Type (scan r) = task_kind r"
  "Status (scan r) = status r" "CreatedAt (scan r) = created_at r"
  by (simp_all add: scan_def)

lemma select_task_Some:
  assumes "select_task p q t d = Some r"
  shows "r \<in> set (tasks d)" "dequeuable p q t r"
    "\<And>r'. r' \<in> set (tasks d) \<Longrightarrow> dequeuable p q t r' \<Longrightarrow> created_at r' \<le> created_at r"
  using first_max_Some [OF assms [unfolded select_task_def]] by auto

lemma select_task_None:
  "select_task p q t d = None \<longleftrightarrow> (\<forall>r \<in> set (tasks d). \<not> dequeuable p q t r)"
  by (auto simp: select_task_def filter_empty_conv)

lemma dequeuable_queue: "dequeuable p q t r \<Longrightarrow> ci_eq p (queue r) q"
  by (auto simp: dequeuable_def)

lemma dequeuable_not_inflight: "dequeuable p q t r \<Longrightarrow> started_at r \<noteq> None \<Longrightarrow> \<not> inflight t r"
  by (auto simp: dequeuable_def inflight_def split: option.splits)

lemma dequeuable_open: "dequeuable p q t r \<Longrightarrow> started_at r = None \<or> finished_at r = None"
  by (auto simp: dequeuable_def)

text \<open>
  The database after the start of row \<open>r\<close>, and the task that is handed out.
\<close>

definition started :: "dequeue_env \<Rightarrow> task_row \<Rightarrow> db \<Rightarrow> db" where
  "started e r d =
     d\<lparr>tasks := update_where (\<lambda>r'. task_id r' = task_id r) (start_row (dq_now e)) (tasks d)\<rparr>"

definition started_task :: "dequeue_env \<Rightarrow> task_row \<Rightarrow> task" where
  "started_task e r = (scan r)\<lparr>StartedAt := Some (dq_now e), LastHeartbeatAt := Some (dq_now e)\<rparr>"

lemma ID_started_task [simp]: "ID (started_task e r) = task_id r"
  by (simp add: started_task_def scan_def)

lemma take_task_cases:
  assumes "take_task p e q t d = (d', tk, err)"
  obtains (none) "tk = None" "d' = d"
    | (taken) r where "select_task p q t d = Some r" "tk = Some (started_task e r)" "err = None"
        "d' = started e r d"
proof (cases "select_err e = None \<and> update_err e = None \<and> select_task p q t d \<noteq> None")
  case True
  then obtain r where "select_task p q t d = Some r" by blast
  with True assms taken [of r] show ?thesis
    by (simp add: take_task_def started_def started_task_def)
next
  case False
  with assms have "tk = None \<and> d' = d" by (auto simp: take_task_def split: option.splits)
  with none show ?thesis by blast
qed

lemma attempt_body_cases:
  assumes "attempt_body p cfg e queues du di d = (d', tk, err)"
  obtains (none) "tk = None" "d' = d"
    | (taken) qs infl q r where "err = None" "tk = Some (started_task e r)" "d' = started e r d"
        "queues \<noteq> [] \<Longrightarrow> qs = queues"
        "queues = [] \<Longrightarrow> generateUnfinishedQueueList p e du = (qs, None)"
        "generateInflightQueueList p e (doubleTTL cfg e) di = (infl, None)"
        "q \<in> set qs" "q \<notin> set infl" "select_task p q (doubleTTL cfg e) d = Some r"
proof -
  obtain qs err1 where qs: "(if queues = [] then generateUnfinishedQueueList p e du else (queues, None)) = (qs, err1)"
    by (metis surj_pair)
  obtain infl err2 where infl: "generateInflightQueueList p e (doubleTTL cfg e) di = (infl, err2)"
    by (metis surj_pair)
  define ps where "ps = processableQueues infl qs"
  show thesis
  proof (cases "err1 = None \<and> err2 = None \<and> ps \<noteq> []")
    case False
    with assms qs infl have "tk = None \<and> d' = d"
      by (auto simp: attempt_body_def ps_def split: option.splits)
    then show ?thesis using none by blast
  next
    case True
    define q where "q = ps ! (rand_n e mod length ps)"
    have "q \<in> set ps" using True by (simp add: q_def)
    then have q: "q \<in> set qs" "q \<notin> set infl" by (auto simp: ps_def processableQueues_eq)
    have "take_task p e q (doubleTTL cfg e) d = (d', tk, err)"
      using assms qs infl True by (simp add: attempt_body_def ps_def q_def Let_def)
    then show ?thesis
    proof (cases rule: take_task_cases)
      case none
      then show ?thesis using that(1) by blast
    next
      case (taken r)
      show ?thesis
        by (rule that(2) [of r qs infl q]) (use taken qs infl True q in \<open>auto split: if_splits\<close>)
    qed
  qed
qed

lemma attempt_dequeue_at_cases:
  assumes "attempt_dequeue_at p cfg e queues du di d = (d', tk, err)"
  obtains (unchanged) "d' = d" "err = None \<Longrightarrow> tk = None"
    | (taken) qs infl q r where "err = None" "tk = Some (started_task e r)" "d' = started e r d"
        "queues \<noteq> [] \<Longrightarrow> qs = queues"
        "queues = [] \<Longrightarrow> generateUnfinishedQueueList p e du = (qs, None)"
        "generateInflightQueueList p e (doubleTTL cfg e) di = (infl, None)"
        "q \<in> set qs" "q \<notin> set infl" "select_task p q (doubleTTL cfg e) d = Some r"
proof (cases "begin_err (dq_tx e)")
  case (Some x)
  with assms show ?thesis by (intro unchanged) (auto simp: attempt_dequeue_at_def)
next
  case None
  obtain work tk' err' where body: "attempt_body p cfg e queues du di d = (work, tk', err')"
    by (metis surj_pair)
  with assms None have fin: "end_tx (dq_tx e) d (work, err') = (d', err)" and tk: "tk = tk'"
    by (auto simp: attempt_dequeue_at_def split: prod.splits)
  from fin show ?thesis
  proof (cases rule: end_tx_cases)
    case (aborted x)
    then show ?thesis by (intro unchanged) auto
  next
    case committed
    from body show ?thesis
    proof (cases rule: attempt_body_cases)
      case none
      with committed tk show ?thesis by (intro unchanged) auto
    next
      case (taken qs infl q r)
      show ?thesis
        by (rule that(2) [of r qs infl q]) (use taken committed tk in auto)
    qed
  qed
qed

subsection \<open>Progress, success and failure\<close>

lemma set_progress_simps [simp, row_simps]:
  "task_id (set_progress n b fin fl r) = task_id r"
  "queue (set_progress n b fin fl r) = queue r"
  "task_kind (set_progress n b fin fl r) = task_kind r"
  "spec (set_progress n b fin fl r) = spec r"
  "progress (set_progress n b fin fl r) = b"
  "created_at (set_progress n b fin fl r) = created_at r"
  "updated_at (set_progress n b fin fl r) = updated_at r"
  "started_at (set_progress n b fin fl r) = started_at r"
  "last_heartbeat_at (set_progress n b fin fl r) = Some n"
  "refs (set_progress n b fin fl r) = refs r"
  "status (set_progress n b fin fl r) =
     (if fl then Failed else if fin then Finished else Running)"
  "finished_at (set_progress n b fin fl r) = (if fin then Some n else finished_at r)"
  by (simp_all add: set_progress_def Let_def)

definition progressed ::
  "progress_env \<Rightarrow> string \<Rightarrow> bytes \<Rightarrow> bool \<Rightarrow> bool \<Rightarrow> db \<Rightarrow> db" where
  "progressed e i b fin fl d =
     d\<lparr>tasks := update_where (\<lambda>r. task_id r = i) (set_progress (up_now e) b fin fl) (tasks d)\<rparr>"

definition progress_text :: "bytes \<Rightarrow> bytes" where
  "progress_text pr = (if pr = [] then emptyJSON else pr)"

lemma write_progress_cases:
  assumes "write_progress p e i pr fin fl d = (d', err)"
  obtains (refused) x where "err = Some x" "d' = d"
    | (written) b where "err = None" "jsonb p pr = Some b" "d' = progressed e i b fin fl d"
proof (cases err)
  case (Some x)
  with assms have "d' = d" by (auto simp: write_progress_def split: option.splits)
  with Some refused show ?thesis by blast
next
  case None
  with assms have "progress_err e = None" by (auto simp: write_progress_def split: option.splits)
  with None assms obtain b where "jsonb p pr = Some b" "d' = progressed e i b fin fl d"
    by (auto simp: write_progress_def progressed_def split: option.splits)
  with None written show ?thesis by blast
qed

lemma updateProgress_cases:
  assumes "updateProgress p e i pr fin fl d = (d', err)"
  obtains (refused) x where "err = Some x" "d' = d"
    | (written) r b where "err = None" "task_of d i = Some r"
        "status r \<notin> {Waiting, Cancelled, Finished}" "jsonb p (progress_text pr) = Some b"
        "d' = progressed e i b fin fl d"
proof (cases err)
  case (Some x)
  with assms have "d' = d"
    by (cases "begin_err (up_tx e)") (auto simp: updateProgress_def Let_def dest: end_tx_Some)
  with Some refused show ?thesis by blast
next
  case None
  then have beg: "begin_err (up_tx e) = None" and sel: "status_err e = None"
    using assms by (auto simp: updateProgress_def Let_def split: option.splits)
  from None assms beg sel obtain r where r: "task_of d i = Some r"
    by (auto simp: updateProgress_def Let_def split: option.splits)
  have st: "status r \<notin> {Waiting, Cancelled, Finished}"
    using None assms beg sel r by (auto simp: updateProgress_def Let_def split: option.splits)
  obtain work err' where wp: "write_progress p e i (progress_text pr) fin fl d = (work, err')"
    by (metis surj_pair)
  then have "end_tx (up_tx e) d (work, err') = (d', None)"
    using None assms beg sel r st
    by (auto simp: updateProgress_def Let_def progress_text_def split: task_status.splits if_splits)
  then have "err' = None" "d' = work" by (simp_all add: end_tx_None)
  with wp obtain b where "jsonb p (progress_text pr) = Some b" "d' = progressed e i b fin fl d"
    by (auto elim: write_progress_cases)
  with None r st written show ?thesis by blast
qed

end
