(* ===== verification/Queue_System.thy ===== *)
theory Queue_System
  imports Queuer Dequeuer
begin

section \<open>The queue as a transition system\<close>

text \<open>
  Queuers and dequeuers of any number of processes work on one database. A step is one of
  their transactions. The lists of queues that an attempt to dequeue reads outside of its
  transaction can be arbitrarily old, so the rule for it leaves the two databases they come
  from open: what is proved of the steps holds for every interleaving.
\<close>

inductive queue_step :: "pg \<Rightarrow> queue_config \<Rightarrow> db \<Rightarrow> db \<Rightarrow> bool" for p cfg where
  enqueue: "Enqueue p e t d = (d', err) \<Longrightarrow> queue_step p cfg d d'"
| dequeue: "attempt_dequeue_at p cfg e queues du di d = (d', tk, err) \<Longrightarrow> queue_step p cfg d d'"
| heartbeat: "Heartbeat p e i pr d = (d', err) \<Longrightarrow> queue_step p cfg d d'"
| finish: "Finish p e i pr d = (d', err) \<Longrightarrow> queue_step p cfg d d'"
| fail: "Fail p e i pr d = (d', err) \<Longrightarrow> queue_step p cfg d d'"

inductive_cases queue_stepE: "queue_step p cfg d d'"

abbreviation queue_steps :: "pg \<Rightarrow> queue_config \<Rightarrow> db \<Rightarrow> db \<Rightarrow> bool" where
  "queue_steps p cfg \<equiv> (queue_step p cfg)\<^sup>*\<^sup>*"

definition empty_db :: db where
  "empty_db = \<lparr>tasks = [], schedules = []\<rparr>"

definition reachable :: "pg \<Rightarrow> queue_config \<Rightarrow> db \<Rightarrow> bool" where
  "reachable p cfg d \<longleftrightarrow> queue_steps p cfg empty_db d"

text \<open>
  The invariant: keys are unique, and the status of a task agrees with its time stamps.
\<close>

definition row_ok :: "task_row \<Rightarrow> bool" where
  "row_ok r \<longleftrightarrow>
     (started_at r = None \<longrightarrow> status r = Waiting) \<and>
     (status r = Waiting \<longrightarrow>
        started_at r = None \<and> finished_at r = None \<and> last_heartbeat_at r = None) \<and>
     (status r = Running \<longrightarrow> last_heartbeat_at r \<noteq> None) \<and>
     (status r = Finished \<or> status r = Failed \<longrightarrow>
        finished_at r \<noteq> None \<and> last_heartbeat_at r \<noteq> None) \<and>
     status r \<in> {Waiting, Running, Finished, Failed}"

definition db_ok :: "db \<Rightarrow> bool" where
  "db_ok d \<longleftrightarrow> distinct (map task_id (tasks d)) \<and> (\<forall>r \<in> set (tasks d). row_ok r)"

text \<open>
  What a step guarantees for a row: its identity and its request stay, time stamps are not
  taken back, and a finished task is not touched again.
\<close>

definition row_evolves :: "task_row \<Rightarrow> task_row \<Rightarrow> bool" where
  "row_evolves r r' \<longleftrightarrow>
     task_id r' = task_id r \<and> queue r' = queue r \<and> task_kind r' = task_kind r \<and>
     spec r' = spec r \<and> created_at r' = created_at r \<and> refs r' = refs r \<and>
     (started_at r \<noteq> None \<longrightarrow> started_at r' \<noteq> None) \<and>
     (finished_at r \<noteq> None \<longrightarrow> finished_at r' \<noteq> None) \<and>
     (status r = Finished \<longrightarrow> r' = r)"

definition tasks_evolve :: "db \<Rightarrow> db \<Rightarrow> bool" where
  "tasks_evolve d d' \<longleftrightarrow>
     (\<exists>rows new. tasks d' = rows @ new \<and> list_all2 row_evolves (tasks d) rows)"

subsection \<open>Steps that keep an invariant and a guarantee\<close>

text \<open>
  The interface between a step relation and what is proved of its runs: every step keeps the
  invariant, and gives the guarantee, a preorder, wherever the invariant holds.
\<close>

locale guaranteed_steps =
  fixes step :: "'s \<Rightarrow> 's \<Rightarrow> bool"
    and inv :: "'s \<Rightarrow> bool"
    and guar :: "'s \<Rightarrow> 's \<Rightarrow> bool"
  assumes step_inv: "step s t \<Longrightarrow> inv s \<Longrightarrow> inv t"
    and step_guar: "step s t \<Longrightarrow> inv s \<Longrightarrow> guar s t"
    and guar_refl: "guar s s"
    and guar_trans: "guar s t \<Longrightarrow> guar t u \<Longrightarrow> guar s u"
begin

lemma steps_inv: "step\<^sup>*\<^sup>* s t \<Longrightarrow> inv s \<Longrightarrow> inv t"
  by (induction rule: rtranclp_induct) (auto intro: step_inv)

lemma steps_guar: "step\<^sup>*\<^sup>* s t \<Longrightarrow> inv s \<Longrightarrow> guar s t"
proof (induction rule: rtranclp_induct)
  case base
  show ?case by (rule guar_refl)
next
  case (step t u)
  then have "inv t" by (blast intro: steps_inv)
  with step have "guar s t" "guar t u" by (auto intro: step_guar)
  then show ?case by (rule guar_trans)
qed

end

subsection \<open>Rows\<close>

lemma row_ok_enqueued: "row_ok (enqueued_row p e t)"
  by (simp add: row_ok_def)

lemma row_ok_start: "row_ok (start_row n r)"
  by (simp add: row_ok_def)

lemma row_ok_progress: "row_ok r \<Longrightarrow> status r \<noteq> Waiting \<Longrightarrow> fl \<longrightarrow> fin \<Longrightarrow> row_ok (set_progress n b fin fl r)"
  by (auto simp: row_ok_def)

lemma row_evolves_refl [simp]: "row_evolves r r"
  by (simp add: row_evolves_def)

lemma row_evolves_trans: "row_evolves r r' \<Longrightarrow> row_evolves r' r'' \<Longrightarrow> row_evolves r r''"
  by (auto simp: row_evolves_def)

lemma row_evolves_start: "status r \<noteq> Finished \<Longrightarrow> row_evolves r (start_row n r)"
  by (simp add: row_evolves_def)

lemma row_evolves_progress: "status r \<noteq> Finished \<Longrightarrow> row_evolves r (set_progress n b fin fl r)"
  by (simp add: row_evolves_def)

text \<open>Only a task that has no end can be picked.\<close>

lemma dequeuable_not_final:
  assumes "row_ok r" and "dequeuable p q t r"
  shows "finished_at r = None"
  using assms dequeuable_open [OF assms(2)] by (auto simp: row_ok_def)

lemma dequeuable_not_Finished:
  assumes "row_ok r" and "dequeuable p q t r"
  shows "status r \<noteq> Finished"
  using dequeuable_not_final [OF assms] assms(1) by (auto simp: row_ok_def)

subsection \<open>Tables\<close>

lemma list_all2_update_where:
  assumes "\<And>r. r \<in> set rows \<Longrightarrow> P r \<Longrightarrow> R r (f r)" and "\<And>r. R r r"
  shows "list_all2 R rows (update_where P f rows)"
  using assms by (induction rows) auto

lemma tasks_evolve_refl: "tasks_evolve d d"
  unfolding tasks_evolve_def by (rule exI [of _ "tasks d"]) (simp add: list_all2_refl)

lemma tasks_evolve_trans:
  assumes "tasks_evolve d d'" and "tasks_evolve d' d''"
  shows "tasks_evolve d d''"
proof -
  from assms obtain rows new rows' new'
    where 1: "tasks d' = rows @ new" "list_all2 row_evolves (tasks d) rows"
      and 2: "tasks d'' = rows' @ new'" "list_all2 row_evolves (rows @ new) rows'"
    unfolding tasks_evolve_def by metis
  from 2(2) obtain us vs where "rows' = us @ vs" "list_all2 row_evolves rows us"
    by (auto simp: list_all2_append1)
  moreover from 1(2) this(2) have "list_all2 row_evolves (tasks d) us"
    by (rule list_all2_trans [of row_evolves row_evolves row_evolves, rotated]) (fact row_evolves_trans)
  ultimately show ?thesis
    using 2(1) unfolding tasks_evolve_def by (intro exI [of _ us] exI [of _ "vs @ new'"]) simp
qed

lemma tasks_evolve_row:
  assumes "tasks_evolve d d'" and "r \<in> set (tasks d)"
  shows "\<exists>r' \<in> set (tasks d'). row_evolves r r'"
proof -
  from assms(1) obtain rows new where rows: "tasks d' = rows @ new" "list_all2 row_evolves (tasks d) rows"
    by (auto simp: tasks_evolve_def)
  from assms(2) obtain i where "i < length (tasks d)" "r = tasks d ! i"
    by (auto simp: in_set_conv_nth)
  with rows show ?thesis
    by (intro bexI [of _ "rows ! i"]) (auto dest: list_all2_nthD list_all2_lengthD)
qed

lemma tasks_evolve_append: "tasks d' = tasks d @ new \<Longrightarrow> tasks_evolve d d'"
  unfolding tasks_evolve_def by (rule exI [of _ "tasks d"]) (simp add: list_all2_refl)

lemma db_ok_same_tasks: "tasks d' = tasks d \<Longrightarrow> db_ok d' = db_ok d"
  by (simp add: db_ok_def)

lemma db_ok_row: "db_ok d \<Longrightarrow> r \<in> set (tasks d) \<Longrightarrow> row_ok r"
  by (simp add: db_ok_def)

lemma db_ok_update:
  assumes "db_ok d" and "\<And>r. task_id (f r) = task_id r"
    and "\<And>r. r \<in> set (tasks d) \<Longrightarrow> P r \<Longrightarrow> row_ok (f r)"
  shows "db_ok (d\<lparr>tasks := update_where P f (tasks d)\<rparr>)"
  using assms by (auto simp: db_ok_def map_update_where elim: in_update_whereE)

lemma same_id: "db_ok d \<Longrightarrow> r \<in> set (tasks d) \<Longrightarrow> r' \<in> set (tasks d) \<Longrightarrow> task_id r = task_id r' \<Longrightarrow> r = r'"
  by (auto simp: db_ok_def dest: distinct_map_inj)

lemma task_of_unique: "db_ok d \<Longrightarrow> task_of d i = Some r \<Longrightarrow> r' \<in> set (tasks d) \<Longrightarrow> task_id r' = i \<Longrightarrow> r' = r"
  using same_id task_of_in by blast

subsection \<open>Every operation keeps the invariant and gives the guarantee\<close>

lemma Enqueue_step:
  assumes "Enqueue p e t d = (d', err)" and "db_ok d"
  shows "db_ok d'" and "tasks_evolve d d'"
proof -
  have "db_ok d' \<and> tasks_evolve d d'"
  proof (cases err)
    case None
    with Enqueue_ok [of p e t d d'] assms show ?thesis
      by (auto simp: db_ok_def row_ok_enqueued intro: tasks_evolve_append)
  next
    case (Some x)
    with assms Enqueue_err_unchanged tasks_evolve_refl show ?thesis by blast
  qed
  then show "db_ok d'" and "tasks_evolve d d'" by blast+
qed

lemma started_step:
  assumes "select_task p q t d = Some r" and "db_ok d"
  shows "db_ok (started e r d)" and "tasks_evolve d (started e r d)"
proof -
  from select_task_Some [OF assms(1)] assms(2)
  have r: "r \<in> set (tasks d)" "row_ok r" "status r \<noteq> Finished"
    by (auto dest: db_ok_row dequeuable_not_Finished)
  show "db_ok (started e r d)"
    unfolding started_def using assms(2) by (intro db_ok_update) (auto intro: row_ok_start)
  have "list_all2 row_evolves (tasks d) (tasks (started e r d))"
    unfolding started_def
    by (simp, rule list_all2_update_where) (use r assms(2) same_id in \<open>auto intro: row_evolves_start\<close>)
  then show "tasks_evolve d (started e r d)"
    unfolding tasks_evolve_def by (intro exI [of _ "tasks (started e r d)"] exI [of _ "[]"]) simp
qed

lemma attempt_step:
  assumes "attempt_dequeue_at p cfg e queues du di d = (d', tk, err)" and "db_ok d"
  shows "db_ok d'" and "tasks_evolve d d'"
  using assms(1)
  by (cases rule: attempt_dequeue_at_cases; use assms(2) started_step tasks_evolve_refl in auto)+

lemma progressed_step:
  assumes "task_of d i = Some r" and "status r \<notin> {Waiting, Cancelled, Finished}"
    and "db_ok d" and "fl \<longrightarrow> fin"
  shows "db_ok (progressed e i b fin fl d)" and "tasks_evolve d (progressed e i b fin fl d)"
proof -
  have only: "r' = r" if "r' \<in> set (tasks d)" "task_id r' = i" for r'
    using task_of_unique [OF assms(3,1)] that by blast
  show "db_ok (progressed e i b fin fl d)"
    unfolding progressed_def using assms only
    by (intro db_ok_update) (auto intro!: row_ok_progress dest: db_ok_row)
  have "list_all2 row_evolves (tasks d) (tasks (progressed e i b fin fl d))"
    unfolding progressed_def
    by (simp, rule list_all2_update_where) (use only assms(2) in \<open>auto intro: row_evolves_progress\<close>)
  then show "tasks_evolve d (progressed e i b fin fl d)"
    unfolding tasks_evolve_def
    by (intro exI [of _ "tasks (progressed e i b fin fl d)"] exI [of _ "[]"]) simp
qed

lemma updateProgress_step:
  assumes "updateProgress p e i pr fin fl d = (d', err)" and "db_ok d" and "fl \<longrightarrow> fin"
  shows "db_ok d'" and "tasks_evolve d d'"
  using assms(1)
  by (cases rule: updateProgress_cases; use assms(2,3) progressed_step tasks_evolve_refl in auto)+

lemmas progress_ops = Heartbeat_def Finish_def Fail_def

lemma queue_step_inv: "queue_step p cfg d d' \<Longrightarrow> db_ok d \<Longrightarrow> db_ok d'"
  by (elim queue_stepE)
    (auto simp: progress_ops intro: Enqueue_step(1) attempt_step(1) updateProgress_step(1))

lemma queue_step_guar: "queue_step p cfg d d' \<Longrightarrow> db_ok d \<Longrightarrow> tasks_evolve d d'"
  by (elim queue_stepE)
    (auto simp: progress_ops intro: Enqueue_step(2) attempt_step(2) updateProgress_step(2))

interpretation qs: guaranteed_steps "queue_step p cfg" db_ok tasks_evolve for p cfg
  by unfold_locales
    (fact queue_step_inv queue_step_guar tasks_evolve_refl tasks_evolve_trans)+

lemma empty_db_ok [simp]: "db_ok empty_db"
  by (simp add: db_ok_def empty_db_def)

lemma reachable_ok: "reachable p cfg d \<Longrightarrow> db_ok d"
  unfolding reachable_def using qs.steps_inv empty_db_ok by blast

lemma reachable_steps: "reachable p cfg d \<Longrightarrow> queue_steps p cfg d d' \<Longrightarrow> reachable p cfg d'"
  unfolding reachable_def by auto

text \<open>No attempt, whatever lists it read, hands out a task that has an end.\<close>

lemma attempt_hands_out:
  assumes "attempt_dequeue_at p cfg e queues du di d = (d', Some t, None)"
  obtains q r where "r \<in> set (tasks d)" "dequeuable p q (doubleTTL cfg e) r" "t = started_task e r"
    "d' = started e r d"
    "\<And>r'. r' \<in> set (tasks d) \<Longrightarrow> dequeuable p q (doubleTTL cfg e) r' \<Longrightarrow> created_at r' \<le> created_at r"
  using assms
proof (cases rule: attempt_dequeue_at_cases)
  case (taken qs infl q r)
  from select_task_Some [OF taken(9)] taken that show ?thesis by blast
qed simp

lemma attempt_skips_ended:
  assumes "db_ok d" and "attempt_dequeue_at p cfg e queues du di d = (d', Some t, None)"
    and "r \<in> set (tasks d)" and "finished_at r \<noteq> None"
  shows "ID t \<noteq> task_id r"
proof
  assume id: "ID t = task_id r"
  from assms(2) obtain q s where s: "s \<in> set (tasks d)" "dequeuable p q (doubleTTL cfg e) s"
    "t = started_task e s" by (rule attempt_hands_out)
  with id assms(1,3) have "s = r" by (auto intro: same_id)
  with s(2) dequeuable_not_final [OF db_ok_row [OF assms(1,3)]] assms(4) show False by auto
qed

section \<open>Properties of the queue\<close>

subsection \<open>Example requests and environments\<close>

definition ex_cfg :: queue_config where
  "ex_cfg = \<lparr>HeartbeatTTL = 10, PollFrequency = 5, SchedulingInterval = 5,
     MinReconnectTimeout = 1, MaxReconnectTimeout = 2\<rparr>"

definition ex_enq :: "string \<Rightarrow> time \<Rightarrow> enqueue_env" where
  "ex_enq i n = \<lparr>new_task_id = i, insert_now = n, insert_err = None\<rparr>"

definition ex_req :: "string \<Rightarrow> task_enqueue_request" where
  "ex_req q = \<lparr>Queue = q, Type = ''mail'', Spec = None, References = None\<rparr>"

definition ex_deq :: "time \<Rightarrow> dequeue_env" where
  "ex_deq n = \<lparr>dq_now = n, dq_tx = tx_ok, unfinished_err = None, inflight_err = None, rand_n = 0,
     select_err = None, update_err = None\<rparr>"

definition ex_prog :: "time \<Rightarrow> progress_env" where
  "ex_prog n = \<lparr>up_now = n, up_tx = tx_ok, status_err = None, progress_err = None\<rparr>"

text \<open>
  Two tasks wait in one queue; the first is started, finished or failed. The values of the
  runs are code equations, so that witnesses evaluate quickly.
\<close>

definition ex_row :: "string \<Rightarrow> time \<Rightarrow> task_row" where
  "ex_row i n = enqueued_row sample_pg (ex_enq i n) (ex_req ''q'')"

definition ex_db1 :: db where
  "ex_db1 = fst (Enqueue sample_pg (ex_enq ''t1'' 1) (ex_req ''q'') empty_db)"

definition ex_db2 :: db where
  "ex_db2 = fst (Enqueue sample_pg (ex_enq ''t2'' 2) (ex_req ''q'') ex_db1)"

definition ex_run :: db where
  "ex_run = fst (attemptDequeue sample_pg ex_cfg (ex_deq 100) [] ex_db1)"

definition ex_done :: db where
  "ex_done = fst (Finish sample_pg (ex_prog 105) ''t1'' [] ex_run)"

definition ex_failed :: db where
  "ex_failed = fst (Fail sample_pg (ex_prog 105) ''t1'' [] ex_run)"

lemma ex_db1_eq [code]: "ex_db1 = \<lparr>tasks = [ex_row ''t1'' 1], schedules = []\<rparr>"
  by code_simp

lemma ex_db2_eq [code]: "ex_db2 = \<lparr>tasks = [ex_row ''t1'' 1, ex_row ''t2'' 2], schedules = []\<rparr>"
  by code_simp

lemma ex_run_eq [code]: "ex_run = \<lparr>tasks = [start_row 100 (ex_row ''t1'' 1)], schedules = []\<rparr>"
  by code_simp

lemma ex_done_eq [code]:
  "ex_done = \<lparr>tasks = [set_progress 105 emptyJSON True False (start_row 100 (ex_row ''t1'' 1))],
     schedules = []\<rparr>"
  by code_simp

lemma ex_failed_eq [code]:
  "ex_failed = \<lparr>tasks = [set_progress 105 emptyJSON True True (start_row 100 (ex_row ''t1'' 1))],
     schedules = []\<rparr>"
  by code_simp

text \<open>The newer of two waiting tasks is handed out.\<close>

lemma ex_db2_dequeue:
  "attemptDequeue sample_pg ex_cfg (ex_deq 100) [] ex_db2 =
     (\<lparr>tasks = [ex_row ''t1'' 1, start_row 100 (ex_row ''t2'' 2)], schedules = []\<rparr>,
      Some (started_task (ex_deq 100) (ex_row ''t2'' 2)), None)"
  by code_simp

subsection \<open>Reachable databases\<close>

lemma queue_step_ops:
  "queue_step p cfg d (fst (Enqueue p e1 t d))"
  "queue_step p cfg d (fst (attemptDequeue p cfg e2 queues d))"
  "queue_step p cfg d (fst (Heartbeat p e3 i pr d))"
  "queue_step p cfg d (fst (Finish p e3 i pr d))"
  "queue_step p cfg d (fst (Fail p e3 i pr d))"
  by (metis prod.collapse attemptDequeue_def queue_step.intros)+

lemma reachable_ops:
  assumes "reachable p cfg d"
  shows "reachable p cfg (fst (Enqueue p e1 t d))"
    "reachable p cfg (fst (attemptDequeue p cfg e2 queues d))"
    "reachable p cfg (fst (Heartbeat p e3 i pr d))"
    "reachable p cfg (fst (Finish p e3 i pr d))"
    "reachable p cfg (fst (Fail p e3 i pr d))"
  using assms by (auto intro: reachable_steps queue_step_ops)

lemma reachable_empty: "reachable p cfg empty_db"
  by (simp add: reachable_def)

lemma ex_reachable:
  "reachable sample_pg ex_cfg ex_db1" "reachable sample_pg ex_cfg ex_db2"
  "reachable sample_pg ex_cfg ex_run" "reachable sample_pg ex_cfg ex_done"
  "reachable sample_pg ex_cfg ex_failed"
  by (simp_all add: ex_db1_def ex_db2_def ex_run_def ex_done_def ex_failed_def
      reachable_ops reachable_empty)

text \<open>
  C3: In every database that any interleaving of enqueue, dequeue, heartbeat, finish and fail transactions can produce, also with failing statements and with outdated queue lists, task identifiers are unique and the status of every task agrees with its time stamps: a task without a start is waiting, a running one has a heartbeat, and a finished or failed one has an end.
\<close>

theorem reachable_queue_ok: "reachable p cfg d \<Longrightarrow> db_ok d"
  by (rule reachable_ok)

theorem reachable_queue_ok_witness:
  "reachable sample_pg ex_cfg ex_failed \<and> db_ok ex_failed"
  using reachable_queue_ok [OF ex_reachable(5)] ex_reachable(5) by blast

text \<open>
  C4: Once a task is finished its row never changes again, whatever queuers, dequeuers and workers do, and no dequeuer ever hands it out, whatever lists of queues it read before.
\<close>

theorem finished_task_is_final:
  assumes "reachable p cfg d" and "queue_steps p cfg d d'"
    and "r \<in> set (tasks d)" and "status r = Finished"
  shows "r \<in> set (tasks d') \<and>
    (\<forall>e queues du di t. snd (attempt_dequeue_at p cfg e queues du di d') = (Some t, None)
       \<longrightarrow> ID t \<noteq> task_id r)"
proof -
  from assms(1) have ok: "db_ok d" by (rule reachable_ok)
  from qs.steps_guar [OF assms(2) ok] assms(3,4) have r: "r \<in> set (tasks d')"
    by (auto simp: row_evolves_def dest: tasks_evolve_row)
  from qs.steps_inv [OF assms(2) ok] have ok': "db_ok d'" .
  from db_ok_row [OF ok' r] assms(4) have "finished_at r \<noteq> None" by (simp add: row_ok_def)
  with r ok' show ?thesis by (metis attempt_skips_ended prod.collapse)
qed

theorem finished_task_is_final_witness:
  "reachable sample_pg ex_cfg ex_done \<and> hd (tasks ex_done) \<in> set (tasks ex_done) \<and>
   status (hd (tasks ex_done)) = Finished \<and>
   hd (tasks ex_done) \<in> set (tasks (fst (Heartbeat sample_pg (ex_prog 107) ''t1'' [] ex_done)))"
proof -
  have r: "hd (tasks ex_done) \<in> set (tasks ex_done)" and s: "status (hd (tasks ex_done)) = Finished"
    by code_simp+
  have "queue_steps sample_pg ex_cfg ex_done (fst (Heartbeat sample_pg (ex_prog 107) ''t1'' [] ex_done))"
    by (blast intro: queue_step_ops)
  from finished_task_is_final [OF ex_reachable(4) this r s] r s ex_reachable(4) show ?thesis by blast
qed

text \<open>
  A task that ended, finished or failed, is never handed out to a worker again by any later dequeue.
\<close>

theorem ended_task_never_restarted:
  assumes "reachable p cfg d" and "queue_steps p cfg d d'"
    and "r \<in> set (tasks d)" and "finished_at r \<noteq> None"
    and "attempt_dequeue_at p cfg e queues du di d' = (d'', Some t, None)"
  shows "ID t \<noteq> task_id r"
proof -
  from assms(1) have ok: "db_ok d" by (rule reachable_ok)
  from tasks_evolve_row [OF qs.steps_guar [OF assms(2) ok] assms(3)]
  obtain r' where r': "r' \<in> set (tasks d')" "row_evolves r r'" by blast
  with assms(4) have "finished_at r' \<noteq> None" and id: "task_id r' = task_id r"
    by (simp_all add: row_evolves_def)
  from attempt_skips_ended [OF qs.steps_inv [OF assms(2) ok] assms(5) r'(1) this(1)] id
  show ?thesis by simp
qed

text \<open>
  C8: No step removes a task or changes what was requested: every task of a reachable database is in every later one with the same identity, queue, type, specification and references, and its start and end are never taken back.
\<close>

theorem no_task_lost:
  assumes "reachable p cfg d" and "queue_steps p cfg d d'" and "r \<in> set (tasks d)"
  shows "\<exists>r' \<in> set (tasks d'). row_evolves r r'"
  using tasks_evolve_row [OF qs.steps_guar [OF assms(2) reachable_ok [OF assms(1)]] assms(3)] .


theorem ended_task_never_restarted_witness:
  "let d = fst (Enqueue sample_pg (ex_enq ''t2'' 110) (ex_req ''q'') ex_failed);
       t = started_task (ex_deq 120) (ex_row ''t2'' 110) in
   finished_at (hd (tasks ex_failed)) \<noteq> None \<and>
   snd (attemptDequeue sample_pg ex_cfg (ex_deq 120) [] d) = (Some t, None) \<and>
   ID t \<noteq> task_id (hd (tasks ex_failed))"
proof -
  let ?d = "fst (Enqueue sample_pg (ex_enq ''t2'' 110) (ex_req ''q'') ex_failed)"
  let ?t = "started_task (ex_deq 120) (ex_row ''t2'' 110)"
  have a: "snd (attemptDequeue sample_pg ex_cfg (ex_deq 120) [] ?d) = (Some ?t, None)" by code_simp
  then obtain d' where d': "attempt_dequeue_at sample_pg ex_cfg (ex_deq 120) [] ?d ?d ?d = (d', Some ?t, None)"
    unfolding attemptDequeue_def by (metis prod.collapse)
  have r: "hd (tasks ex_failed) \<in> set (tasks ex_failed)" "finished_at (hd (tasks ex_failed)) \<noteq> None"
    by code_simp+
  have "queue_steps sample_pg ex_cfg ex_failed ?d" by (blast intro: queue_step_ops)
  from ended_task_never_restarted [OF ex_reachable(5) this r d'] r a show ?thesis by (simp add: Let_def)
qed

theorem no_task_lost_witness:
  "\<exists>r' \<in> set (tasks ex_run). row_evolves (hd (tasks ex_db1)) r'"
proof -
  have "queue_steps sample_pg ex_cfg ex_db1 ex_run"
    unfolding ex_run_def by (blast intro: queue_step_ops)
  moreover have "hd (tasks ex_db1) \<in> set (tasks ex_db1)" by code_simp
  ultimately show ?thesis using no_task_lost [OF ex_reachable(1)] by blast
qed

text \<open>
  C9: A dequeue that returns a task took one that was not started yet or whose heartbeat is older than twice the heartbeat period, and of all such tasks of the chosen queue one with the latest creation time; it marks exactly this row as running. (The comments of the code announce the oldest task.)
\<close>

theorem dequeue_picks_newest:
  assumes "attempt_dequeue_at p cfg e queues du di d = (d', Some t, None)"
  shows "\<exists>r q. r \<in> set (tasks d) \<and> dequeuable p q (doubleTTL cfg e) r \<and>
     (\<forall>r' \<in> set (tasks d). dequeuable p q (doubleTTL cfg e) r' \<longrightarrow> created_at r' \<le> created_at r) \<and>
     t = started_task e r \<and>
     tasks d' = map (\<lambda>r'. if task_id r' = ID t then start_row (dq_now e) r' else r') (tasks d)"
proof -
  from assms obtain q r where "r \<in> set (tasks d)" "dequeuable p q (doubleTTL cfg e) r"
    "t = started_task e r" "d' = started e r d"
    "\<And>r'. r' \<in> set (tasks d) \<Longrightarrow> dequeuable p q (doubleTTL cfg e) r' \<Longrightarrow> created_at r' \<le> created_at r"
    by (rule attempt_hands_out) blast
  then show ?thesis
    by (intro exI [of _ r] exI [of _ q]) (simp add: started_def update_where_def)
qed

theorem dequeue_picks_newest_witness:
  "\<exists>r q. r \<in> set (tasks ex_db2) \<and> dequeuable sample_pg q 80 r \<and>
     (\<forall>r' \<in> set (tasks ex_db2). dequeuable sample_pg q 80 r' \<longrightarrow> created_at r' \<le> created_at r) \<and>
     started_task (ex_deq 100) (ex_row ''t2'' 2) = started_task (ex_deq 100) r"
proof -
  have ttl: "doubleTTL ex_cfg (ex_deq 100) = 80" by code_simp
  from dequeue_picks_newest [OF ex_db2_dequeue [unfolded attemptDequeue_def], unfolded ttl]
  show ?thesis by (elim exE conjE) (intro exI conjI)
qed

subsection \<open>One task per queue\<close>

text \<open>
  Go compares the names of queues byte by byte, the columns of type \<open>citext\<close> without case.
  Both agree when every queue is always spelled the same way.
\<close>

definition one_spelling :: "pg \<Rightarrow> string list \<Rightarrow> db \<Rightarrow> bool" where
  "one_spelling p queues d \<longleftrightarrow>
     (\<forall>r \<in> set (tasks d). \<forall>q \<in> set queues \<union> queue ` set (tasks d). ci_eq p q (queue r) \<longrightarrow> q = queue r)"

lemma one_spellingD:
  "one_spelling p queues d \<Longrightarrow> r \<in> set (tasks d) \<Longrightarrow> q \<in> set queues \<union> queue ` set (tasks d) \<Longrightarrow>
    ci_eq p q (queue r) \<Longrightarrow> q = queue r"
  unfolding one_spelling_def by blast

lemma one_spelling_rows:
  "one_spelling p queues d \<Longrightarrow> r \<in> set (tasks d) \<Longrightarrow> r' \<in> set (tasks d) \<Longrightarrow>
    ci_eq p (queue r') (queue r) \<Longrightarrow> queue r' = queue r"
  unfolding one_spelling_def by blast

definition inflight_of :: "pg \<Rightarrow> time \<Rightarrow> string \<Rightarrow> db \<Rightarrow> task_row list" where
  "inflight_of p t q d = filter (\<lambda>r. inflight t r \<and> ci_eq p (queue r) q) (tasks d)"

lemma idle_queue_not_listed:
  assumes "generateInflightQueueList p e t d = (infl, None)" and "inflight_of p t q d = []"
  shows "q \<notin> set infl"
  using queue_list_sound [OF assms(1) [unfolded generateInflightQueueList_def]] assms(2)
  by (fastforce simp: inflight_of_def filter_empty_conv)

lemma busy_queue_listed:
  assumes "generateInflightQueueList p e t d = (infl, None)" and "inflight_of p t q d \<noteq> []"
    and "\<And>r. r \<in> set (tasks d) \<Longrightarrow> ci_eq p q (queue r) \<Longrightarrow> q = queue r"
    and "\<And>r r'. r \<in> set (tasks d) \<Longrightarrow> r' \<in> set (tasks d) \<Longrightarrow> ci_eq p (queue r') (queue r) \<Longrightarrow> queue r' = queue r"
  shows "q \<in> set infl"
proof -
  note gen = assms(1) [unfolded generateInflightQueueList_def]
  from assms(2) obtain r where r: "r \<in> set (tasks d)" "inflight t r" "ci_eq p (queue r) q"
    by (auto simp: inflight_of_def filter_empty_conv)
  from queue_list_complete [OF gen r(1,2)] obtain q' where q': "q' \<in> set infl" "ci_eq p q' (queue r)" by blast
  from queue_list_sound [OF gen q'(1)] obtain r' where "r' \<in> set (tasks d)" "queue r' = q'" by blast
  with q' r assms(4) have "q' = queue r" by blast
  moreover have "q = queue r" using r assms(3) ci_eq_sym by blast
  ultimately show ?thesis using q'(1) by simp
qed

lemma doubleTTL_past: "0 < HeartbeatTTL cfg \<Longrightarrow> HeartbeatTTL cfg < 2 ^ 62 \<Longrightarrow> doubleTTL cfg e < dq_now e"
  by (simp add: doubleTTL_def)

lemma started_inflight_of:
  assumes "db_ok d" and "select_task p q t d = Some r" and "inflight_of p t q d = []" and "t < dq_now e"
  shows "inflight_of p t q (started e r d) = [start_row (dq_now e) r]"
proof -
  from select_task_Some [OF assms(2)] have r: "r \<in> set (tasks d)" "dequeuable p q t r" by auto
  have fin: "finished_at r = None" using dequeuable_not_final [OF db_ok_row [OF assms(1) r(1)] r(2)] .
  have q: "ci_eq p (queue r) q" using dequeuable_queue [OF r(2)] .
  have "filter (\<lambda>r. inflight t r \<and> ci_eq p (queue r) q)
      (update_where (\<lambda>r'. task_id r' = task_id r) (start_row (dq_now e)) rows) = [start_row (dq_now e) r]"
    if "distinct (map task_id rows)" "r \<in> set rows"
      "\<forall>r' \<in> set rows. \<not> (inflight t r' \<and> ci_eq p (queue r') q)" for rows
    using that
  proof (induction rows)
    case (Cons a rows)
    show ?case
    proof (cases "a = r")
      case True
      with Cons.prems have "\<forall>r' \<in> set rows. task_id r' \<noteq> task_id r" by (auto simp: image_iff)
      then have "update_where (\<lambda>r'. task_id r' = task_id r) (start_row (dq_now e)) rows = rows"
        by (blast intro: update_where_unmatched)
      with True Cons.prems fin q assms(4) show ?thesis
        by (auto simp: inflight_def filter_empty_conv)
    next
      case False
      with Cons.prems have "task_id a \<noteq> task_id r" "r \<in> set rows" by auto
      with Cons show ?thesis by auto
    qed
  qed simp
  with assms(1,3) r(1) show ?thesis
    by (auto simp: inflight_of_def started_def db_ok_def filter_empty_conv)
qed

text \<open>
  C5: A dequeue that no other process interrupts keeps one task per queue: when it returns a
  task, no other task of the queue is in flight (started, without an end and with a heartbeat
  in the last two periods), and the task returned is. The names of queues are assumed to be
  spelled in one way.
\<close>

theorem sequential_dequeue_exclusive:
  assumes "reachable p cfg d" and "one_spelling p queues d"
    and "0 < HeartbeatTTL cfg" and "HeartbeatTTL cfg < 2 ^ 62"
    and "attemptDequeue p cfg e queues d = (d', Some t, None)"
  shows "\<exists>r \<in> set (tasks d). t = started_task e r \<and>
     inflight_of p (doubleTTL cfg e) (queue r) d = [] \<and>
     inflight_of p (doubleTTL cfg e) (queue r) d' = [start_row (dq_now e) r]"
  using assms(5) [unfolded attemptDequeue_def]
proof (cases rule: attempt_dequeue_at_cases)
  case (taken qs infl q r)
  have ok: "db_ok d" using assms(1) by (rule reachable_ok)
  from select_task_Some [OF taken(9)] have r: "r \<in> set (tasks d)" "dequeuable p q (doubleTTL cfg e) r"
    by auto
  have "q \<in> set queues \<union> queue ` set (tasks d)"
  proof (cases "queues = []")
    case True
    with taken(5,7) show ?thesis unfolding generateUnfinishedQueueList_def
      by (auto dest: queue_list_sound)
  qed (use taken in auto)
  note sp = one_spellingD [OF assms(2) _ this] one_spelling_rows [OF assms(2)]
  from dequeuable_queue [OF r(2)] have q: "q = queue r" by (intro sp(1) [OF r(1)] ci_eq_sym [of p "queue r"])
  have idle: "inflight_of p (doubleTTL cfg e) q d = []"
    using busy_queue_listed [OF taken(6) _ sp(1) sp(2)] taken(8) by (cases "inflight_of p (doubleTTL cfg e) q d = []") auto
  from started_inflight_of [OF ok taken(9) idle doubleTTL_past [OF assms(3,4)]]
  show ?thesis using r(1) taken(2,3) idle q by auto
qed simp

theorem sequential_dequeue_exclusive_witness:
  "\<exists>r \<in> set (tasks ex_db2). started_task (ex_deq 100) (ex_row ''t2'' 2) = started_task (ex_deq 100) r \<and>
     inflight_of sample_pg 80 (queue r) ex_db2 = [] \<and>
     inflight_of sample_pg 80 (queue r) (fst (attemptDequeue sample_pg ex_cfg (ex_deq 100) [] ex_db2))
       = [start_row 100 r]"
proof -
  have c: "one_spelling sample_pg [] ex_db2" "0 < HeartbeatTTL ex_cfg" "HeartbeatTTL ex_cfg < 2 ^ 62"
    "doubleTTL ex_cfg (ex_deq 100) = 80" "dq_now (ex_deq 100) = 100"
    by code_simp+
  from sequential_dequeue_exclusive [OF ex_reachable(2) c(1-3) ex_db2_dequeue]
  show ?thesis unfolding c(4,5) ex_db2_dequeue fst_conv .
qed

text \<open>The environment of an attempt that the database answers.\<close>

definition deq_ok :: "dequeue_env \<Rightarrow> bool" where
  "deq_ok e \<longleftrightarrow> begin_err (dq_tx e) = None \<and> commit_err (dq_tx e) = None \<and> unfinished_err e = None \<and>
     inflight_err e = None \<and> select_err e = None \<and> update_err e = None"

lemma lists_ok:
  assumes "deq_ok e"
  obtains qs infl where "generateUnfinishedQueueList p e d = (qs, None)"
    "generateInflightQueueList p e t d = (infl, None)"
  using assms
  by (auto simp: deq_ok_def generateUnfinishedQueueList_def generateInflightQueueList_def generateQueueList_def)

lemma take_task_ok:
  "deq_ok e \<Longrightarrow> select_task p q t d = Some r \<Longrightarrow> take_task p e q t d = (started e r d, Some (started_task e r), None)"
  by (simp add: deq_ok_def take_task_def started_def started_task_def)

text \<open>
  Starting a task that is not in flight adds one to the tasks in flight of its queue.
\<close>

lemma started_inflight_length:
  assumes "db_ok d" and "r \<in> set (tasks d)" and "ci_eq p (queue r) q" and "finished_at r = None"
    and "\<not> inflight t r" and "t < dq_now e"
  shows "length (inflight_of p t q (started e r d)) = Suc (length (inflight_of p t q d))"
proof -
  have "length (filter (\<lambda>r. inflight t r \<and> ci_eq p (queue r) q)
      (update_where (\<lambda>r'. task_id r' = task_id r) (start_row (dq_now e)) rows)) =
      Suc (length (filter (\<lambda>r. inflight t r \<and> ci_eq p (queue r) q) rows))"
    if "distinct (map task_id rows)" "r \<in> set rows" for rows
    using that
  proof (induction rows)
    case (Cons a rows)
    show ?case
    proof (cases "a = r")
      case True
      with Cons.prems have "\<forall>r' \<in> set rows. task_id r' \<noteq> task_id r" by (auto simp: image_iff)
      then have "update_where (\<lambda>r'. task_id r' = task_id r) (start_row (dq_now e)) rows = rows"
        by (blast intro: update_where_unmatched)
      moreover have "inflight t (start_row (dq_now e) r)" using assms(4,6) by (simp add: inflight_def)
      ultimately show ?thesis using True assms(3,5) by simp
    next
      case False
      with Cons.prems have "task_id a \<noteq> task_id r" "r \<in> set rows" by auto
      with Cons show ?thesis by auto
    qed
  qed simp
  with assms(1,2) show ?thesis by (simp add: inflight_of_def started_def db_ok_def)
qed

lemma dequeuable_idle: "row_ok r \<Longrightarrow> dequeuable p q t r \<Longrightarrow> \<not> inflight t r"
  using dequeuable_not_inflight [of p q t r] by (cases "started_at r") (auto simp: row_ok_def inflight_def)

lemma one_spelling_started: "one_spelling p qs d \<Longrightarrow> one_spelling p qs (started e r d)"
  by (force simp: one_spelling_def started_def elim!: in_update_whereE)

lemma attempt_one_queue:
  assumes "deq_ok e" and "generateInflightQueueList p e (doubleTTL cfg e) di = (infl, None)"
  shows "attempt_dequeue_at p cfg e [q] du di d =
    (if q \<in> set infl then (d, None, None)
     else (case select_task p q (doubleTTL cfg e) d of None \<Rightarrow> (d, None, None)
           | Some r \<Rightarrow> (started e r d, Some (started_task e r), None)))"
  using assms
  by (auto simp: attempt_dequeue_at_def attempt_body_def processableQueues_eq deq_ok_def take_task_def
      started_def started_task_def split: option.splits)



text \<open>
  C7: No dequeuer takes a task away from a worker that is alive: a task that was started and
  whose last heartbeat is not older than twice the heartbeat period is never handed out,
  whatever lists of queues the dequeuer read.
\<close>

theorem live_task_not_stolen:
  assumes "reachable p cfg d" and "r \<in> set (tasks d)" and "started_at r \<noteq> None"
    and "last_heartbeat_at r = Some h" and "doubleTTL cfg e \<le> h"
    and "attempt_dequeue_at p cfg e queues du di d = (d', Some t, None)"
  shows "ID t \<noteq> task_id r"
proof
  assume id: "ID t = task_id r"
  from assms(6) obtain q s where s: "s \<in> set (tasks d)" "dequeuable p q (doubleTTL cfg e) s"
    "t = started_task e s" by (rule attempt_hands_out)
  with id reachable_ok [OF assms(1)] assms(2) have "s = r" by (auto intro: same_id)
  with s(2) assms(3-5) show False by (auto simp: dequeuable_def)
qed

theorem live_task_not_stolen_witness:
  "let d = fst (Enqueue sample_pg (ex_enq ''t2'' 2) (ex_req ''p'') ex_run);
       a = snd (attemptDequeue sample_pg ex_cfg (ex_deq 105) [] d) in
   a = (fst a, None) \<and> fst a \<noteq> None \<and> ID (the (fst a)) \<noteq> task_id (hd (tasks ex_run))"
proof -
  let ?d = "fst (Enqueue sample_pg (ex_enq ''t2'' 2) (ex_req ''p'') ex_run)"
  let ?a = "snd (attemptDequeue sample_pg ex_cfg (ex_deq 105) [] ?d)"
  have a: "?a = (Some (started_task (ex_deq 105) (enqueued_row sample_pg (ex_enq ''t2'' 2) (ex_req ''p''))), None)"
    by code_simp
  then obtain d' where d': "attempt_dequeue_at sample_pg ex_cfg (ex_deq 105) [] ?d ?d ?d =
     (d', Some (started_task (ex_deq 105) (enqueued_row sample_pg (ex_enq ''t2'' 2) (ex_req ''p''))), None)"
    unfolding attemptDequeue_def by (metis prod.collapse)
  have r: "hd (tasks ex_run) \<in> set (tasks ?d)" "started_at (hd (tasks ex_run)) \<noteq> None"
    "last_heartbeat_at (hd (tasks ex_run)) = Some 100" "doubleTTL ex_cfg (ex_deq 105) \<le> 100"
    by code_simp+
  from live_task_not_stolen [OF reachable_ops(1) [OF ex_reachable(3)] r d'] a
  show ?thesis by (simp add: Let_def)
qed

end
