(* ===== verification/Queue_Service.thy ===== *)
theory Queue_Service
  imports Queue_System
begin

section \<open>The service the queue gives\<close>

text \<open>
  What a client of the queue gets when the database answers: available work is handed out, it
  is the work that was enqueued, a dequeue blocks no longer than its context, and the progress
  of a task is accepted in the states the code accepts it in.
\<close>

subsection \<open>What is available is handed out\<close>

lemma attemptDequeue_ok:
  assumes "deq_ok e"
    and "(if queues = [] then generateUnfinishedQueueList p e d else (queues, None)) = (qs, None)"
    and "generateInflightQueueList p e (doubleTTL cfg e) d = (infl, None)"
    and "n < length (processableQueues infl qs)" and "processableQueues infl qs ! n = q"
    and "rand_n e = n" and "select_task p q (doubleTTL cfg e) d = Some r"
  shows "attemptDequeue p cfg e queues d = (started e r d, Some (started_task e r), None)"
proof -
  from assms have "processableQueues infl qs \<noteq> []" by auto
  with assms have "attempt_body p cfg e queues d d d = (started e r d, Some (started_task e r), None)"
    by (simp add: attempt_body_def take_task_ok)
  with assms(1) show ?thesis
    by (simp add: attemptDequeue_def attempt_dequeue_at_def deq_ok_def)
qed

lemma env_rand [simp]:
  "deq_ok (e\<lparr>rand_n := n\<rparr>) = deq_ok e" "doubleTTL cfg (e\<lparr>rand_n := n\<rparr>) = doubleTTL cfg e"
  "generateUnfinishedQueueList p (e\<lparr>rand_n := n\<rparr>) d = generateUnfinishedQueueList p e d"
  "generateInflightQueueList p (e\<lparr>rand_n := n\<rparr>) t d = generateInflightQueueList p e t d"
  by (simp_all add: deq_ok_def doubleTTL_def generateUnfinishedQueueList_def generateInflightQueueList_def)

text \<open>
  C10: A task that is waiting, or whose worker has not sent a heartbeat for two periods, is not
  starved by the selection: when no task of its queue is in flight and the database answers,
  there is a draw of the random queue with which the attempt hands out a task of this queue.
\<close>

theorem idle_queue_served:
  assumes "reachable p cfg d" and "deq_ok e"
    and "r \<in> set (tasks d)" and "dequeuable p (queue r) (doubleTTL cfg e) r"
    and "inflight_of p (doubleTTL cfg e) (queue r) d = []"
  shows "\<exists>n d' t. attemptDequeue p cfg (e\<lparr>rand_n := n\<rparr>) [] d = (d', Some t, None) \<and>
     ci_eq p (Queue t) (queue r)"
proof -
  obtain qs infl where qs: "generateUnfinishedQueueList p e d = (qs, None)"
    and infl: "generateInflightQueueList p e (doubleTTL cfg e) d = (infl, None)"
    using assms(2) by (rule lists_ok)
  have "finished_at r = None"
    using dequeuable_not_final [OF db_ok_row [OF reachable_ok [OF assms(1)] assms(3)] assms(4)] .
  with queue_list_complete [OF qs [unfolded generateUnfinishedQueueList_def] assms(3)]
  obtain q where q: "q \<in> set qs" "ci_eq p q (queue r)" by blast
  then have same: "inflight_of p t q d = inflight_of p t (queue r) d" "dequeuable p q t = dequeuable p (queue r) t" for t
    by (auto simp: inflight_of_def dequeuable_def ci_eq_def fun_eq_iff)
  from idle_queue_not_listed [OF infl] assms(5) same q(1) have "q \<in> set (processableQueues infl qs)"
    by (simp add: processableQueues_eq)
  then obtain n where n: "n < length (processableQueues infl qs)" "processableQueues infl qs ! n = q"
    by (auto simp: in_set_conv_nth)
  from assms(3,4) same obtain r' where r': "select_task p q (doubleTTL cfg e) d = Some r'"
    by (metis select_task_None not_None_eq)
  have "attemptDequeue p cfg (e\<lparr>rand_n := n\<rparr>) [] d =
      (started (e\<lparr>rand_n := n\<rparr>) r' d, Some (started_task (e\<lparr>rand_n := n\<rparr>) r'), None)"
    by (rule attemptDequeue_ok [where qs = qs and infl = infl and n = n and q = q])
      (use assms(2) qs infl n r' in simp_all)
  moreover have "ci_eq p (queue r') (queue r)"
    using dequeuable_queue [OF select_task_Some(2) [OF r']] q(2) by (simp add: ci_eq_def)
  ultimately show ?thesis by (intro exI conjI) (assumption, simp add: started_task_def scan_def)
qed

theorem idle_queue_served_witness:
  "\<exists>n d' t. attemptDequeue sample_pg ex_cfg ((ex_deq 200)\<lparr>rand_n := n\<rparr>) [] ex_run = (d', Some t, None) \<and>
     ci_eq sample_pg (Queue t) (queue (hd (tasks ex_run)))"
proof -
  have "deq_ok (ex_deq 200)" "hd (tasks ex_run) \<in> set (tasks ex_run)"
    "dequeuable sample_pg (queue (hd (tasks ex_run))) (doubleTTL ex_cfg (ex_deq 200)) (hd (tasks ex_run))"
    "inflight_of sample_pg (doubleTTL ex_cfg (ex_deq 200)) (queue (hd (tasks ex_run))) ex_run = []"
    by code_simp+
  from idle_queue_served [OF ex_reachable(3) this] show ?thesis .
qed

text \<open>
  C11: What is enqueued is what a worker gets: a request enqueued to a queue that has no other
  task is handed out by the next dequeue of this queue with the identifier, queue and type of
  the request and the stored text of its specification, an empty object when it has none.
\<close>

theorem enqueue_dequeue_roundtrip:
  assumes "pg_ok p" and "reachable p cfg d" and "Enqueue p en t d = (d1, None)"
    and "\<forall>r \<in> set (tasks d). \<not> ci_eq p (queue r) (Queue t)" and "deq_ok e"
    and "jsonb p (case Spec t of None \<Rightarrow> emptyJSON | Some b \<Rightarrow> b) = Some b"
  shows "\<exists>d2 tk. attemptDequeue p cfg e [Queue t] d1 = (d2, Some tk, None) \<and>
     ID tk = new_task_id en \<and> Queue tk = Queue t \<and> Type tk = Type t \<and> Spec tk = Some b \<and>
     StartedAt tk = Some (dq_now e)"
proof -
  let ?r = "enqueued_row p en t"
  from Enqueue_ok(1) [OF assms(3)] have d1: "tasks d1 = tasks d @ [?r]" by simp
  obtain infl where infl: "generateInflightQueueList p e (doubleTTL cfg e) d1 = (infl, None)"
    using assms(5) by (rule lists_ok)
  have "inflight_of p (doubleTTL cfg e) (Queue t) d1 = []"
    using assms(4) d1 by (auto simp: inflight_of_def inflight_def filter_empty_conv)
  from idle_queue_not_listed [OF infl this] have q: "processableQueues infl [Queue t] = [Queue t]"
    by (simp add: processableQueues_eq)
  have "filter (dequeuable p (Queue t) (doubleTTL cfg e)) (tasks d1) = [?r]"
    using assms(4) d1 by (auto simp: dequeuable_def filter_empty_conv)
  then have sel: "select_task p (Queue t) (doubleTTL cfg e) d1 = Some ?r" by (simp add: select_task_def)
  have "attemptDequeue p cfg e [Queue t] d1 = (started e ?r d1, Some (started_task e ?r), None)"
    using assms(5) infl q sel by (simp add: attemptDequeue_def attempt_dequeue_at_def attempt_body_def deq_ok_def take_task_ok)
  moreover have "spec ?r = b" "b \<noteq> []"
    using assms(6) pg_okD(3) [OF assms(1,6)] by (simp_all add: enqueued_row_def)
  ultimately show ?thesis by (simp add: started_task_def scan_def)
qed

theorem enqueue_dequeue_roundtrip_witness:
  "\<exists>d2 tk. attemptDequeue sample_pg ex_cfg (ex_deq 100) [''q''] ex_db1 = (d2, Some tk, None) \<and>
     ID tk = ''t1'' \<and> Queue tk = ''q'' \<and> Type tk = ''mail'' \<and> Spec tk = Some ''{}'' \<and>
     StartedAt tk = Some 100"
proof -
  have e: "Enqueue sample_pg (ex_enq ''t1'' 1) (ex_req ''q'') empty_db = (ex_db1, None)"
    "\<forall>r \<in> set (tasks empty_db). \<not> ci_eq sample_pg (queue r) (Queue (ex_req ''q''))"
    "deq_ok (ex_deq 100)"
    "jsonb sample_pg (case Spec (ex_req ''q'') of None \<Rightarrow> emptyJSON | Some b \<Rightarrow> b) = Some ''{}''"
    by code_simp+
  from enqueue_dequeue_roundtrip [OF sample_pg_ok reachable_empty e]
  show ?thesis by (simp add: ex_req_def ex_enq_def ex_deq_def)
qed

subsection \<open>Blocking\<close>

lemma wait_loop_result: "wait_loop p cfg queues evs d = Some (d', t, err) \<Longrightarrow> t \<noteq> None \<or> err \<noteq> None"
proof (induction evs arbitrary: d)
  case (Cons ev evs)
  obtain w others e ping where ev: "ev = (w, others, e, ping)" by (metis prod.collapse)
  obtain d1 t1 err1 where a: "attemptDequeue p cfg e queues (others d) = (d1, t1, err1)" by (metis prod.collapse)
  show ?case
    using Cons.prems Cons.IH [of d1] ev a by (cases w) (auto split: if_splits option.splits)
qed simp

lemma wait_loop_done: "\<exists>x others e ping. (CtxDone x, others, e, ping) \<in> set evs \<Longrightarrow> wait_loop p cfg queues evs d \<noteq> None"
proof (induction evs arbitrary: d)
  case (Cons ev evs)
  obtain w others e ping where ev: "ev = (w, others, e, ping)" by (metis prod.collapse)
  obtain d1 t1 err1 where a: "attemptDequeue p cfg e queues (others d) = (d1, t1, err1)" by (metis prod.collapse)
  show ?case
  proof (cases "\<exists>x. w = CtxDone x")
    case True
    with ev show ?thesis by auto
  next
    case False
    with Cons.prems ev have "\<exists>x others e ping. (CtxDone x, others, e, ping) \<in> set evs" by auto
    from Cons.IH [OF this, of d1] False ev a show ?thesis
      by (cases w) (auto split: option.splits)
  qed
qed simp

text \<open>
  \<open>Dequeue\<close> never returns without a task and without an error, whatever wakes it up and
  whatever other processes do to the database meanwhile.
\<close>

theorem Dequeue_task_or_error:
  assumes "0 < PollFrequency cfg" and "Dequeue p cfg e l queues evs d = Some res"
  shows "\<exists>d' t err. res = Ret (d', t, err) \<and> (t \<noteq> None \<or> err \<noteq> None)"
proof -
  obtain d1 t1 err1 where a: "attemptDequeue p cfg e queues d = (d1, t1, err1)" by (metis prod.collapse)
  with assms wait_loop_result [of p cfg queues evs d1] show ?thesis
    by (auto simp: Dequeue_def split: if_splits option.splits)
qed

theorem Dequeue_task_or_error_witness:
  "\<exists>d' t err. the (Dequeue sample_pg ex_cfg (ex_deq 100) \<lparr>listen_err = None, unlisten_err = None\<rparr> []
      [(Tick, id, ex_deq 105, None), (Notified, (\<lambda>_. ex_db1), ex_deq 107, None)] empty_db) = Ret (d', t, err) \<and>
    (t \<noteq> None \<or> err \<noteq> None)"
proof (rule Dequeue_task_or_error)
  show "0 < PollFrequency ex_cfg" by code_simp
  have "Dequeue sample_pg ex_cfg (ex_deq 100) \<lparr>listen_err = None, unlisten_err = None\<rparr> []
      [(Tick, id, ex_deq 105, None), (Notified, (\<lambda>_. ex_db1), ex_deq 107, None)] empty_db \<noteq> None"
    by code_simp
  then show "Dequeue sample_pg ex_cfg (ex_deq 100) \<lparr>listen_err = None, unlisten_err = None\<rparr> []
      [(Tick, id, ex_deq 105, None), (Notified, (\<lambda>_. ex_db1), ex_deq 107, None)] empty_db =
      Some (the (Dequeue sample_pg ex_cfg (ex_deq 100) \<lparr>listen_err = None, unlisten_err = None\<rparr> []
      [(Tick, id, ex_deq 105, None), (Notified, (\<lambda>_. ex_db1), ex_deq 107, None)] empty_db))"
    by simp
qed

text \<open>
  \<open>Dequeue\<close> does not block for ever: it returns at the latest when its context is done,
  also when there is never any work.
\<close>

theorem Dequeue_unblocks:
  assumes "(CtxDone x, others, e', ping) \<in> set evs"
  shows "Dequeue p cfg e l queues evs d \<noteq> None"
proof -
  obtain d1 t1 err1 where a: "attemptDequeue p cfg e queues d = (d1, t1, err1)" by (metis prod.collapse)
  with assms wait_loop_done [of evs p cfg queues d1] show ?thesis
    by (auto simp: Dequeue_def split: option.splits)
qed

theorem Dequeue_unblocks_witness:
  "Dequeue sample_pg ex_cfg (ex_deq 100) \<lparr>listen_err = None, unlisten_err = None\<rparr> []
     [(Tick, id, ex_deq 105, None), (CtxDone (Std_err Canceled), id, ex_deq 106, None)] empty_db \<noteq> None"
  by (rule Dequeue_unblocks) (rule list.set_intros(2) [OF list.set_intros(1)])

subsection \<open>Progress of a task\<close>

definition prog_ok :: "pg \<Rightarrow> progress_env \<Rightarrow> bytes \<Rightarrow> bool" where
  "prog_ok p e pr \<longleftrightarrow> begin_err (up_tx e) = None \<and> commit_err (up_tx e) = None \<and> status_err e = None \<and>
     progress_err e = None \<and> jsonb p (progress_text pr) \<noteq> None"

lemma updateProgress_ok:
  assumes "prog_ok p e pr" and "task_of d i = Some r" and "status r \<notin> {Waiting, Cancelled, Finished}"
  obtains b where "jsonb p (progress_text pr) = Some b"
    "updateProgress p e i pr fin fl d = (progressed e i b fin fl d, None)"
proof -
  from assms(1) obtain b where b: "jsonb p (progress_text pr) = Some b" by (auto simp: prog_ok_def)
  then have "write_progress p e i (progress_text pr) fin fl d = (progressed e i b fin fl d, None)"
    using assms(1) by (simp add: write_progress_def progressed_def prog_ok_def)
  with assms have "updateProgress p e i pr fin fl d = (progressed e i b fin fl d, None)"
    by (cases "status r") (auto simp: updateProgress_def Let_def progress_text_def prog_ok_def split: if_splits)
  with b that show thesis by blast
qed

lemma updateProgress_rejects:
  assumes "updateProgress p e i pr fin fl d = (d', None)"
  shows "\<exists>r. task_of d i = Some r \<and> status r \<notin> {Waiting, Cancelled, Finished}"
  using assms by (cases rule: updateProgress_cases) auto

text \<open>
  When the database answers, an update of the progress of a task (heartbeat, success or
  failure) is accepted exactly when the task exists and its status is running or failed. (The
  comment in the code asks for a running task only.)
\<close>

theorem progress_accepted_iff:
  assumes "reachable p cfg d" and "prog_ok p e pr"
  shows "snd (updateProgress p e i pr fin fl d) = None \<longleftrightarrow>
     (\<exists>r. task_of d i = Some r \<and> status r \<in> {Running, Failed})"
proof
  assume "snd (updateProgress p e i pr fin fl d) = None"
  then have "updateProgress p e i pr fin fl d = (fst (updateProgress p e i pr fin fl d), None)"
    by (metis prod.collapse)
  from updateProgress_rejects [OF this] obtain r
    where r: "task_of d i = Some r" "status r \<notin> {Waiting, Cancelled, Finished}" by blast
  moreover have "row_ok r" using r(1) reachable_ok [OF assms(1)] by (auto dest: task_of_in db_ok_row)
  ultimately show "\<exists>r. task_of d i = Some r \<and> status r \<in> {Running, Failed}" by (auto simp: row_ok_def)
next
  assume "\<exists>r. task_of d i = Some r \<and> status r \<in> {Running, Failed}"
  then obtain r where "task_of d i = Some r" "status r \<notin> {Waiting, Cancelled, Finished}" by auto
  from updateProgress_ok [OF assms(2) this] show "snd (updateProgress p e i pr fin fl d) = None"
    by (metis snd_conv)
qed

theorem progress_accepted_iff_witness:
  "snd (updateProgress sample_pg (ex_prog 107) ''t1'' [] False False ex_failed) = None \<longleftrightarrow>
     (\<exists>r. task_of ex_failed ''t1'' = Some r \<and> status r \<in> {Running, Failed})"
proof -
  have "prog_ok sample_pg (ex_prog 107) []" by code_simp
  from progress_accepted_iff [OF ex_reachable(5) this] show ?thesis .
qed

text \<open>
  A heartbeat that arrives after the failure of a task sets it to running again and leaves
  its end in place; from then on it is neither in flight nor ever handed out: the task is shown
  as running for ever, unless its worker ends it once more.
\<close>

theorem heartbeat_revives_failed:
  assumes "reachable p cfg d" and "prog_ok p e pr" and "task_of d i = Some r" and "status r = Failed"
  shows "\<exists>r'. snd (Heartbeat p e i pr d) = None \<and> task_of (fst (Heartbeat p e i pr d)) i = Some r' \<and>
     status r' = Running \<and> finished_at r' = finished_at r \<and> finished_at r' \<noteq> None \<and>
     (\<forall>t. \<not> inflight t r') \<and> (\<forall>q t. \<not> dequeuable p q t r')"
proof -
  have "status r \<notin> {Waiting, Cancelled, Finished}" using assms(4) by simp
  with assms(2,3) obtain b where "Heartbeat p e i pr d = (progressed e i b False False d, None)"
    unfolding Heartbeat_def by (rule updateProgress_ok)
  moreover have "task_of (progressed e i b False False d) i = Some (set_progress (up_now e) b False False r)"
    using assms(3) by (simp add: task_of_def progressed_def find_update_where_key)
  moreover have "row_ok r" using assms(3) reachable_ok [OF assms(1)] by (auto dest: task_of_in db_ok_row)
  ultimately show ?thesis using assms(4)
    by (auto simp: row_ok_def inflight_def dequeuable_def)
qed

theorem heartbeat_revives_failed_witness:
  "\<exists>r'. snd (Heartbeat sample_pg (ex_prog 107) ''t1'' [] ex_failed) = None \<and>
     task_of (fst (Heartbeat sample_pg (ex_prog 107) ''t1'' [] ex_failed)) ''t1'' = Some r' \<and>
     status r' = Running \<and> finished_at r' = finished_at (hd (tasks ex_failed)) \<and> finished_at r' \<noteq> None \<and>
     (\<forall>t. \<not> inflight t r') \<and> (\<forall>q t. \<not> dequeuable sample_pg q t r')"
proof -
  have "prog_ok sample_pg (ex_prog 107) []" "task_of ex_failed ''t1'' = Some (hd (tasks ex_failed))"
    "status (hd (tasks ex_failed)) = Failed"
    by code_simp+
  from heartbeat_revives_failed [OF ex_reachable(5) this] show ?thesis .
qed

end
