(* ===== verification/Task_Worker.thy ===== *)
theory Task_Worker
  imports Queue_Service Json
begin

section \<open>The task worker\<close>

text \<open>
  \<open>pkg/queue/workers/task_worker.go\<close>. The worker uses the queue through the interface
  \<open>Dequeuer\<close>, a record of operations on a state \<open>'s\<close> here; \<open>'x\<close> is what a call to \<open>Dequeue\<close>
  depends on.

  A handler runs in a goroutine of its own. A run of it is the list of the progress texts that
  it sends on the unbuffered channel of heartbeats and how it ends: it returns an error or
  nil, or it panics. Either way the channel is closed at the end. The worker receives from the
  channel, from a timer and from the context, whichever comes first: the list of events.
  A result \<open>None\<close> means that the worker is still waiting.
\<close>

record ('x, 's) dequeuer =
  dq_Dequeue :: "'x \<Rightarrow> 's \<Rightarrow> ('s \<times> task option \<times> error option) outcome option"
  dq_Heartbeat :: "progress_env \<Rightarrow> string \<Rightarrow> bytes \<Rightarrow> 's \<Rightarrow> 's \<times> error option"
  dq_Finish :: "progress_env \<Rightarrow> string \<Rightarrow> bytes \<Rightarrow> 's \<Rightarrow> 's \<times> error option"
  dq_Fail :: "progress_env \<Rightarrow> string \<Rightarrow> bytes \<Rightarrow> 's \<Rightarrow> 's \<times> error option"

record handler_run =
  run_beats :: "bytes list"
  run_result :: "error option outcome"

datatype worker_event = WDone error | WTimeout | WRecv progress_env

text \<open>\<open>processHeartbeats\<close> returns the latest progress, an error and what nobody received yet.\<close>

fun processHeartbeats ::
  "('x, 's) dequeuer \<Rightarrow> string \<Rightarrow> bytes \<Rightarrow> bytes list \<Rightarrow> worker_event list \<Rightarrow> 's
    \<Rightarrow> ('s \<times> bytes \<times> error option \<times> bytes list) option" where
  "processHeartbeats dq taskID latest beats [] s = None"
| "processHeartbeats dq taskID latest beats (WDone x # evs) s = Some (s, latest, Some x, beats)"
| "processHeartbeats dq taskID latest beats (WTimeout # evs) s =
     Some (s, latest, Some (Task_worker_err ErrHeartbeatTimeout), beats)"
| "processHeartbeats dq taskID latest [] (WRecv e # evs) s = Some (s, latest, None, [])"
| "processHeartbeats dq taskID latest (b # beats) (WRecv e # evs) s =
     (let (s', hrtErr) = dq_Heartbeat dq e taskID b s
      in case hrtErr of
           None \<Rightarrow> processHeartbeats dq taskID b beats evs s'
         | Some x \<Rightarrow>
           if x \<in> Queue_err ` {ErrTaskCancelled, ErrTaskFinished, ErrTaskNotFound, ErrTaskNotRunning}
           then Some (s', b, None, beats)
           else Some (s', b, Some x, beats))"

text \<open>
  \<open>setError\<close> puts the text of an error into the progress. \<open>um\<close> is \<open>json.Unmarshal\<close> into a map;
  for the text \<open>null\<close> the map is nil afterwards, and assigning to it panics.
\<close>

type_synonym unmarshal_map = "bytes \<Rightarrow> error + (string \<times> json) list option"

definition setError :: "unmarshal_map \<Rightarrow> bytes \<Rightarrow> error \<Rightarrow> bytes outcome" where
  "setError um latest err =
     (case um latest of
        Inl e \<Rightarrow> Ret latest
      | Inr None \<Rightarrow> Panic
      | Inr (Some p) \<Rightarrow> Ret (marshal_map (map_set ''error'' (JStr (error_msg err)) p)))"

definition fail_task ::
  "('x, 's) dequeuer \<Rightarrow> unmarshal_map \<Rightarrow> progress_env \<Rightarrow> string \<Rightarrow> bytes \<Rightarrow> error \<Rightarrow> 's
    \<Rightarrow> ('s \<times> error option) outcome" where
  "fail_task dq um fe taskID latest err s =
     (case setError um latest err of
        Panic \<Rightarrow> Panic
      | Ret p \<Rightarrow> Ret (dq_Fail dq fe taskID p s))"

text \<open>
  The channel \<open>processDone\<close> holds what the handler returned; when the handler panicked it is
  closed without a value, and receiving from it yields nil.
\<close>

definition work_err :: "error option outcome \<Rightarrow> error option" where
  "work_err res = (case res of Ret e \<Rightarrow> e | Panic \<Rightarrow> None)"

definition handleTask ::
  "('x, 's) dequeuer \<Rightarrow> unmarshal_map \<Rightarrow> handler_run \<Rightarrow> worker_event list \<Rightarrow> progress_env \<Rightarrow> task \<Rightarrow> 's
    \<Rightarrow> ('s \<times> error option) outcome option" where
  "handleTask dq um run evs fe task s =
     (case processHeartbeats dq (ID task) emptyJSON (run_beats run) evs s of
        None \<Rightarrow> None
      | Some (s', latest, err, rest) \<Rightarrow>
        if err = Some (Task_worker_err ErrHeartbeatTimeout)
        then Some (fail_task dq um fe (ID task) latest (Task_worker_err ErrHeartbeatTimeout) s')
        else if err \<noteq> None then Some (Ret (s', err))
        else if rest \<noteq> [] then None
        else (case work_err (run_result run) of
            Some x \<Rightarrow> Some (fail_task dq um fe (ID task) latest x s')
          | None \<Rightarrow> Some (Ret (dq_Finish dq fe (ID task) latest s'))))"

datatype iteration_choice = ItDone error | ItTimer | ItDefault

definition task_iteration ::
  "('x, 's) dequeuer \<Rightarrow> unmarshal_map \<Rightarrow> (task \<Rightarrow> handler_run) \<Rightarrow> iteration_choice \<Rightarrow> 'x
    \<Rightarrow> worker_event list \<Rightarrow> progress_env \<Rightarrow> 's \<Rightarrow> ('s \<times> error option) outcome option" where
  "task_iteration dq um handler ch x evs fe s =
     (case ch of
        ItDone e \<Rightarrow> Some (Ret (s, Some e))
      | ItTimer \<Rightarrow> Some (Ret (s, None))
      | ItDefault \<Rightarrow>
        (case dq_Dequeue dq x s of
           None \<Rightarrow> None
         | Some Panic \<Rightarrow> Some Panic
         | Some (Ret (s', task, err)) \<Rightarrow>
           if err = Some (Std_err ErrNoRows) then Some (Ret (s', None))
           else if err \<noteq> None then Some (Ret (s', err))
           else (case task of
               None \<Rightarrow> Some (Ret (s', Some (New ''task cannot be nil'')))
             | Some t \<Rightarrow> handleTask dq um (handler t) evs fe t s')))"

type_synonym 'x iteration_env = "iteration_choice \<times> 'x \<times> worker_event list \<times> progress_env"

text \<open>The loop of \<open>Work\<close>: before every iteration but the first the context is checked.\<close>

fun task_loop ::
  "('x, 's) dequeuer \<Rightarrow> unmarshal_map \<Rightarrow> (task \<Rightarrow> handler_run) \<Rightarrow> (error option \<times> 'x iteration_env) list \<Rightarrow> 's
    \<Rightarrow> ('s \<times> error option) outcome option" where
  "task_loop dq um handler [] s = None"
| "task_loop dq um handler ((done, ch, x, evs, fe) # its) s =
     (case done of Some e \<Rightarrow> Some (Ret (s, Some e))
      | None \<Rightarrow>
        (case task_iteration dq um handler ch x evs fe s of
           None \<Rightarrow> None
         | Some Panic \<Rightarrow> Some Panic
         | Some (Ret (s', _)) \<Rightarrow> task_loop dq um handler its s'))"

definition task_Work ::
  "('x, 's) dequeuer \<Rightarrow> unmarshal_map \<Rightarrow> (task \<Rightarrow> handler_run) \<Rightarrow> 'x iteration_env
    \<Rightarrow> (error option \<times> 'x iteration_env) list \<Rightarrow> 's \<Rightarrow> ('s \<times> error option) outcome option" where
  "task_Work dq um handler it its s = task_loop dq um handler ((None, it) # its) s"

text \<open>The dequeuer on Postgres as a value of the interface.\<close>

definition pg_dequeuer ::
  "pg \<Rightarrow> queue_config \<Rightarrow> (dequeue_env \<times> listen_env \<times> wake_event list, db) dequeuer" where
  "pg_dequeuer p cfg =
     \<lparr>dq_Dequeue = (\<lambda>(e, l, evs) d. Dequeue p cfg e l [] evs d),
      dq_Heartbeat = Heartbeat p, dq_Finish = Finish p, dq_Fail = Fail p\<rparr>"

subsection \<open>What the worker needs of a dequeuer\<close>

text \<open>
  The contract of the interface \<open>Dequeuer\<close>: after a successful \<open>Finish\<close> the task counts as
  finished, after a successful \<open>Fail\<close> as failed, a heartbeat that is accepted keeps a task
  running, and a call that fails changes nothing.
\<close>

locale dequeuer_contract =
  fixes dq :: "('x, 's) dequeuer"
    and finished running failed :: "string \<Rightarrow> 's \<Rightarrow> bool"
  assumes finish_ok: "dq_Finish dq e i p s = (s', None) \<Longrightarrow> finished i s'"
    and fail_ok: "dq_Fail dq e i p s = (s', None) \<Longrightarrow> failed i s'"
    and beat_ok: "dq_Heartbeat dq e i p s = (s', None) \<Longrightarrow> running i s'"
    and beat_err: "dq_Heartbeat dq e i p s = (s', Some x) \<Longrightarrow> s' = s"
begin

lemma fail_task_ok: "fail_task dq um fe i pr x s = Ret (s', None) \<Longrightarrow> failed i s'"
  by (auto simp: fail_task_def split: outcome.splits intro: fail_ok)

text \<open>A task whose worker reports no error is finished or failed, as its handler says.\<close>

lemma handleTask_reports:
  assumes "handleTask dq um run evs fe t s = Some (Ret (s', None))"
  shows "failed (ID t) s' \<or> finished (ID t) s' \<and> work_err (run_result run) = None"
  using assms
  by (auto simp: handleTask_def dest: fail_task_ok finish_ok split: option.splits if_splits)

end

subsection \<open>The dequeuer on Postgres fulfils the contract\<close>

definition task_status_is :: "task_status \<Rightarrow> string \<Rightarrow> db \<Rightarrow> bool" where
  "task_status_is st i d \<longleftrightarrow> (\<exists>r. task_of d i = Some r \<and> status r = st \<and> (st \<noteq> Running \<longrightarrow> finished_at r \<noteq> None))"

lemma task_of_progressed:
  "task_of d i = Some r \<Longrightarrow> task_of (progressed e i b fin fl d) i = Some (set_progress (up_now e) b fin fl r)"
  by (simp add: task_of_def progressed_def find_update_where_key)

lemma updateProgress_status:
  assumes "updateProgress p e i pr fin fl d = (d', None)" and "fl \<longrightarrow> fin"
  shows "task_status_is (if fl then Failed else if fin then Finished else Running) i d'"
  using assms(1)
  by (cases rule: updateProgress_cases) (use assms(2) in \<open>auto simp: task_status_is_def task_of_progressed\<close>)

interpretation pgd: dequeuer_contract "pg_dequeuer p cfg" "task_status_is Finished" "task_status_is Running"
  "task_status_is Failed" for p cfg
proof
  fix e :: progress_env and i :: string and pr :: bytes and d d' :: db
  show "task_status_is Finished i d'" if "dq_Finish (pg_dequeuer p cfg) e i pr d = (d', None)"
    using updateProgress_status [of p e i pr True False d d'] that by (simp add: pg_dequeuer_def Finish_def)
  show "task_status_is Failed i d'" if "dq_Fail (pg_dequeuer p cfg) e i pr d = (d', None)"
    using updateProgress_status [of p e i pr True True d d'] that by (simp add: pg_dequeuer_def Fail_def)
  show "task_status_is Running i d'" if "dq_Heartbeat (pg_dequeuer p cfg) e i pr d = (d', None)"
    using updateProgress_status [of p e i pr False False d d'] that by (simp add: pg_dequeuer_def Heartbeat_def)
  show "d' = d" if "dq_Heartbeat (pg_dequeuer p cfg) e i pr d = (d', Some x)" for x
    using that unfolding pg_dequeuer_def Heartbeat_def by (auto elim: updateProgress_cases)
qed

subsection \<open>A run in which the database answers\<close>

lemma heartbeats_accepted:
  assumes "list_all2 (prog_ok p) es beats" and "task_of d i = Some r" and "status r = Running"
  shows "\<exists>d' r'. processHeartbeats (pg_dequeuer p cfg) i pr beats (map WRecv es @ WRecv e # evs) d =
      Some (d', last (pr # beats), None, []) \<and> task_of d' i = Some r' \<and> status r' = Running"
  using assms
proof (induction es beats arbitrary: d r pr rule: list_all2_induct)
  case Nil
  then show ?case by simp
next
  case (Cons e' es b bs)
  have "status r \<notin> {Waiting, Cancelled, Finished}" using Cons.prems by simp
  with Cons.hyps(1) Cons.prems(1) obtain c
    where "updateProgress p e' i b False False d = (progressed e' i c False False d, None)"
    by (rule updateProgress_ok)
  then have "dq_Heartbeat (pg_dequeuer p cfg) e' i b d = (progressed e' i c False False d, None)"
    by (simp add: pg_dequeuer_def Heartbeat_def)
  moreover obtain d' r' where "processHeartbeats (pg_dequeuer p cfg) i b bs (map WRecv es @ WRecv e # evs)
      (progressed e' i c False False d) = Some (d', last (b # bs), None, [])"
    "task_of d' i = Some r'" "status r' = Running"
    using Cons.IH [of "progressed e' i c False False d" "set_progress (up_now e') c False False r" b] Cons.prems
    by (auto simp: task_of_progressed)
  ultimately show ?case by simp
qed

lemma handleTask_finishes:
  assumes "task_of d (ID t) = Some r" and "status r = Running"
    and "list_all2 (prog_ok p) es (run_beats run)" and "prog_ok p fe (last (emptyJSON # run_beats run))"
    and "work_err (run_result run) = None"
  shows "\<exists>d' r'. handleTask (pg_dequeuer p cfg) um run (map WRecv es @ WRecv e # evs) fe t d = Some (Ret (d', None)) \<and>
     task_of d' (ID t) = Some r' \<and> status r' = Finished \<and> finished_at r' = Some (up_now fe) \<and>
     jsonb p (progress_text (last (emptyJSON # run_beats run))) = Some (progress r')"
proof -
  from heartbeats_accepted [OF assms(3,1,2)] obtain d1 r1
    where hb: "processHeartbeats (pg_dequeuer p cfg) (ID t) emptyJSON (run_beats run) (map WRecv es @ WRecv e # evs) d =
      Some (d1, last (emptyJSON # run_beats run), None, [])"
    and r1: "task_of d1 (ID t) = Some r1" "status r1 = Running" by blast
  from r1(2) have "status r1 \<notin> {Waiting, Cancelled, Finished}" by simp
  with assms(4) r1(1) obtain c where c: "jsonb p (progress_text (last (emptyJSON # run_beats run))) = Some c"
    and fin: "updateProgress p fe (ID t) (last (emptyJSON # run_beats run)) True False d1 =
      (progressed fe (ID t) c True False d1, None)"
    by (rule updateProgress_ok)
  have "handleTask (pg_dequeuer p cfg) um run (map WRecv es @ WRecv e # evs) fe t d =
      Some (Ret (dq_Finish (pg_dequeuer p cfg) fe (ID t) (last (emptyJSON # run_beats run)) d1))"
    using hb assms(5) by (simp add: handleTask_def)
  with fin c r1(1) show ?thesis
    by (simp add: pg_dequeuer_def Finish_def task_of_progressed del: last.simps)
qed

text \<open>
  C14: When the worker reports no error for a task, the task has an end in the database: it is
  failed, or it is finished and the handler did not return an error. So a handler that returns
  an error never has its task marked as a success.
\<close>

theorem worker_reports_outcome:
  assumes "handleTask (pg_dequeuer p cfg) um run evs fe t d = Some (Ret (d', None))"
  shows "\<exists>r. task_of d' (ID t) = Some r \<and> finished_at r \<noteq> None \<and>
     (status r = Failed \<or> status r = Finished \<and> work_err (run_result run) = None)"
  using pgd.handleTask_reports [OF assms] by (auto simp: task_status_is_def)

text \<open>
  A handler that returns nil has its task finished: when the task is running, the
  heartbeats arrive in time and the database accepts them, the worker returns without error
  and the task is finished with the last progress that the handler sent.
\<close>

theorem worker_finishes_task:
  assumes "task_of d (ID t) = Some r" and "status r = Running"
    and "list_all2 (prog_ok p) es (run_beats run)" and "prog_ok p fe (last (emptyJSON # run_beats run))"
    and "run_result run = Ret None"
  shows "\<exists>d' r'. handleTask (pg_dequeuer p cfg) um run (map WRecv es @ WRecv e # evs) fe t d = Some (Ret (d', None)) \<and>
     task_of d' (ID t) = Some r' \<and> status r' = Finished \<and> finished_at r' = Some (up_now fe) \<and>
     jsonb p (progress_text (last (emptyJSON # run_beats run))) = Some (progress r')"
  using assms by (intro handleTask_finishes) (simp_all add: work_err_def)

text \<open>
  A handler that returns an error has its task failed: when the database accepts the
  updates, the worker returns without error and the task is failed, with the last progress of
  the handler and in it the text of the error under the key \<open>error\<close>.
\<close>

theorem worker_fails_task:
  assumes "task_of d (ID t) = Some r" and "status r = Running"
    and "list_all2 (prog_ok p) es (run_beats run)" and "run_result run = Ret (Some x)"
    and "um (last (emptyJSON # run_beats run)) = Inr (Some kvs)"
    and "prog_ok p fe (marshal_map (map_set ''error'' (JStr (error_msg x)) kvs))"
  shows "\<exists>d' r'. handleTask (pg_dequeuer p cfg) um run (map WRecv es @ WRecv e # evs) fe t d = Some (Ret (d', None)) \<and>
     task_of d' (ID t) = Some r' \<and> status r' = Failed \<and> finished_at r' = Some (up_now fe) \<and>
     jsonb p (marshal_map (map_set ''error'' (JStr (error_msg x)) kvs)) = Some (progress r')"
proof -
  let ?m = "marshal_map (map_set ''error'' (JStr (error_msg x)) kvs)"
  have "progress_text ?m = ?m" by (simp add: progress_text_def marshal_map_def)
  from heartbeats_accepted [OF assms(3,1,2)] obtain d1 r1
    where hb: "processHeartbeats (pg_dequeuer p cfg) (ID t) emptyJSON (run_beats run) (map WRecv es @ WRecv e # evs) d =
      Some (d1, last (emptyJSON # run_beats run), None, [])"
    and r1: "task_of d1 (ID t) = Some r1" "status r1 = Running" by blast
  from r1(2) have "status r1 \<notin> {Waiting, Cancelled, Finished}" by simp
  with assms(6) r1(1) obtain c where c: "jsonb p (progress_text ?m) = Some c"
    and fin: "updateProgress p fe (ID t) ?m True True d1 = (progressed fe (ID t) c True True d1, None)"
    by (rule updateProgress_ok)
  have "handleTask (pg_dequeuer p cfg) um run (map WRecv es @ WRecv e # evs) fe t d =
      Some (Ret (dq_Fail (pg_dequeuer p cfg) fe (ID t) ?m d1))"
    using hb assms(4,5) by (simp add: handleTask_def work_err_def fail_task_def setError_def del: last.simps)
  with fin c r1(1) \<open>progress_text ?m = ?m\<close> show ?thesis
    by (simp add: pg_dequeuer_def Fail_def task_of_progressed del: last.simps)
qed

text \<open>
  C17: A handler that panics has its task marked as finished as well: the panic is recovered,
  the channel with the result is closed without a value, and the worker takes the nil it
  receives for success.
\<close>

theorem handler_panic_reported_as_success:
  assumes "task_of d (ID t) = Some r" and "status r = Running"
    and "list_all2 (prog_ok p) es (run_beats run)" and "prog_ok p fe (last (emptyJSON # run_beats run))"
    and "run_result run = Panic"
  shows "\<exists>d' r'. handleTask (pg_dequeuer p cfg) um run (map WRecv es @ WRecv e # evs) fe t d = Some (Ret (d', None)) \<and>
     task_of d' (ID t) = Some r' \<and> status r' = Finished"
proof -
  from assms(5) have "work_err (run_result run) = None" by (simp add: work_err_def)
  from handleTask_finishes [OF assms(1-4) this] show ?thesis by blast
qed

text \<open>
  A worker whose task is cancelled under it can hang for ever: after a heartbeat is
  refused because the task is cancelled, finished, unknown or not running, the worker stops
  receiving and waits for the handler, while a handler that sends one more heartbeat waits for
  the worker; no event, the end of the context included, ends the wait.
\<close>

theorem refused_heartbeat_hangs_worker:
  assumes "dq_Heartbeat dq e (ID t) b s =
      (s', Some (Queue_err x))" and "x \<in> {ErrTaskCancelled, ErrTaskFinished, ErrTaskNotFound, ErrTaskNotRunning}"
    and "run_beats run = b # b' # bs"
  shows "handleTask dq um run (WRecv e # evs) fe t s = None"
  using assms by (auto simp: handleTask_def)

subsection \<open>Example runs\<close>

definition sample_um :: unmarshal_map where
  "sample_um b = (if b = ''null'' then Inr None else if b = ''{}'' then Inr (Some []) else Inl (Ext ''invalid''))"

definition ex_task :: task where
  "ex_task = started_task (ex_deq 100) (ex_row ''t1'' 1)"

definition ex_run_of :: "error option outcome \<Rightarrow> handler_run" where
  "ex_run_of res = \<lparr>run_beats = [''1'', ''2''], run_result = res\<rparr>"

lemma ex_running: "task_of ex_run (ID ex_task) = Some (start_row 100 (ex_row ''t1'' 1))"
  "status (start_row 100 (ex_row ''t1'' 1)) = Running"
  "list_all2 (prog_ok sample_pg) [ex_prog 101, ex_prog 102] (run_beats (ex_run_of res))"
  "prog_ok sample_pg (ex_prog 104) (last (emptyJSON # run_beats (ex_run_of res)))"
proof -
  show "task_of ex_run (ID ex_task) = Some (start_row 100 (ex_row ''t1'' 1))"
    "status (start_row 100 (ex_row ''t1'' 1)) = Running"
    by code_simp+
  show "list_all2 (prog_ok sample_pg) [ex_prog 101, ex_prog 102] (run_beats (ex_run_of res))"
    "prog_ok sample_pg (ex_prog 104) (last (emptyJSON # run_beats (ex_run_of res)))"
    by (simp_all add: ex_run_of_def prog_ok_def ex_prog_def tx_ok_def progress_text_def sample_pg_def)
qed

theorem worker_reports_outcome_witness:
  "\<exists>d' r. handleTask (pg_dequeuer sample_pg ex_cfg) sample_um
       \<lparr>run_beats = [''{}''], run_result = Ret (Some (New ''bad''))\<rparr> [WRecv (ex_prog 101), WRecv (ex_prog 102)] (ex_prog 104)
       ex_task ex_run = Some (Ret (d', None)) \<and> task_of d' ''t1'' = Some r \<and> status r = Failed"
proof -
  let ?h = "handleTask (pg_dequeuer sample_pg ex_cfg) sample_um
       \<lparr>run_beats = [''{}''], run_result = Ret (Some (New ''bad''))\<rparr> [WRecv (ex_prog 101), WRecv (ex_prog 102)] (ex_prog 104)
       ex_task ex_run"
  have "case ?h of Some (Ret (d', None)) \<Rightarrow> True | _ \<Rightarrow> False" by code_simp
  then obtain d' where h: "?h = Some (Ret (d', None))" by (auto split: option.splits outcome.splits)
  have "ID ex_task = ''t1''" by code_simp
  with worker_reports_outcome [OF h] h show ?thesis by (auto simp: work_err_def)
qed

theorem worker_finishes_task_witness:
  "\<exists>d' r'. handleTask (pg_dequeuer sample_pg ex_cfg) sample_um (ex_run_of (Ret None))
       (map WRecv [ex_prog 101, ex_prog 102] @ [WRecv (ex_prog 103)]) (ex_prog 104) ex_task ex_run = Some (Ret (d', None)) \<and>
     task_of d' (ID ex_task) = Some r' \<and> status r' = Finished"
  using worker_finishes_task [OF ex_running, of "Ret None" ex_cfg sample_um "ex_prog 103" "[]"]
  by (auto simp: ex_run_of_def)

theorem handler_panic_reported_as_success_witness:
  "\<exists>d' r'. handleTask (pg_dequeuer sample_pg ex_cfg) sample_um (ex_run_of Panic)
       (map WRecv [ex_prog 101, ex_prog 102] @ [WRecv (ex_prog 103)]) (ex_prog 104) ex_task ex_run = Some (Ret (d', None)) \<and>
     task_of d' (ID ex_task) = Some r' \<and> status r' = Finished"
  using handler_panic_reported_as_success [OF ex_running, of Panic ex_cfg sample_um "ex_prog 103" "[]"]
  by (auto simp: ex_run_of_def)

theorem worker_fails_task_witness:
  "\<exists>d' r'. handleTask (pg_dequeuer sample_pg ex_cfg) sample_um \<lparr>run_beats = [''{}''], run_result = Ret (Some (New ''bad''))\<rparr>
       (map WRecv [ex_prog 101] @ [WRecv (ex_prog 103)]) (ex_prog 104) ex_task ex_run = Some (Ret (d', None)) \<and>
     task_of d' (ID ex_task) = Some r' \<and> status r' = Failed"
proof -
  let ?run = "\<lparr>run_beats = [''{}''], run_result = Ret (Some (New ''bad''))\<rparr>"
  have c: "list_all2 (prog_ok sample_pg) [ex_prog 101] (run_beats ?run)"
    "run_result ?run = Ret (Some (New ''bad''))" "sample_um (last (emptyJSON # run_beats ?run)) = Inr (Some [])"
    "prog_ok sample_pg (ex_prog 104) (marshal_map (map_set ''error'' (JStr (error_msg (New ''bad''))) []))"
    by code_simp+
  from worker_fails_task [where um = sample_um, OF ex_running(1,2) c, of ex_cfg "ex_prog 103" "[]"] show ?thesis by blast
qed

theorem refused_heartbeat_hangs_worker_witness:
  "handleTask (pg_dequeuer sample_pg ex_cfg) sample_um (ex_run_of (Ret None))
     [WRecv (ex_prog 106), WRecv (ex_prog 107), WDone (Std_err Canceled)] (ex_prog 108) ex_task ex_done = None"
proof (rule refused_heartbeat_hangs_worker)
  show "dq_Heartbeat (pg_dequeuer sample_pg ex_cfg) (ex_prog 106) (ID ex_task) ''1'' ex_done =
      (ex_done, Some (Queue_err ErrTaskFinished))" by code_simp
  show "ErrTaskFinished \<in> {ErrTaskCancelled, ErrTaskFinished, ErrTaskNotFound, ErrTaskNotRunning}" by simp
  show "run_beats (ex_run_of (Ret None)) = [''1'', ''2'']" by (simp add: ex_run_of_def)
qed

end
