(* ===== verification/Handlers.thy ===== *)
theory Handlers
  imports Task_Worker
begin

section \<open>Task handlers\<close>

text \<open>
  \<open>pkg/queue/handlers\<close>: the dispatcher, the SQL task and the two API tasks. A handler maps a
  task to a run of it (\<^typ>\<open>handler_run\<close>): what it sends as heartbeats and what it returns.
  The progress values are kept as records up to the end, so that the theorems can speak about
  them; marshalling them cannot fail, they hold strings and integers only.

  Decoding a specification, the answers of the database and of the HTTP server, the durations
  and the beats of the ticker are what a run depends on: they are the environments.
\<close>

type_synonym handler = "task \<Rightarrow> handler_run"

subsection \<open>Dispatching on the type\<close>

definition dispatch_Process :: "(string \<rightharpoonup> handler) \<Rightarrow> handler" where
  "dispatch_Process handlers t =
     (case handlers (Type t) of
        None \<Rightarrow> \<lparr>run_beats = [], run_result = Ret (Some (Handler_err ErrNoHandlerFound))\<rparr>
      | Some h \<Rightarrow> h t)"

subsection \<open>The SQL task\<close>

record sql_progress =
  sql_Duration :: "int option"
  sql_RowsAffected :: "int option"
  sql_ErrorMessage :: "string option"

definition opt_field :: "string \<Rightarrow> ('a \<Rightarrow> json) \<Rightarrow> 'a option \<Rightarrow> (string \<times> json) list" where
  "opt_field k f v = (case v of None \<Rightarrow> [] | Some x \<Rightarrow> [(k, f x)])"

definition sql_progress_json :: "sql_progress \<Rightarrow> json" where
  "sql_progress_json p = JObj
     (opt_field ''duration'' JNum (sql_Duration p) @ opt_field ''rowsAffected'' JNum (sql_RowsAffected p) @
      opt_field ''errorMessage'' JStr (sql_ErrorMessage p))"

definition sendSQLTaskProgress :: "sql_progress \<Rightarrow> bytes" where
  "sendSQLTaskProgress p = Marshal (sql_progress_json p)"

record sql_env =
  sql_unmarshal :: "bytes \<Rightarrow> error + string"
  sql_exec :: "string \<Rightarrow> error + error + int"
  sql_millis :: int

definition task_spec_bytes :: "task \<Rightarrow> bytes" where
  "task_spec_bytes t = (case Spec t of None \<Rightarrow> [] | Some b \<Rightarrow> b)"

text \<open>The beats sent, the progress and the error before the deferred functions run.\<close>

definition sql_body :: "sql_env \<Rightarrow> task \<Rightarrow> sql_progress list \<times> sql_progress \<times> error option" where
  "sql_body e t =
     (let p = \<lparr>sql_Duration = None, sql_RowsAffected = None, sql_ErrorMessage = None\<rparr>
      in case sql_unmarshal e (task_spec_bytes t) of
           Inl x \<Rightarrow> ([p], p, Some (Wrap ''can not parse the sql task spec '' x))
         | Inr sql \<Rightarrow>
           (let p' = p\<lparr>sql_Duration := Some (sql_millis e)\<rparr>
            in case sql_exec e sql of
                 Inl x \<Rightarrow> ([p], p', Some (Wrap ''sql execution failed: '' x))
               | Inr (Inl x) \<Rightarrow> ([p], p', Some (Wrap ''can not get rows affected: '' x))
               | Inr (Inr n) \<Rightarrow>
                 (let p'' = p'\<lparr>sql_RowsAffected := Some n\<rparr> in ([p, p''], p'', None))))"

definition sql_deferred ::
  "sql_progress list \<times> sql_progress \<times> error option \<Rightarrow> sql_progress list \<times> error option" where
  "sql_deferred r =
     (case r of (beats, p, err) \<Rightarrow>
        if err = None \<or> err = Some (Handler_err SQL_ErrSerializingHearbeat) then (beats, err)
        else (beats @ [p\<lparr>sql_ErrorMessage := Some (error_msg (the err))\<rparr>], err))"

definition sql_Process :: "sql_env \<Rightarrow> handler" where
  "sql_Process e t =
     (case sql_deferred (sql_body e t) of (beats, err) \<Rightarrow>
        \<lparr>run_beats = map sendSQLTaskProgress beats, run_result = Ret err\<rparr>)"

subsection \<open>The API tasks\<close>

record api_spec =
  Method :: string
  URL :: string
  RequestBody :: string
  RequestHeaders :: "(string \<times> string) list"
  Authorized :: bool
  ExpectedStatus :: int

datatype api_stage = NoStage | RequestPreparing | RequestPending | RequestResponse

fun stage_text :: "api_stage \<Rightarrow> string" where
  "stage_text NoStage = []"
| "stage_text RequestPreparing = ''preparing''"
| "stage_text RequestPending = ''pending''"
| "stage_text RequestResponse = ''response''"

record api_progress =
  Stage :: api_stage
  api_Duration :: "int option"
  ReturnedStatus :: "int option"
  ReturnedBody :: "string option"
  api_ErrorMessage :: "string option"

definition api_progress_json :: "api_progress \<Rightarrow> json" where
  "api_progress_json p = JObj
     (omitempty ''stage'' (stage_text (Stage p)) @ opt_field ''duration'' JNum (api_Duration p) @
      opt_field ''returnedStatus'' JNum (ReturnedStatus p) @ opt_field ''returnedBody'' JStr (ReturnedBody p) @
      opt_field ''errorMessage'' JStr (api_ErrorMessage p))"

definition sendAPIRequestProgress :: "api_progress \<Rightarrow> bytes" where
  "sendAPIRequestProgress p = Marshal (api_progress_json p)"

text \<open>
  A response with its body as the decoder of JSON texts reads it: before every text the error
  of the context, the number of beats that the ticker sends while the text arrives, and the
  text or the error of decoding it; at the end the context and the beats before the end of
  the stream.
\<close>

record http_response =
  StatusCode :: int
  ContentType :: string
  body_docs :: "(error option \<times> nat \<times> (error + bytes)) list"
  body_end :: "error option \<times> nat"

text \<open>The loop over the texts; \<open>check\<close> looks at a text before it is reported.\<close>

fun decode_loop ::
  "(bytes \<Rightarrow> error option) \<Rightarrow> error option \<times> nat \<Rightarrow> api_progress \<Rightarrow> (error option \<times> nat \<times> (error + bytes)) list
    \<Rightarrow> api_progress list \<times> api_progress \<times> error option" where
  "decode_loop check (ctx, n) p [] =
     (case ctx of Some x \<Rightarrow> ([], p, Some x) | None \<Rightarrow> (replicate n p, p, None))"
| "decode_loop check fin p ((ctx, n, doc) # docs) =
     (case ctx of Some x \<Rightarrow> ([], p, Some x)
      | None \<Rightarrow>
        (case doc of
           Inl x \<Rightarrow> (replicate n p, p, if x = Std_err EOF then None else Some x)
         | Inr m \<Rightarrow>
           (case check m of Some x \<Rightarrow> (replicate n p, p, Some x)
            | None \<Rightarrow>
              (let p' = p\<lparr>ReturnedBody := Some m\<rparr>;
                   (beats, p'', err) = decode_loop check fin p' docs
               in (replicate n p @ p' # beats, p'', err)))))"

text \<open>What happens after the response arrived, in both API tasks.\<close>

definition read_response ::
  "(bytes \<Rightarrow> error option) \<Rightarrow> api_spec \<Rightarrow> api_progress \<Rightarrow> http_response
    \<Rightarrow> api_progress list \<times> api_progress \<times> error option" where
  "read_response check sp p resp =
     (if \<not> contains (ContentType resp) ''json'' then
        ([], p, Some (New (''unexpected response content type, expected JSON, got `'' @ ContentType resp @ ''`'')))
      else
        let p = p\<lparr>Stage := RequestResponse, ReturnedStatus := Some (StatusCode resp)\<rparr>;
            (beats, p', err) = decode_loop check (body_end resp) p (body_docs resp)
        in (p # beats, p',
            if err \<noteq> None then err
            else if ExpectedStatus sp \<noteq> StatusCode resp
            then Some (New (''expected status '' @ int_text (ExpectedStatus sp) @ '' but got '' @ int_text (StatusCode resp)))
            else None))"

text \<open>The deferred functions: the duration, once the request is pending, then the error.\<close>

definition send_duration ::
  "int \<Rightarrow> api_progress list \<times> api_progress \<times> error option \<Rightarrow> api_progress list \<times> api_progress \<times> error option" where
  "send_duration dur r =
     (case r of (beats, p, err) \<Rightarrow>
        let p' = p\<lparr>api_Duration := Some dur\<rparr> in (beats @ [p'], p', err))"

definition send_error ::
  "api_progress list \<times> api_progress \<times> error option \<Rightarrow> api_progress list \<times> error option" where
  "send_error r =
     (case r of (beats, p, err) \<Rightarrow>
        if err = None \<or> err = Some (Handler_err ErrSerializingHearbeat) then (beats, err)
        else (beats @ [p\<lparr>api_ErrorMessage := Some (error_msg (the err))\<rparr>], err))"

definition no_progress :: api_progress where
  "no_progress = \<lparr>Stage = NoStage, api_Duration = None, ReturnedStatus = None, ReturnedBody = None,
     api_ErrorMessage = None\<rparr>"

text \<open>
  The API request task. \<open>api_do\<close> is the HTTP client: it gets the headers in the order in which
  they were added. A tracer that cannot inject its headers does not fail the task.
\<close>

record api_env =
  api_unmarshal :: "bytes \<Rightarrow> error + api_spec"
  new_request_err :: "api_spec \<Rightarrow> error option"
  create_token :: "error + string"
  api_do :: "api_spec \<Rightarrow> (string \<times> string) list \<Rightarrow> error + http_response"
  api_nanos :: int

definition request_headers :: "api_spec \<Rightarrow> (string \<times> string) list" where
  "request_headers sp = (''User-Agent'', ''Contiamo API Request Task'') # RequestHeaders sp"

definition prepare_request :: "string \<Rightarrow> api_env \<Rightarrow> api_spec \<Rightarrow> error + (string \<times> string) list" where
  "prepare_request tokenHeaderName e sp =
     (case new_request_err e sp of Some x \<Rightarrow> Inl x
      | None \<Rightarrow>
        if Authorized sp then
          (case create_token e of Inl x \<Rightarrow> Inl x
           | Inr token \<Rightarrow> Inr (request_headers sp @ [(tokenHeaderName, token)]))
        else Inr (request_headers sp))"

definition api_request_body ::
  "string \<Rightarrow> api_env \<Rightarrow> task \<Rightarrow> api_progress list \<times> api_progress \<times> error option" where
  "api_request_body tokenHeaderName e t =
     (case api_unmarshal e (task_spec_bytes t) of
        Inl x \<Rightarrow> ([], no_progress, Some x)
      | Inr sp \<Rightarrow>
        (let p = no_progress\<lparr>Stage := RequestPreparing\<rparr>
         in case prepare_request tokenHeaderName e sp of
              Inl x \<Rightarrow> ([p], p, Some x)
            | Inr headers \<Rightarrow>
              (let p' = p\<lparr>Stage := RequestPending\<rparr>;
                   (beats, p'', err) = send_duration (api_nanos e)
                     (case api_do e sp headers of
                        Inl x \<Rightarrow> ([], p', Some x)
                      | Inr resp \<Rightarrow> read_response (\<lambda>_. None) sp p' resp)
               in (p # p' # beats, p'', err))))"

definition api_request_Process :: "string \<Rightarrow> api_env \<Rightarrow> handler" where
  "api_request_Process tokenHeaderName e t =
     (case send_error (api_request_body tokenHeaderName e t) of (beats, err) \<Rightarrow>
        \<lparr>run_beats = map sendAPIRequestProgress beats, run_result = Ret err\<rparr>)"

text \<open>
  The JSON API task, which uses the API client: \<open>json_do\<close> is its \<open>DoRequestWithResponse\<close> with
  the headers of the task and whether the token provider is kept. \<open>json_payload_err\<close> is the
  error of decoding the request body.
\<close>

record json_api_env =
  json_unmarshal :: "bytes \<Rightarrow> error + api_spec"
  json_payload_err :: "string \<Rightarrow> error option"
  json_do :: "api_spec \<Rightarrow> (string \<times> string) list \<Rightarrow> bool \<Rightarrow> error + http_response"
  json_nanos :: int

definition json_api_body ::
  "(bytes \<Rightarrow> error option) \<Rightarrow> json_api_env \<Rightarrow> task \<Rightarrow> api_progress list \<times> api_progress \<times> error option" where
  "json_api_body errorChecker e t =
     (case json_unmarshal e (task_spec_bytes t) of
        Inl x \<Rightarrow> ([], no_progress, Some x)
      | Inr sp \<Rightarrow>
        (let p = no_progress\<lparr>Stage := RequestPreparing\<rparr>;
             p' = p\<lparr>Stage := RequestPending\<rparr>;
             (beats, p'', err) = send_duration (json_nanos e)
               (case (if RequestBody sp \<noteq> [] then json_payload_err e (RequestBody sp) else None) of
                  Some x \<Rightarrow> ([], p', Some (Wrap ''can not unmarshal the request body: '' x))
                | None \<Rightarrow>
                  (case json_do e sp (request_headers sp) (Authorized sp) of
                     Inl x \<Rightarrow> ([], p', Some x)
                   | Inr resp \<Rightarrow> read_response errorChecker sp p' resp))
         in (p # p' # beats, p'', err)))"

definition json_api_Process :: "(bytes \<Rightarrow> error option) \<Rightarrow> json_api_env \<Rightarrow> handler" where
  "json_api_Process errorChecker e t =
     (case send_error (json_api_body errorChecker e t) of (beats, err) \<Rightarrow>
        \<lparr>run_beats = map sendAPIRequestProgress beats, run_result = Ret err\<rparr>)"

text \<open>
  \<open>checkForErrorStatus\<close>: \<open>doc\<close> decodes the two fields of a text.
\<close>

definition checkForErrorStatus :: "(bytes \<Rightarrow> error + string \<times> string) \<Rightarrow> bytes \<Rightarrow> error option" where
  "checkForErrorStatus doc m =
     (case doc m of
        Inl x \<Rightarrow> Some x
      | Inr (st, message) \<Rightarrow>
        if st = ''error'' then
          (if message \<noteq> [] then Some (New message) else Some (New (''found error status: '' @ m)))
        else None)"

subsection \<open>What a run of an API task reports\<close>

fun stream_ok ::
  "(bytes \<Rightarrow> error option) \<Rightarrow> error option \<times> nat \<Rightarrow> (error option \<times> nat \<times> (error + bytes)) list \<Rightarrow> bool" where
  "stream_ok check fin [] = (fst fin = None)"
| "stream_ok check fin ((ctx, n, doc) # docs) =
     (ctx = None \<and> (case doc of Inl x \<Rightarrow> x = Std_err EOF | Inr m \<Rightarrow> check m = None \<and> stream_ok check fin docs))"

lemma decode_loop_ok:
  "decode_loop check fin p docs = (beats, p', err) \<Longrightarrow> err = None \<longleftrightarrow> stream_ok check fin docs"
proof (induction check fin p docs arbitrary: beats rule: decode_loop.induct)
  case (1 check ctx n p)
  then show ?case by (auto split: option.splits)
next
  case (2 check fin p ctx n doc docs)
  then show ?case by (auto simp: Let_def split: option.splits sum.splits if_splits prod.splits)
qed

lemma decode_loop_keeps:
  "decode_loop check fin p docs = (beats, p', err) \<Longrightarrow> q \<in> set (p' # beats) \<Longrightarrow>
     Stage q = Stage p \<and> ReturnedStatus q = ReturnedStatus p \<and> api_Duration q = api_Duration p \<and>
     api_ErrorMessage q = api_ErrorMessage p"
proof (induction check fin p docs arbitrary: beats rule: decode_loop.induct)
  case (1 check ctx n p)
  then show ?case by (auto split: option.splits)
next
  case (2 check fin p ctx n doc docs)
  show ?case
  proof (cases "ctx = None \<and> (\<exists>m. doc = Inr m \<and> check m = None)")
    case False
    with "2.prems" show ?thesis by (auto split: option.splits sum.splits)
  next
    case True
    then obtain m where m: "doc = Inr m" "check m = None" "ctx = None" by blast
    let ?p = "p\<lparr>ReturnedBody := Some m\<rparr>"
    obtain bs where bs: "decode_loop check fin ?p docs = (bs, p', err)" "beats = replicate n p @ ?p # bs"
      using "2.prems"(1) m by (auto simp: Let_def split: prod.splits)
    from "2.prems"(2) bs(2) consider "q = p" | "q = ?p" | "q \<in> set (p' # bs)" by auto
    then show ?thesis using "2.IH" [OF m(3) m(1) m(2) refl bs(1)] by cases auto
  qed
qed

lemma read_response_ok:
  assumes "read_response check sp p resp = (beats, p', err)"
  shows "err = None \<longleftrightarrow> contains (ContentType resp) ''json'' \<and> stream_ok check (body_end resp) (body_docs resp) \<and>
       StatusCode resp = ExpectedStatus sp"
    and "api_ErrorMessage p = None \<Longrightarrow> q \<in> set (p' # beats) \<Longrightarrow> api_ErrorMessage q = None"
    and "err = None \<Longrightarrow> Stage p' = RequestResponse \<and> ReturnedStatus p' = Some (ExpectedStatus sp)"
    and "q \<in> set beats \<Longrightarrow> Stage q = RequestResponse"
    and "Stage p' = Stage p \<or> Stage p' = RequestResponse"
proof -
  obtain bs q' err' where d: "decode_loop check (body_end resp)
      (p\<lparr>Stage := RequestResponse, ReturnedStatus := Some (StatusCode resp)\<rparr>) (body_docs resp) = (bs, q', err')"
    by (metis prod.collapse)
  note d' = decode_loop_ok [OF d] decode_loop_keeps [OF d]
  show "err = None \<longleftrightarrow> contains (ContentType resp) ''json'' \<and> stream_ok check (body_end resp) (body_docs resp) \<and>
       StatusCode resp = ExpectedStatus sp"
    using assms d d'(1) by (auto simp: read_response_def Let_def split: if_splits)
  show "api_ErrorMessage p = None \<Longrightarrow> q \<in> set (p' # beats) \<Longrightarrow> api_ErrorMessage q = None"
    "err = None \<Longrightarrow> Stage p' = RequestResponse \<and> ReturnedStatus p' = Some (ExpectedStatus sp)"
    "q \<in> set beats \<Longrightarrow> Stage q = RequestResponse"
    "Stage p' = Stage p \<or> Stage p' = RequestResponse"
    using assms d d'(2) [of q'] d'(2) [of q]
    by (auto simp: read_response_def Let_def split: if_splits)
qed

text \<open>What the request of a task needs to succeed.\<close>

definition request_ok :: "string \<Rightarrow> api_env \<Rightarrow> task \<Rightarrow> bool" where
  "request_ok tok e t \<longleftrightarrow>
     (\<exists>sp headers resp. api_unmarshal e (task_spec_bytes t) = Inr sp \<and> prepare_request tok e sp = Inr headers \<and>
        api_do e sp headers = Inr resp \<and> contains (ContentType resp) ''json'' \<and>
        stream_ok (\<lambda>_. None) (body_end resp) (body_docs resp) \<and> StatusCode resp = ExpectedStatus sp)"

lemma api_request_body_cases:
  assumes "api_request_body tok e t = (beats, p, err)"
  obtains (early) "err \<noteq> None" "\<not> request_ok tok e t" "length beats \<le> 1"
      "\<And>q. q \<in> set (p # beats) \<Longrightarrow> Stage q = NoStage \<or> Stage q = RequestPreparing"
    | (sent) sp headers bs q where "api_unmarshal e (task_spec_bytes t) = Inr sp"
        "prepare_request tok e sp = Inr headers"
        "(case api_do e sp headers of Inl x \<Rightarrow> ([], no_progress\<lparr>Stage := RequestPending\<rparr>, Some x)
          | Inr resp \<Rightarrow> read_response (\<lambda>_. None) sp (no_progress\<lparr>Stage := RequestPending\<rparr>) resp) = (bs, q, err)"
        "p = q\<lparr>api_Duration := Some (api_nanos e)\<rparr>"
        "beats = no_progress\<lparr>Stage := RequestPreparing\<rparr> # no_progress\<lparr>Stage := RequestPending\<rparr> # bs @ [p]"
proof (cases "\<exists>sp headers. api_unmarshal e (task_spec_bytes t) = Inr sp \<and> prepare_request tok e sp = Inr headers")
  case True
  then obtain sp headers where sp: "api_unmarshal e (task_spec_bytes t) = Inr sp"
    "prepare_request tok e sp = Inr headers" by blast
  obtain bs q err' where r: "(case api_do e sp headers of Inl x \<Rightarrow> ([], no_progress\<lparr>Stage := RequestPending\<rparr>, Some x)
          | Inr resp \<Rightarrow> read_response (\<lambda>_. None) sp (no_progress\<lparr>Stage := RequestPending\<rparr>) resp) = (bs, q, err')"
    by (metis prod.collapse)
  with assms sp have "err' = err" "p = q\<lparr>api_Duration := Some (api_nanos e)\<rparr>"
    "beats = no_progress\<lparr>Stage := RequestPreparing\<rparr> # no_progress\<lparr>Stage := RequestPending\<rparr> # bs @ [p]"
    by (cases "api_do e sp headers"; auto simp: api_request_body_def send_duration_def Let_def)+
  with sent sp r show ?thesis by blast
next
  case False
  show ?thesis
  proof (rule early)
    show "err \<noteq> None" "length beats \<le> 1" "\<And>q. q \<in> set (p # beats) \<Longrightarrow> Stage q = NoStage \<or> Stage q = RequestPreparing"
      using assms False by (auto simp: api_request_body_def Let_def no_progress_def split: sum.splits)
    show "\<not> request_ok tok e t" using False by (auto simp: request_ok_def)
  qed
qed

lemma api_request_err:
  assumes "api_request_body tok e t = (beats, p, err)"
  shows "err = None \<longleftrightarrow> request_ok tok e t"
  using assms
proof (cases rule: api_request_body_cases)
  case (sent sp headers bs q)
  show ?thesis
  proof (cases "api_do e sp headers")
    case (Inl x)
    with sent show ?thesis by (auto simp: request_ok_def)
  next
    case (Inr resp)
    with sent(3) have "read_response (\<lambda>_. None) sp (no_progress\<lparr>Stage := RequestPending\<rparr>) resp = (bs, q, err)" by simp
    from read_response_ok(1) [OF this] sent(1,2) Inr show ?thesis by (auto simp: request_ok_def)
  qed
qed simp

text \<open>
  C22: The API request task returns nil exactly when its specification can be decoded, the
  request can be built and sent, the response announces JSON, all of its texts are read before
  the context is done, and its status is the expected one.
\<close>

theorem api_request_success_iff:
  "run_result (api_request_Process tok e t) = Ret None \<longleftrightarrow> request_ok tok e t"
proof -
  obtain beats p err where b: "api_request_body tok e t = (beats, p, err)" by (metis prod.collapse)
  with api_request_err [OF b] show ?thesis by (auto simp: api_request_Process_def send_error_def)
qed

definition api_beats :: "string \<Rightarrow> api_env \<Rightarrow> task \<Rightarrow> api_progress list" where
  "api_beats tok e t = fst (send_error (api_request_body tok e t))"

lemma api_beats_sent: "run_beats (api_request_Process tok e t) = map sendAPIRequestProgress (api_beats tok e t)"
  by (simp add: api_request_Process_def api_beats_def split: prod.splits)

text \<open>
  The last heartbeat of an API request task tells how it ended: when the task returns an
  error, the last progress carries its text; when it returns nil, the last progress is at the
  response stage with the expected status, a duration and no error.
\<close>

theorem api_request_last_beat:
  assumes "run_result (api_request_Process tok e t) = Ret err" and "err \<noteq> Some (Handler_err ErrSerializingHearbeat)"
  shows "run_beats (api_request_Process tok e t) = map sendAPIRequestProgress (api_beats tok e t) \<and>
    api_beats tok e t \<noteq> [] \<and> api_ErrorMessage (last (api_beats tok e t)) = map_option error_msg err \<and>
    (err = None \<longrightarrow> Stage (last (api_beats tok e t)) = RequestResponse \<and>
       ReturnedStatus (last (api_beats tok e t)) \<noteq> None \<and> api_Duration (last (api_beats tok e t)) = Some (api_nanos e))"
proof -
  obtain beats p err' where b: "api_request_body tok e t = (beats, p, err')" by (metis prod.collapse)
  with assms(1) have err: "err' = err" by (auto simp: api_request_Process_def send_error_def split: if_splits)
  show ?thesis
  proof (cases err)
    case (Some x)
    with b err assms(2) have "api_beats tok e t = beats @ [p\<lparr>api_ErrorMessage := Some (error_msg x)\<rparr>]"
      by (simp add: api_beats_def send_error_def)
    with Some show ?thesis by (simp add: api_beats_sent)
  next
    case None
    with b err have bs: "api_beats tok e t = beats" by (simp add: api_beats_def send_error_def)
    from b show ?thesis
    proof (cases rule: api_request_body_cases)
      case early
      with None err show ?thesis by simp
    next
      case (sent sp headers bs' q)
      with None err obtain resp where resp: "read_response (\<lambda>_. None) sp (no_progress\<lparr>Stage := RequestPending\<rparr>) resp = (bs', q, None)"
        by (auto split: sum.splits)
      from read_response_ok(3) [OF resp] read_response_ok(2) [OF resp, of q]
      have "Stage q = RequestResponse" "ReturnedStatus q \<noteq> None" "api_ErrorMessage q = None"
        by (simp_all add: no_progress_def)
      with sent(4,5) None bs show ?thesis by (simp add: api_beats_sent)
    qed
  qed
qed

subsection \<open>The SQL task\<close>

text \<open>
  The SQL task reports what happened: it sends a first heartbeat before it looks at the
  task; it returns nil exactly when the statement ran and its count of rows is known, and then
  the last progress holds this count; otherwise the last progress holds the text of the error.
\<close>

theorem sql_task_reports:
  "\<exists>beats. run_beats (sql_Process e t) = map sendSQLTaskProgress beats \<and> 2 \<le> length beats \<and>
    (case run_result (sql_Process e t) of
       Ret None \<Rightarrow> \<exists>sql n. sql_unmarshal e (task_spec_bytes t) = Inr sql \<and> sql_exec e sql = Inr (Inr n) \<and>
          sql_RowsAffected (last beats) = Some n \<and> sql_ErrorMessage (last beats) = None
     | Ret (Some x) \<Rightarrow> sql_ErrorMessage (last beats) = Some (error_msg x) \<and>
          (\<forall>sql n. sql_unmarshal e (task_spec_bytes t) = Inr sql \<longrightarrow> sql_exec e sql \<noteq> Inr (Inr n))
     | Panic \<Rightarrow> False)"
  by (rule exI [of _ "fst (sql_deferred (sql_body e t))"]) (auto simp: sql_Process_def sql_deferred_def sql_body_def Let_def split: sum.splits)

subsection \<open>Example runs\<close>

definition ex_sql :: "error + error + int \<Rightarrow> sql_env" where
  "ex_sql res = \<lparr>sql_unmarshal = (\<lambda>b. if b = [] then Inl (Ext ''no json'') else Inr b),
     sql_exec = (\<lambda>_. res), sql_millis = 12\<rparr>"

theorem sql_task_reports_witness:
  "\<exists>beats. run_beats (sql_Process (ex_sql (Inl (Ext ''down''))) ex_task) = map sendSQLTaskProgress beats \<and>
    sql_ErrorMessage (last beats) = Some ''sql execution failed: down''"
proof -
  have "run_result (sql_Process (ex_sql (Inl (Ext ''down''))) ex_task) = Ret (Some (Wrap ''sql execution failed: '' (Ext ''down'')))"
    by code_simp
  with sql_task_reports [of "ex_sql (Inl (Ext ''down''))" ex_task] show ?thesis by auto
qed

definition ex_api_spec :: api_spec where
  "ex_api_spec = \<lparr>Method = ''GET'', URL = ''http://h/'', RequestBody = [], RequestHeaders = [(''X'', ''1'')],
     Authorized = True, ExpectedStatus = 200\<rparr>"

definition ex_api :: "int \<Rightarrow> api_env" where
  "ex_api st = \<lparr>api_unmarshal = (\<lambda>_. Inr ex_api_spec), new_request_err = (\<lambda>_. None), create_token = Inr ''tok'',
     api_do = (\<lambda>_ _. Inr \<lparr>StatusCode = st, ContentType = ''application/json'',
        body_docs = [(None, 1, Inr ''{}'')], body_end = (None, 0)\<rparr>), api_nanos = 5\<rparr>"

theorem api_request_last_beat_witness:
  "api_ErrorMessage (last (api_beats ''A'' (ex_api 500) ex_task)) = Some ''expected status 200 but got 500'' \<and>
   Stage (last (api_beats ''A'' (ex_api 200) ex_task)) = RequestResponse"
proof -
  have r: "run_result (api_request_Process ''A'' (ex_api 500) ex_task) = Ret (Some (New ''expected status 200 but got 500''))"
    "run_result (api_request_Process ''A'' (ex_api 200) ex_task) = Ret None"
    by code_simp+
  from api_request_last_beat [OF r(1)] api_request_last_beat [OF r(2)] show ?thesis by simp
qed

end
