(* ===== verification/Authorization.thy ===== *)
theory Authorization
  imports Go_Errors
begin

section \<open>Claims and the authorization middleware\<close>

text \<open>
  \<open>pkg/http/middlewares/authorization\<close>. A time stamp is an instant in nanoseconds, the zero
  time for one that is missing; in JSON it is the number of whole seconds, so \<open>Timestamp\<close>
  loses the rest (\<open>json_time\<close>). Parsing and verifying a JSON Web Token is done by a library:
  it is a parameter of the middleware.
\<close>

record claims =
  cl_ID :: string
  cl_Issuer :: string
  cl_IssuedAt :: time
  cl_NotBefore :: time
  cl_Expires :: time
  cl_Audience :: string
  cl_UserID :: string
  cl_UserName :: string
  cl_Email :: string
  cl_TenantID :: string
  cl_RealmIDs :: "string list"
  cl_GroupIDs :: "string list"
  cl_AllowedIPs :: "string list"
  cl_IsTenantAdmin :: bool
  cl_AdminRealmIDs :: "string list"
  cl_AuthenticationMethodReferences :: "string list"
  cl_AuthorizedParty :: string
  cl_SourceToken :: string

definition VerifyAudience :: "claims \<Rightarrow> string \<Rightarrow> bool \<Rightarrow> bool" where
  "VerifyAudience a cmp required = (if cl_Audience a = [] then \<not> required else cl_Audience a = cmp)"

definition VerifyExpiresAt :: "claims \<Rightarrow> time \<Rightarrow> bool \<Rightarrow> bool" where
  "VerifyExpiresAt a cmp required = (if cl_Expires a = zero_time then \<not> required else cmp < cl_Expires a)"

definition VerifyNotBefore :: "claims \<Rightarrow> time \<Rightarrow> bool \<Rightarrow> bool" where
  "VerifyNotBefore a cmp required =
     (if cl_NotBefore a = zero_time then \<not> required else cmp > cl_NotBefore a \<or> cmp = cl_NotBefore a)"

definition VerifyIssuedAt :: "claims \<Rightarrow> time \<Rightarrow> bool \<Rightarrow> bool" where
  "VerifyIssuedAt a cmp required =
     (if cl_IssuedAt a = zero_time then \<not> required else cmp > cl_IssuedAt a \<or> cmp = cl_IssuedAt a)"

definition VerifyIssuer :: "claims \<Rightarrow> string \<Rightarrow> bool \<Rightarrow> bool" where
  "VerifyIssuer a cmp required = (if cl_Issuer a = [] then \<not> required else cl_Issuer a = cmp)"

definition VerifyAuthorizedParty :: "claims \<Rightarrow> bool" where
  "VerifyAuthorizedParty a =
     (if cl_AuthorizedParty a = [] then True else VerifyIssuer a (cl_AuthorizedParty a) True)"

definition Validate :: "time \<Rightarrow> claims \<Rightarrow> error option" where
  "Validate now a =
     (if cl_UserID a = [] then Some (Auth_err ErrMissingSub)
      else if \<not> VerifyExpiresAt a now True then Some (Auth_err ErrExpiration)
      else if \<not> VerifyNotBefore a now True then Some (Auth_err ErrTooEarly)
      else if \<not> VerifyIssuedAt a now True then Some (Auth_err ErrTooSoon)
      else if \<not> VerifyAuthorizedParty a then Some (Auth_err ErrInvalidParty)
      else None)"

definition Valid :: "time \<Rightarrow> claims \<Rightarrow> bool" where
  "Valid now a = (Validate now a = None)"

definition Entities :: "claims \<Rightarrow> string list" where
  "Entities a = [cl_UserID a] @ cl_GroupIDs a"

text \<open>A time stamp after a round trip through JSON: \<open>MarshalJSON\<close> writes \<open>Unix()\<close>.\<close>

definition unix_seconds :: "time \<Rightarrow> int" where
  "unix_seconds t = t div 1000000000"

definition json_time :: "time \<Rightarrow> time" where
  "json_time t = unix_seconds t * 1000000000"

text \<open>The claims that a receiver of the token decodes; \<open>SourceToken\<close> is not a part of the JSON.\<close>

definition json_claims :: "claims \<Rightarrow> claims" where
  "json_claims a = a\<lparr>cl_IssuedAt := json_time (cl_IssuedAt a), cl_NotBefore := json_time (cl_NotBefore a),
     cl_Expires := json_time (cl_Expires a), cl_SourceToken := []\<rparr>"

subsection \<open>The middleware\<close>

text \<open>
  A parsed token: whether its signing method is one of the RSA methods, the header \<open>alg\<close>, the
  header \<open>kid\<close> if it is a string, and the claims as JSON. \<open>jwt_parse\<close> is \<open>Parser.Parse\<close>, which
  asks the key function for the key of the token; \<open>decode_claims\<close> decodes the JSON.
\<close>

record jwt_token =
  method_rsa :: bool
  alg :: string
  kid :: "string option"
  raw_claims :: bytes

type_synonym 'k key_function = "jwt_token \<Rightarrow> error + 'k"

record 'k jwt_lib =
  jwt_parse :: "string \<Rightarrow> 'k key_function \<Rightarrow> error + jwt_token"
  decode_claims :: "bytes \<Rightarrow> error + claims"
  verified :: "string \<Rightarrow> 'k \<Rightarrow> jwt_token \<Rightarrow> bool"

text \<open>
  What the library promises: a token that it returns was verified with the key that the key
  function gave for it.
\<close>

definition jwt_ok :: "'k jwt_lib \<Rightarrow> bool" where
  "jwt_ok lib \<longleftrightarrow> (\<forall>s kf t. jwt_parse lib s kf = Inr t \<longrightarrow> (\<exists>k. kf t = Inr k \<and> verified lib s k t))"

definition getKeyFunction :: "'k \<Rightarrow> 'k key_function" where
  "getKeyFunction key token =
     (if \<not> method_rsa token then Inl (New (''unexpected signing method: '' @ alg token)) else Inr key)"

definition parseClaims :: "'k jwt_lib \<Rightarrow> jwt_token \<Rightarrow> error + claims" where
  "parseClaims lib token = decode_claims lib (raw_claims token)"

datatype middleware_result = Next "claims option" | Unauthorized error

definition WrapHandler ::
  "'k jwt_lib \<Rightarrow> string \<Rightarrow> 'k \<Rightarrow> time \<Rightarrow> string \<Rightarrow> (string \<Rightarrow> string) \<Rightarrow> middleware_result" where
  "WrapHandler lib headerName publicKey now method header =
     (if headerName = [] then Next None
      else if method = ''OPTIONS'' then Next None
      else
        let headerValue = header headerName
        in if headerValue = [] then Unauthorized (New ''could not find the authentication header'')
        else (case jwt_parse lib headerValue (getKeyFunction publicKey) of
            Inl x \<Rightarrow> Unauthorized (errors_Wrap x ''could not parse and verify auth claims'')
          | Inr token \<Rightarrow>
            (case parseClaims lib token of
               Inl x \<Rightarrow> Unauthorized (errors_Wrap x ''could not parse request token from claims'')
             | Inr claims \<Rightarrow>
               (case Validate now claims of
                  Some x \<Rightarrow> Unauthorized x
                | None \<Rightarrow> Next (Some (claims\<lparr>cl_SourceToken := headerValue\<rparr>))))))"

text \<open>
  \<open>strings.TrimSpace\<close> and \<open>strings.Split\<close> with a separator of one character.
\<close>

definition is_space :: "char \<Rightarrow> bool" where
  "is_space c \<longleftrightarrow> c \<in> {CHR 0x09, CHR 0x0A, CHR 0x0B, CHR 0x0C, CHR 0x0D, CHR '' ''}"

definition TrimSpace :: "string \<Rightarrow> string" where
  "TrimSpace s = rev (dropWhile is_space (rev (dropWhile is_space s)))"

fun split_on :: "char \<Rightarrow> string \<Rightarrow> string list" where
  "split_on x [] = [[]]"
| "split_on x (c # cs) =
     (if c = x then [] # split_on x cs
      else (case split_on x cs of [] \<Rightarrow> [[c]] | p # ps \<Rightarrow> (c # p) # ps))"

definition sanitizeHeaderValue :: "string \<Rightarrow> string" where
  "sanitizeHeaderValue value =
     (let trimmed = TrimSpace value
      in if trimmed = [] then trimmed
      else
        let parts = split_on (CHR ''.'') trimmed; header = hd parts
        in if length header \<ge> 36 \<and> length parts = 3 then header @ ''.****''
           else take (length trimmed div 2) trimmed @ ''****'')"

subsection \<open>Validation\<close>

text \<open>
  Claims are valid exactly in a window of time: they name a user, the time is not before
  \<open>nbf\<close> and \<open>iat\<close> and is before \<open>exp\<close>, all three are given, and an authorized party, if there is
  one, is the issuer.
\<close>

theorem Valid_iff:
  "Valid now a \<longleftrightarrow> cl_UserID a \<noteq> [] \<and> cl_Expires a \<noteq> zero_time \<and> cl_NotBefore a \<noteq> zero_time \<and>
     cl_IssuedAt a \<noteq> zero_time \<and> max (cl_NotBefore a) (cl_IssuedAt a) \<le> now \<and> now < cl_Expires a \<and>
     (cl_AuthorizedParty a = [] \<or> cl_Issuer a = cl_AuthorizedParty a)"
  by (auto simp: Valid_def Validate_def VerifyExpiresAt_def VerifyNotBefore_def VerifyIssuedAt_def
      VerifyAuthorizedParty_def VerifyIssuer_def)

text \<open>
  C26: The middleware lets a request pass with claims only when its header holds a token with
  an RSA method that the library verified with the configured key, and the claims of the token
  are valid now; every request that is neither refused nor given claims is an \<open>OPTIONS\<close>
  request, unless no header is configured.
\<close>

theorem middleware_admits_only_verified:
  assumes "jwt_ok lib" and "WrapHandler lib headerName key now method header = Next res"
  shows "case res of
      None \<Rightarrow> headerName = [] \<or> method = ''OPTIONS''
    | Some a \<Rightarrow> \<exists>token c. verified lib (header headerName) key token \<and> method_rsa token \<and>
        decode_claims lib (raw_claims token) = Inr c \<and> Valid now c \<and> a = c\<lparr>cl_SourceToken := header headerName\<rparr>"
proof (cases "headerName = [] \<or> method = ''OPTIONS''")
  case True
  then have "WrapHandler lib headerName key now method header = Next None" by (auto simp: WrapHandler_def)
  with assms(2) True show ?thesis by simp
next
  case False
  then obtain token c where t: "jwt_parse lib (header headerName) (getKeyFunction key) = Inr token"
    "decode_claims lib (raw_claims token) = Inr c" "Validate now c = None"
    "res = Some (c\<lparr>cl_SourceToken := header headerName\<rparr>)"
    using assms(2) by (auto simp: WrapHandler_def parseClaims_def Let_def split: if_splits sum.splits option.splits)
  from assms(1) t(1) obtain k where k: "getKeyFunction key token = Inr k" "verified lib (header headerName) k token"
    unfolding jwt_ok_def by blast
  then have "method_rsa token" "k = key" by (auto simp: getKeyFunction_def split: if_splits)
  with t k show ?thesis by (auto simp: Valid_def)
qed

subsection \<open>Logging a header\<close>

lemma split_on_nonempty [simp]: "split_on x s \<noteq> []"
  by (induction s) (auto split: list.splits)

lemma split_on_hd: "\<exists>t. s = hd (split_on x s) @ t \<and> (t = [] \<longleftrightarrow> length (split_on x s) = 1)"
proof (induction s)
  case (Cons c cs)
  show ?case
  proof (cases "c = x")
    case False
    obtain p ps where p: "split_on x cs = p # ps" by (meson neq_Nil_conv split_on_nonempty)
    with Cons False show ?thesis by auto
  qed auto
qed auto

text \<open>
  What is logged of an authentication header never contains all of it: it is a proper
  prefix of the value, followed by stars; for a value of three parts like a JSON Web Token with
  a long enough header it is the first part only.
\<close>

theorem sanitize_hides:
  assumes "TrimSpace v \<noteq> []"
  shows "\<exists>pre post. sanitizeHeaderValue v = pre @ post \<and> post \<in> {''.****'', ''****''} \<and>
    (\<exists>rest. TrimSpace v = pre @ rest \<and> rest \<noteq> [])"
proof -
  let ?t = "TrimSpace v"
  show ?thesis
  proof (cases "length (hd (split_on (CHR ''.'') ?t)) \<ge> 36 \<and> length (split_on (CHR ''.'') ?t) = 3")
    case True
    obtain rest where "?t = hd (split_on (CHR ''.'') ?t) @ rest" "rest \<noteq> []"
      using split_on_hd [of ?t "CHR ''.''"] True by auto
    with True assms show ?thesis
      by (intro exI [of _ "hd (split_on (CHR ''.'') ?t)"] exI [of _ "''.****''"])
        (auto simp: sanitizeHeaderValue_def Let_def)
  next
    case False
    have "drop (length ?t div 2) ?t \<noteq> []" using assms by (cases ?t) auto
    moreover have "?t = take (length ?t div 2) ?t @ drop (length ?t div 2) ?t" by simp
    moreover have "sanitizeHeaderValue v = take (length ?t div 2) ?t @ ''****''"
      using assms False by (auto simp: sanitizeHeaderValue_def Let_def)
    ultimately show ?thesis by blast
  qed
qed

subsection \<open>Examples\<close>

definition ex_claims :: claims where
  "ex_claims = \<lparr>cl_ID = ''1'', cl_Issuer = ''hub'', cl_IssuedAt = 10, cl_NotBefore = 5, cl_Expires = 90,
     cl_Audience = [], cl_UserID = ''u'', cl_UserName = ''n'', cl_Email = ''e'', cl_TenantID = [], cl_RealmIDs = [],
     cl_GroupIDs = [''g''], cl_AllowedIPs = [], cl_IsTenantAdmin = False, cl_AdminRealmIDs = [],
     cl_AuthenticationMethodReferences = [], cl_AuthorizedParty = ''hub'', cl_SourceToken = []\<rparr>"

text \<open>A library that takes every text as its own signature and accepts one key, \<open>7\<close>.\<close>

definition sample_jwt :: "nat jwt_lib" where
  "sample_jwt = \<lparr>jwt_parse = (\<lambda>s kf. let t = \<lparr>method_rsa = True, alg = ''RS512'', kid = None, raw_claims = s\<rparr>
       in case kf t of Inl x \<Rightarrow> Inl x | Inr k \<Rightarrow> if k = 7 then Inr t else Inl (Ext ''bad key'')),
     decode_claims = (\<lambda>_. Inr ex_claims), verified = (\<lambda>s k t. k = 7 \<and> raw_claims t = s)\<rparr>"

lemma sample_jwt_ok: "jwt_ok sample_jwt"
  by (auto simp: jwt_ok_def sample_jwt_def Let_def split: sum.splits if_splits)

theorem middleware_admits_only_verified_witness:
  "\<exists>token c. verified sample_jwt ''tok'' 7 token \<and> method_rsa token \<and>
     decode_claims sample_jwt (raw_claims token) = Inr c \<and> Valid 20 c"
proof -
  have w: "WrapHandler sample_jwt ''X'' 7 20 ''GET'' (\<lambda>_. ''tok'') = Next (Some (ex_claims\<lparr>cl_SourceToken := ''tok''\<rparr>))"
    by code_simp
  from middleware_admits_only_verified [OF sample_jwt_ok w] show ?thesis by auto
qed

theorem sanitize_hides_witness:
  "\<exists>pre post. sanitizeHeaderValue '' secret'' = pre @ post \<and> post \<in> {''.****'', ''****''} \<and>
    (\<exists>rest. TrimSpace '' secret'' = pre @ rest \<and> rest \<noteq> [])"
  by (rule sanitize_hides) code_simp

end
