(* ===== verification/Tokens.thy ===== *)
theory Tokens
  imports Authorization "HOL-Library.AList"
begin

section \<open>Tokens and public keys\<close>

text \<open>
  \<open>pkg/tokens\<close>. \<open>Create\<close> makes the claims of a token for a request between services and signs
  them; the signature is the library's, a parameter. The public key map keeps the keys of a
  directory in memory, by the hash of their file: \<open>init\<close> reads them all, \<open>sync\<close> only those
  whose file is new or changed.
\<close>

subsection \<open>Creating tokens\<close>

record token_options =
  opt_Audience :: string
  opt_ProjectID :: string
  opt_ID :: string
  opt_UserID :: string

record 'k token_creator =
  issuer :: string
  jwtKey :: "'k option"
  lifetime :: duration

definition second :: duration where
  "second = 1000000000"

definition NewCreator :: "string \<Rightarrow> 'k option \<Rightarrow> duration \<Rightarrow> 'k token_creator" where
  "NewCreator iss privateKey lt =
     (let lt = (if lt < 5 then 5 * second else lt)
      in \<lparr>issuer = iss, jwtKey = privateKey, lifetime = lt\<rparr>)"

definition nil_uuid :: string where
  "nil_uuid = ''00000000-0000-0000-0000-000000000000''"

definition request_token ::
  "'k token_creator \<Rightarrow> string \<Rightarrow> time \<Rightarrow> string \<Rightarrow> token_options \<Rightarrow> claims" where
  "request_token t newID now reference opts =
     (let opts = (if opt_ID opts = [] then opts\<lparr>opt_ID := newID\<rparr> else opts);
          opts = (if opt_UserID opts = [] then opts\<lparr>opt_UserID := nil_uuid\<rparr> else opts);
          requestToken = \<lparr>cl_ID = opt_ID opts, cl_Issuer = issuer t, cl_IssuedAt = now,
            cl_NotBefore = now - 5 * second, cl_Expires = now + lifetime t, cl_Audience = opt_Audience opts,
            cl_UserID = opt_UserID opts, cl_UserName = ''@'' @ issuer t, cl_Email = issuer t @ ''@contiamo.com'',
            cl_TenantID = [], cl_RealmIDs = [], cl_GroupIDs = [], cl_AllowedIPs = [], cl_IsTenantAdmin = False,
            cl_AdminRealmIDs = [], cl_AuthenticationMethodReferences = [reference],
            cl_AuthorizedParty = issuer t, cl_SourceToken = []\<rparr>
      in if opt_ProjectID opts \<noteq> [] then
           requestToken\<lparr>cl_AdminRealmIDs := cl_AdminRealmIDs requestToken @ [opt_ProjectID opts],
             cl_RealmIDs := cl_RealmIDs requestToken @ [opt_ProjectID opts]\<rparr>
         else requestToken)"

definition Create ::
  "('k \<Rightarrow> claims \<Rightarrow> error + string) \<Rightarrow> 'k token_creator \<Rightarrow> string \<Rightarrow> time \<Rightarrow> string \<Rightarrow> token_options
    \<Rightarrow> error + string" where
  "Create sign t newID now reference opts =
     (case jwtKey t of
        None \<Rightarrow> Inl (Token_err ErrNoPrivateKeySpecified)
      | Some key \<Rightarrow> sign key (request_token t newID now reference opts))"

subsection \<open>The map of public keys\<close>

record 'k key_entry =
  Filename :: string
  ModTime :: time
  Size :: int
  Hash :: string
  Key :: 'k

text \<open>
  A file of the directory: its name, whether it is regular, its time of modification and size,
  and its content. \<open>parse_pem\<close> reads a key and \<open>hash\<close> is the hex text of SHA-512/256.
\<close>

record key_file =
  file_name :: string
  is_regular :: bool
  file_info :: "error + time \<times> int"
  file_content :: "error + bytes"

record 'k key_lib =
  parse_pem :: "bytes \<Rightarrow> error + 'k"
  hash_of :: "bytes \<Rightarrow> string"

type_synonym 'k key_cache = "(string \<times> 'k key_entry) list"

definition fileToKeyEntry :: "'k key_lib \<Rightarrow> key_file \<Rightarrow> error + 'k key_entry" where
  "fileToKeyEntry lib f =
     (case file_info f of Inl x \<Rightarrow> Inl x
      | Inr (mt, sz) \<Rightarrow>
        (case file_content f of Inl x \<Rightarrow> Inl x
         | Inr bytes \<Rightarrow>
           (case parse_pem lib bytes of Inl x \<Rightarrow> Inl x
            | Inr k \<Rightarrow> Inr \<lparr>Filename = file_name f, ModTime = mt, Size = sz, Hash = hash_of lib bytes, Key = k\<rparr>)))"

definition init ::
  "'k key_lib \<Rightarrow> string \<Rightarrow> error + key_file list \<Rightarrow> 'k key_cache \<Rightarrow> 'k key_cache \<times> error option" where
  "init lib directoryPath dir cache =
     (case dir of
        Inl x \<Rightarrow> (cache, Some (errors_Wrap x (''failed to read directory with keys: '' @ directoryPath)))
      | Inr files \<Rightarrow>
        (fold (\<lambda>f m. if \<not> is_regular f then m
            else (case fileToKeyEntry lib f of Inl x \<Rightarrow> m | Inr k \<Rightarrow> AList.update (Hash k) k m)) files [], None))"

text \<open>
  The state of the loop over the files: the keys by file name, the names of files to delete,
  and the counters of added and updated keys.
\<close>

record 'k sync_state =
  currentKeys :: "(string \<times> 'k key_entry) list"
  deletes :: "string list"
  keysAdded :: nat
  keysUpdated :: nat

definition sync_file :: "'k key_lib \<Rightarrow> key_file \<Rightarrow> 'k sync_state \<Rightarrow> 'k sync_state" where
  "sync_file lib f s =
     (if \<not> is_regular f then s
      else
        let filename = file_name f;
            known = map_of (currentKeys s) filename;
            reload = (case fileToKeyEntry lib f of
                Inl x \<Rightarrow> s
              | Inr k \<Rightarrow>
                s\<lparr>currentKeys := AList.update filename k (currentKeys s),
                  keysUpdated := (if known \<noteq> None then keysUpdated s + 1 else keysUpdated s),
                  keysAdded := (if known \<noteq> None then keysAdded s else keysAdded s + 1),
                  deletes := removeAll filename (deletes s)\<rparr>)
        in case known of
             None \<Rightarrow> reload
           | Some knownKey \<Rightarrow>
             (case file_info f of
                Inl x \<Rightarrow> s
              | Inr (mt, sz) \<Rightarrow>
                if mt = ModTime knownKey \<and> sz = Size knownKey
                then s\<lparr>deletes := removeAll filename (deletes s)\<rparr>
                else reload))"

fun sync_files :: "'k key_lib \<Rightarrow> (error option \<times> key_file) list \<Rightarrow> 'k sync_state \<Rightarrow> error + 'k sync_state" where
  "sync_files lib [] s = Inr s"
| "sync_files lib ((ctx, f) # fs) s =
     (case ctx of Some x \<Rightarrow> Inl x | None \<Rightarrow> sync_files lib fs (sync_file lib f s))"

definition start_state :: "'k key_cache \<Rightarrow> 'k sync_state" where
  "start_state cache =
     \<lparr>currentKeys = fold (\<lambda>(_, entry) m. AList.update (Filename entry) entry m) cache [],
      deletes = remdups (map (\<lambda>(_, entry). Filename entry) cache), keysAdded = 0, keysUpdated = 0\<rparr>"

definition by_hash :: "(string \<times> 'k key_entry) list \<Rightarrow> 'k key_cache" where
  "by_hash current = fold (\<lambda>(_, key) m. AList.update (Hash key) key m) current []"

text \<open>
  \<open>ctx1\<close> and \<open>ctx2\<close> are the errors of the context at its first two checks; every file comes
  with the error of the context at its turn.
\<close>

definition sync ::
  "'k key_lib \<Rightarrow> error option \<Rightarrow> error + (error option \<times> key_file) list \<Rightarrow> error option \<Rightarrow> 'k key_cache
    \<Rightarrow> 'k key_cache \<times> error option" where
  "sync lib ctx1 dir ctx2 cache =
     (case ctx1 of Some x \<Rightarrow> (cache, Some x)
      | None \<Rightarrow>
        (case dir of
           Inl x \<Rightarrow> ([], None)
         | Inr files \<Rightarrow>
           if files = [] then ([], None)
           else (case ctx2 of Some x \<Rightarrow> (cache, Some x)
             | None \<Rightarrow>
               (case sync_files lib files (start_state cache) of
                  Inl x \<Rightarrow> (cache, Some x)
                | Inr s \<Rightarrow>
                  if keysAdded s = 0 \<and> keysUpdated s = 0 \<and> deletes s = [] then (cache, None)
                  else (by_hash (fold AList.delete (deletes s) (currentKeys s)), None)))))"

definition lookup :: "'k key_cache \<Rightarrow> string \<Rightarrow> 'k key_entry option" where
  "lookup cache h = map_of cache h"

definition KeyFunction :: "'k key_cache \<Rightarrow> 'k key_function" where
  "KeyFunction cache token =
     (if \<not> method_rsa token
      then Inl (errors_Wrap (Token_err ErrUnsupportedSigningMethod) (''signing method: '' @ alg token))
      else (case kid token of
          None \<Rightarrow> Inl (errors_Wrap (Token_err ErrMalformedKeyID) ''kid=<nil>'')
        | Some k \<Rightarrow>
          (case lookup cache k of
             None \<Rightarrow> Inl (errors_Wrap (Token_err ErrKeyNotFound) (''kid='' @ k))
           | Some entry \<Rightarrow> Inr (Key entry))))"

text \<open>\<open>MaintainCache\<close>: a synchronization per tick, until one returns an error.\<close>

fun MaintainCache ::
  "'k key_lib \<Rightarrow> (error option \<times> (error + (error option \<times> key_file) list) \<times> error option) list \<Rightarrow> 'k key_cache
    \<Rightarrow> ('k key_cache \<times> error) option" where
  "MaintainCache lib [] cache = None"
| "MaintainCache lib ((ctx1, dir, ctx2) # ticks) cache =
     (case sync lib ctx1 dir ctx2 cache of
        (cache', Some x) \<Rightarrow> Some (cache', x)
      | (cache', None) \<Rightarrow> MaintainCache lib ticks cache')"

subsection \<open>Created tokens are accepted\<close>

lemma json_time_le: "json_time t \<le> t" "t - 999999999 \<le> json_time t"
  by (simp_all add: json_time_def unix_seconds_def)

lemma json_time_nonzero: "0 \<le> t \<Longrightarrow> json_time t \<noteq> zero_time"
  by (simp add: json_time_def unix_seconds_def zero_time_def)

lemma request_token_simps [simp]:
  "cl_Issuer (request_token t i now ref opts) = issuer t"
  "cl_IssuedAt (request_token t i now ref opts) = now"
  "cl_NotBefore (request_token t i now ref opts) = now - 5 * second"
  "cl_Expires (request_token t i now ref opts) = now + lifetime t"
  "cl_AuthorizedParty (request_token t i now ref opts) = issuer t"
  "cl_UserID (request_token t i now ref opts) = (if opt_UserID opts = [] then nil_uuid else opt_UserID opts)"
  by (auto simp: request_token_def Let_def)

lemma created_token_valid_iff:
  assumes "5 * second \<le> now" and "0 \<le> lifetime c"
  shows "Valid t (json_claims (request_token c newID now reference opts)) \<longleftrightarrow>
     json_time now \<le> t \<and> t < json_time (now + lifetime c)"
proof -
  have "json_time (now - 5 * second) \<le> json_time now"
    by (simp add: json_time_def unix_seconds_def second_def zdiv_mono1)
  moreover have "json_time (now - 5 * second) \<noteq> zero_time" "json_time now \<noteq> zero_time"
    "json_time (now + lifetime c) \<noteq> zero_time"
    using assms by (auto simp: second_def intro!: json_time_nonzero)
  ultimately show ?thesis
    by (auto simp: Valid_def Validate_def VerifyExpiresAt_def VerifyNotBefore_def VerifyIssuedAt_def
        VerifyAuthorizedParty_def VerifyIssuer_def json_claims_def nil_uuid_def)
qed

text \<open>
  A receiver accepts a token that \<open>Create\<close> made from the second in which it was created
  until the second in which its lifetime ends. In particular a receiver whose clock is a second
  or more behind refuses a fresh token, although \<open>nbf\<close> is set five seconds back to tolerate a
  skew: \<open>iat\<close> is not.
\<close>

theorem created_token_window:
  assumes "5 * second \<le> now" and "0 \<le> lifetime c"
  shows "Valid t (json_claims (request_token c newID now reference opts)) \<longleftrightarrow>
     json_time now \<le> t \<and> t < json_time (now + lifetime c)"
  using assms by (rule created_token_valid_iff)

definition ex_opts :: token_options where
  "ex_opts = \<lparr>opt_Audience = [], opt_ProjectID = ''p'', opt_ID = [], opt_UserID = []\<rparr>"

theorem created_token_window_witness:
  "Valid (7 * second) (json_claims (request_token (NewCreator ''hub'' (Some ()) (60 * second)) ''i'' (7 * second) ''r'' ex_opts)) \<and>
   \<not> Valid (6 * second) (json_claims (request_token (NewCreator ''hub'' (Some ()) (60 * second)) ''i'' (7 * second) ''r'' ex_opts))"
proof -
  have l: "5 * second \<le> 7 * second" "0 \<le> lifetime (NewCreator ''hub'' (Some ()) (60 * second))"
    by (simp_all add: second_def NewCreator_def)
  show ?thesis
    unfolding created_token_window [OF l]
    by (simp add: second_def NewCreator_def json_time_def unix_seconds_def)
qed

text \<open>
  The lower bound on the lifetime compares nanoseconds with 5: a lifetime of less than a
  second is kept, and the token may never be valid.
\<close>

lemma short_lifetime_never_valid:
  assumes "5 * second \<le> now" and "5 \<le> lt" and "json_time (now + lt) = json_time now"
  shows "\<not> Valid t (json_claims (request_token (NewCreator iss key lt) newID now reference opts))"
  using created_token_valid_iff [OF assms(1), of "NewCreator iss key lt"] assms(2,3)
  by (simp add: NewCreator_def)

subsection \<open>Synchronizing is reloading\<close>

text \<open>The entry that the directory gives for a file name.\<close>

definition want :: "'k key_lib \<Rightarrow> key_file list \<Rightarrow> string \<Rightarrow> 'k key_entry option" where
  "want lib files n =
     (case List.find (\<lambda>f. is_regular f \<and> file_name f = n) files of
        None \<Rightarrow> None
      | Some f \<Rightarrow> (case fileToKeyEntry lib f of Inl x \<Rightarrow> None | Inr e \<Rightarrow> Some e))"

definition cache_wf :: "'k key_cache \<Rightarrow> bool" where
  "cache_wf cache \<longleftrightarrow> distinct (map fst cache) \<and> distinct (map (\<lambda>(h, e). Filename e) cache) \<and>
     (\<forall>(h, e) \<in> set cache. h = Hash e)"

text \<open>
  What the comparison of time and size relies on: a file that has the time and size of the
  entry of its name has the content that the entry was made of.
\<close>

definition unchanged_by_stat :: "'k key_lib \<Rightarrow> key_file list \<Rightarrow> 'k key_cache \<Rightarrow> bool" where
  "unchanged_by_stat lib files cache \<longleftrightarrow>
     (\<forall>(h, e) \<in> set cache. \<forall>f \<in> set files. is_regular f \<and> file_name f = Filename e \<and>
        file_info f = Inr (ModTime e, Size e) \<longrightarrow> fileToKeyEntry lib f = Inr e)"

text \<open>No two keys of the directory share their hash.\<close>

definition no_collision :: "'k key_lib \<Rightarrow> key_file list \<Rightarrow> bool" where
  "no_collision lib files \<longleftrightarrow>
     (\<forall>f \<in> set files. \<forall>g \<in> set files. \<forall>e e'. fileToKeyEntry lib f = Inr e \<and> fileToKeyEntry lib g = Inr e' \<and>
        Hash e = Hash e' \<longrightarrow> Key e = Key e')"

definition keys :: "'k key_cache \<Rightarrow> (string \<times> 'k) set" where
  "keys cache = {(h, k). \<exists>e. map_of cache h = Some e \<and> Key e = k}"

text \<open>The keys of the files that \<open>sync\<close> sees at the moment.\<close>

definition eff :: "'k sync_state \<Rightarrow> string \<Rightarrow> 'k key_entry option" where
  "eff s n = (if n \<in> set (deletes s) then None else map_of (currentKeys s) n)"

lemma sync_file_other:
  assumes "n \<noteq> file_name f"
  shows "map_of (currentKeys (sync_file lib f s)) n = map_of (currentKeys s) n"
    and "n \<in> set (deletes (sync_file lib f s)) \<longleftrightarrow> n \<in> set (deletes s)"
  using assms by (auto simp: sync_file_def Let_def update_conv' split: option.splits sum.splits if_splits)

lemma sync_file_irregular: "\<not> is_regular f \<Longrightarrow> sync_file lib f s = s"
  by (simp add: sync_file_def)

lemma fileToKeyEntry_Filename: "fileToKeyEntry lib f = Inr e \<Longrightarrow> Filename e = file_name f"
  by (auto simp: fileToKeyEntry_def split: sum.splits prod.splits)

lemma fileToKeyEntry_info: "file_info f = Inl x \<Longrightarrow> fileToKeyEntry lib f = Inl x"
  by (simp add: fileToKeyEntry_def)

lemma sync_file_eff:
  assumes "is_regular f" and "\<And>e. map_of (currentKeys s) (file_name f) = Some e \<Longrightarrow> file_name f \<in> set (deletes s)"
    and "\<And>e. map_of (currentKeys s) (file_name f) = Some e \<Longrightarrow> file_info f = Inr (ModTime e, Size e) \<Longrightarrow>
       fileToKeyEntry lib f = Inr e"
  shows "eff (sync_file lib f s) (file_name f) =
     (case fileToKeyEntry lib f of Inl x \<Rightarrow> None | Inr e \<Rightarrow> Some e)"
proof (cases "map_of (currentKeys s) (file_name f)")
  case None
  with assms(1) show ?thesis
    by (cases "fileToKeyEntry lib f") (auto simp: sync_file_def eff_def Let_def update_conv')
next
  case (Some k)
  note del = assms(2) [OF Some]
  show ?thesis
  proof (cases "file_info f")
    case (Inl x)
    with Some assms(1) del show ?thesis
      by (simp add: sync_file_def eff_def Let_def fileToKeyEntry_info)
  next
    case (Inr i)
    show ?thesis
    proof (cases "i = (ModTime k, Size k)")
      case True
      with Inr assms(3) [OF Some] have "fileToKeyEntry lib f = Inr k" by simp
      with True Inr Some assms(1) show ?thesis by (simp add: sync_file_def eff_def)
    next
      case False
      with Inr Some assms(1) del show ?thesis
        by (cases "fileToKeyEntry lib f"; cases i) (auto simp: sync_file_def eff_def Let_def update_conv')
    qed
  qed
qed

lemma sync_files_eff:
  assumes "sync_files lib fs s = Inr s'" and "distinct (map (file_name \<circ> snd) fs)"
    and "\<And>f e. f \<in> snd ` set fs \<Longrightarrow> is_regular f \<Longrightarrow> map_of (currentKeys s) (file_name f) = Some e \<Longrightarrow>
       file_name f \<in> set (deletes s) \<and> (file_info f = Inr (ModTime e, Size e) \<longrightarrow> fileToKeyEntry lib f = Inr e)"
  shows "eff s' n = (if \<exists>f \<in> snd ` set fs. is_regular f \<and> file_name f = n
     then want lib (map snd fs) n else eff s n)"
  using assms
proof (induction lib fs s rule: sync_files.induct)
  case (2 lib ctx f fs s)
  from "2.prems"(1) have ctx: "ctx = None" and rest: "sync_files lib fs (sync_file lib f s) = Inr s'"
    by (auto split: option.splits)
  have fresh: "file_name g \<noteq> file_name f" if "g \<in> snd ` set fs" for g using "2.prems"(2) that by force
  have IH: "eff s' n = (if \<exists>g \<in> snd ` set fs. is_regular g \<and> file_name g = n
      then want lib (map snd fs) n else eff (sync_file lib f s) n)"
  proof (rule "2.IH" [OF ctx rest])
    show "distinct (map (file_name \<circ> snd) fs)" using "2.prems"(2) by (simp add: comp_def)
    fix g e
    assume g: "g \<in> snd ` set fs" "is_regular g" and e: "map_of (currentKeys (sync_file lib f s)) (file_name g) = Some e"
    from g(1) have g': "g \<in> snd ` set ((ctx, f) # fs)" by simp
    note o = sync_file_other [OF fresh [OF g(1)], of lib s]
    from "2.prems"(3) [OF g' g(2)] e show "file_name g \<in> set (deletes (sync_file lib f s)) \<and>
        (file_info g = Inr (ModTime e, Size e) \<longrightarrow> fileToKeyEntry lib g = Inr e)"
      unfolding o .
  qed
  show ?case
  proof (cases "file_name f = n \<and> is_regular f")
    case True
    then have "\<not> (\<exists>g \<in> snd ` set fs. is_regular g \<and> file_name g = n)" using fresh by metis
    then have "eff s' n = eff (sync_file lib f s) n" unfolding IH by (rule if_not_P)
    also have "\<dots> = (case fileToKeyEntry lib f of Inl x \<Rightarrow> None | Inr e \<Rightarrow> Some e)"
    proof -
      have f: "f \<in> snd ` set ((ctx, f) # fs)" by simp
      have "eff (sync_file lib f s) (file_name f) = (case fileToKeyEntry lib f of Inl x \<Rightarrow> None | Inr e \<Rightarrow> Some e)"
        by (rule sync_file_eff) (use True "2.prems"(3) [OF f] in blast)+
      with True show ?thesis by simp
    qed
    finally show ?thesis using True by (simp add: want_def)
  next
    case False
    then have "eff (sync_file lib f s) n = eff s n"
      using sync_file_irregular [of f lib s] sync_file_other [of n f lib s] by (cases "is_regular f") (auto simp: eff_def)
    with IH False show ?thesis by (auto simp: want_def)
  qed
qed simp

lemma sync_file_counts:
  "keysAdded s \<le> keysAdded (sync_file lib f s) \<and> keysUpdated s \<le> keysUpdated (sync_file lib f s) \<and>
   (keysAdded (sync_file lib f s) = keysAdded s \<and> keysUpdated (sync_file lib f s) = keysUpdated s \<longrightarrow>
      currentKeys (sync_file lib f s) = currentKeys s)"
  by (auto simp: sync_file_def Let_def split: option.splits sum.splits)

lemma sync_files_counts:
  "sync_files lib fs s = Inr s' \<Longrightarrow> keysAdded s \<le> keysAdded s' \<and> keysUpdated s \<le> keysUpdated s' \<and>
   (keysAdded s' = keysAdded s \<and> keysUpdated s' = keysUpdated s \<longrightarrow> currentKeys s' = currentKeys s)"
proof (induction lib fs s rule: sync_files.induct)
  case (2 lib ctx f fs s)
  then have "ctx = None" by (cases ctx) auto
  with 2 sync_file_counts [of s lib f] show ?case by (auto dest!: order.antisym)
qed simp

lemma sync_files_distinct:
  "sync_files lib fs s = Inr s' \<Longrightarrow> distinct (map fst (currentKeys s)) \<Longrightarrow> distinct (map fst (currentKeys s'))"
proof (induction lib fs s rule: sync_files.induct)
  case (2 lib ctx f fs s)
  have "distinct (map fst (currentKeys (sync_file lib f s)))"
    using "2.prems"(2) by (auto simp: sync_file_def Let_def distinct_update split: option.splits sum.splits)
  with 2 show ?case by (cases ctx) auto
qed simp

text \<open>Folding updates into a map.\<close>

lemma map_of_fold_update:
  "map_of (fold (\<lambda>x m. AList.update (g x) (v x) m) xs m) n =
     (case List.find (\<lambda>x. g x = n) (rev xs) of None \<Rightarrow> map_of m n | Some x \<Rightarrow> Some (v x))"
proof (induction xs arbitrary: m)
  case (Cons x xs)
  have "List.find P (ys @ [x]) = (case List.find P ys of None \<Rightarrow> if P x then Some x else None | Some y \<Rightarrow> Some y)" for P ys
    by (induction ys) auto
  with Cons show ?case by (auto simp: update_conv' split: option.splits)
qed simp

lemma distinct_fold_update:
  "distinct (map fst m) \<Longrightarrow> distinct (map fst (fold (\<lambda>x m. AList.update (g x) (v x) m) xs m))"
  by (induction xs arbitrary: m) (auto simp: distinct_update)

lemma map_of_fold_delete: "map_of (fold AList.delete ns m) n = (if n \<in> set ns then None else map_of m n)"
  by (induction ns arbitrary: m) (auto simp: delete_conv')

lemma distinct_fold_delete: "distinct (map fst m) \<Longrightarrow> distinct (map fst (fold AList.delete ns m))"
  by (induction ns arbitrary: m) (auto simp: distinct_delete)

text \<open>The keys of a cache built from entries without collision.\<close>

lemma keys_fold_hash:
  assumes "\<And>e e'. e \<in> set es \<Longrightarrow> e' \<in> set es \<Longrightarrow> Hash e = Hash e' \<Longrightarrow> Key e = Key e'"
  shows "keys (fold (\<lambda>e m. AList.update (Hash e) e m) es []) = (\<lambda>e. (Hash e, Key e)) ` set es"
proof -
  have mem: "map_of (fold (\<lambda>e m. AList.update (Hash e) e m) es []) h = Some e \<Longrightarrow> e \<in> set es \<and> Hash e = h" for h e
    using map_of_fold_update [of Hash "\<lambda>e. e" es "[]" h]
    by (auto split: option.splits dest: find_in_set)
  have ex: "\<exists>e'. map_of (fold (\<lambda>e m. AList.update (Hash e) e m) es []) (Hash e) = Some e'" if "e \<in> set es" for e
    using map_of_fold_update [of Hash "\<lambda>e. e" es "[]" "Hash e"] that
    by (auto simp: find_None_iff split: option.splits)
  show ?thesis
  proof (intro set_eqI iffI)
    fix x assume "x \<in> keys (fold (\<lambda>e m. AList.update (Hash e) e m) es [])"
    then show "x \<in> (\<lambda>e. (Hash e, Key e)) ` set es" by (auto simp: keys_def dest!: mem)
  next
    fix x assume "x \<in> (\<lambda>e. (Hash e, Key e)) ` set es"
    then obtain e where e: "e \<in> set es" "x = (Hash e, Key e)" by auto
    from ex [OF e(1)] obtain e' where e': "map_of (fold (\<lambda>e m. AList.update (Hash e) e m) es []) (Hash e) = Some e'" by blast
    with mem [OF e'] assms e(1) have "Key e' = Key e" by blast
    with e e' show "x \<in> keys (fold (\<lambda>e m. AList.update (Hash e) e m) es [])" by (auto simp: keys_def)
  qed
qed

lemma keys_wf: "cache_wf cache \<Longrightarrow> keys cache = (\<lambda>(h, e). (Hash e, Key e)) ` set cache"
  by (force simp: cache_wf_def keys_def)

lemma start_state_keys:
  assumes "cache_wf cache"
  shows "map_of (currentKeys (start_state cache)) n = Some e \<longleftrightarrow> (\<exists>h. (h, e) \<in> set cache \<and> Filename e = n)"
    and "distinct (map fst (currentKeys (start_state cache)))"
    and "set (deletes (start_state cache)) = (\<lambda>(h, e). Filename e) ` set cache"
proof -
  have split: "(\<lambda>(h, entry) m. AList.update (Filename entry) entry m) =
      (\<lambda>x m. AList.update (Filename (snd x)) (snd x) m)" by (auto simp: fun_eq_iff)
  have dist: "distinct (map (\<lambda>x. Filename (snd x)) cache)"
    using assms by (simp add: cache_wf_def case_prod_beta')
  show "map_of (currentKeys (start_state cache)) n = Some e \<longleftrightarrow> (\<exists>h. (h, e) \<in> set cache \<and> Filename e = n)"
  proof -
    have mo: "map_of (currentKeys (start_state cache)) n =
        (case List.find (\<lambda>x. Filename (snd x) = n) (rev cache) of None \<Rightarrow> None | Some x \<Rightarrow> Some (snd x))"
      unfolding start_state_def by (simp add: split map_of_fold_update split: option.splits)
    have fd: "List.find (\<lambda>x. Filename (snd x) = n) (rev cache) = Some x" if "x \<in> set cache" "Filename (snd x) = n" for x
      using find_key [of "\<lambda>x. Filename (snd x)" "rev cache" x] dist that by (simp add: rev_map [symmetric])
    show ?thesis
    proof
      assume "map_of (currentKeys (start_state cache)) n = Some e"
      then obtain x where "List.find (\<lambda>x. Filename (snd x) = n) (rev cache) = Some x" "snd x = e"
        unfolding mo by (auto split: option.splits)
      from find_in_set [OF this(1)] this(2) show "\<exists>h. (h, e) \<in> set cache \<and> Filename e = n"
        by (intro exI [of _ "fst x"]) auto
    next
      assume "\<exists>h. (h, e) \<in> set cache \<and> Filename e = n"
      then obtain h where "(h, e) \<in> set cache" "Filename (snd (h, e)) = n" by auto
      from fd [OF this] show "map_of (currentKeys (start_state cache)) n = Some e" unfolding mo by simp
    qed
  qed
  show "distinct (map fst (currentKeys (start_state cache)))"
    unfolding start_state_def by (simp add: split distinct_fold_update)
  show "set (deletes (start_state cache)) = (\<lambda>(h, e). Filename e) ` set cache"
    by (simp add: start_state_def)
qed

lemma want_entry:
  "want lib files n = Some e \<Longrightarrow> Filename e = n \<and> (\<exists>f \<in> set files. is_regular f \<and> fileToKeyEntry lib f = Inr e)"
  by (auto simp: want_def dest: find_in_set fileToKeyEntry_Filename split: option.splits sum.splits)

lemma want_file:
  assumes "distinct (map file_name files)" and "f \<in> set files" and "is_regular f" and "fileToKeyEntry lib f = Inr e"
  shows "want lib files (file_name f) = Some e"
proof -
  have "List.find (\<lambda>g. is_regular g \<and> file_name g = file_name f) files = Some f"
    using assms(1-3) by (induction files) auto
  with assms(4) show ?thesis by (simp add: want_def)
qed

lemma ran_map_of: "distinct (map fst m) \<Longrightarrow> snd ` set m = {e. \<exists>n. map_of m n = Some e}"
  by force

text \<open>The keys that reading the whole directory gives.\<close>

definition dir_keys :: "'k key_lib \<Rightarrow> key_file list \<Rightarrow> (string \<times> 'k) set" where
  "dir_keys lib files = {(Hash e, Key e) |e. \<exists>n. want lib files n = Some e}"

lemma by_hash_eq: "by_hash m = fold (\<lambda>e m. AList.update (Hash e) e m) (map snd m) []"
  by (simp add: by_hash_def fold_map comp_def case_prod_beta')

lemma want_no_collision:
  "no_collision lib files \<Longrightarrow> want lib files n = Some e \<Longrightarrow> want lib files n' = Some e' \<Longrightarrow> Hash e = Hash e' \<Longrightarrow> Key e = Key e'"
  unfolding no_collision_def by (blast dest: want_entry)

lemma sync_keys:
  assumes "cache_wf cache" and "unchanged_by_stat lib (map snd fs) cache" and "no_collision lib (map snd fs)"
    and "distinct (map (file_name \<circ> snd) fs)" and "sync lib None (Inr fs) None cache = (cache', None)"
  shows "keys cache' = dir_keys lib (map snd fs)"
proof (cases "fs = []")
  case True
  with assms(5) show ?thesis by (auto simp: sync_def keys_def dir_keys_def want_def)
next
  case False
  with assms(5) obtain s where s: "sync_files lib fs (start_state cache) = Inr s"
    by (auto simp: sync_def split: sum.splits)
  note start = start_state_keys [OF assms(1)]
  have eff: "eff s n = want lib (map snd fs) n" for n
  proof -
    have "eff s n = (if \<exists>f \<in> snd ` set fs. is_regular f \<and> file_name f = n
        then want lib (map snd fs) n else eff (start_state cache) n)"
    proof (rule sync_files_eff [OF s assms(4)])
      fix f e
      assume f: "f \<in> snd ` set fs" "is_regular f" "map_of (currentKeys (start_state cache)) (file_name f) = Some e"
      with start(1) obtain h where h: "(h, e) \<in> set cache" "Filename e = file_name f" by blast
      with f assms(2) show "file_name f \<in> set (deletes (start_state cache)) \<and>
          (file_info f = Inr (ModTime e, Size e) \<longrightarrow> fileToKeyEntry lib f = Inr e)"
        unfolding unchanged_by_stat_def start(3) by force
    qed
    moreover have "eff (start_state cache) n = None"
    proof (cases "map_of (currentKeys (start_state cache)) n")
      case (Some e)
      with start(1) [of n e] have "n \<in> set (deletes (start_state cache))" unfolding start(3) by force
      then show ?thesis by (simp add: eff_def)
    qed (simp add: eff_def)
    moreover have "want lib (map snd fs) n = None" if "\<not> (\<exists>f \<in> snd ` set fs. is_regular f \<and> file_name f = n)"
      using that by (auto simp: want_def dest!: find_in_set split: option.splits)
    ultimately show ?thesis by (auto split: if_splits)
  qed
  have dist: "distinct (map fst (currentKeys s))" using sync_files_distinct [OF s start(2)] .
  show ?thesis
  proof (cases "keysAdded s = 0 \<and> keysUpdated s = 0 \<and> deletes s = []")
    case True
    with sync_files_counts [OF s] have cur: "currentKeys s = currentKeys (start_state cache)" by (simp add: start_state_def)
    from True False assms(5) s have "cache' = cache" by (simp add: sync_def)
    moreover have "(\<exists>h. (h, e) \<in> set cache) \<longleftrightarrow> (\<exists>n. want lib (map snd fs) n = Some e)" for e
    proof -
      have "want lib (map snd fs) n = map_of (currentKeys (start_state cache)) n" for n
        using eff [of n] True cur by (simp add: eff_def)
      then show ?thesis using start(1) by metis
    qed
    moreover have "(\<lambda>(h, e). (Hash e, Key e)) ` set cache = {(Hash e, Key e) |e. \<exists>h. (h, e) \<in> set cache}" by force
    ultimately show ?thesis by (simp only: keys_wf [OF assms(1)] dir_keys_def)
  next
    case changed: False
    let ?m = "fold AList.delete (deletes s) (currentKeys s)"
    from changed False assms(5) s have cache': "cache' = by_hash ?m" by (auto simp: sync_def)
    have m: "map_of ?m n = want lib (map snd fs) n" for n
      using eff [of n] by (simp add: map_of_fold_delete eff_def)
    have ents: "set (map snd ?m) = {e. \<exists>n. want lib (map snd fs) n = Some e}"
      using ran_map_of [OF distinct_fold_delete [OF dist, of "deletes s"]] m by simp
    have "keys (by_hash ?m) = (\<lambda>e. (Hash e, Key e)) ` set (map snd ?m)"
      unfolding by_hash_eq
    proof (rule keys_fold_hash)
      fix e e'
      assume "e \<in> set (map snd ?m)" "e' \<in> set (map snd ?m)" "Hash e = Hash e'"
      then show "Key e = Key e'" unfolding ents using want_no_collision [OF assms(3)] by blast
    qed
    then show ?thesis unfolding cache' ents dir_keys_def by blast
  qed
qed

definition loaded :: "'k key_lib \<Rightarrow> key_file list \<Rightarrow> 'k key_entry list" where
  "loaded lib files = concat (map (\<lambda>f. if \<not> is_regular f then []
     else (case fileToKeyEntry lib f of Inl x \<Rightarrow> [] | Inr e \<Rightarrow> [e])) files)"

lemma init_fold:
  "fold (\<lambda>f m. if \<not> is_regular f then m
      else (case fileToKeyEntry lib f of Inl x \<Rightarrow> m | Inr k \<Rightarrow> AList.update (Hash k) k m)) files m =
   fold (\<lambda>e m. AList.update (Hash e) e m) (loaded lib files) m"
  by (induction files arbitrary: m) (auto simp: loaded_def split: sum.splits)

lemma loaded_want:
  assumes "distinct (map file_name files)"
  shows "set (loaded lib files) = {e. \<exists>n. want lib files n = Some e}"
proof -
  have "e \<in> set (loaded lib files) \<longleftrightarrow> (\<exists>f \<in> set files. is_regular f \<and> fileToKeyEntry lib f = Inr e)" for e
    by (induction files) (auto simp: loaded_def split: sum.splits)
  then show ?thesis using want_file [OF assms] want_entry by fast
qed

lemma init_keys:
  assumes "distinct (map file_name files)" and "no_collision lib files"
  shows "keys (fst (init lib path (Inr files) cache)) = dir_keys lib files"
proof -
  have "keys (fold (\<lambda>e m. AList.update (Hash e) e m) (loaded lib files) []) =
      (\<lambda>e. (Hash e, Key e)) ` set (loaded lib files)"
    by (rule keys_fold_hash) (use want_no_collision [OF assms(2)] in \<open>auto simp: loaded_want [OF assms(1)]\<close>)
  then show ?thesis by (auto simp: init_def init_fold loaded_want [OF assms(1)] dir_keys_def)
qed

text \<open>
  C23: Synchronizing the cache of public keys is as good as reading the whole directory again:
  with a cache whose entries belong to unchanged files wherever the time and size are the same,
  \<open>sync\<close> ends with exactly the keys, by their hash, that \<open>init\<close> would load: keys of new and
  changed files are there, and keys of removed, changed or unreadable files are gone. So the key of
  a file that was changed and cannot be read any more is dropped, although the comment with the
  algorithm (step 6.1) keeps the entry of every file that was seen: the code takes a file off the
  list of deletions only when it is unchanged or has been loaded.
\<close>

theorem sync_reloads:
  assumes "cache_wf cache" and "unchanged_by_stat lib (map snd fs) cache" and "no_collision lib (map snd fs)"
    and "distinct (map (file_name \<circ> snd) fs)" and "sync lib None (Inr fs) None cache = (cache', None)"
  shows "keys cache' = keys (fst (init lib path (Inr (map snd fs)) []))"
  using sync_keys [OF assms] init_keys [of "map snd fs" lib path "[]"] assms(3,4) by (simp add: comp_def)

text \<open>
  Two keys of a directory, one of which was changed; a third file is no key.
\<close>

definition sample_key_lib :: "string key_lib" where
  "sample_key_lib = \<lparr>parse_pem = (\<lambda>b. if b = ''x'' then Inl (Ext ''no pem'') else Inr b), hash_of = (\<lambda>b. b @ ''#'')\<rparr>"

definition ex_file :: "string \<Rightarrow> time \<Rightarrow> bytes \<Rightarrow> key_file" where
  "ex_file n t b = \<lparr>file_name = n, is_regular = True, file_info = Inr (t, int (length b)), file_content = Inr b\<rparr>"

definition ex_cache :: "string key_cache" where
  "ex_cache = fst (init sample_key_lib ''keys'' (Inr [ex_file ''a'' 1 ''k1'', ex_file ''b'' 1 ''k2'', ex_file ''c'' 1 ''k3'']) [])"

definition ex_dir :: "(error option \<times> key_file) list" where
  "ex_dir = [(None, ex_file ''a'' 1 ''k1''), (None, ex_file ''b'' 2 ''k4''), (None, ex_file ''d'' 2 ''x'')]"

theorem sync_reloads_witness:
  "keys (fst (sync sample_key_lib None (Inr ex_dir) None ex_cache)) =
     keys (fst (init sample_key_lib ''keys'' (Inr (map snd ex_dir)) []))"
proof -
  have c: "cache_wf ex_cache" "unchanged_by_stat sample_key_lib (map snd ex_dir) ex_cache"
    "distinct (map (file_name \<circ> snd) ex_dir)"
    "sync sample_key_lib None (Inr ex_dir) None ex_cache = (fst (sync sample_key_lib None (Inr ex_dir) None ex_cache), None)"
    by code_simp+
  have n: "no_collision sample_key_lib (map snd ex_dir)"
    by (auto simp: no_collision_def ex_dir_def ex_file_def fileToKeyEntry_def sample_key_lib_def)
  from sync_reloads [OF c(1,2) n c(3,4)] show ?thesis .
qed

end
