(* ===== verification/Error_Response.thy ===== *)
theory Error_Response
  imports Go_Errors Json "HOL-Library.Multiset"
begin

section \<open>Error responses of the HTTP API\<close>

text \<open>
  \<open>pkg/errors\<close>: the messages of an error response and the conversion of validation errors. A
  Go map is given as the list of its entries in the order in which \<open>range\<close> visits them, which
  is arbitrary: the results are about every order. \<open>sort.Slice\<close> is a parameter with what its
  documentation promises (\<open>sorts\<close>); \<open>insertion_sort\<close> is what it does for at most twelve
  elements.
\<close>

datatype error_type = GeneralErrorType | FieldErrorType

fun error_type_text :: "error_type \<Rightarrow> string" where
  "error_type_text GeneralErrorType = ''GeneralError''"
| "error_type_text FieldErrorType = ''FieldError''"

datatype general_error = GeneralError (ge_Type: error_type) (ge_Message: string)

datatype api_error_messenger = General general_error | FieldError general_error string

fun GetType :: "api_error_messenger \<Rightarrow> error_type" where
  "GetType (General e) = ge_Type e"
| "GetType (FieldError e key) = ge_Type e"

fun GetMessage :: "api_error_messenger \<Rightarrow> string" where
  "GetMessage (General e) = ge_Message e"
| "GetMessage (FieldError e key) = ge_Message e"

text \<open>Only a field error has the method \<open>GetKey\<close>.\<close>

fun GetKey :: "api_error_messenger \<Rightarrow> string option" where
  "GetKey (General e) = None"
| "GetKey (FieldError e key) = Some key"

fun Scrubbed :: "api_error_messenger \<Rightarrow> string \<Rightarrow> api_error_messenger" where
  "Scrubbed (General e) message = General (GeneralError (ge_Type e) message)"
| "Scrubbed (FieldError e key) message = FieldError e key"

type_synonym error_response = "api_error_messenger list"

text \<open>The JSON of a response; a field error embeds the general one.\<close>

fun messenger_json :: "api_error_messenger \<Rightarrow> json" where
  "messenger_json (General e) =
     JObj [(''type'', JStr (error_type_text (ge_Type e))), (''message'', JStr (ge_Message e))]"
| "messenger_json (FieldError e key) =
     JObj [(''type'', JStr (error_type_text (ge_Type e))), (''message'', JStr (ge_Message e)), (''key'', JStr key)]"

definition error_response_json :: "error_response \<Rightarrow> json" where
  "error_response_json resp = JObj [(''errors'', JArr (map messenger_json resp))]"

definition field_messenger :: "string \<Rightarrow> string \<Rightarrow> api_error_messenger" where
  "field_messenger key message =
     (if key \<noteq> [] then FieldError (GeneralError FieldErrorType message) key
      else General (GeneralError GeneralErrorType message))"

definition response_less :: "api_error_messenger \<Rightarrow> api_error_messenger \<Rightarrow> bool" where
  "response_less e1 e2 =
     (case (GetKey e1, GetKey e2) of
        (Some k1, Some k2) \<Rightarrow> k1 < k2
      | _ \<Rightarrow> GetMessage e1 < GetMessage e2)"

type_synonym sort_slice =
  "(api_error_messenger \<Rightarrow> api_error_messenger \<Rightarrow> bool) \<Rightarrow> api_error_messenger list \<Rightarrow> api_error_messenger list"

definition ValidationErrorsToFieldErrorResponse ::
  "sort_slice \<Rightarrow> (string \<times> string option) list \<Rightarrow> error_response" where
  "ValidationErrorsToFieldErrorResponse sort_slice errs =
     sort_slice response_less
       (concat (map (\<lambda>(key, fieldErr). case fieldErr of None \<Rightarrow> [] | Some m \<Rightarrow> [field_messenger key m]) errs))"

subsection \<open>Sorting\<close>

definition strict_weak :: "('a \<Rightarrow> 'a \<Rightarrow> bool) \<Rightarrow> 'a set \<Rightarrow> bool" where
  "strict_weak lt A \<longleftrightarrow> (\<forall>x\<in>A. \<forall>y\<in>A. lt x y \<longrightarrow> \<not> lt y x) \<and>
     (\<forall>x\<in>A. \<forall>y\<in>A. \<forall>z\<in>A. \<not> lt x y \<longrightarrow> \<not> lt y z \<longrightarrow> \<not> lt x z)"

definition sorts :: "(('a \<Rightarrow> 'a \<Rightarrow> bool) \<Rightarrow> 'a list \<Rightarrow> 'a list) \<Rightarrow> bool" where
  "sorts srt \<longleftrightarrow> (\<forall>lt xs. mset (srt lt xs) = mset xs \<and>
     (strict_weak lt (set xs) \<longrightarrow> sorted_wrt (\<lambda>x y. \<not> lt y x) (srt lt xs)))"

text \<open>
  The inner loop of the insertion sort, on the reversed front of the slice: the new element
  moves to the front as long as it is less than the one before.
\<close>

fun move_down :: "('a \<Rightarrow> 'a \<Rightarrow> bool) \<Rightarrow> 'a \<Rightarrow> 'a list \<Rightarrow> 'a list" where
  "move_down lt x [] = [x]"
| "move_down lt x (y # ys) = (if lt x y then y # move_down lt x ys else x # y # ys)"

definition insertion_sort :: "('a \<Rightarrow> 'a \<Rightarrow> bool) \<Rightarrow> 'a list \<Rightarrow> 'a list" where
  "insertion_sort lt xs = rev (fold (move_down lt) xs [])"

lemma mset_move_down [simp]: "mset (move_down lt x ys) = add_mset x (mset ys)"
  by (induction ys) auto

lemma set_move_down [simp]: "set (move_down lt x ys) = insert x (set ys)"
  by (induction ys) auto

lemma mset_fold_move_down: "mset (fold (move_down lt) xs acc) = mset xs + mset acc"
  by (induction xs arbitrary: acc) auto

lemma strict_weak_subset: "strict_weak lt B \<Longrightarrow> A \<subseteq> B \<Longrightarrow> strict_weak lt A"
  unfolding strict_weak_def by (meson subsetD)

lemma sorted_move_down:
  assumes "strict_weak lt (insert x (set ys))" "sorted_wrt (\<lambda>a b. \<not> lt a b) ys"
  shows "sorted_wrt (\<lambda>a b. \<not> lt a b) (move_down lt x ys)"
  using assms
proof (induction ys)
  case (Cons y ys)
  have *: "strict_weak lt (insert x (set ys))"
    by (rule strict_weak_subset [OF Cons.prems(1)]) auto
  show ?case
  proof (cases "lt x y")
    case True
    then have "\<not> lt y x" using Cons.prems(1) by (auto simp: strict_weak_def)
    with True Cons.IH [OF *] Cons.prems(2) show ?thesis by simp
  next
    case False
    have "\<not> lt x z" if "z \<in> set ys" for z
    proof -
      have "\<not> lt y z" using Cons.prems(2) that by simp
      with False Cons.prems(1) that show ?thesis unfolding strict_weak_def by (meson insertI1 insertI2 list.set_intros)
    qed
    with False Cons.prems(2) show ?thesis by simp
  qed
qed simp

lemma sorted_fold_move_down:
  "strict_weak lt (set xs \<union> set acc) \<Longrightarrow> sorted_wrt (\<lambda>a b. \<not> lt a b) acc \<Longrightarrow>
     sorted_wrt (\<lambda>a b. \<not> lt a b) (fold (move_down lt) xs acc)"
proof (induction xs arbitrary: acc)
  case (Cons x xs)
  have "strict_weak lt (insert x (set acc))" by (rule strict_weak_subset [OF Cons.prems(1)]) auto
  then have "sorted_wrt (\<lambda>a b. \<not> lt a b) (move_down lt x acc)"
    using Cons.prems(2) by (rule sorted_move_down)
  with Cons show ?case by simp
qed simp

lemma sorts_insertion_sort: "sorts insertion_sort"
  unfolding sorts_def insertion_sort_def
  by (simp add: mset_fold_move_down sorted_wrt_rev sorted_fold_move_down)

subsection \<open>The order of the messages\<close>

definition field_errors :: "(string \<times> string option) list \<Rightarrow> (string \<times> string) list" where
  "field_errors errs = concat (map (\<lambda>(k, e). case e of None \<Rightarrow> [] | Some m \<Rightarrow> [(k, m)]) errs)"

lemma field_errors_Cons:
  "field_errors ((k, e) # errs) = (case e of None \<Rightarrow> [] | Some m \<Rightarrow> [(k, m)]) @ field_errors errs"
  by (simp add: field_errors_def)

lemma fst_field_errors: "fst ` set (field_errors errs) \<subseteq> fst ` set errs"
proof (induction errs)
  case (Cons a errs)
  then show ?case by (cases a; cases "snd a") (auto simp: field_errors_Cons)
qed (simp add: field_errors_def)

lemma distinct_field_errors: "distinct (map fst errs) \<Longrightarrow> distinct (map fst (field_errors errs))"
proof (induction errs)
  case (Cons a errs)
  obtain k e where a: "a = (k, e)" by (cases a)
  have "k \<notin> fst ` set (field_errors errs)" using Cons.prems fst_field_errors [of errs] by (auto simp: a)
  with Cons show ?case by (cases e) (simp_all add: a field_errors_Cons)
qed (simp add: field_errors_def)

lemma response_messengers:
  "ValidationErrorsToFieldErrorResponse srt errs =
     srt response_less (map (\<lambda>(k, m). field_messenger k m) (field_errors errs))"
proof -
  have "concat (map (\<lambda>(key, fieldErr). case fieldErr of None \<Rightarrow> [] | Some m \<Rightarrow> [field_messenger key m]) errs) =
      map (\<lambda>(k, m). field_messenger k m) (field_errors errs)"
    by (induction errs) (auto simp: field_errors_def split: option.splits)
  then show ?thesis by (simp add: ValidationErrorsToFieldErrorResponse_def)
qed

lemma response_of_fields:
  assumes "sorts srt" "distinct (map fst fs)" "[] \<notin> fst ` set fs"
  shows "srt response_less (map (\<lambda>(k, m). field_messenger k m) fs) =
    map (\<lambda>(k, m). FieldError (GeneralError FieldErrorType m) k) (sort_key fst fs)"
proof -
  define mk where "mk = (\<lambda>(k, m). FieldError (GeneralError FieldErrorType m) k)"
  have eq: "map (\<lambda>(k, m). field_messenger k m) fs = map mk fs"
    using assms(3) by (auto simp: mk_def field_messenger_def image_iff)
  define xs where "xs = srt response_less (map mk fs)"
  have key: "GetKey (mk f) = Some (fst f)" for f by (simp add: mk_def split_beta)
  have lt: "response_less (mk f) (mk g) \<longleftrightarrow> fst f < fst g" for f g by (simp add: response_less_def key)
  have "strict_weak response_less (set (map mk fs))"
    unfolding strict_weak_def by (auto simp: lt)
  then have xs: "mset xs = mset (map mk fs)" "sorted_wrt (\<lambda>x y. \<not> response_less y x) xs"
    using assms(1) unfolding sorts_def xs_def by blast+
  define k where "k = (\<lambda>e. the (GetKey e))"
  have k: "k (mk f) = fst f" for f by (simp add: k_def key)
  have sub: "set xs \<subseteq> mk ` set fs" using mset_eq_setD [OF xs(1)] by simp
  have "sorted_wrt (\<lambda>x y. k x \<le> k y) xs"
  proof (rule sorted_wrt_mono_rel [OF _ xs(2)])
    fix x y
    assume "x \<in> set xs" "y \<in> set xs" "\<not> response_less y x"
    moreover from this sub obtain f g where "x = mk f" "y = mk g" by blast
    ultimately show "k x \<le> k y" by (simp add: lt k)
  qed
  then have "sorted (map k xs)" by (simp add: sorted_map)
  moreover have "inj_on k (set (map mk fs))"
    using assms(2) by (auto simp: inj_on_def k distinct_map)
  ultimately have 1: "sort_key k (map mk fs) = xs"
    using xs(1) by (intro sort_key_inj_key_eq) simp_all
  have "sorted (map k (map mk (sort_key fst fs)))" by (simp add: k comp_def)
  moreover have "mset (map mk fs) = mset (map mk (sort_key fst fs))" by simp
  ultimately have "sort_key k (map mk fs) = map mk (sort_key fst fs)"
    using \<open>inj_on k _\<close> by (intro sort_key_inj_key_eq) simp_all
  with 1 show ?thesis by (simp add: eq xs_def mk_def)
qed

text \<open>
  Validation errors with non-empty field names become one field error per field that has
  an error, in the order of the names, whatever the order in which the map is visited and
  whatever sorting algorithm is used.
\<close>

theorem field_errors_deterministic:
  assumes "sorts srt" "distinct (map fst errs)" "[] \<notin> fst ` set errs"
  shows "ValidationErrorsToFieldErrorResponse srt errs =
    map (\<lambda>(k, m). FieldError (GeneralError FieldErrorType m) k) (sort_key fst (field_errors errs))"
  unfolding response_messengers using assms fst_field_errors [of errs] distinct_field_errors [of errs]
  by (intro response_of_fields) auto

theorem field_errors_deterministic_witness:
  "ValidationErrorsToFieldErrorResponse insertion_sort [(''b'', Some ''bad b''), (''c'', None), (''a'', Some ''bad a'')] =
     [FieldError (GeneralError FieldErrorType ''bad a'') ''a'', FieldError (GeneralError FieldErrorType ''bad b'') ''b'']"
  by (subst field_errors_deterministic) (simp_all add: sorts_insertion_sort field_errors_def)

lemma cycle_unsorted:
  assumes "lt a b" "lt b c" "lt c a" "a \<noteq> b" "b \<noteq> c" "c \<noteq> a" and set: "set xs = {a, b, c}"
  shows "\<not> sorted_wrt (\<lambda>x y. \<not> lt y x) xs"
proof (cases xs)
  case (Cons x ys)
  with set have "x \<in> {a, b, c}" by auto
  then obtain y where "y \<in> set xs" "lt y x" "y \<noteq> x" using assms by blast
  with Cons show ?thesis by auto
qed (use set in simp)

text \<open>
  With an error for the empty name among them the comparison is not an order, and the
  response depends on the order in which the map is visited: of these three errors no
  arrangement is sorted, and two visiting orders give different responses.
\<close>

theorem mixed_errors_not_deterministic:
  "let errs = [(''a'', Some ''z''), (''b'', Some ''c''), ([], Some ''m'')]
   in \<not> (\<exists>xs. mset xs = mset (map (\<lambda>(k, e). field_messenger k (the e)) errs) \<and>
         sorted_wrt (\<lambda>x y. \<not> response_less y x) xs) \<and>
      ValidationErrorsToFieldErrorResponse insertion_sort errs
        \<noteq> ValidationErrorsToFieldErrorResponse insertion_sort (rotate1 errs)"
proof -
  let ?a = "FieldError (GeneralError FieldErrorType ''z'') ''a''"
    and ?b = "FieldError (GeneralError FieldErrorType ''c'') ''b''"
    and ?g = "General (GeneralError GeneralErrorType ''m'')"
  have cyc: "response_less ?a ?b" "response_less ?b ?g" "response_less ?g ?a" by code_simp+
  have "\<not> sorted_wrt (\<lambda>x y. \<not> response_less y x) xs" if "mset xs = mset [?a, ?b, ?g]" for xs
    using cyc by (rule cycle_unsorted) (use mset_eq_setD [OF that] in simp_all)
  moreover have "ValidationErrorsToFieldErrorResponse insertion_sort [(''a'', Some ''z''), (''b'', Some ''c''), ([], Some ''m'')]
      \<noteq> ValidationErrorsToFieldErrorResponse insertion_sort [(''b'', Some ''c''), ([], Some ''m''), (''a'', Some ''z'')]"
    by code_simp
  ultimately show ?thesis by (simp add: Let_def field_messenger_def)
qed

end
