(* ===== verification/Base_Handler.thy ===== *)
theory Base_Handler
  imports Error_Response
begin

section \<open>The base HTTP handler\<close>

text \<open>
  \<open>pkg/http/handlers/base.go\<close>: parsing a request body, writing a JSON response, and the
  translation of an error value into a status and a body. What a handler writes is the
  record \<open>written\<close>. An object to write is the JSON that encodes it.
\<close>

definition Megabyte :: int where
  "Megabyte = 1024 * 1024"

text \<open>
  An error parser maps an error to a status and an object. \<open>None\<close> in the field is a nil
  function, for which the handler takes the default parser.
\<close>

type_synonym error_parser = "error option \<Rightarrow> bool \<Rightarrow> int \<times> json option"

record base_handler =
  ErrorParser :: "error_parser option"
  MaxBodyBytes :: int
  Debug :: bool

definition NewBaseHandler :: "int \<Rightarrow> bool \<Rightarrow> base_handler" where
  "NewBaseHandler maxBodyBytes debug =
     \<lparr>ErrorParser = None, MaxBodyBytes = (if maxBodyBytes < 0 then Megabyte else maxBodyBytes), Debug = debug\<rparr>"

definition AsUserError :: "error \<Rightarrow> error" where
  "AsUserError err = User_err err"

text \<open>
  \<open>errors.As(err, &parseErr)\<close> and \<open>errors.As(err, &userErr)\<close>. Both follow the chain of wrapped
  errors. \<open>Parse\<close> returns a pointer to a \<open>parseError\<close>, which does not have the type of the
  target; its method \<open>As\<close> passes a pointer to an interface variable on, to which every cause
  can be assigned, so it answers yes for every target.
\<close>

fun as_parseError :: "error \<Rightarrow> bool" where
  "as_parseError (Parse_err e) = True"
| "as_parseError (Wrap p e) = as_parseError e"
| "as_parseError (User_err e) = as_parseError e"
| "as_parseError e = False"

fun as_UserError :: "error \<Rightarrow> bool" where
  "as_UserError (User_err e) = True"
| "as_UserError (Parse_err e) = True"
| "as_UserError (Wrap p e) = as_UserError e"
| "as_UserError e = False"

text \<open>The status of the errors that are compared by identity.\<close>

fun sentinel_status :: "error \<Rightarrow> int option" where
  "sentinel_status (Http_err ErrPermission) = Some 403"
| "sentinel_status (Http_err ErrAuthorization) = Some 401"
| "sentinel_status (Http_err ErrInternal) = Some 500"
| "sentinel_status (Http_err ErrInvalidParameters) = Some 400"
| "sentinel_status (Http_err ErrUnmarshalling) = Some 422"
| "sentinel_status (Http_err ErrForm) = Some 422"
| "sentinel_status (Std_err ErrNoRows) = Some 404"
| "sentinel_status (Http_err ErrNotFound) = Some 404"
| "sentinel_status (Http_err ErrNotImplemented) = Some 501"
| "sentinel_status (Http_err ErrUnsupportedMediaType) = Some 415"
| "sentinel_status e = None"

definition DefaultErrorParser :: "sort_slice \<Rightarrow> error option \<Rightarrow> bool \<Rightarrow> int \<times> error_response option" where
  "DefaultErrorParser srt err debug =
     (case err of None \<Rightarrow> (200, None)
      | Some e \<Rightarrow>
        let genErrResp = [General (GeneralError GeneralErrorType (error_msg e))]
        in (case sentinel_status e of Some st \<Rightarrow> (st, Some genErrResp)
        | None \<Rightarrow>
          if as_parseError e then (422, Some genErrResp)
          else if as_UserError e then (400, Some genErrResp)
          else (case e of
              Validation_err v m errs \<Rightarrow> (422, Some (ValidationErrorsToFieldErrorResponse srt errs))
            | _ \<Rightarrow>
              (500, Some (if \<not> debug
                 then map (\<lambda>r. Scrubbed r (http_error_msg ErrInternal)) genErrResp
                 else genErrResp)))))"

definition default_parser :: "sort_slice \<Rightarrow> error_parser" where
  "default_parser srt err debug =
     (let (st, resp) = DefaultErrorParser srt err debug in (st, map_option error_response_json resp))"

definition NewBaseHandlerWithTracer :: "sort_slice \<Rightarrow> int \<Rightarrow> bool \<Rightarrow> base_handler" where
  "NewBaseHandlerWithTracer srt maxBodyBytes debug =
     \<lparr>ErrorParser = Some (default_parser srt),
      MaxBodyBytes = (if maxBodyBytes < 0 then Megabyte else maxBodyBytes), Debug = debug\<rparr>"

record written =
  w_status :: int
  w_content_type :: "string option"
  w_body :: bytes

text \<open>The encoder ends the text with a newline.\<close>

definition Write :: "int \<Rightarrow> json option \<Rightarrow> written" where
  "Write st obj =
     (case obj of None \<Rightarrow> \<lparr>w_status = st, w_content_type = None, w_body = []\<rparr>
      | Some j \<Rightarrow> \<lparr>w_status = st, w_content_type = Some ''application/json'', w_body = Marshal j @ [CHR 0x0A]\<rparr>)"

definition handler_Error :: "sort_slice \<Rightarrow> base_handler \<Rightarrow> error option \<Rightarrow> written" where
  "handler_Error srt h err =
     (let parser = (case ErrorParser h of None \<Rightarrow> default_parser srt | Some p \<Rightarrow> p);
          (st, resp) = parser err (Debug h)
      in Write st resp)"

text \<open>
  \<open>decode\<close> is \<open>Decoder.Decode\<close> on the bytes that the reader yields; the limit cuts the body.
\<close>

definition Parse :: "(bytes \<Rightarrow> error + 'a) \<Rightarrow> base_handler \<Rightarrow> bytes \<Rightarrow> error + 'a" where
  "Parse decode h body =
     (let body = (if MaxBodyBytes h > 0 then take (nat (MaxBodyBytes h)) body else body)
      in case decode body of Inl e \<Rightarrow> Inl (Parse_err e) | Inr x \<Rightarrow> Inr x)"

lemma constructors_agree:
  "handler_Error srt (NewBaseHandlerWithTracer srt n debug) err = handler_Error srt (NewBaseHandler n debug) err"
  "Parse decode (NewBaseHandlerWithTracer srt n debug) body = Parse decode (NewBaseHandler n debug) body"
  by (simp_all add: handler_Error_def Parse_def NewBaseHandlerWithTracer_def NewBaseHandler_def)

subsection \<open>What a client learns of an error\<close>

text \<open>The errors whose texts the API shows to its users.\<close>

definition public :: "error \<Rightarrow> bool" where
  "public e \<longleftrightarrow> sentinel_status e \<noteq> None \<or> as_parseError e \<or> as_UserError e \<or> (\<exists>v m fs. e = Validation_err v m fs)"

lemma parser_not_public:
  "\<not> public e \<Longrightarrow> DefaultErrorParser srt (Some e) debug =
     (500, Some [General (GeneralError GeneralErrorType (if debug then error_msg e else http_error_msg ErrInternal))])"
  unfolding public_def DefaultErrorParser_def by (cases e) auto

lemma parser_public:
  assumes "public e"
  obtains st where "DefaultErrorParser srt (Some e) debug = (st, Some [General (GeneralError GeneralErrorType (error_msg e))])"
    | v m fs where "e = Validation_err v m fs"
      "DefaultErrorParser srt (Some e) debug = (422, Some (ValidationErrorsToFieldErrorResponse srt fs))"
proof (cases "\<exists>v m fs. e = Validation_err v m fs")
  case True
  then obtain v m fs where "e = Validation_err v m fs" by blast
  with that(2) show ?thesis by (simp add: DefaultErrorParser_def)
next
  case False
  with assms have "sentinel_status e \<noteq> None \<or> as_parseError e \<or> as_UserError e" by (simp add: public_def)
  then have "\<exists>st. DefaultErrorParser srt (Some e) debug =
      (st, Some [General (GeneralError GeneralErrorType (error_msg e))])"
    by (cases "sentinel_status e"; cases "as_parseError e") (simp_all add: DefaultErrorParser_def Let_def)
  with that(1) show ?thesis by blast
qed

text \<open>
  C29: outside debug mode the response to an error that is not meant for users is the same
  for all such errors, down to the last byte: no detail of an internal error leaves the server,
  however the error was wrapped.
\<close>

theorem internal_errors_not_leaked:
  assumes "ErrorParser h = None" "\<not> Debug h" "\<not> public e" "\<not> public e'"
  shows "handler_Error srt h (Some e) = handler_Error srt h (Some e') \<and>
    w_status (handler_Error srt h (Some e)) = 500"
  using assms by (simp add: handler_Error_def default_parser_def parser_not_public Write_def)

theorem internal_errors_not_leaked_witness:
  "handler_Error insertion_sort (NewBaseHandler (- 1) False) (Some (Wrap ''password: '' (Ext ''hunter2''))) =
     handler_Error insertion_sort (NewBaseHandler (- 1) False) (Some (Std_err EOF)) \<and>
   w_status (handler_Error insertion_sort (NewBaseHandler (- 1) False) (Some (Wrap ''password: '' (Ext ''hunter2'')))) = 500"
  by (rule internal_errors_not_leaked) (simp_all add: NewBaseHandler_def public_def)

text \<open>
  A body that was rejected is answered with 422 and the reason, also after wrapping, and a
  body within the limit is decoded as it is.
\<close>

lemma Parse_rejected:
  "Parse decode h body = Inl e \<Longrightarrow> DefaultErrorParser srt (Some (Wrap p e)) debug =
     (422, Some [General (GeneralError GeneralErrorType (p @ error_msg e))])"
  by (auto simp: Parse_def DefaultErrorParser_def Let_def split: sum.splits)

lemma Parse_within_limit:
  "MaxBodyBytes h > 0 \<Longrightarrow> int (length body) \<le> MaxBodyBytes h \<Longrightarrow>
     Parse decode h body = (case decode body of Inl e \<Rightarrow> Inl (Parse_err e) | Inr x \<Rightarrow> Inr x)"
  by (simp add: Parse_def)

end
