(* ===== verification/Api_Client.thy ===== *)
theory Api_Client
  imports Base_Handler Authorization "HOL-Library.AList" "HOL-Library.Word"
begin

section \<open>The base API client\<close>

text \<open>
  \<open>pkg/http/clients\<close>. An attempt runs in an environment (\<open>do_env\<close>) that holds what the token
  provider is asked at, what \<open>http.NewRequest\<close> says of the method and the URL, the tracing
  headers and the transport. The attempts of a request run in a sequence of environments.
  The package \<open>backoff\<close> is a parameter with what its documentation promises (\<open>retry_ok\<close>).
\<close>

subsection \<open>Headers and query strings\<close>

text \<open>
  \<open>http.Header\<close>: a map from names to lists of values. \<open>Set\<close> and \<open>Get\<close> bring the name to its
  canonical form unless it has a character that no header name may have.
\<close>

type_synonym header = "(string \<times> string list) list"

definition header_char :: "char \<Rightarrow> bool" where
  "header_char c \<longleftrightarrow> is_letter c \<or> is_digit c \<or> c \<in> set ''!#$%&*+-.^_|~'' \<or> c = CHR 0x27 \<or> c = CHR 0x60"

fun canon_loop :: "bool \<Rightarrow> string \<Rightarrow> string" where
  "canon_loop up [] = []"
| "canon_loop up (c # cs) = (if up then to_upper c else to_lower c) # canon_loop (c = CHR ''-'') cs"

definition CanonicalHeaderKey :: "string \<Rightarrow> string" where
  "CanonicalHeaderKey k = (if list_all header_char k then canon_loop True k else k)"

definition header_Set :: "string \<Rightarrow> string \<Rightarrow> header \<Rightarrow> header" where
  "header_Set k v h = AList.update (CanonicalHeaderKey k) [v] h"

definition header_Get :: "header \<Rightarrow> string \<Rightarrow> string" where
  "header_Get h k = (case map_of h (CanonicalHeaderKey k) of Some (v # vs) \<Rightarrow> v | _ \<Rightarrow> [])"

text \<open>\<open>url.QueryEscape\<close> and \<open>url.Values.Encode\<close>.\<close>

definition upper_hex :: "nat \<Rightarrow> char" where
  "upper_hex n = (if n < 10 then char_of (48 + n) else char_of (55 + n))"

definition query_escape_char :: "char \<Rightarrow> string" where
  "query_escape_char c =
     (if is_letter c \<or> is_digit c \<or> c \<in> set ''-_.~'' then [c]
      else if c = CHR '' '' then ''+''
      else [CHR 0x25, upper_hex (of_char c div 16), upper_hex (of_char c mod 16)])"

definition QueryEscape :: "string \<Rightarrow> string" where
  "QueryEscape s = concat (map query_escape_char s)"

type_synonym url_values = "(string \<times> string list) list"

definition Values_Encode :: "url_values \<Rightarrow> string" where
  "Values_Encode q = join ''&''
     (concat (map (\<lambda>(k, vs). map (\<lambda>v. QueryEscape k @ ''='' @ QueryEscape v) vs) (sort_key fst q)))"

subsection \<open>Errors of the client\<close>

record response =
  resp_StatusCode :: int
  resp_Header :: header
  resp_Body :: "error + bytes"

record api_error =
  Status :: int
  Header :: header
  Response :: bytes

datatype client_error = Go_err error | APIError api_error

text \<open>
  The errors that the body of a response has: \<open>um\<close> is \<open>json.Unmarshal\<close> into \<open>errorResponse\<close>,
  the keys and messages in their order. \<open>vtext\<close> is the text that the validation library makes
  of a map of errors.
\<close>

type_synonym unmarshal_errors = "bytes \<Rightarrow> (string \<times> string) list option"

definition collect_error ::
  "int \<Rightarrow> string \<times> string \<Rightarrow> error list \<times> (string \<times> string) list \<times> string list
    \<Rightarrow> error list \<times> (string \<times> string) list \<times> string list" where
  "collect_error st = (\<lambda>(key, message) (errs, validationErrs, connectivityGeneralErrs).
     if key \<noteq> [] then (errs, AList.update key message validationErrs, connectivityGeneralErrs)
     else if st = 522 then (errs, validationErrs, connectivityGeneralErrs @ [message])
     else (errs @ [New message], validationErrs, connectivityGeneralErrs))"

definition ResponseErrors ::
  "unmarshal_errors \<Rightarrow> ((string \<times> string) list \<Rightarrow> string) \<Rightarrow> api_error \<Rightarrow> error list" where
  "ResponseErrors um vtext e =
     (case um (Response e) of None \<Rightarrow> []
      | Some respErrs \<Rightarrow>
        let (errs, validationErrs, conn) = fold (collect_error (Status e)) respErrs ([], [], []);
            validationErrs =
              (if conn \<noteq> [] then
                 AList.update ''connection''
                   (join ''. '' (case map_of validationErrs ''connection'' of
                      Some m \<Rightarrow> conn @ [m] | None \<Rightarrow> conn)) validationErrs
               else validationErrs)
        in if validationErrs \<noteq> []
           then errs @ [Validation_err Ozzo3 (vtext validationErrs) (map (\<lambda>(k, m). (k, Some m)) validationErrs)]
           else errs)"

definition APIError_Error ::
  "(int \<Rightarrow> string) \<Rightarrow> unmarshal_errors \<Rightarrow> ((string \<times> string) list \<Rightarrow> string) \<Rightarrow> api_error \<Rightarrow> string" where
  "APIError_Error StatusText um vtext e =
     (let st = (if StatusText (Status e) = [] then int_text (Status e) else StatusText (Status e))
      in join ''; '' (st # map error_msg (ResponseErrors um vtext e)))"

definition ValidationErrors ::
  "unmarshal_errors \<Rightarrow> ((string \<times> string) list \<Rightarrow> string) \<Rightarrow> api_error \<Rightarrow> (string \<times> string option) list option" where
  "ValidationErrors um vtext e =
     (case List.find (\<lambda>err. case err of Validation_err Ozzo3 _ _ \<Rightarrow> True | _ \<Rightarrow> False) (ResponseErrors um vtext e) of
        Some (Validation_err v m fs) \<Rightarrow> Some fs | _ \<Rightarrow> None)"

fun GetStatusCode :: "client_error option \<Rightarrow> int" where
  "GetStatusCode None = 200"
| "GetStatusCode (Some (APIError e)) = Status e"
| "GetStatusCode (Some (Go_err (Http_err ErrAuthorization))) = 401"
| "GetStatusCode (Some (Go_err (Http_err ErrPermission))) = 403"
| "GetStatusCode (Some (Go_err (Http_err ErrNotFound))) = 404"
| "GetStatusCode (Some (Go_err (Http_err ErrNotImplemented))) = 501"
| "GetStatusCode (Some e) = 0"

definition IsRetryable :: "response option \<Rightarrow> client_error option \<Rightarrow> bool" where
  "IsRetryable resp err =
     (case err of
        Some (APIError e) \<Rightarrow> Status e \<in> {400, 408, 444, 499, 500, 502, 503, 504, 599}
      | _ \<Rightarrow> False)"

subsection \<open>One attempt\<close>

text \<open>
  A plan says for every retry, counted from 0, whether it is made. A client is a value: the
  \<open>With\<close> functions return a changed copy.
\<close>

type_synonym backoff_plan = "nat \<Rightarrow> bool"

record 'e base_api_client =
  basePath :: string
  tokenHeaderName :: string
  tokenProvider :: "'e \<Rightarrow> error + string"
  client_header :: "header option"
  client_plan :: "backoff_plan option"
  maxAttempts :: "64 word"
  retryable :: "(response option \<Rightarrow> client_error option \<Rightarrow> bool) option"

definition NewBaseAPIClient :: "string \<Rightarrow> string \<Rightarrow> ('e \<Rightarrow> error + string) \<Rightarrow> 'e base_api_client" where
  "NewBaseAPIClient path headerName provider =
     \<lparr>basePath = path, tokenHeaderName = headerName, tokenProvider = provider, client_header = None,
      client_plan = None, maxAttempts = 0, retryable = None\<rparr>"

text \<open>
  The token providers of the package: one that asks a token creator, one that passes on the
  token of the claims of a request, and one without a token.
\<close>

definition TokenProviderFromCreator ::
  "('e \<Rightarrow> string \<Rightarrow> 'o \<Rightarrow> error + string) \<Rightarrow> string \<Rightarrow> 'o \<Rightarrow> 'e \<Rightarrow> error + string" where
  "TokenProviderFromCreator create reference opts = (\<lambda>env. create env reference opts)"

definition TokenProviderFromClaims :: "claims \<Rightarrow> 'e \<Rightarrow> error + string" where
  "TokenProviderFromClaims claims = (\<lambda>_. Inr (cl_SourceToken claims))"

definition NoopTokenProvider :: "'e \<Rightarrow> error + string" where
  "NoopTokenProvider = (\<lambda>_. Inr [])"

definition WithRetry ::
  "backoff_plan option \<Rightarrow> 64 word \<Rightarrow> (response option \<Rightarrow> client_error option \<Rightarrow> bool) option
    \<Rightarrow> 'e base_api_client \<Rightarrow> 'e base_api_client" where
  "WithRetry pl attempts testRetryable c =
     c\<lparr>client_plan := pl, maxAttempts := attempts, retryable := testRetryable\<rparr>"

definition WithTokenProvider :: "('e \<Rightarrow> error + string) \<Rightarrow> 'e base_api_client \<Rightarrow> 'e base_api_client" where
  "WithTokenProvider provider c = c\<lparr>tokenProvider := provider\<rparr>"

definition WithHeader :: "header option \<Rightarrow> 'e base_api_client \<Rightarrow> 'e base_api_client" where
  "WithHeader h c = c\<lparr>client_header := h\<rparr>"

record request =
  req_method :: string
  req_url :: string
  req_header :: header
  req_payload :: "(error + bytes) option"

record 'e do_env =
  token_at :: 'e
  NewRequest_err :: "string \<Rightarrow> string \<Rightarrow> error option"
  inject :: "header \<Rightarrow> header"
  transport :: "request \<Rightarrow> error + response"

definition build_request ::
  "'e base_api_client \<Rightarrow> (header \<Rightarrow> header) \<Rightarrow> string \<Rightarrow> string \<Rightarrow> (error + bytes) option \<Rightarrow> string \<Rightarrow> request" where
  "build_request c tracing method url payload token =
     (let h = (case client_header c of Some h \<Rightarrow> h | None \<Rightarrow> []);
          h = header_Set ''Content-Type'' ''application/json'' h;
          h = (if token \<noteq> [] then header_Set (tokenHeaderName c) token h else h)
      in \<lparr>req_method = method, req_url = url, req_header = tracing h, req_payload = payload\<rparr>)"

definition handle_response :: "response \<Rightarrow> client_error + response" where
  "handle_response resp =
     (let st = resp_StatusCode resp
      in if 200 \<le> st \<and> st < 300 then Inr resp
      else if st = 401 then Inl (Go_err (Http_err ErrAuthorization))
      else if st = 403 then Inl (Go_err (Http_err ErrPermission))
      else if st = 404 then Inl (Go_err (Http_err ErrNotFound))
      else if st = 501 then Inl (Go_err (Http_err ErrNotImplemented))
      else (case resp_Body resp of
          Inl e \<Rightarrow> Inl (Go_err (errors_Wrap e ''failed to read response body''))
        | Inr b \<Rightarrow> Inl (APIError \<lparr>Status = st, Header = resp_Header resp, Response = b\<rparr>)))"

definition client_do ::
  "'e base_api_client \<Rightarrow> string \<Rightarrow> string \<Rightarrow> url_values \<Rightarrow> (error + bytes) option \<Rightarrow> 'e do_env
    \<Rightarrow> client_error + response" where
  "client_do c method path query payload env =
     (let queryString = Values_Encode query;
          url = basePath c @ path;
          url = (if queryString \<noteq> [] then url @ ''?'' @ queryString else url)
      in case tokenProvider c (token_at env) of
           Inl e \<Rightarrow> Inl (Go_err (errors_Wrap e ''failed to create request token''))
         | Inr token \<Rightarrow>
           (case NewRequest_err env method url of
              Some e \<Rightarrow> Inl (Go_err (errors_Wrap e ''failed to create a new request''))
            | None \<Rightarrow>
              (case transport env (build_request c (inject env) method url payload token) of
                 Inl e \<Rightarrow> Inl (Go_err (errors_Wrap e ''failed to do request''))
               | Inr resp \<Rightarrow> handle_response resp)))"

subsection \<open>Attempts\<close>

text \<open>
  \<open>backoff.Retry\<close> with \<open>WithMaxRetries\<close> and \<open>WithContext\<close>: from the error that the context ends
  with, if it does, the plan, the maximal number of retries and the operation it yields the
  number of calls and the error. The operation gives for every call no error, or an error and
  whether it is permanent.
\<close>

type_synonym retry_fun =
  "error option \<Rightarrow> backoff_plan \<Rightarrow> nat \<Rightarrow> (nat \<Rightarrow> (bool \<times> client_error) option) \<Rightarrow> nat \<times> client_error option"

definition retry_ends ::
  "error option \<Rightarrow> backoff_plan \<Rightarrow> nat \<Rightarrow> (nat \<Rightarrow> (bool \<times> client_error) option) \<Rightarrow> nat \<Rightarrow> client_error option \<Rightarrow> bool"
where
  "retry_ends ctx pl retries opn k res \<longleftrightarrow> 1 \<le> k \<and> k \<le> retries + 1 \<and>
     (\<forall>i < k - 1. \<exists>e. opn i = Some (False, e)) \<and>
     (case opn (k - 1) of
        None \<Rightarrow> res = None
      | Some (permanent, e) \<Rightarrow>
        if permanent then res = Some e
        else res = Some e \<and> (k = retries + 1 \<or> \<not> pl (k - 1)) \<or> (\<exists>x. ctx = Some x \<and> res = Some (Go_err x)))"

definition retry_ok :: "retry_fun \<Rightarrow> bool" where
  "retry_ok retry \<longleftrightarrow> (\<forall>ctx pl retries opn k res.
     retry ctx pl retries opn = (k, res) \<longrightarrow> retry_ends ctx pl retries opn k res)"

definition attempt_result ::
  "'e base_api_client \<Rightarrow> client_error + response \<Rightarrow> (bool \<times> client_error) option" where
  "attempt_result c r =
     (let retry = (case retryable c of None \<Rightarrow> IsRetryable | Some f \<Rightarrow> f)
      in case r of Inr resp \<Rightarrow> None | Inl e \<Rightarrow> Some (\<not> retry None (Some e), e))"

text \<open>The number of attempts, the last response and the error.\<close>

definition DoRequestWithResponse ::
  "retry_fun \<Rightarrow> error option \<Rightarrow> 'e base_api_client \<Rightarrow> string \<Rightarrow> string \<Rightarrow> url_values \<Rightarrow> (error + bytes) option
    \<Rightarrow> (nat \<Rightarrow> 'e do_env) \<Rightarrow> nat \<times> response option \<times> client_error option" where
  "DoRequestWithResponse retry ctx c method path query payload envs =
     (let basePlan = (case client_plan c of None \<Rightarrow> (\<lambda>_. False) | Some pl \<Rightarrow> pl);
          attempts = (if maxAttempts c > 0 then maxAttempts c - 1 else maxAttempts c);
          run = (\<lambda>n. client_do c method path query payload (envs n));
          (attempt, err) = retry ctx basePlan (unat attempts) (\<lambda>n. attempt_result c (run n));
          lastResp = (case run (attempt - 1) of Inr resp \<Rightarrow> Some resp | Inl e \<Rightarrow> None)
      in (attempt, lastResp, err))"

text \<open>
  \<open>decode\<close> is \<open>Decoder.Decode\<close> into \<open>out\<close>: the decoded value or an error. Without a destination
  (\<open>out\<close> nil) nothing is read. An attempt without an error has a response, so the third case
  does not occur.
\<close>

definition DoRequest ::
  "retry_fun \<Rightarrow> error option \<Rightarrow> 'e base_api_client \<Rightarrow> string \<Rightarrow> string \<Rightarrow> url_values \<Rightarrow> (error + bytes) option
    \<Rightarrow> (error + bytes \<Rightarrow> error + 'o) option \<Rightarrow> (nat \<Rightarrow> 'e do_env) \<Rightarrow> client_error + 'o option" where
  "DoRequest retry ctx c method path query payload out envs =
     (case DoRequestWithResponse retry ctx c method path query payload envs of
        (_, _, Some e) \<Rightarrow> Inl e
      | (_, None, None) \<Rightarrow> Inr None
      | (_, Some resp, None) \<Rightarrow>
        let contentType = map to_lower (header_Get (resp_Header resp) ''content-type'')
        in case out of
             Some decode \<Rightarrow>
               if contains contentType ''json''
               then (case decode (resp_Body resp) of
                   Inl e \<Rightarrow> Inl (Go_err (errors_Wrap e ''failed to decode JSON response''))
                 | Inr x \<Rightarrow> Inr (Some x))
               else Inr None
           | None \<Rightarrow> Inr None)"

subsection \<open>The attempts of a request\<close>

definition settled :: "'e base_api_client \<Rightarrow> client_error + response \<Rightarrow> bool" where
  "settled c r \<longleftrightarrow> (\<forall>e. attempt_result c r \<noteq> Some (False, e))"

definition attempt_limit :: "'e base_api_client \<Rightarrow> nat" where
  "attempt_limit c = max 1 (unat (maxAttempts c))"

lemma attempts_retries:
  "unat (if maxAttempts c > 0 then maxAttempts c - 1 else maxAttempts c) + 1 = attempt_limit c"
proof (cases "maxAttempts c = 0")
  case False
  then have "unat (maxAttempts c) > 0" by (simp add: unat_gt_0)
  with False show ?thesis by (simp add: attempt_limit_def unat_minus_one word_neq_0_conv)
qed (simp add: attempt_limit_def)

lemma attempt_result_simps [simp]:
  "attempt_result c (Inr resp) = None"
  "attempt_result c (Inl e) = Some (\<not> (case retryable c of None \<Rightarrow> IsRetryable | Some f \<Rightarrow> f) None (Some e), e)"
  by (simp_all add: attempt_result_def Let_def)

lemma request_run:
  assumes "retry_ok retry"
    and "DoRequestWithResponse retry ctx c method path query payload envs = (k, resp, err)"
  shows "retry_ends ctx (case client_plan c of None \<Rightarrow> (\<lambda>_. False) | Some pl \<Rightarrow> pl) (attempt_limit c - 1)
      (\<lambda>n. attempt_result c (client_do c method path query payload (envs n))) k err"
    and "resp = (case client_do c method path query payload (envs (k - 1)) of Inr r \<Rightarrow> Some r | Inl e \<Rightarrow> None)"
proof -
  have "unat (if maxAttempts c > 0 then maxAttempts c - 1 else maxAttempts c) = attempt_limit c - 1"
    using attempts_retries [of c] by simp
  then have "retry ctx (case client_plan c of None \<Rightarrow> (\<lambda>_. False) | Some pl \<Rightarrow> pl) (attempt_limit c - 1)
      (\<lambda>n. attempt_result c (client_do c method path query payload (envs n))) = (k, err)"
    and 2: "resp = (case client_do c method path query payload (envs (k - 1)) of Inr r \<Rightarrow> Some r | Inl e \<Rightarrow> None)"
    using assms(2) unfolding DoRequestWithResponse_def by (auto simp only: Let_def prod.inject split: prod.splits)
  with assms(1) show "retry_ends ctx (case client_plan c of None \<Rightarrow> (\<lambda>_. False) | Some pl \<Rightarrow> pl) (attempt_limit c - 1)
      (\<lambda>n. attempt_result c (client_do c method path query payload (envs n))) k err"
    unfolding retry_ok_def by blast
  show "resp = (case client_do c method path query payload (envs (k - 1)) of Inr r \<Rightarrow> Some r | Inl e \<Rightarrow> None)"
    by (rule 2)
qed

text \<open>
  A request is sent at least once and at most \<open>maxAttempts\<close> times (once when that is 0 or 1),
  every attempt before the last one failed with an error that the client retries, and the caller
  gets a response exactly when there is no error, namely the one of the last attempt.
\<close>

theorem request_attempts_bounded:
  assumes "retry_ok retry"
    and "DoRequestWithResponse retry ctx c method path query payload envs = (k, resp, err)"
  shows "1 \<le> k \<and> k \<le> attempt_limit c \<and>
    (\<forall>i < k - 1. \<not> settled c (client_do c method path query payload (envs i))) \<and>
    (err = None \<longleftrightarrow> resp \<noteq> None) \<and>
    (\<forall>r. resp = Some r \<longrightarrow> client_do c method path query payload (envs (k - 1)) = Inr r)"
proof -
  let ?do = "\<lambda>n. client_do c method path query payload (envs n)"
  note run = request_run [OF assms]
  have pos: "attempt_limit c - 1 + 1 = attempt_limit c" by (simp add: attempt_limit_def)
  from run(1) have k: "1 \<le> k" "k \<le> attempt_limit c" "\<forall>i < k - 1. \<not> settled c (?do i)"
    unfolding retry_ends_def settled_def pos by auto
  have "err = None \<longleftrightarrow> resp \<noteq> None"
    using run(1) unfolding retry_ends_def run(2)
    by (cases "?do (k - 1)") (auto split: if_splits)
  moreover have "\<forall>r. resp = Some r \<longrightarrow> ?do (k - 1) = Inr r"
    unfolding run(2) by (auto split: sum.splits)
  ultimately show ?thesis using k by blast
qed

text \<open>The answer of the server to an attempt, when the token and the request can be made.\<close>

definition answered ::
  "'e base_api_client \<Rightarrow> string \<Rightarrow> string \<Rightarrow> url_values \<Rightarrow> (error + bytes) option \<Rightarrow> 'e do_env \<Rightarrow> response \<Rightarrow> bool" where
  "answered c method path query payload env resp \<longleftrightarrow>
     (let url = basePath c @ path @ (if Values_Encode query = [] then [] else ''?'' @ Values_Encode query)
      in \<exists>token. tokenProvider c (token_at env) = Inr token \<and> NewRequest_err env method url = None \<and>
        transport env (build_request c (inject env) method url payload token) = Inr resp)"

definition retried_statuses :: "int set" where
  "retried_statuses = {400, 408, 444, 499, 500, 502, 503, 504, 599}"

text \<open>The error for a status that is no success, with the body of the response.\<close>

definition status_error :: "response \<Rightarrow> bytes \<Rightarrow> client_error" where
  "status_error resp body =
     (if resp_StatusCode resp = 401 then Go_err (Http_err ErrAuthorization)
      else if resp_StatusCode resp = 403 then Go_err (Http_err ErrPermission)
      else if resp_StatusCode resp = 404 then Go_err (Http_err ErrNotFound)
      else if resp_StatusCode resp = 501 then Go_err (Http_err ErrNotImplemented)
      else APIError \<lparr>Status = resp_StatusCode resp, Header = resp_Header resp, Response = body\<rparr>)"

lemma answered_do:
  assumes "answered c method path query payload env resp" "resp_Body resp = Inr b"
  shows "client_do c method path query payload env =
    (if 200 \<le> resp_StatusCode resp \<and> resp_StatusCode resp < 300 then Inr resp else Inl (status_error resp b))"
  using assms by (auto simp: answered_def client_do_def handle_response_def status_error_def Let_def split: if_splits)

lemma answered_settled:
  assumes "answered c method path query payload env resp" "resp_Body resp = Inr b" "retryable c = None"
  shows "settled c (client_do c method path query payload env) \<longleftrightarrow> resp_StatusCode resp \<notin> retried_statuses"
proof -
  have "IsRetryable None (Some (status_error resp b)) \<longleftrightarrow> resp_StatusCode resp \<in> retried_statuses"
    by (auto simp: status_error_def IsRetryable_def retried_statuses_def)
  moreover have "resp_StatusCode resp \<notin> retried_statuses" if "200 \<le> resp_StatusCode resp" "resp_StatusCode resp < 300"
    using that by (auto simp: retried_statuses_def)
  ultimately show ?thesis
    unfolding answered_do [OF assms(1,2)] settled_def using assms(3) by auto
qed

text \<open>The attempts end with the first one that settles the request, or with the last one that is allowed.\<close>

lemma attempts_end:
  assumes "retry_ok retry" "client_plan c = Some (\<lambda>_. True)" "n < attempt_limit c"
    and "\<forall>i < n. \<not> settled c (client_do c method path query payload (envs i))"
    and "settled c (client_do c method path query payload (envs n)) \<or> n + 1 = attempt_limit c"
  shows "DoRequestWithResponse retry None c method path query payload envs =
    (case client_do c method path query payload (envs n) of
       Inr r \<Rightarrow> (n + 1, Some r, None) | Inl e \<Rightarrow> (n + 1, None, Some e))"
proof -
  let ?do = "\<lambda>n. client_do c method path query payload (envs n)"
  obtain k resp err where run: "DoRequestWithResponse retry None c method path query payload envs = (k, resp, err)"
    by (cases "DoRequestWithResponse retry None c method path query payload envs") blast
  note ends = request_run [OF assms(1) run]
  have pos: "attempt_limit c - 1 + 1 = attempt_limit c" by (simp add: attempt_limit_def)
  have k: "1 \<le> k" "k \<le> attempt_limit c" "\<forall>i < k - 1. \<not> settled c (?do i)"
    using ends(1) unfolding retry_ends_def settled_def pos by auto
  have "settled c (?do (k - 1)) \<or> k = attempt_limit c"
    using ends(1) unfolding retry_ends_def settled_def assms(2) pos
    by (auto split: option.splits prod.splits if_splits)
  moreover have "\<not> n < k - 1" using k assms(5) by auto
  ultimately have "k - 1 = n"
    using k assms(3,4) by (metis Suc_pred' less_one linorder_neqE_nat not_less_eq One_nat_def not_le le_eq_less_or_eq)
  then have k: "k = n + 1" using k(1) by simp
  have "attempt_result c (?do n) = None \<and> err = None \<or> (\<exists>b e. attempt_result c (?do n) = Some (b, e) \<and> err = Some e)"
    using ends(1) unfolding retry_ends_def k by (auto split: option.splits if_splits)
  then show ?thesis
    using run ends(2) unfolding k by (cases "?do n") auto
qed

text \<open>
  C28: A client with the default test, a plan that goes on and a context that does not end. The request is
  sent again as long as the server answers with one of the statuses that are worth a retry, until
  the first other answer or the last allowed attempt; the number of attempts is exactly that,
  never more than \<open>maxAttempts\<close>, and one when this is 0. The caller gets the last answer: the
  response when its status is from 200 to 299, otherwise the error of its status.
\<close>

theorem request_retried_until_settled:
  assumes "retry_ok retry" "client_plan c = Some (\<lambda>_. True)" "retryable c = None" "n < max 1 (unat (maxAttempts c))"
    and "\<And>i. i \<le> n \<Longrightarrow> answered c method path query payload (envs i) (resps i) \<and> resp_Body (resps i) = Inr (bodies i)"
    and "\<And>i. i < n \<Longrightarrow> resp_StatusCode (resps i) \<in> {400, 408, 444, 499, 500, 502, 503, 504, 599}"
    and "resp_StatusCode (resps n) \<notin> {400, 408, 444, 499, 500, 502, 503, 504, 599} \<or> n + 1 = max 1 (unat (maxAttempts c))"
  shows "DoRequestWithResponse retry None c method path query payload envs =
    (if 200 \<le> resp_StatusCode (resps n) \<and> resp_StatusCode (resps n) < 300 then (n + 1, Some (resps n), None)
     else (n + 1, None, Some (status_error (resps n) (bodies n))))"
proof -
  have st: "settled c (client_do c method path query payload (envs i)) \<longleftrightarrow> resp_StatusCode (resps i) \<notin> retried_statuses" if "i \<le> n" for i
    using assms(5) [OF that] assms(3) answered_settled by blast
  have "DoRequestWithResponse retry None c method path query payload envs =
    (case client_do c method path query payload (envs n) of
       Inr r \<Rightarrow> (n + 1, Some r, None) | Inl e \<Rightarrow> (n + 1, None, Some e))"
    using assms(4,6,7) by (intro attempts_end [OF assms(1,2)]) (auto simp: st attempt_limit_def retried_statuses_def)
  moreover have "client_do c method path query payload (envs n) =
      (if 200 \<le> resp_StatusCode (resps n) \<and> resp_StatusCode (resps n) < 300 then Inr (resps n)
       else Inl (status_error (resps n) (bodies n)))"
    using assms(5) [of n] by (intro answered_do) simp_all
  ultimately show ?thesis by simp
qed

text \<open>A loop with the promised behaviour, for a context that ends after the request.\<close>

fun retry_from :: "backoff_plan \<Rightarrow> (nat \<Rightarrow> (bool \<times> client_error) option) \<Rightarrow> nat \<Rightarrow> nat \<Rightarrow> nat \<times> client_error option" where
  "retry_from pl opn 0 i = (Suc i, map_option snd (opn i))"
| "retry_from pl opn (Suc r) i =
     (case opn i of None \<Rightarrow> (Suc i, None)
      | Some (permanent, e) \<Rightarrow>
        if permanent \<or> \<not> pl i then (Suc i, Some e) else retry_from pl opn r (Suc i))"

definition sample_retry :: retry_fun where
  "sample_retry ctx pl retries opn = retry_from pl opn retries 0"

lemma retry_from_ends:
  assumes "retry_from pl opn r i = (k, res)" "\<forall>j < i. \<exists>e. opn j = Some (False, e)"
  shows "retry_ends ctx pl (i + r) opn k res"
  using assms
proof (induction r arbitrary: i)
  case 0
  then show ?case by (auto simp: retry_ends_def split: option.splits)
next
  case (Suc r)
  show ?case
  proof (cases "opn i")
    case None
    with Suc.prems show ?thesis by (auto simp: retry_ends_def)
  next
    case (Some pe)
    then obtain permanent e where pe: "opn i = Some (permanent, e)" by (cases pe) auto
    show ?thesis
    proof (cases "permanent \<or> \<not> pl i")
      case True
      with pe Suc.prems show ?thesis by (auto simp: retry_ends_def)
    next
      case False
      with pe Suc.prems(1) have "retry_from pl opn r (Suc i) = (k, res)" by simp
      moreover have "\<forall>j < Suc i. \<exists>e. opn j = Some (False, e)"
        using Suc.prems(2) pe False by (auto simp: less_Suc_eq)
      ultimately have "retry_ends ctx pl (Suc i + r) opn k res" by (rule Suc.IH)
      then show ?thesis by simp
    qed
  qed
qed

lemma retry_ok_sample: "retry_ok sample_retry"
proof -
  have "retry_ends ctx pl retries opn k res" if "sample_retry ctx pl retries opn = (k, res)" for ctx pl retries opn k res
    using retry_from_ends [of pl opn retries 0 k res ctx] that by (simp add: sample_retry_def)
  then show ?thesis unfolding retry_ok_def by blast
qed

definition ex_client :: "unit base_api_client" where
  "ex_client = WithRetry (Some (\<lambda>_. True)) 3 None
     (NewBaseAPIClient ''http://api'' ''X-Auth'' (\<lambda>_. Inr ''tok''))"

text \<open>A server that is unavailable at the first attempt.\<close>

definition ex_attempt :: "nat \<Rightarrow> unit do_env" where
  "ex_attempt n = \<lparr>token_at = (), NewRequest_err = (\<lambda>_ _. None), inject = (\<lambda>h. h),
     transport = (\<lambda>r. Inr \<lparr>resp_StatusCode = (if n = 0 then 503 else 200), resp_Header = [], resp_Body = Inr (req_url r)\<rparr>)\<rparr>"

definition ex_do :: "nat \<Rightarrow> client_error + response" where
  "ex_do n = client_do ex_client ''GET'' ''/x'' [(''q'', [''a b''])] None (ex_attempt n)"

lemma ex_do_simps:
  "ex_do 0 = Inl (APIError \<lparr>Status = 503, Header = [], Response = ''http://api/x?q=a+b''\<rparr>)"
  "ex_do (Suc 0) = Inr \<lparr>resp_StatusCode = 200, resp_Header = [], resp_Body = Inr ''http://api/x?q=a+b''\<rparr>"
  by code_simp+

theorem request_retried_until_settled_witness:
  "DoRequestWithResponse sample_retry None ex_client ''GET'' ''/x'' [(''q'', [''a b''])] None ex_attempt =
     (2, Some \<lparr>resp_StatusCode = 200, resp_Header = [], resp_Body = Inr ''http://api/x?q=a+b''\<rparr>, None)"
proof -
  let ?resps = "\<lambda>i::nat. \<lparr>resp_StatusCode = (if i = 0 then 503 else 200), resp_Header = [], resp_Body = Inr ''http://api/x?q=a+b''\<rparr>"
  have url: "basePath ex_client @ ''/x'' @ ''?'' @ Values_Encode [(''q'', [''a b''])] = ''http://api/x?q=a+b''"
    "Values_Encode [(''q'', [''a b''])] \<noteq> []" by code_simp+
  have a: "answered ex_client ''GET'' ''/x'' [(''q'', [''a b''])] None (ex_attempt i) (?resps i)" for i
    using url by (simp add: answered_def ex_attempt_def build_request_def ex_client_def WithRetry_def NewBaseAPIClient_def)
  have c: "client_plan ex_client = Some (\<lambda>_. True)" "retryable ex_client = None" "maxAttempts ex_client = 3"
    by (simp_all add: ex_client_def WithRetry_def NewBaseAPIClient_def)
  from request_retried_until_settled [OF retry_ok_sample c(1,2), of 1 "''GET''" "''/x''" "[(''q'', [''a b''])]" None ex_attempt ?resps
      "\<lambda>_. ''http://api/x?q=a+b''"] show ?thesis by (simp add: c(3) a)
qed

theorem request_attempts_bounded_witness:
  "DoRequestWithResponse sample_retry None ex_client ''GET'' ''/x'' [(''q'', [''a b''])] None ex_attempt =
     (2, Some \<lparr>resp_StatusCode = 200, resp_Header = [], resp_Body = Inr ''http://api/x?q=a+b''\<rparr>, None) \<and>
   (1::nat) \<le> 2 \<and> 2 \<le> attempt_limit ex_client \<and>
   \<not> settled ex_client (client_do ex_client ''GET'' ''/x'' [(''q'', [''a b''])] None (ex_attempt 0))"
proof -
  have run: "DoRequestWithResponse sample_retry None ex_client ''GET'' ''/x'' [(''q'', [''a b''])] None ex_attempt =
     (2, Some \<lparr>resp_StatusCode = 200, resp_Header = [], resp_Body = Inr ''http://api/x?q=a+b''\<rparr>, None)"
    by code_simp
  from request_attempts_bounded [OF retry_ok_sample run] have "2 \<le> attempt_limit ex_client"
    "\<not> settled ex_client (client_do ex_client ''GET'' ''/x'' [(''q'', [''a b''])] None (ex_attempt 0))" by simp_all
  with run show ?thesis by simp
qed

subsection \<open>A client against a server with the base handler\<close>

text \<open>What the base handler writes, as the response that arrives at the client.\<close>

definition served :: "written \<Rightarrow> response" where
  "served w = \<lparr>resp_StatusCode = w_status w,
     resp_Header = (case w_content_type w of None \<Rightarrow> [] | Some t \<Rightarrow> [(''Content-Type'', [t])]),
     resp_Body = Inr (w_body w)\<rparr>"

lemma sentinel_statuses: "sentinel_status e = Some st \<Longrightarrow> st \<in> {400, 401, 403, 404, 415, 422, 500, 501}"
  by (cases e rule: sentinel_status.cases) auto

lemma parser_status: "fst (DefaultErrorParser srt (Some e) debug) \<in> {400, 401, 403, 404, 415, 422, 500, 501}"
proof (cases "sentinel_status e")
  case None
  then show ?thesis by (simp add: DefaultErrorParser_def Let_def split: error.splits)
next
  case (Some st)
  then show ?thesis using sentinel_statuses [OF Some] by (simp add: DefaultErrorParser_def Let_def)
qed

lemma handler_Error_new:
  "handler_Error srt (NewBaseHandler n debug) (Some e) =
     (case DefaultErrorParser srt (Some e) debug of (st, resp) \<Rightarrow> Write st (map_option error_response_json resp))"
  by (simp add: handler_Error_def NewBaseHandler_def default_parser_def split_beta)

lemma w_status_Write [simp]: "w_status (Write st obj) = st"
  by (cases obj) (simp_all add: Write_def)

lemma handle_error_status:
  assumes "resp_StatusCode resp \<in> {400, 401, 403, 404, 415, 422, 500, 501}" "resp_Body resp = Inr b"
  shows "\<exists>ce. handle_response resp = Inl ce \<and> GetStatusCode (Some ce) = resp_StatusCode resp"
  using assms by (auto simp: handle_response_def)

text \<open>
  A client of a server that answers with the base handler sees every error as an error with
  the status that the server chose for it, whichever error value it was.
\<close>

theorem error_status_roundtrip:
  "\<exists>ce. handle_response (served (handler_Error srt (NewBaseHandler n debug) (Some e))) = Inl ce \<and>
     GetStatusCode (Some ce) = fst (DefaultErrorParser srt (Some e) debug)"
proof -
  obtain st resp where p: "DefaultErrorParser srt (Some e) debug = (st, resp)" by (cases "DefaultErrorParser srt (Some e) debug")
  then have "st \<in> {400, 401, 403, 404, 415, 422, 500, 501}" using parser_status [of srt e debug] by simp
  then show ?thesis
    using handle_error_status [of "served (Write st (map_option error_response_json resp))"]
    by (simp add: handler_Error_new p served_def)
qed

lemma collect_fields:
  "[] \<notin> fst ` set fs \<Longrightarrow> fold (collect_error st) fs (errs, ves, conn) = (errs, fold (\<lambda>(k, m). AList.update k m) fs ves, conn)"
  by (induction fs arbitrary: ves) (auto simp: collect_error_def)

lemma update_fresh: "k \<notin> fst ` set xs \<Longrightarrow> AList.update k v xs = xs @ [(k, v)]"
  by (induction xs) auto

lemma fold_update_distinct:
  "distinct (map fst (xs @ fs)) \<Longrightarrow> fold (\<lambda>(k, m). AList.update k m) fs xs = xs @ fs"
proof (induction fs arbitrary: xs)
  case (Cons f fs)
  obtain k m where f: "f = (k, m)" by (cases f)
  with Cons.prems have "AList.update k m xs = xs @ [(k, m)]" by (intro update_fresh) auto
  moreover have "fold (\<lambda>(k, m). AList.update k m) fs (xs @ [(k, m)]) = (xs @ [(k, m)]) @ fs"
    by (rule Cons.IH) (use Cons.prems f in auto)
  ultimately show ?case by (simp add: f)
qed simp

lemma ValidationErrors_fields:
  assumes "um (Response e) = Some fs" "distinct (map fst fs)" "[] \<notin> fst ` set fs" "fs \<noteq> []"
  shows "ValidationErrors um vtext e = Some (map (\<lambda>(k, m). (k, Some m)) fs)"
  using assms(1,4) fold_update_distinct [of "[]" fs] assms(2)
  by (simp add: ValidationErrors_def ResponseErrors_def collect_fields [OF assms(3)])

text \<open>
  Validation errors survive the way from the server to the client: a handler that fails with
  a map of field errors answers with 422, and the client's \<open>ValidationErrors\<close> is the same map, in
  the order of the field names. The decoder is only asked to read back this one response.
\<close>

theorem validation_errors_roundtrip:
  assumes "sorts srt" "distinct (map fst errs)" "[] \<notin> fst ` set errs" "field_errors errs \<noteq> []"
    and "um (Marshal (error_response_json (ValidationErrorsToFieldErrorResponse srt errs)) @ [CHR 0x0A]) =
      Some (sort_key fst (field_errors errs))"
  shows "\<exists>e. handle_response (served (handler_Error srt (NewBaseHandler n debug) (Some (Validation_err v m errs)))) =
      Inl (APIError e) \<and> Status e = 422 \<and>
    ValidationErrors um vtext e = Some (map (\<lambda>(k, m). (k, Some m)) (sort_key fst (field_errors errs)))"
proof -
  let ?fs = "sort_key fst (field_errors errs)"
  have "distinct (map fst (field_errors errs))" by (rule distinct_field_errors [OF assms(2)])
  then have d: "distinct (map fst ?fs)" by (simp add: distinct_map)
  have ne: "[] \<notin> fst ` set ?fs" using fst_field_errors [of errs] assms(3) by auto
  have "?fs \<noteq> []" using assms(4) by (metis set_sort set_empty)
  note ValidationErrors_fields [OF _ d ne this]
  then show ?thesis
    using assms(5)
    by (simp add: handler_Error_new DefaultErrorParser_def Write_def served_def handle_response_def)
qed

theorem validation_errors_roundtrip_witness:
  "let errs = [(''b'', Some ''bad b''), (''c'', None), (''a'', Some ''bad a'')];
       um = (\<lambda>body. if body = Marshal (error_response_json (ValidationErrorsToFieldErrorResponse insertion_sort errs)) @ [CHR 0x0A]
         then Some [(''a'', ''bad a''), (''b'', ''bad b'')] else None)
   in \<exists>e. handle_response (served (handler_Error insertion_sort (NewBaseHandler 0 False) (Some (Validation_err Ozzo4 ''text'' errs)))) =
      Inl (APIError e) \<and> Status e = 422 \<and> ValidationErrors um (\<lambda>_. []) e = Some [(''a'', Some ''bad a''), (''b'', Some ''bad b'')]"
proof -
  let ?errs = "[(''b'', Some ''bad b''), (''c'', None), (''a'', Some ''bad a'')] :: (string \<times> string option) list"
  have "sort_key fst (field_errors ?errs) = [(''a'', ''bad a''), (''b'', ''bad b'')]" "field_errors ?errs \<noteq> []"
    by (simp_all add: field_errors_def)
  then show ?thesis
    using validation_errors_roundtrip [of insertion_sort ?errs
        "\<lambda>body. if body = Marshal (error_response_json (ValidationErrorsToFieldErrorResponse insertion_sort ?errs)) @ [CHR 0x0A]
         then Some [(''a'', ''bad a''), (''b'', ''bad b'')] else None" 0 False Ozzo4 "''text''" "\<lambda>_. []"]
    by (simp add: sorts_insertion_sort)
qed

end
