(* ===== verification/Serialization.thy ===== *)
theory Serialization
  imports Go_Errors Json
begin

section \<open>Nullable values in the database and in JSON\<close>

text \<open>
  \<open>pkg/db/serialization\<close> and \<open>pkg/proto\<close>. The texts of times (package \<open>time\<close>) and of identifiers
  (package \<open>uuid\<close>) are parameters with the laws \<open>time_lib_ok\<close> and \<open>uuid_lib_ok\<close>; \<open>um\<close> is
  \<open>json.Unmarshal\<close> into an empty interface. A method with a pointer receiver returns the new value
  of the receiver.
\<close>

datatype driver_value = DNil | DTime time | DText string | DBytes bytes | DOther string

type_synonym unmarshal_any = "bytes \<Rightarrow> error + json"

definition nullString :: string where
  "nullString = ''null''"

definition quote :: "string \<Rightarrow> string" where
  "quote s = CHR 0x22 # s @ [CHR 0x22]"

text \<open>\<open>reflect.TypeOf(v).Name()\<close> of a decoded value.\<close>

fun json_type_name :: "json \<Rightarrow> string" where
  "json_type_name (JBool b) = ''bool''"
| "json_type_name (JNum i) = ''float64''"
| "json_type_name (JStr s) = ''string''"
| "json_type_name j = []"

subsection \<open>Times\<close>

record null_time =
  nt_Time :: time
  nt_Valid :: bool

text \<open>
  \<open>rfc3339\<close> and \<open>layout_text\<close> are \<open>Format\<close>, \<open>time_text\<close> is \<open>MarshalText\<close>; \<open>time_parse\<close> is the parser
  behind \<open>UnmarshalJSON\<close> and \<open>UnmarshalText\<close>, after whose failure the time is the zero time.
\<close>

record time_lib =
  rfc3339 :: "time \<Rightarrow> string"
  layout_text :: "string \<Rightarrow> time \<Rightarrow> string"
  time_text :: "time \<Rightarrow> error + string"
  time_parse :: "string \<Rightarrow> error + time"

definition TimeFrom :: "time \<Rightarrow> null_time" where
  "TimeFrom input = \<lparr>nt_Time = input, nt_Valid = True\<rparr>"

definition Time_Format :: "time_lib \<Rightarrow> null_time \<Rightarrow> string \<Rightarrow> string" where
  "Time_Format l nt layout = (if \<not> nt_Valid nt then nullString else layout_text l layout (nt_Time nt))"

definition Time_String :: "time_lib \<Rightarrow> null_time \<Rightarrow> string" where
  "Time_String l nt = (if \<not> nt_Valid nt then nullString else layout_text l ''2006-01-02 15:04:05 -0700 MST'' (nt_Time nt))"

definition Time_MarshalJSON :: "time_lib \<Rightarrow> null_time \<Rightarrow> bytes" where
  "Time_MarshalJSON l nt = (if \<not> nt_Valid nt then nullString else quote (rfc3339 l (nt_Time nt)))"

definition Time_UnmarshalJSON :: "time_lib \<Rightarrow> unmarshal_any \<Rightarrow> bytes \<Rightarrow> null_time \<Rightarrow> null_time \<times> error option" where
  "Time_UnmarshalJSON l um dat nt =
     (case um dat of Inl e \<Rightarrow> (nt, Some e)
      | Inr v \<Rightarrow>
        (case v of
           JStr x \<Rightarrow>
             if x = [] \<or> x = nullString then (nt\<lparr>nt_Valid := False\<rparr>, None)
             else (case time_parse l x of
                 Inl e \<Rightarrow> (\<lparr>nt_Time = zero_time, nt_Valid = False\<rparr>, Some e)
               | Inr t \<Rightarrow> (\<lparr>nt_Time = t, nt_Valid = True\<rparr>, None))
         | JNull \<Rightarrow> (nt\<lparr>nt_Valid := False\<rparr>, None)
         | _ \<Rightarrow> (nt\<lparr>nt_Valid := False\<rparr>,
             Some (New (''json: cannot unmarshal '' @ json_type_name v @ '' into Go value of type Time'')))))"

definition Time_MarshalText :: "time_lib \<Rightarrow> null_time \<Rightarrow> error + bytes" where
  "Time_MarshalText l nt = (if \<not> nt_Valid nt then Inr nullString else time_text l (nt_Time nt))"

definition Time_UnmarshalText :: "time_lib \<Rightarrow> bytes \<Rightarrow> null_time \<Rightarrow> null_time \<times> error option" where
  "Time_UnmarshalText l txt nt =
     (if txt = [] \<or> txt = nullString then (nt\<lparr>nt_Valid := False\<rparr>, None)
      else (case time_parse l txt of
          Inl e \<Rightarrow> (nt\<lparr>nt_Time := zero_time\<rparr>, Some e)
        | Inr t \<Rightarrow> (\<lparr>nt_Time = t, nt_Valid = True\<rparr>, None)))"

definition Time_Value :: "null_time \<Rightarrow> driver_value" where
  "Time_Value nt = (if \<not> nt_Valid nt then DNil else DTime (nt_Time nt))"

definition Time_Scan :: "driver_value \<Rightarrow> null_time" where
  "Time_Scan v = (case v of DTime t \<Rightarrow> \<lparr>nt_Time = t, nt_Valid = True\<rparr> | _ \<Rightarrow> \<lparr>nt_Time = zero_time, nt_Valid = False\<rparr>)"

text \<open>
  RFC 3339 has no fractions of a second in the layout that \<open>MarshalJSON\<close> uses; \<open>MarshalText\<close> has
  nanoseconds. \<open>representable\<close> are the times with a year of four digits.
\<close>

definition whole_second :: "time \<Rightarrow> time" where
  "whole_second t = t div 1000000000 * 1000000000"

definition time_lib_ok :: "time_lib \<Rightarrow> (time \<Rightarrow> bool) \<Rightarrow> bool" where
  "time_lib_ok l representable \<longleftrightarrow> (\<forall>t. representable t \<longrightarrow>
     time_parse l (rfc3339 l t) = Inr (whole_second t) \<and> rfc3339 l t \<noteq> [] \<and> rfc3339 l t \<noteq> nullString \<and>
     (\<exists>s. time_text l t = Inr s \<and> time_parse l s = Inr t \<and> s \<noteq> [] \<and> s \<noteq> nullString))"

subsection \<open>Identifiers\<close>

record null_uuid =
  nu_UUID :: bytes
  nu_Valid :: bool

text \<open>
  \<open>uuid_string\<close> is the text of the 16 bytes. \<open>uuid_parse\<close> is \<open>UnmarshalText\<close> and \<open>uuid_scan\<close> is \<open>Scan\<close>:
  both get the present value, and yield the value afterwards, also when they fail.
\<close>

record uuid_lib =
  uuid_string :: "bytes \<Rightarrow> string"
  uuid_parse :: "bytes \<Rightarrow> string \<Rightarrow> bytes \<times> error option"
  uuid_scan :: "bytes \<Rightarrow> driver_value \<Rightarrow> bytes \<times> error option"

definition Nil_uuid :: bytes where
  "Nil_uuid = replicate 16 (CHR 0x00)"

definition UUIDFrom :: "bytes \<Rightarrow> null_uuid" where
  "UUIDFrom input = \<lparr>nu_UUID = input, nu_Valid = True\<rparr>"

definition UUID_String :: "uuid_lib \<Rightarrow> null_uuid \<Rightarrow> string" where
  "UUID_String l nu = uuid_string l (nu_UUID nu)"

definition UUID_MarshalJSON :: "uuid_lib \<Rightarrow> null_uuid \<Rightarrow> bytes" where
  "UUID_MarshalJSON l nu = (if \<not> nu_Valid nu then nullString else quote (UUID_String l nu))"

definition UUID_UnmarshalJSON :: "uuid_lib \<Rightarrow> unmarshal_any \<Rightarrow> bytes \<Rightarrow> null_uuid \<Rightarrow> null_uuid \<times> error option" where
  "UUID_UnmarshalJSON l um dat nu =
     (case um dat of Inl e \<Rightarrow> (nu, Some e)
      | Inr v \<Rightarrow>
        (case v of
           JStr x \<Rightarrow>
             if x = [] \<or> x = nullString then (nu\<lparr>nu_Valid := False\<rparr>, None)
             else let (u, err) = uuid_parse l (nu_UUID nu) x in (\<lparr>nu_UUID = u, nu_Valid = (err = None)\<rparr>, err)
         | JNull \<Rightarrow> (nu\<lparr>nu_Valid := False\<rparr>, None)
         | _ \<Rightarrow> (nu\<lparr>nu_Valid := False\<rparr>,
             Some (New (''json: cannot unmarshal '' @ json_type_name v @ '' into Go value of type UUID'')))))"

definition UUID_MarshalText :: "uuid_lib \<Rightarrow> null_uuid \<Rightarrow> bytes" where
  "UUID_MarshalText l nu = (if \<not> nu_Valid nu then nullString else uuid_string l (nu_UUID nu))"

definition UUID_UnmarshalText :: "uuid_lib \<Rightarrow> bytes \<Rightarrow> null_uuid \<Rightarrow> null_uuid \<times> error option" where
  "UUID_UnmarshalText l txt nu =
     (if txt = [] \<or> txt = nullString then (nu\<lparr>nu_Valid := False\<rparr>, None)
      else (case uuid_parse l (nu_UUID nu) txt of
          (u, Some e) \<Rightarrow> (nu\<lparr>nu_UUID := u\<rparr>, Some e)
        | (u, None) \<Rightarrow> (\<lparr>nu_UUID = u, nu_Valid = True\<rparr>, None)))"

definition UUID_MarshalBinary :: "null_uuid \<Rightarrow> bytes" where
  "UUID_MarshalBinary nu = (if \<not> nu_Valid nu then nullString else nu_UUID nu)"

definition UUID_UnmarshalBinary :: "bytes \<Rightarrow> null_uuid \<Rightarrow> null_uuid \<times> error option" where
  "UUID_UnmarshalBinary dat nu =
     (if dat = [] \<or> dat = nullString then (nu\<lparr>nu_Valid := False\<rparr>, None)
      else if length dat \<noteq> 16 then (nu, Some (Ext ''uuid: UUID must be exactly 16 bytes long''))
      else (\<lparr>nu_UUID = dat, nu_Valid = True\<rparr>, None))"

definition UUIDFromBytes :: "bytes \<Rightarrow> null_uuid \<times> error option" where
  "UUIDFromBytes input = UUID_UnmarshalBinary input \<lparr>nu_UUID = Nil_uuid, nu_Valid = False\<rparr>"

definition UUIDFromString :: "uuid_lib \<Rightarrow> string \<Rightarrow> null_uuid \<times> error option" where
  "UUIDFromString l input = UUID_UnmarshalText l input \<lparr>nu_UUID = Nil_uuid, nu_Valid = False\<rparr>"

definition UUID_Value :: "uuid_lib \<Rightarrow> null_uuid \<Rightarrow> driver_value" where
  "UUID_Value l nu = (if \<not> nu_Valid nu then DNil else DText (uuid_string l (nu_UUID nu)))"

definition UUID_Scan :: "uuid_lib \<Rightarrow> driver_value \<Rightarrow> null_uuid \<Rightarrow> null_uuid \<times> error option" where
  "UUID_Scan l src nu =
     (if src = DNil then (\<lparr>nu_UUID = Nil_uuid, nu_Valid = False\<rparr>, None)
      else let (u, err) = uuid_scan l (nu_UUID nu) src in (\<lparr>nu_UUID = u, nu_Valid = True\<rparr>, err))"

definition uuid_lib_ok :: "uuid_lib \<Rightarrow> bool" where
  "uuid_lib_ok l \<longleftrightarrow> (\<forall>u old. length u = 16 \<longrightarrow>
     uuid_string l u \<noteq> [] \<and> uuid_string l u \<noteq> nullString \<and>
     uuid_parse l old (uuid_string l u) = (u, None) \<and> uuid_scan l old (DText (uuid_string l u)) = (u, None))"

subsection \<open>JSON blobs and protobuf timestamps\<close>

text \<open>
  \<open>Scan\<close> of a blob: \<open>decode\<close> is \<open>json.Unmarshal\<close> into the wrapped value, which it yields, changed or not.
\<close>

definition jsonBlob_Scan :: "(bytes \<Rightarrow> 'a \<Rightarrow> 'a \<times> error option) \<Rightarrow> driver_value \<Rightarrow> 'a \<Rightarrow> 'a \<times> error option" where
  "jsonBlob_Scan decode src dat =
     (case src of DNil \<Rightarrow> (dat, None) | DBytes b \<Rightarrow> decode b dat | DText s \<Rightarrow> decode s dat
      | DTime t \<Rightarrow> (dat, Some (New ''unknown json object type time.Time''))
      | DOther ty \<Rightarrow> (dat, Some (New (''unknown json object type '' @ ty))))"

definition jsonBlob_Value :: "('a \<Rightarrow> error + bytes) \<Rightarrow> 'a \<Rightarrow> error + driver_value" where
  "jsonBlob_Value encode dat = (case encode dat of Inl e \<Rightarrow> Inl e | Inr b \<Rightarrow> Inr (DBytes b))"

text \<open>
  A timestamp is a pointer to a pointer. \<open>AsTime\<close> of a nil timestamp is the epoch and \<open>CheckValid\<close> an
  error; \<open>valid_ts\<close> says which times a timestamp can hold.
\<close>

definition NullProtoTimestamp_Scan ::
  "(time \<Rightarrow> error option) \<Rightarrow> driver_value \<Rightarrow> time option option \<Rightarrow> (time option option \<times> error option) outcome" where
  "NullProtoTimestamp_Scan valid_ts v nt =
     (if v = DNil then Ret (nt, None)
      else (case nt of None \<Rightarrow> Panic
        | Some ts \<Rightarrow>
          (case v of DTime t \<Rightarrow> Ret (Some (Some t), valid_ts t)
           | _ \<Rightarrow> Ret (Some (Some (case ts of None \<Rightarrow> 0 | Some t \<Rightarrow> t)), Some (New ''unknown value type'')))))"

definition NullProtoTimestamp_Value :: "(time \<Rightarrow> error option) \<Rightarrow> time option option \<Rightarrow> driver_value \<times> error option" where
  "NullProtoTimestamp_Value valid_ts nt =
     (case nt of None \<Rightarrow> (DNil, None)
      | Some None \<Rightarrow> (DTime 0, Some (Ext ''invalid nil Timestamp''))
      | Some (Some t) \<Rightarrow> (DTime t, valid_ts t))"

subsection \<open>Round trips\<close>

text \<open>
  A nullable identifier survives every encoding: JSON, text, bytes and the column of a database
  give back the identifier, and null gives null, whatever the receiver held before.
\<close>

theorem uuid_roundtrips:
  assumes "uuid_lib_ok l" "length (nu_UUID nu) = 16"
    and "um nullString = Inr JNull" "um (quote (uuid_string l (nu_UUID nu))) = Inr (JStr (uuid_string l (nu_UUID nu)))"
  shows "\<forall>r \<in> {UUID_UnmarshalJSON l um (UUID_MarshalJSON l nu) old, UUID_UnmarshalText l (UUID_MarshalText l nu) old,
      UUID_UnmarshalBinary (UUID_MarshalBinary nu) old, UUID_Scan l (UUID_Value l nu) old}.
    snd r = None \<and> nu_Valid (fst r) = nu_Valid nu \<and> (nu_Valid nu \<longrightarrow> nu_UUID (fst r) = nu_UUID nu)"
proof -
  let ?s = "uuid_string l (nu_UUID nu)"
  have s: "?s \<noteq> []" "?s \<noteq> nullString" "uuid_parse l (nu_UUID old) ?s = (nu_UUID nu, None)"
    "uuid_scan l (nu_UUID old) (DText ?s) = (nu_UUID nu, None)"
    using assms(1,2) by (simp_all add: uuid_lib_ok_def)
  have "length nullString = 4" by (simp add: nullString_def)
  with assms(2) have b: "nu_UUID nu \<noteq> nullString" "nu_UUID nu \<noteq> []" by auto
  show ?thesis
    using assms(2-4) s b
    by (cases "nu_Valid nu") (simp_all add: UUID_UnmarshalJSON_def UUID_MarshalJSON_def UUID_UnmarshalText_def UUID_MarshalText_def
        UUID_UnmarshalBinary_def UUID_MarshalBinary_def UUID_Scan_def UUID_Value_def UUID_String_def)
qed

text \<open>
  A nullable time survives the text and the database; JSON keeps whole seconds only. Null gives
  null.
\<close>

theorem time_roundtrips:
  assumes "time_lib_ok l representable" "representable (nt_Time nt)"
    and "um nullString = Inr JNull" "um (quote (rfc3339 l (nt_Time nt))) = Inr (JStr (rfc3339 l (nt_Time nt)))"
  shows "\<exists>txt. Time_MarshalText l nt = Inr txt \<and>
    (if nt_Valid nt
     then Time_UnmarshalText l txt old = (nt, None) \<and> Time_Scan (Time_Value nt) = nt \<and>
       Time_UnmarshalJSON l um (Time_MarshalJSON l nt) old = (nt\<lparr>nt_Time := whole_second (nt_Time nt)\<rparr>, None)
     else \<not> nt_Valid (fst (Time_UnmarshalText l txt old)) \<and> \<not> nt_Valid (Time_Scan (Time_Value nt)) \<and>
       \<not> nt_Valid (fst (Time_UnmarshalJSON l um (Time_MarshalJSON l nt) old)))"
proof -
  obtain s where s: "time_text l (nt_Time nt) = Inr s" "time_parse l s = Inr (nt_Time nt)" "s \<noteq> []" "s \<noteq> nullString"
    and j: "time_parse l (rfc3339 l (nt_Time nt)) = Inr (whole_second (nt_Time nt))" "rfc3339 l (nt_Time nt) \<noteq> []"
      "rfc3339 l (nt_Time nt) \<noteq> nullString"
    using assms(1,2) unfolding time_lib_ok_def by blast
  show ?thesis
    using s j assms(3,4)
    by (cases "nt_Valid nt") (simp_all add: Time_MarshalText_def Time_UnmarshalText_def Time_Scan_def Time_Value_def
        Time_UnmarshalJSON_def Time_MarshalJSON_def)
qed

text \<open>
  A failed \<open>Scan\<close> of an identifier leaves a value that says it is valid.
\<close>

theorem failed_scan_is_valid:
  assumes "src \<noteq> DNil" "uuid_scan l (nu_UUID nu) src = (u, Some e)"
  shows "UUID_Scan l src nu = (\<lparr>nu_UUID = u, nu_Valid = True\<rparr>, Some e)"
  using assms by (simp add: UUID_Scan_def)

text \<open>
  A timestamp that was read as null cannot be written back.
\<close>

lemma null_timestamp_not_written:
  "NullProtoTimestamp_Scan v DNil (Some None) = Ret (Some None, None) \<and>
     snd (NullProtoTimestamp_Value v (Some None)) \<noteq> None"
  by (simp add: NullProtoTimestamp_Scan_def NullProtoTimestamp_Value_def)

lemma timestamp_roundtrip:
  "valid_ts t = None \<Longrightarrow> NullProtoTimestamp_Scan valid_ts (DTime t) (Some old) = Ret (Some (Some t), None) \<and>
     NullProtoTimestamp_Value valid_ts (Some (Some t)) = (DTime t, None)"
  by (simp add: NullProtoTimestamp_Scan_def NullProtoTimestamp_Value_def)

lemma jsonBlob_roundtrip:
  "encode x = Inr b \<Longrightarrow> decode b old = (x, None) \<Longrightarrow>
     \<exists>v. jsonBlob_Value encode x = Inr v \<and> jsonBlob_Scan decode v old = (x, None)"
  by (simp add: jsonBlob_Value_def jsonBlob_Scan_def)

subsection \<open>Examples\<close>

definition ex_um :: unmarshal_any where
  "ex_um b = Inr (if b = nullString then JNull else JStr (butlast (tl b)))"

definition sample_uuid_lib :: uuid_lib where
  "sample_uuid_lib = \<lparr>uuid_string = (\<lambda>u. ''u:'' @ u),
     uuid_parse = (\<lambda>old s. if take 2 s = ''u:'' then (drop 2 s, None) else (old, Some (Ext ''uuid: incorrect UUID format''))),
     uuid_scan = (\<lambda>old v. case v of DText s \<Rightarrow> (drop 2 s, None) | _ \<Rightarrow> (old, Some (Ext ''uuid: cannot convert to UUID'')))\<rparr>"

lemma uuid_lib_ok_sample: "uuid_lib_ok sample_uuid_lib"
  by (simp add: uuid_lib_ok_def sample_uuid_lib_def nullString_def)

theorem uuid_roundtrips_witness:
  "fst (UUID_UnmarshalJSON sample_uuid_lib ex_um (UUID_MarshalJSON sample_uuid_lib (UUIDFrom ''0123456789abcdef''))
     \<lparr>nu_UUID = Nil_uuid, nu_Valid = False\<rparr>) = UUIDFrom ''0123456789abcdef''"
proof -
  have "ex_um nullString = Inr JNull" "length (nu_UUID (UUIDFrom ''0123456789abcdef'')) = 16"
    "ex_um (quote (uuid_string sample_uuid_lib (nu_UUID (UUIDFrom ''0123456789abcdef'')))) =
      Inr (JStr (uuid_string sample_uuid_lib (nu_UUID (UUIDFrom ''0123456789abcdef''))))"
    by (simp_all add: ex_um_def quote_def sample_uuid_lib_def nullString_def UUIDFrom_def)
  from uuid_roundtrips [OF uuid_lib_ok_sample this(2,1,3), of "\<lparr>nu_UUID = Nil_uuid, nu_Valid = False\<rparr>"] show ?thesis
    by (auto simp: UUIDFrom_def intro: null_uuid.equality)
qed

definition ex_half :: time where
  "ex_half = 1500000000"

definition sample_time_lib :: time_lib where
  "sample_time_lib = \<lparr>rfc3339 = (\<lambda>_. ''1970-01-01T00:00:01Z''), layout_text = (\<lambda>l _. l),
     time_text = (\<lambda>_. Inr ''1970-01-01T00:00:01.5Z''),
     time_parse = (\<lambda>s. if s = ''1970-01-01T00:00:01Z'' then Inr 1000000000
       else if s = ''1970-01-01T00:00:01.5Z'' then Inr ex_half else Inl (Ext ''parsing time''))\<rparr>"

lemma time_lib_ok_sample: "time_lib_ok sample_time_lib (\<lambda>t. t = ex_half)"
  by (simp add: time_lib_ok_def sample_time_lib_def whole_second_def ex_half_def nullString_def)

theorem time_roundtrips_witness:
  "Time_UnmarshalJSON sample_time_lib ex_um (Time_MarshalJSON sample_time_lib (TimeFrom ex_half)) (TimeFrom 7) =
     (TimeFrom 1000000000, None)"
proof -
  have "ex_um nullString = Inr JNull" "nt_Time (TimeFrom ex_half) = ex_half"
    "ex_um (quote (rfc3339 sample_time_lib (nt_Time (TimeFrom ex_half)))) = Inr (JStr (rfc3339 sample_time_lib (nt_Time (TimeFrom ex_half))))"
    by (simp_all add: ex_um_def quote_def sample_time_lib_def nullString_def TimeFrom_def)
  from time_roundtrips [OF time_lib_ok_sample this(2,1,3), of "TimeFrom 7"] show ?thesis
    by (auto simp: TimeFrom_def whole_second_def ex_half_def)
qed

theorem failed_scan_is_valid_witness:
  "UUID_Scan sample_uuid_lib (DTime 0) (UUIDFrom Nil_uuid) =
     (\<lparr>nu_UUID = Nil_uuid, nu_Valid = True\<rparr>, Some (Ext ''uuid: cannot convert to UUID''))"
  by (rule failed_scan_is_valid) (simp_all add: sample_uuid_lib_def UUIDFrom_def)

end
