(* ===== verification/Casing.thy ===== *)
theory Casing
  imports Prelude
begin

section \<open>Casing of names\<close>

text \<open>
  \<open>pkg/strings/casing.go\<close>, which names the indexes of the queue. The loops are recursive
  functions over the characters with the flags of the code as arguments.
\<close>

fun pascal_loop :: "bool \<Rightarrow> string \<Rightarrow> string" where
  "pascal_loop toUpper [] = []"
| "pascal_loop toUpper (c # cs) =
     (if \<not> is_letter c \<and> \<not> is_digit c then pascal_loop True cs
      else if toUpper then to_upper c # pascal_loop False cs
      else c # pascal_loop toUpper cs)"

definition ToPascalCase :: "string \<Rightarrow> string" where
  "ToPascalCase value = pascal_loop True value"

fun underscore_loop :: "bool \<Rightarrow> bool \<Rightarrow> string \<Rightarrow> string" where
  "underscore_loop previousUnderscore previousUppercase [] = []"
| "underscore_loop previousUnderscore previousUppercase (c # cs) =
     (if \<not> is_letter c \<and> \<not> is_digit c then
        (if \<not> previousUnderscore then [CHR ''_''] else []) @ underscore_loop True False cs
      else if is_upper c then
        (if \<not> previousUnderscore \<and> \<not> previousUppercase then [CHR ''_''] else []) @
        to_lower c # underscore_loop False True cs
      else c # underscore_loop False False cs)"

text \<open>\<open>strings.Trim\<close> with one character to remove.\<close>

definition trim_char :: "char \<Rightarrow> string \<Rightarrow> string" where
  "trim_char x s = rev (dropWhile (\<lambda>c. c = x) (rev (dropWhile (\<lambda>c. c = x) s)))"

definition ToUnderscoreCase :: "string \<Rightarrow> string" where
  "ToUnderscoreCase value = trim_char (CHR ''_'') (underscore_loop False False value)"

subsection \<open>Characters\<close>

lemma of_char_to_lower: "is_upper c \<Longrightarrow> (of_char (to_lower c) :: nat) = of_char c + 32"
  by (simp add: to_lower_def is_upper_def of_char_of)

lemma of_char_to_upper: "is_lower c \<Longrightarrow> (of_char (to_upper c) :: nat) = of_char c - 32"
  by (auto simp: to_upper_def is_lower_def of_char_of)

lemma is_lower_to_lower: "is_upper c \<Longrightarrow> is_lower (to_lower c)"
  using of_char_to_lower [of c] by (simp add: is_upper_def is_lower_def)

lemma to_upper_idem [simp]: "to_upper (to_upper c) = to_upper c"
  using of_char_to_upper [of c] by (auto simp: to_upper_def is_lower_def)

lemma alnum_to_upper: "is_letter c \<or> is_digit c \<Longrightarrow> is_letter (to_upper c) \<or> is_digit (to_upper c)"
  using of_char_to_upper [of c] by (cases "is_lower c") (auto simp: is_letter_def is_lower_def is_upper_def to_upper_def)

lemma lower_not_upper: "is_lower c \<Longrightarrow> \<not> is_upper c" "is_digit c \<Longrightarrow> \<not> is_upper c"
  by (auto simp: is_lower_def is_upper_def is_digit_def)

lemma underscore_char: "\<not> is_letter CHR ''_''" "\<not> is_digit CHR ''_''"
  by (auto simp: is_letter_def is_lower_def is_upper_def is_digit_def)

subsection \<open>Pascal case\<close>

lemma pascal_loop_alnum: "c \<in> set (pascal_loop u s) \<Longrightarrow> is_letter c \<or> is_digit c"
  by (induction u s rule: pascal_loop.induct) (use alnum_to_upper in \<open>auto split: if_splits\<close>)

lemma pascal_loop_id: "(\<And>c. c \<in> set s \<Longrightarrow> is_letter c \<or> is_digit c) \<Longrightarrow> pascal_loop False s = s"
  by (induction s) auto

lemma pascal_loop_Cons: "pascal_loop True s = c # cs \<Longrightarrow> to_upper c = c"
  by (induction s) (auto split: if_splits)

text \<open>
  The pascal case of a text has letters and digits only, and taking it again changes
  nothing.
\<close>

theorem ToPascalCase_normal:
  "(\<forall>c \<in> set (ToPascalCase s). is_letter c \<or> is_digit c) \<and>
   ToPascalCase (ToPascalCase s) = ToPascalCase s"
proof -
  have alnum: "\<And>c. c \<in> set (pascal_loop True s) \<Longrightarrow> is_letter c \<or> is_digit c" by (rule pascal_loop_alnum)
  have "pascal_loop True (pascal_loop True s) = pascal_loop True s"
  proof (cases "pascal_loop True s")
    case (Cons c cs)
    with alnum have "is_letter c \<or> is_digit c" "pascal_loop False cs = cs" by (auto intro: pascal_loop_id)
    with Cons pascal_loop_Cons [OF Cons] show ?thesis by auto
  qed simp
  with alnum show ?thesis by (auto simp: ToPascalCase_def)
qed

subsection \<open>Underscore case\<close>

text \<open>A text in underscore case; the flag tells whether an underscore precedes it.\<close>

fun snake :: "bool \<Rightarrow> string \<Rightarrow> bool" where
  "snake u [] = True"
| "snake u (c # cs) =
     (if c = CHR ''_'' then \<not> u \<and> snake True cs else (is_lower c \<or> is_digit c) \<and> snake False cs)"

lemma snake_weaken: "snake True s \<Longrightarrow> snake False s"
  by (cases s) (auto split: if_splits)

lemma snake_prefix: "snake u (xs @ ys) \<Longrightarrow> snake u xs"
  by (induction u xs rule: snake.induct) (auto split: if_splits)

lemma snake_drop: "snake u s \<Longrightarrow> snake u (dropWhile (\<lambda>c. c = CHR ''_'') s)"
proof (induction s arbitrary: u)
  case (Cons c cs)
  then show ?case
    by (cases u) (auto intro: snake_weaken split: if_splits)
qed simp

lemma rev_dropWhile_prefix: "\<exists>ys. xs = rev (dropWhile P (rev xs)) @ ys"
proof -
  have "rev xs = takeWhile P (rev xs) @ dropWhile P (rev xs)" by simp
  then have "xs = rev (dropWhile P (rev xs)) @ rev (takeWhile P (rev xs))"
    by (metis rev_append rev_rev_ident)
  then show ?thesis by blast
qed

lemma snake_trim: "snake False s \<Longrightarrow> snake False (trim_char (CHR ''_'') s)"
  unfolding trim_char_def
  by (metis rev_dropWhile_prefix snake_drop snake_prefix)

lemma snake_underscore_loop: "snake pu (underscore_loop pu pU s)"
proof (induction pu pU s rule: underscore_loop.induct)
  case (2 pu pU c cs)
  have "to_lower c \<noteq> CHR ''_''" if "is_upper c"
    using is_lower_to_lower [OF that] underscore_char by (auto simp: is_letter_def)
  with 2 show ?case
    using underscore_char is_lower_to_lower [of c] by (auto simp: is_letter_def)
qed simp

lemma underscore_loop_snake: "snake pu s \<Longrightarrow> underscore_loop pu False s = s"
  using underscore_char
  by (induction pu s rule: snake.induct) (auto simp: is_letter_def lower_not_upper split: if_splits)

lemma trim_ends:
  assumes "trim_char x s \<noteq> []"
  shows "hd (trim_char x s) \<noteq> x" "last (trim_char x s) \<noteq> x"
proof -
  let ?d = "dropWhile (\<lambda>c. c = x) s"
  have ne: "dropWhile (\<lambda>c. c = x) (rev ?d) \<noteq> []" using assms by (simp add: trim_char_def)
  then show "last (trim_char x s) \<noteq> x"
    unfolding trim_char_def using hd_dropWhile [OF ne] by (simp add: last_rev)
  obtain ys where ys: "?d = trim_char x s @ ys"
    using rev_dropWhile_prefix [of ?d "\<lambda>c. c = x"] by (auto simp: trim_char_def)
  have "?d \<noteq> []" unfolding ys using assms by simp
  from hd_dropWhile [OF this] have "hd (trim_char x s @ ys) \<noteq> x" unfolding ys .
  with assms show "hd (trim_char x s) \<noteq> x" by simp
qed

lemma trim_idem: "trim_char x (trim_char x s) = trim_char x s"
proof (cases "trim_char x s = []")
  case True
  have "trim_char x [] = []" by (simp add: trim_char_def)
  with True show ?thesis by (simp only:)
next
  case False
  let ?t = "trim_char x s"
  have "dropWhile (\<lambda>c. c = x) ?t = ?t" "dropWhile (\<lambda>c. c = x) (rev ?t) = rev ?t"
    using trim_ends [OF False] False by (simp_all add: dropWhile_eq_self_iff hd_rev)
  then show ?thesis by (simp only: trim_char_def [of x ?t] rev_rev_ident)
qed

text \<open>
  The underscore case of a text has lower-case letters, digits and underscores only, no two
  underscores in a row and none at either end, and taking it again changes nothing.
\<close>

theorem ToUnderscoreCase_normal:
  "snake False (ToUnderscoreCase s) \<and>
   hd (ToUnderscoreCase s @ ''x'') \<noteq> CHR ''_'' \<and> last (''x'' @ ToUnderscoreCase s) \<noteq> CHR ''_'' \<and>
   ToUnderscoreCase (ToUnderscoreCase s) = ToUnderscoreCase s"
proof -
  let ?t = "ToUnderscoreCase s"
  have snake: "snake False ?t"
    unfolding ToUnderscoreCase_def by (intro snake_trim snake_underscore_loop)
  then have "ToUnderscoreCase ?t = trim_char (CHR ''_'') ?t"
    by (simp add: ToUnderscoreCase_def [of ?t] underscore_loop_snake)
  then have "ToUnderscoreCase ?t = ?t" by (simp add: ToUnderscoreCase_def trim_idem)
  moreover have "hd (?t @ ''x'') \<noteq> CHR ''_''" "last (''x'' @ ?t) \<noteq> CHR ''_''"
    using trim_ends [of "CHR ''_''" "underscore_loop False False s"]
    by (cases "?t = []"; simp add: ToUnderscoreCase_def)+
  ultimately show ?thesis using snake by simp
qed

end
