(* ===== verification/Setup_Tables.thy ===== *)
theory Setup_Tables
  imports Go_Errors Casing
begin

section \<open>The tables of the queue and their indexes\<close>

text \<open>
  \<open>pkg/queue/postgres/setup.go\<close>: the statements that bring the tables \<open>schedules\<close> and
  \<open>tasks\<close> to the wanted columns, and the indexes. A set of columns is a Go map, here the list
  of its entries; ranging over a map yields its keys in any order, which is the parameter
  \<open>ord\<close>. The statements are values of a datatype with the text the code sends
  (\<open>ddl_text\<close>) and their effect on the schema (\<open>exec_ddl\<close>).
\<close>

type_synonym column_set = "(string \<times> string) list"

record foreign_reference =
  ColumnName :: string
  ColumnType :: string
  ReferencedTable :: string
  ReferencedColumn :: string

record index =
  index_Name :: string
  index_Table :: string
  index_Columns :: "string list"
  index_Type :: string
  index_Unique :: bool
  index_Condition :: string

definition TasksTable :: string where
  "TasksTable = ''tasks''"

definition SchedulesTable :: string where
  "SchedulesTable = ''schedules''"

definition scheduleColumns :: column_set where
  "scheduleColumns =
    [(''schedule_id'', ''uuid PRIMARY KEY''),
     (''task_queue'', ''citext NOT NULL''),
     (''task_type'', ''citext NOT NULL''),
     (''task_spec'', ''jsonb NOT NULL''),
     (''cron_schedule'', ''citext NOT NULL DEFAULT '' @ [CHR 0x27, CHR 0x27]),
     (''next_execution_time'', ''timestamptz''),
     (''created_at'', ''timestamptz NOT NULL DEFAULT NOW()''),
     (''updated_at'', ''timestamptz NOT NULL DEFAULT NOW()'')]"

definition taskColumns :: column_set where
  "taskColumns =
    [(''task_id'', ''uuid PRIMARY KEY''),
     (''queue'', ''citext NOT NULL''),
     (''type'', ''citext NOT NULL''),
     (''spec'', ''jsonb NOT NULL''),
     (''status'', ''citext NOT NULL''),
     (''progress'', ''jsonb NOT NULL''),
     (''created_at'', ''timestamptz NOT NULL DEFAULT NOW()''),
     (''updated_at'', ''timestamptz NOT NULL DEFAULT NOW()''),
     (''started_at'', ''timestamptz''),
     (''finished_at'', ''timestamptz''),
     (''last_heartbeat_at'', ''timestamptz''),
     (''schedule_id'', ''uuid REFERENCES schedules ON DELETE CASCADE'')]"

definition mk_index :: "string \<Rightarrow> string list \<Rightarrow> string \<Rightarrow> index" where
  "mk_index t cols ty = \<lparr>index_Name = [], index_Table = t, index_Columns = cols, index_Type = ty,
     index_Unique = False, index_Condition = []\<rparr>"

definition spec_field :: "string \<Rightarrow> string" where
  "spec_field k = ''(task_spec->>'' @ CHR 0x27 # k @ [CHR 0x27] @ '')''"

definition indexes :: "index list" where
  "indexes =
    [mk_index SchedulesTable [''next_execution_time DESC''] [],
     mk_index SchedulesTable [''task_queue''] ''hash'',
     mk_index SchedulesTable [''task_type''] ''hash'',
     mk_index SchedulesTable [''created_at DESC'', ''updated_at DESC''] [],
     \<lparr>index_Name = ''unique_retention_idx'', index_Table = SchedulesTable,
      index_Columns = [''task_queue'', ''task_type'', spec_field ''queueName'', spec_field ''taskType'', spec_field ''status''],
      index_Type = [], index_Unique = True,
      index_Condition = ''task_type='' @ CHR 0x27 # ''retention'' @ [CHR 0x27]\<rparr>,
     mk_index TasksTable [''queue''] ''hash'',
     mk_index TasksTable [''type''] ''hash'',
     mk_index TasksTable [''status''] ''hash'',
     mk_index TasksTable [''schedule_id''] ''hash'',
     mk_index TasksTable [''created_at'', ''last_heartbeat_at''] [],
     mk_index TasksTable [''created_at DESC'', ''last_heartbeat_at DESC''] [],
     mk_index TasksTable [''created_at DESC''] [],
     mk_index TasksTable [''last_heartbeat_at DESC''] [],
     mk_index TasksTable [''created_at DESC'', ''updated_at DESC''] [],
     mk_index TasksTable [''started_at DESC''] [],
     mk_index TasksTable [''finished_at DESC''] []]"

subsection \<open>The statements\<close>

definition nl :: string where
  "nl = [CHR 0x0A]"

definition index_name :: "index \<Rightarrow> string" where
  "index_name i = index_Name i @
     (if index_Name i = [] then
        index_Table i @ ''_'' @ ToUnderscoreCase (join '','' (index_Columns i)) @ ''_idx''
      else [])"

definition index_statement :: "index \<Rightarrow> string" where
  "index_statement i =
     (let columnList = join '','' (index_Columns i)
      in ''CREATE '' @ (if index_Unique i then ''UNIQUE '' else []) @ ''INDEX IF NOT EXISTS '' @
         index_name i @ '' ON '' @ index_Table i @
         (if index_Type i \<noteq> [] then '' USING '' @ index_Type i @ '' '' else []) @
         ''('' @ columnList @ '')'' @
         (if index_Condition i \<noteq> [] then '' WHERE '' @ index_Condition i else []) @ '';'')"

definition index_generateStatements :: "index list \<Rightarrow> string list" where
  "index_generateStatements l = fold (\<lambda>i stmts. stmts @ [index_statement i]) l []"

definition column_generateStatements :: "(string list \<Rightarrow> string list) \<Rightarrow> column_set \<Rightarrow> string list" where
  "column_generateStatements ord s =
     fold (\<lambda>name defs. defs @ [name @ '' '' @ the (map_of s name)]) (ord (map fst s)) []"

datatype alteration = AddColumn string string | DropColumn string

fun alteration_text :: "alteration \<Rightarrow> string" where
  "alteration_text (AddColumn n t) = ''ADD COLUMN '' @ n @ '' '' @ t"
| "alteration_text (DropColumn n) = ''DROP COLUMN '' @ n @ '' CASCADE''"

definition createTable_text :: "string \<Rightarrow> string list \<Rightarrow> string" where
  "createTable_text tableName columnStmts =
     nl @ ''CREATE EXTENSION IF NOT EXISTS citext;'' @ nl @ nl @
     ''CREATE TABLE IF NOT EXISTS '' @ tableName @ '' ('' @ nl @ join ('','' @ nl) columnStmts @ nl @ '');'' @ nl"

definition alterTable_text :: "string \<Rightarrow> string list \<Rightarrow> string" where
  "alterTable_text tableName columnStmts =
     nl @ ''CREATE EXTENSION IF NOT EXISTS citext;'' @ nl @ nl @
     ''ALTER TABLE '' @ tableName @ nl @ join ('','' @ nl) columnStmts @ '';'' @ nl"

text \<open>
  A statement with its structure: the columns of a table with their definitions, alterations,
  the function and trigger that notify on inserts into \<open>tasks\<close>, and indexes.
\<close>

datatype ddl =
    CreateTable string column_set
  | AlterTable string "alteration list"
  | NotifySetup
  | CreateIndexes "index list"

definition ddl_text :: "ddl \<Rightarrow> string option" where
  "ddl_text s =
     (case s of
        CreateTable t cols \<Rightarrow> Some (createTable_text t (map (\<lambda>(n, ty). n @ '' '' @ ty) cols))
      | AlterTable t as \<Rightarrow> Some (alterTable_text t (map alteration_text as))
      | NotifySetup \<Rightarrow> None
      | CreateIndexes l \<Rightarrow> Some (join nl (index_generateStatements l)))"

subsection \<open>The schema\<close>

text \<open>
  The columns of each table (a table without columns does not exist), the indexes and whether
  the trigger is there. The statements do not quote names, so Postgres folds every name to
  lower case and cuts it to 63 bytes (\<open>fold_ident\<close>) before it stores or looks it up; that
  \<open>CREATE INDEX IF NOT EXISTS\<close> finds an index is decided by this name alone. One
  \<open>ALTER TABLE\<close> drops columns before it adds any, wherever they stand in the statement.
  Dropping a column drops the indexes that name it. The types and the conditions in the
  definitions are kept as text; a statement that Postgres refuses because of them is an error
  of the environment.
\<close>

definition fold_ident :: "string \<Rightarrow> string" where
  "fold_ident n = take 63 (map to_lower n)"

record schema =
  table_columns :: "string \<Rightarrow> column_set"
  schema_indexes :: "index list"
  has_trigger :: bool

definition pg_column_exists :: error where
  "pg_column_exists = Ext ''pq: column already exists''"

definition pg_no_column :: error where
  "pg_no_column = Ext ''pq: column does not exist''"

definition pg_no_table :: error where
  "pg_no_table = Ext ''pq: relation does not exist''"

definition pg_column_twice :: error where
  "pg_column_twice = Ext ''pq: column specified more than once''"

definition index_uses :: "string \<Rightarrow> string \<Rightarrow> index \<Rightarrow> bool" where
  "index_uses t col i \<longleftrightarrow> index_Table i = t \<and>
     col \<in> (\<lambda>c. fold_ident (takeWhile (\<lambda>x. x \<noteq> CHR '' '') c)) ` set (index_Columns i)"

definition stored_name :: "index \<Rightarrow> string" where
  "stored_name i = fold_ident (index_name i)"

definition create_index :: "index \<Rightarrow> index list \<Rightarrow> index list" where
  "create_index i is = (if stored_name i \<in> stored_name ` set is then is else is @ [i])"

fun alter :: "string \<Rightarrow> alteration list \<Rightarrow> schema \<Rightarrow> error + schema" where
  "alter t [] s = Inr s"
| "alter t (AddColumn n ty # as) s =
     (if fold_ident n \<in> fst ` set (table_columns s t) then Inl pg_column_exists
      else alter t as (s\<lparr>table_columns := (table_columns s)(t := table_columns s t @ [(fold_ident n, ty)])\<rparr>))"
| "alter t (DropColumn n # as) s =
     (if fold_ident n \<notin> fst ` set (table_columns s t) then Inl pg_no_column
      else alter t as (s\<lparr>table_columns := (table_columns s)(t := filter (\<lambda>c. fst c \<noteq> fold_ident n) (table_columns s t)),
             schema_indexes := filter (\<lambda>i. \<not> index_uses t (fold_ident n) i) (schema_indexes s)\<rparr>))"

fun is_drop :: "alteration \<Rightarrow> bool" where
  "is_drop (AddColumn n ty) = False"
| "is_drop (DropColumn n) = True"

fun exec_ddl :: "ddl \<Rightarrow> schema \<Rightarrow> error + schema" where
  "exec_ddl (CreateTable t cols) s =
     (if table_columns s t \<noteq> [] then Inr s
      else if \<not> distinct (map (\<lambda>c. fold_ident (fst c)) cols) then Inl pg_column_twice
      else Inr (s\<lparr>table_columns := (table_columns s)(t := map (\<lambda>(n, ty). (fold_ident n, ty)) cols)\<rparr>))"
| "exec_ddl (AlterTable t as) s =
     (if table_columns s t = [] then Inl pg_no_table
      else alter t (filter is_drop as @ filter (\<lambda>a. \<not> is_drop a) as) s)"
| "exec_ddl NotifySetup s =
     (if table_columns s TasksTable = [] then Inl pg_no_table else Inr (s\<lparr>has_trigger := True\<rparr>))"
| "exec_ddl (CreateIndexes l) s = Inr (s\<lparr>schema_indexes := fold create_index l (schema_indexes s)\<rparr>)"

text \<open>The result of \<open>ExecContext\<close>: a statement that fails changes nothing.\<close>

definition exec :: "error option \<Rightarrow> ddl \<Rightarrow> schema \<Rightarrow> schema \<times> error option" where
  "exec err q s =
     (case err of Some x \<Rightarrow> (s, Some x)
      | None \<Rightarrow> (case exec_ddl q s of Inl x \<Rightarrow> (s, Some x) | Inr s' \<Rightarrow> (s', None)))"

subsection \<open>Setting up the tables\<close>

record setup_env =
  list_err :: "string \<Rightarrow> error option"
  sync_err :: "string \<Rightarrow> error option"
  notify_err :: "error option"
  index_err :: "error option"

definition quoted :: "string \<Rightarrow> string" where
  "quoted s = CHR 0x22 # s @ [CHR 0x22]"

definition reference_definition :: "foreign_reference \<Rightarrow> string" where
  "reference_definition ref = ColumnType ref @ '' REFERENCES '' @ ReferencedTable ref @ '' ('' @
     ReferencedColumn ref @ '') ON DELETE CASCADE''"

fun expected_columns :: "column_set \<Rightarrow> foreign_reference list \<Rightarrow> error + column_set" where
  "expected_columns cols [] = Inr cols"
| "expected_columns cols (ref # refs) =
     (if ColumnName ref \<in> fst ` set cols
      then Inl (New (''failed to replace a system column '' @ quoted (ColumnName ref) @ '' with a reference''))
      else expected_columns (cols @ [(ColumnName ref, reference_definition ref)]) refs)"

definition listColumns :: "setup_env \<Rightarrow> string \<Rightarrow> schema \<Rightarrow> error + string list" where
  "listColumns e tableName s =
     (case list_err e tableName of Some x \<Rightarrow> Inl x
      | None \<Rightarrow> Inr (remdups (map fst (table_columns s tableName))))"

definition dropColumns :: "(string list \<Rightarrow> string list) \<Rightarrow> string list \<Rightarrow> column_set \<Rightarrow> alteration list" where
  "dropColumns ord current expected =
     map DropColumn (filter (\<lambda>n. n \<notin> fst ` set expected) (ord current))"

definition addColumns :: "(string list \<Rightarrow> string list) \<Rightarrow> string list \<Rightarrow> column_set \<Rightarrow> alteration list" where
  "addColumns ord current expected =
     map (\<lambda>n. AddColumn n (the (map_of expected n))) (filter (\<lambda>n. n \<notin> set current) (ord (map fst expected)))"

definition syncTable ::
  "(string list \<Rightarrow> string list) \<Rightarrow> setup_env \<Rightarrow> string \<Rightarrow> column_set \<Rightarrow> foreign_reference list \<Rightarrow> schema
    \<Rightarrow> schema \<times> error option" where
  "syncTable ord e tableName initColumns references s =
     (case expected_columns initColumns references of Inl x \<Rightarrow> (s, Some x)
      | Inr expected \<Rightarrow>
        (case listColumns e tableName s of Inl x \<Rightarrow> (s, Some x)
         | Inr current \<Rightarrow>
           if current = [] then
             exec (sync_err e tableName)
               (CreateTable tableName (map (\<lambda>n. (n, the (map_of expected n))) (ord (map fst expected)))) s
           else
             (let columnStmts = addColumns ord current expected @ dropColumns ord current expected
              in if columnStmts = [] then (s, None)
                 else exec (sync_err e tableName) (AlterTable tableName columnStmts) s)))"

definition reference_indexes :: "foreign_reference list \<Rightarrow> index list" where
  "reference_indexes references =
     fold (\<lambda>ref l. l @ [mk_index SchedulesTable [ColumnName ref] ''hash'', mk_index TasksTable [ColumnName ref] ''hash''])
       references []"

definition SetupTables ::
  "(string list \<Rightarrow> string list) \<Rightarrow> setup_env \<Rightarrow> foreign_reference list \<Rightarrow> schema \<Rightarrow> schema \<times> error option" where
  "SetupTables ord e references s =
     (let (s, err) = syncTable ord e SchedulesTable scheduleColumns references s
      in if err \<noteq> None then (s, err)
      else let (s, err) = syncTable ord e TasksTable taskColumns references s
      in if err \<noteq> None then (s, err)
      else let (s, err) = exec (notify_err e) NotifySetup s
      in if err \<noteq> None then (s, err)
      else exec (index_err e) (CreateIndexes (indexes @ reference_indexes references)) s)"

subsection \<open>What the setup establishes\<close>

text \<open>Ranging over a map yields every key once.\<close>

definition ranges :: "(string list \<Rightarrow> string list) \<Rightarrow> bool" where
  "ranges ord \<longleftrightarrow> (\<forall>xs. set (ord xs) = set xs \<and> (distinct xs \<longrightarrow> distinct (ord xs)))"

lemma column_generateStatements_eq:
  "column_generateStatements ord s = map (\<lambda>n. n @ '' '' @ the (map_of s n)) (ord (map fst s))"
proof -
  have "fold (\<lambda>name defs. defs @ [f name]) xs acc = acc @ map f xs" for f :: "string \<Rightarrow> string" and xs acc
    by (induction xs arbitrary: acc) auto
  from this [of "\<lambda>n. n @ '' '' @ the (map_of s n)" "ord (map fst s)" "[]"] show ?thesis
    by (simp add: column_generateStatements_def)
qed

text \<open>The text of the statement that creates a table is made of the statements of its columns.\<close>

lemma create_text:
  "ddl_text (CreateTable t (map (\<lambda>n. (n, the (map_of s n))) (ord (map fst s)))) =
     Some (createTable_text t (column_generateStatements ord s))"
  by (simp add: ddl_text_def column_generateStatements_eq comp_def)

lemma expected_columns_eq:
  "expected_columns cols refs = Inr expected \<Longrightarrow>
     expected = cols @ map (\<lambda>r. (ColumnName r, reference_definition r)) refs"
  by (induction cols refs rule: expected_columns.induct) (auto split: if_splits)

lemma exec_ok: "exec err q s = (s', None) \<longleftrightarrow> err = None \<and> exec_ddl q s = Inr s'"
  by (auto simp: exec_def split: option.splits sum.splits)

text \<open>The drops and the additions of one \<open>ALTER TABLE\<close>, each as one change of the schema.\<close>

lemma alter_drops:
  "alter t (map DropColumn ns @ as) s = Inr s' \<Longrightarrow>
     \<exists>s1. alter t as s1 = Inr s' \<and> has_trigger s1 = has_trigger s \<and>
       table_columns s1 = (table_columns s)(t := filter (\<lambda>c. fst c \<notin> fold_ident ` set ns) (table_columns s t)) \<and>
       (\<exists>P. schema_indexes s1 = filter P (schema_indexes s))"
proof (induction ns arbitrary: s)
  case Nil
  then show ?case by (intro exI [of _ s]) (auto intro: exI [of _ "\<lambda>x. True"])
next
  case (Cons n ns)
  let ?s = "s\<lparr>table_columns := (table_columns s)(t := filter (\<lambda>c. fst c \<noteq> fold_ident n) (table_columns s t)),
     schema_indexes := filter (\<lambda>i. \<not> index_uses t (fold_ident n) i) (schema_indexes s)\<rparr>"
  from Cons.prems have "alter t (map DropColumn ns @ as) ?s = Inr s'" by (simp split: if_splits)
  from Cons.IH [OF this] obtain s1 P where s1: "alter t as s1 = Inr s'" "has_trigger s1 = has_trigger ?s"
    "table_columns s1 = (table_columns ?s)(t := filter (\<lambda>c. fst c \<notin> fold_ident ` set ns) (table_columns ?s t))"
    "schema_indexes s1 = filter P (schema_indexes ?s)" by blast
  have "filter (\<lambda>c. fst c \<notin> fold_ident ` set ns) (filter (\<lambda>c. fst c \<noteq> fold_ident n) xs) =
      filter (\<lambda>c. fst c \<notin> fold_ident ` set (n # ns)) xs" for xs :: column_set
    by (auto intro: filter_cong)
  with s1 show ?case by (intro exI [of _ s1]) (auto cong: if_cong)
qed

lemma alter_adds:
  "alter t (map (\<lambda>n. AddColumn n (f n)) ns) s = Inr s' \<Longrightarrow>
     s' = s\<lparr>table_columns := (table_columns s)(t := table_columns s t @ map (\<lambda>n. (fold_ident n, f n)) ns)\<rparr>"
proof (induction ns arbitrary: s)
  case (Cons n ns)
  let ?s = "s\<lparr>table_columns := (table_columns s)(t := table_columns s t @ [(fold_ident n, f n)])\<rparr>"
  from Cons.prems have "alter t (map (\<lambda>n. AddColumn n (f n)) ns) ?s = Inr s'" by (simp split: if_splits)
  from Cons.IH [OF this] show ?case by (simp cong: if_cong)
qed simp

lemma alteration_order:
  "filter is_drop (addColumns ord cur ex @ dropColumns ord cur ex) = dropColumns ord cur ex"
  "filter (\<lambda>a. \<not> is_drop a) (addColumns ord cur ex @ dropColumns ord cur ex) = addColumns ord cur ex"
  by (simp_all add: addColumns_def dropColumns_def comp_def filter_map)

text \<open>
  What a run without error makes of one table: columns whose names are not wanted go, and the
  wanted ones that were not there are added; nothing else of the schema changes, except that
  indexes can go with the columns they are on.
\<close>

definition column_names :: "string \<Rightarrow> schema \<Rightarrow> string set" where
  "column_names t s = fst ` set (table_columns s t)"

lemma syncTable_ok:
  assumes "syncTable ord e t init refs s = (s', None)" and "ranges ord"
  obtains expected ns where "expected_columns init refs = Inr expected"
    "set ns = fst ` set expected - column_names t s"
    "table_columns s' = (table_columns s)(t :=
       filter (\<lambda>c. fst c \<notin> fold_ident ` (column_names t s - fst ` set expected)) (table_columns s t) @
       map (\<lambda>n. (fold_ident n, the (map_of expected n))) ns)"
    "\<exists>P. schema_indexes s' = filter P (schema_indexes s)" "has_trigger s' = has_trigger s"
proof -
  from assms(1) obtain expected current where ex: "expected_columns init refs = Inr expected"
    and cur: "listColumns e t s = Inr current"
    by (auto simp: syncTable_def split: sum.splits)
  have current: "set current = column_names t s" "current = [] \<longleftrightarrow> table_columns s t = []"
    using cur by (simp_all add: listColumns_def column_names_def split: option.splits) (metis set_remdups list.set_map, metis remdups_eq_nil_iff map_is_Nil_conv)
  have ord: "set (ord xs) = set xs" for xs using assms(2) by (simp add: ranges_def)
  define ns where "ns = filter (\<lambda>n. n \<notin> set current) (ord (map fst expected))"
  define ds where "ds = filter (\<lambda>n. n \<notin> fst ` set expected) (ord current)"
  let ?f = "\<lambda>n. the (map_of expected n)"
  have adds: "addColumns ord current expected = map (\<lambda>n. AddColumn n (?f n)) ns"
    and drops: "dropColumns ord current expected = map DropColumn ds"
    by (simp_all add: addColumns_def dropColumns_def ns_def ds_def)
  have ns: "set ns = fst ` set expected - column_names t s" and ds: "set ds = column_names t s - fst ` set expected"
    using current(1) by (auto simp: ns_def ds_def ord)
  have "table_columns s' = (table_columns s)(t :=
      filter (\<lambda>c. fst c \<notin> fold_ident ` set ds) (table_columns s t) @ map (\<lambda>n. (fold_ident n, ?f n)) ns) \<and>
    (\<exists>P. schema_indexes s' = filter P (schema_indexes s)) \<and> has_trigger s' = has_trigger s"
  proof (cases "current = []")
    case True
    with assms(1) ex cur current have "table_columns s t = []"
      "s' = s\<lparr>table_columns := (table_columns s)(t := map (\<lambda>(n, ty). (fold_ident n, ty)) (map (\<lambda>n. (n, ?f n)) (ord (map fst expected))))\<rparr>"
      by (auto simp: syncTable_def exec_ok comp_def split: if_splits)
    moreover have "ns = ord (map fst expected)" using True by (simp add: ns_def)
    moreover have "\<exists>P. xs = filter P xs" for xs :: "index list" by (rule exI [of _ "\<lambda>x. True"]) simp
    ultimately show ?thesis by (simp add: comp_def)
  next
    case False
    show ?thesis
    proof (cases "ns = [] \<and> ds = []")
      case True
      with False assms(1) ex cur adds drops show ?thesis
        by (auto simp: syncTable_def intro: exI [of _ "\<lambda>x. True"])
    next
      case changed: False
      with False assms(1) ex cur adds drops have "exec (sync_err e t)
          (AlterTable t (addColumns ord current expected @ dropColumns ord current expected)) s = (s', None)"
        by (auto simp: syncTable_def Let_def split: if_splits)
      then have "alter t (map DropColumn ds @ map (\<lambda>n. AddColumn n (?f n)) ns) s = Inr s'"
        unfolding exec_ok exec_ddl.simps alteration_order adds drops by (simp split: if_splits)
      then obtain s1 where "alter t (map (\<lambda>n. AddColumn n (?f n)) ns) s1 = Inr s'" "has_trigger s1 = has_trigger s"
        "table_columns s1 = (table_columns s)(t := filter (\<lambda>c. fst c \<notin> fold_ident ` set ds) (table_columns s t))"
        "\<exists>P. schema_indexes s1 = filter P (schema_indexes s)" using alter_drops by blast
      with alter_adds [OF this(1)] show ?thesis by auto
    qed
  qed
  with that [OF ex ns] ds show thesis by auto
qed

text \<open>
  Names that folding leaves alone: lower-case letters, digits and underscores, at most 63.
\<close>

definition plain_name :: "string \<Rightarrow> bool" where
  "plain_name n \<longleftrightarrow> n \<noteq> [] \<and> length n \<le> 63 \<and> \<not> is_digit (hd n) \<and>
     (\<forall>c \<in> set n. is_lower c \<or> is_digit c \<or> c = CHR ''_'')"

lemma plain_folded: "plain_name n \<Longrightarrow> fold_ident n = n"
proof -
  have "to_lower c = c" if "is_lower c \<or> is_digit c \<or> c = CHR ''_''" for c
    using that by (auto simp: to_lower_def is_upper_def is_lower_def is_digit_def)
  then show "plain_name n \<Longrightarrow> fold_ident n = n"
    by (auto simp: plain_name_def fold_ident_def intro: map_idI)
qed

definition stored_folded :: "schema \<Rightarrow> bool" where
  "stored_folded s \<longleftrightarrow> (\<forall>t. \<forall>n \<in> column_names t s. fold_ident n = n)"

lemma fold_fold [simp]: "fold_ident (fold_ident n) = fold_ident n"
proof -
  have "to_lower (to_lower c) = to_lower c" for c
    using is_lower_to_lower [of c] by (auto simp: to_lower_def is_upper_def is_lower_def)
  then show ?thesis by (simp add: fold_ident_def take_map comp_def)
qed

lemma system_columns_plain: "n \<in> fst ` set scheduleColumns \<union> fst ` set taskColumns \<Longrightarrow> plain_name n"
proof -
  have "\<forall>n \<in> fst ` set scheduleColumns \<union> fst ` set taskColumns. plain_name n" by code_simp
  then show "n \<in> fst ` set scheduleColumns \<union> fst ` set taskColumns \<Longrightarrow> plain_name n" by blast
qed

text \<open>
  The columns and indexes that are wanted, each with its definition.
\<close>

definition wanted_columns :: "column_set \<Rightarrow> foreign_reference list \<Rightarrow> column_set" where
  "wanted_columns init refs = init @
     map (\<lambda>ref. (ColumnName ref, ColumnType ref @ '' REFERENCES '' @ ReferencedTable ref @ '' ('' @
       ReferencedColumn ref @ '') ON DELETE CASCADE'')) refs"

definition wanted_indexes :: "foreign_reference list \<Rightarrow> index list" where
  "wanted_indexes refs = indexes @ concat (map (\<lambda>ref. map (\<lambda>t.
     \<lparr>index_Name = [], index_Table = t, index_Columns = [ColumnName ref], index_Type = ''hash'',
      index_Unique = False, index_Condition = []\<rparr>) [''schedules'', ''tasks'']) refs)"

lemma wanted_names: "fst ` set (wanted_columns init refs) = fst ` set init \<union> ColumnName ` set refs"
  by (force simp: wanted_columns_def)

lemma expected_wanted: "expected_columns init refs = Inr expected \<Longrightarrow> expected = wanted_columns init refs"
  using expected_columns_eq by (simp add: wanted_columns_def reference_definition_def)

lemma wanted_indexes_eq: "indexes @ reference_indexes refs = wanted_indexes refs"
proof -
  have "fold (\<lambda>ref l. l @ f ref) xs acc = acc @ concat (map f xs)" for f :: "foreign_reference \<Rightarrow> index list" and xs acc
    by (induction xs arbitrary: acc) auto
  from this [of "\<lambda>ref. [mk_index SchedulesTable [ColumnName ref] ''hash'', mk_index TasksTable [ColumnName ref] ''hash'']" refs "[]"]
  show ?thesis by (simp add: reference_indexes_def wanted_indexes_def mk_index_def SchedulesTable_def TasksTable_def)
qed

lemma map_of_filter_key: "map_of (filter (\<lambda>c. P (fst c)) xs) n = (if P n then map_of xs n else None)"
  by (induction xs) auto

text \<open>A table after a run: the wanted columns, the ones that were there as they were.\<close>

definition synced :: "column_set \<Rightarrow> (string \<rightharpoonup> string) \<Rightarrow> string \<rightharpoonup> string" where
  "synced wanted old n =
     (if n \<in> fst ` set wanted then (case old n of Some ty \<Rightarrow> Some ty | None \<Rightarrow> map_of wanted n) else None)"

lemma syncTable_columns:
  assumes "syncTable ord e t init refs s = (s', None)" and "ranges ord"
    and "\<And>n. n \<in> fst ` set init \<union> ColumnName ` set refs \<Longrightarrow> fold_ident n = n"
    and "\<And>n. n \<in> column_names t s \<Longrightarrow> fold_ident n = n"
  shows "map_of (table_columns s' t) = synced (wanted_columns init refs) (map_of (table_columns s t))"
proof -
  from assms(1,2) obtain expected ns where ex: "expected_columns init refs = Inr expected"
    and ns: "set ns = fst ` set expected - column_names t s"
    and cols: "table_columns s' = (table_columns s)(t :=
       filter (\<lambda>c. fst c \<notin> fold_ident ` (column_names t s - fst ` set expected)) (table_columns s t) @
       map (\<lambda>n. (fold_ident n, the (map_of expected n))) ns)"
    by (rule syncTable_ok)
  note w = expected_wanted [OF ex]
  have "fold_ident ` (column_names t s - fst ` set expected) = column_names t s - fst ` set expected"
    using assms(4) by force
  moreover have "map (\<lambda>n. (fold_ident n, the (map_of expected n))) ns = map (\<lambda>n. (n, the (map_of expected n))) ns"
    using assms(3) ns by (auto simp: w wanted_names)
  ultimately have new: "table_columns s' t =
      filter (\<lambda>c. fst c \<notin> column_names t s - fst ` set expected) (table_columns s t) @
      map (\<lambda>n. (n, the (map_of expected n))) ns"
    using cols by simp
  have here: "map_of (table_columns s t) n = None \<longleftrightarrow> n \<notin> column_names t s" for n
    by (simp add: map_of_eq_None_iff column_names_def)
  have eq: "map_of (table_columns s' t) n = (if n \<in> set ns then Some (the (map_of expected n))
      else if n \<notin> column_names t s - fst ` set expected then map_of (table_columns s t) n else None)" for n
    unfolding new map_of_append map_add_def map_of_filter_key [of "\<lambda>n. n \<notin> column_names t s - fst ` set expected"]
      map_of_map_restrict restrict_map_def comp_def using ns here [of n] by (auto split: option.splits)
  have "map_of expected n \<noteq> None \<longleftrightarrow> n \<in> fst ` set expected" for n
    by (simp add: map_of_eq_None_iff)
  then have "map_of (table_columns s' t) n = synced expected (map_of (table_columns s t)) n" for n
    unfolding eq synced_def using ns here [of n] by (cases "map_of (table_columns s t) n") auto
  then show ?thesis unfolding w by blast
qed

subsection \<open>Indexes\<close>

lemma create_names:
  "stored_name ` set (fold create_index l is) = stored_name ` set is \<union> stored_name ` set l"
  by (induction l arbitrary: "is") (auto simp: create_index_def)

lemma create_present:
  "stored_name ` set l \<subseteq> stored_name ` set is \<Longrightarrow> fold create_index l is = is"
  by (induction l) (auto simp: create_index_def)

lemma create_keeps: "set is \<subseteq> set (fold create_index l is)"
proof (induction l arbitrary: "is")
  case (Cons a l)
  have "set is \<subseteq> set (create_index a is)" by (auto simp: create_index_def)
  also have "... \<subseteq> set (fold create_index l (create_index a is))" by (rule Cons.IH)
  finally show ?case by simp
qed simp

lemma create_distinct: "distinct (map stored_name is) \<Longrightarrow> distinct (map stored_name (fold create_index l is))"
  by (induction l arbitrary: "is") (auto simp: create_index_def)

text \<open>
  Every index of the list is created when no two of them share a stored name and an index that
  is there under such a name is the wanted one.
\<close>

lemma create_all:
  assumes "distinct (map stored_name l)"
    and "\<And>i j. i \<in> set is \<Longrightarrow> j \<in> set l \<Longrightarrow> stored_name i = stored_name j \<Longrightarrow> i = j"
  shows "set l \<subseteq> set (fold create_index l is)"
  using assms
proof (induction l arbitrary: "is")
  case (Cons a l)
  have a: "a \<in> set (create_index a is)" using Cons.prems(2) [of _ a] by (auto simp: create_index_def)
  have "set l \<subseteq> set (fold create_index l (create_index a is))"
  proof (rule Cons.IH)
    show "distinct (map stored_name l)" using Cons.prems(1) by simp
    fix i j assume ij: "i \<in> set (create_index a is)" "j \<in> set l" "stored_name i = stored_name j"
    then have "i \<noteq> a" using Cons.prems(1) by (auto simp: image_iff)
    with ij(1) have "i \<in> set is" by (auto simp: create_index_def split: if_splits)
    then show "i = j" using Cons.prems(2) ij by auto
  qed
  moreover have "a \<in> set (fold create_index l (create_index a is))" using a create_keeps by blast
  ultimately show ?case by simp
qed simp

subsection \<open>The whole setup\<close>

lemma tables_differ [simp]: "SchedulesTable \<noteq> TasksTable" "TasksTable \<noteq> SchedulesTable"
  by (simp_all add: SchedulesTable_def TasksTable_def)

lemma SetupTables_steps:
  assumes "SetupTables ord e refs s = (s', None)"
  obtains s1 s2 s3 where "syncTable ord e SchedulesTable scheduleColumns refs s = (s1, None)"
    "syncTable ord e TasksTable taskColumns refs s1 = (s2, None)"
    "exec (notify_err e) NotifySetup s2 = (s3, None)"
    "exec (index_err e) (CreateIndexes (indexes @ reference_indexes refs)) s3 = (s', None)"
proof -
  obtain s1 e1 where 1: "syncTable ord e SchedulesTable scheduleColumns refs s = (s1, e1)" by (metis surj_pair)
  with assms have e1: "e1 = None" by (auto simp: SetupTables_def split: if_splits)
  obtain s2 e2 where 2: "syncTable ord e TasksTable taskColumns refs s1 = (s2, e2)" by (metis surj_pair)
  with assms 1 e1 have e2: "e2 = None" by (auto simp: SetupTables_def split: if_splits)
  obtain s3 e3 where 3: "exec (notify_err e) NotifySetup s2 = (s3, e3)" by (metis surj_pair)
  with assms 1 2 e1 e2 have e3: "e3 = None" by (auto simp: SetupTables_def split: if_splits)
  from assms 1 2 3 e1 e2 e3 have "exec (index_err e) (CreateIndexes (indexes @ reference_indexes refs)) s3 = (s', None)"
    by (simp add: SetupTables_def)
  with 1 2 3 e1 e2 e3 that show thesis by blast
qed

lemma syncTable_frame:
  assumes "syncTable ord e t init refs s = (s', None)" and "ranges ord"
  shows "\<exists>cols P. table_columns s' = (table_columns s)(t := cols) \<and> schema_indexes s' = filter P (schema_indexes s)"
proof -
  from assms obtain expected ns where
    "table_columns s' = (table_columns s)(t :=
       filter (\<lambda>c. fst c \<notin> fold_ident ` (column_names t s - fst ` set expected)) (table_columns s t) @
       map (\<lambda>n. (fold_ident n, the (map_of expected n))) ns)"
    and "\<exists>P. schema_indexes s' = filter P (schema_indexes s)" by (rule syncTable_ok)
  then show ?thesis by blast
qed

lemma SetupTables_result:
  assumes "SetupTables ord e refs s = (s', None)" and "ranges ord"
  obtains s1 s2 where "syncTable ord e SchedulesTable scheduleColumns refs s = (s1, None)"
    "syncTable ord e TasksTable taskColumns refs s1 = (s2, None)"
    "table_columns s1 TasksTable = table_columns s TasksTable"
    "table_columns s' SchedulesTable = table_columns s1 SchedulesTable"
    "table_columns s' = table_columns s2" "has_trigger s'"
    "schema_indexes s' = fold create_index (wanted_indexes refs) (schema_indexes s2)"
    "\<exists>P. schema_indexes s2 = filter P (schema_indexes s)"
proof -
  from assms(1) obtain s1 s2 s3 where 1: "syncTable ord e SchedulesTable scheduleColumns refs s = (s1, None)"
    and 2: "syncTable ord e TasksTable taskColumns refs s1 = (s2, None)"
    and 3: "exec (notify_err e) NotifySetup s2 = (s3, None)"
    and 4: "exec (index_err e) (CreateIndexes (indexes @ reference_indexes refs)) s3 = (s', None)"
    by (rule SetupTables_steps)
  from 3 have s3: "s3 = s2\<lparr>has_trigger := True\<rparr>" by (simp add: exec_ok split: if_splits)
  from 4 have s': "table_columns s' = table_columns s3" "has_trigger s' = has_trigger s3"
    "schema_indexes s' = fold create_index (wanted_indexes refs) (schema_indexes s3)"
    unfolding wanted_indexes_eq by (auto simp: exec_ok)
  obtain c1 P1 where c1: "table_columns s1 = (table_columns s)(SchedulesTable := c1)"
    and i1: "schema_indexes s1 = filter P1 (schema_indexes s)"
    using syncTable_frame [OF 1 assms(2)] by blast
  obtain c2 P2 where c2: "table_columns s2 = (table_columns s1)(TasksTable := c2)"
    and i2: "schema_indexes s2 = filter P2 (schema_indexes s1)"
    using syncTable_frame [OF 2 assms(2)] by blast
  show thesis
  proof (rule that [OF 1 2])
    show "table_columns s1 TasksTable = table_columns s TasksTable" unfolding c1 by simp
    show "table_columns s' SchedulesTable = table_columns s1 SchedulesTable" unfolding s'(1) s3 by (simp add: c2)
    show "table_columns s' = table_columns s2" "has_trigger s'"
      "schema_indexes s' = fold create_index (wanted_indexes refs) (schema_indexes s2)"
      using s' s3 by simp_all
    show "\<exists>P. schema_indexes s2 = filter P (schema_indexes s)" using i1 i2 by auto
  qed
qed

lemma SetupTables_columns:
  assumes "ranges ord" and "SetupTables ord e refs s = (s', None)"
    and "\<forall>ref \<in> set refs. plain_name (ColumnName ref)" and "stored_folded s"
  shows "map_of (table_columns s' SchedulesTable) =
      synced (wanted_columns scheduleColumns refs) (map_of (table_columns s SchedulesTable))"
    and "map_of (table_columns s' TasksTable) =
      synced (wanted_columns taskColumns refs) (map_of (table_columns s TasksTable))"
proof -
  from assms(2,1) obtain s1 s2 where 1: "syncTable ord e SchedulesTable scheduleColumns refs s = (s1, None)"
    and 2: "syncTable ord e TasksTable taskColumns refs s1 = (s2, None)"
    and t: "table_columns s1 TasksTable = table_columns s TasksTable"
      "table_columns s' SchedulesTable = table_columns s1 SchedulesTable" "table_columns s' = table_columns s2"
    by (rule SetupTables_result)
  have plain: "fold_ident n = n" if "n \<in> fst ` set scheduleColumns \<union> fst ` set taskColumns \<union> ColumnName ` set refs" for n
    using that assms(3) system_columns_plain plain_folded by blast
  have stored: "fold_ident n = n" if "n \<in> column_names SchedulesTable s \<or> n \<in> column_names TasksTable s1" for n
    using that assms(4) t(1) by (auto simp: stored_folded_def column_names_def)
  have "map_of (table_columns s1 SchedulesTable) =
      synced (wanted_columns scheduleColumns refs) (map_of (table_columns s SchedulesTable))"
    by (rule syncTable_columns [OF 1 assms(1)]) (use plain stored in blast)+
  then show "map_of (table_columns s' SchedulesTable) =
      synced (wanted_columns scheduleColumns refs) (map_of (table_columns s SchedulesTable))" by (simp only: t(2))
  have "map_of (table_columns s2 TasksTable) =
      synced (wanted_columns taskColumns refs) (map_of (table_columns s1 TasksTable))"
    by (rule syncTable_columns [OF 2 assms(1)]) (use plain stored in blast)+
  then show "map_of (table_columns s' TasksTable) =
      synced (wanted_columns taskColumns refs) (map_of (table_columns s TasksTable))" by (simp only: t(1,3))
qed

text \<open>
  C21: When \<open>SetupTables\<close> returns without error, from whatever tables there were, each table
  has exactly the system columns and the reference columns: one that was there keeps its
  definition, a new one gets the definition of the code, with the foreign key of the reference,
  and every other column is gone. The trigger is there, and when the names of the wanted indexes
  differ and no other index has one of these names, all of them exist. The names of the
  reference columns must be ones that Postgres does not fold.
\<close>

theorem SetupTables_establishes:
  assumes "ranges ord" and "SetupTables ord e refs s = (s', None)"
    and "\<forall>ref \<in> set refs. plain_name (ColumnName ref)" and "stored_folded s"
  shows "map_of (table_columns s' SchedulesTable) =
      synced (wanted_columns scheduleColumns refs) (map_of (table_columns s SchedulesTable)) \<and>
    map_of (table_columns s' TasksTable) =
      synced (wanted_columns taskColumns refs) (map_of (table_columns s TasksTable)) \<and>
    has_trigger s' \<and>
    (distinct (map stored_name (wanted_indexes refs)) \<longrightarrow>
     (\<forall>i \<in> set (schema_indexes s). \<forall>j \<in> set (wanted_indexes refs). stored_name i = stored_name j \<longrightarrow> i = j) \<longrightarrow>
     set (wanted_indexes refs) \<subseteq> set (schema_indexes s'))"
proof -
  from assms(2,1) obtain s1 s2 where
    "syncTable ord e SchedulesTable scheduleColumns refs s = (s1, None)"
    "syncTable ord e TasksTable taskColumns refs s1 = (s2, None)"
    "table_columns s1 TasksTable = table_columns s TasksTable"
    "table_columns s' SchedulesTable = table_columns s1 SchedulesTable" "table_columns s' = table_columns s2"
    and s2: "has_trigger s'" "schema_indexes s' = fold create_index (wanted_indexes refs) (schema_indexes s2)"
    "\<exists>P. schema_indexes s2 = filter P (schema_indexes s)" by (rule SetupTables_result)
  then have "set (wanted_indexes refs) \<subseteq> set (schema_indexes s')"
    if "distinct (map stored_name (wanted_indexes refs))"
      "\<forall>i \<in> set (schema_indexes s). \<forall>j \<in> set (wanted_indexes refs). stored_name i = stored_name j \<longrightarrow> i = j"
    unfolding s2(2) using that by (intro create_all) auto
  with SetupTables_columns [OF assms] s2(1) show ?thesis by blast
qed

subsection \<open>Running the setup again\<close>

lemma synced_names: "dom (synced wanted old) = fst ` set wanted"
  by (auto simp: synced_def dom_def map_of_eq_None_iff split: if_splits option.splits dest: map_of_SomeD intro: weak_map_of_SomeI)

lemma column_names_dom: "column_names t s = dom (map_of (table_columns s t))"
  by (simp add: column_names_def dom_map_of_conv_image_fst)

lemma SetupTables_names:
  assumes "ranges ord" and "SetupTables ord e refs s = (s', None)"
    and "\<forall>ref \<in> set refs. plain_name (ColumnName ref)" and "stored_folded s"
  shows "column_names SchedulesTable s' = fst ` set (wanted_columns scheduleColumns refs)"
    and "column_names TasksTable s' = fst ` set (wanted_columns taskColumns refs)"
  unfolding column_names_dom SetupTables_columns [OF assms] synced_names by (rule refl)+

lemma wanted_nonempty: "wanted_columns scheduleColumns refs \<noteq> []" "wanted_columns taskColumns refs \<noteq> []"
  by (simp_all add: wanted_columns_def scheduleColumns_def taskColumns_def)

lemma syncTable_expected: "syncTable ord e t init refs s = (s', None) \<Longrightarrow> expected_columns init refs = Inr (wanted_columns init refs)"
  by (auto simp: syncTable_def split: sum.splits dest: expected_wanted)

lemma listColumns_names: "list_err e t = None \<Longrightarrow>
    \<exists>cur. listColumns e t s = Inr cur \<and> set cur = column_names t s"
  by (simp add: listColumns_def column_names_def)

lemma syncTable_done:
  assumes "ranges ord" and "column_names t s = fst ` set (wanted_columns init refs)"
    and "expected_columns init refs = Inr (wanted_columns init refs)"
    and "list_err e t = None" and "wanted_columns init refs \<noteq> []"
  shows "syncTable ord e t init refs s = (s, None)"
proof -
  obtain cur where cur: "listColumns e t s = Inr cur" "set cur = fst ` set (wanted_columns init refs)"
    using listColumns_names [OF assms(4), of s] assms(2) by auto
  then have ne: "cur \<noteq> []" using assms(5) by auto
  have ord: "set (ord xs) = set xs" for xs using assms(1) by (simp add: ranges_def)
  have "addColumns ord cur (wanted_columns init refs) = []" "dropColumns ord cur (wanted_columns init refs) = []"
    using cur(2) by (auto simp: addColumns_def dropColumns_def filter_empty_conv ord)
  with assms(3) cur(1) ne show ?thesis by (simp add: syncTable_def)
qed

text \<open>
  Setting up the tables again with the same references changes nothing and needs no
  statement on the tables: it succeeds also when altering a table would fail.
\<close>

theorem SetupTables_idempotent:
  assumes "ranges ord" and "SetupTables ord e refs s = (s', None)"
    and "\<forall>ref \<in> set refs. plain_name (ColumnName ref)" and "stored_folded s"
    and "\<forall>t. list_err e' t = None" and "notify_err e' = None" and "index_err e' = None"
  shows "SetupTables ord e' refs s' = (s', None)"
proof -
  from assms(2,1) obtain s1 s2 where 1: "syncTable ord e SchedulesTable scheduleColumns refs s = (s1, None)"
    and 2: "syncTable ord e TasksTable taskColumns refs s1 = (s2, None)"
    and "table_columns s1 TasksTable = table_columns s TasksTable"
    "table_columns s' SchedulesTable = table_columns s1 SchedulesTable" "table_columns s' = table_columns s2"
    and trig: "has_trigger s'" and ix: "schema_indexes s' = fold create_index (wanted_indexes refs) (schema_indexes s2)"
    and "\<exists>P. schema_indexes s2 = filter P (schema_indexes s)" by (rule SetupTables_result)
  have "syncTable ord e' SchedulesTable scheduleColumns refs s' = (s', None)"
    "syncTable ord e' TasksTable taskColumns refs s' = (s', None)"
    using syncTable_done [OF assms(1) _ syncTable_expected [OF 1] _ wanted_nonempty(1)]
      syncTable_done [OF assms(1) _ syncTable_expected [OF 2] _ wanted_nonempty(2)]
      SetupTables_names [OF assms(1-4)] assms(5) by simp_all
  moreover have "table_columns s' TasksTable \<noteq> []"
    using SetupTables_names(2) [OF assms(1-4)] wanted_nonempty(2) by (auto simp: column_names_def)
  then have "exec (notify_err e') NotifySetup s' = (s', None)"
    using trig assms(6) by (simp add: exec_ok)
  moreover have "stored_name ` set (wanted_indexes refs) \<subseteq> stored_name ` set (schema_indexes s')"
    unfolding ix create_names by blast
  then have "exec (index_err e') (CreateIndexes (indexes @ reference_indexes refs)) s' = (s', None)"
    unfolding wanted_indexes_eq using assms(7) by (simp add: exec_ok create_present)
  ultimately show ?thesis by (simp add: SetupTables_def)
qed

text \<open>
  A reference column whose name has upper-case letters is never found again, because Postgres
  stores the folded name: every later run wants to add the column once more and to drop the one
  that is there, with what it holds.
\<close>

theorem upper_case_reference_resynced:
  assumes "ranges ord" and "SetupTables ord e refs s = (s', None)" and "stored_folded s"
    and "ref \<in> set refs" and "fold_ident (ColumnName ref) \<noteq> ColumnName ref"
    and "fold_ident (ColumnName ref) \<notin> fst ` set (wanted_columns scheduleColumns refs)"
    and "list_err e' SchedulesTable = None"
  shows "\<exists>cur. listColumns e' SchedulesTable s' = Inr cur \<and>
     DropColumn (fold_ident (ColumnName ref)) \<in> set (dropColumns ord cur (wanted_columns scheduleColumns refs)) \<and>
     ColumnName ref \<notin> set cur \<and>
     (\<forall>x. sync_err e' SchedulesTable = Some x \<longrightarrow> SetupTables ord e' refs s' = (s', Some x))"
proof -
  let ?n = "ColumnName ref" and ?W = "wanted_columns scheduleColumns refs"
  from assms(2,1) obtain s1 s2 where 1: "syncTable ord e SchedulesTable scheduleColumns refs s = (s1, None)"
    and "syncTable ord e TasksTable taskColumns refs s1 = (s2, None)"
    "table_columns s1 TasksTable = table_columns s TasksTable"
    and t: "table_columns s' SchedulesTable = table_columns s1 SchedulesTable" by (rule SetupTables_result)
  from 1 assms(1) obtain expected ns where ex: "expected_columns scheduleColumns refs = Inr expected"
    and ns: "set ns = fst ` set expected - column_names SchedulesTable s"
    and cols: "table_columns s1 = (table_columns s)(SchedulesTable :=
       filter (\<lambda>c. fst c \<notin> fold_ident ` (column_names SchedulesTable s - fst ` set expected)) (table_columns s SchedulesTable) @
       map (\<lambda>n. (fold_ident n, the (map_of expected n))) ns)"
    by (rule syncTable_ok)
  note w = expected_wanted [OF ex]
  have ord: "set (ord xs) = set xs" for xs using assms(1) by (simp add: ranges_def)
  have "?n \<in> fst ` set ?W" using assms(4) by (auto simp: wanted_names)
  moreover have "?n \<notin> column_names SchedulesTable s" using assms(3,5) by (auto simp: stored_folded_def)
  ultimately have n: "?n \<in> set ns" using ns w by simp
  have names: "fold_ident m = m" if "m \<in> column_names SchedulesTable s'" for m
    using that assms(3) by (auto simp: column_names_def t cols stored_folded_def)
  have "fold_ident ?n \<in> column_names SchedulesTable s'"
    using n by (force simp: column_names_def t cols)
  moreover obtain cur where cur: "listColumns e' SchedulesTable s' = Inr cur" "set cur = column_names SchedulesTable s'"
    using listColumns_names [OF assms(7), of s'] by blast
  ultimately have drop: "DropColumn (fold_ident ?n) \<in> set (dropColumns ord cur ?W)"
    using assms(6) by (auto simp: dropColumns_def ord)
  have "dropColumns ord cur ?W \<noteq> []" using drop by auto
  moreover have "cur \<noteq> []" using drop ord [of cur] by (auto simp: dropColumns_def)
  ultimately have "syncTable ord e' SchedulesTable scheduleColumns refs s' = (s', Some x)"
    if "sync_err e' SchedulesTable = Some x" for x
    using that cur(1) syncTable_expected [OF 1] by (simp add: syncTable_def exec_def Let_def)
  then have "SetupTables ord e' refs s' = (s', Some x)" if "sync_err e' SchedulesTable = Some x" for x
    using that by (simp add: SetupTables_def)
  moreover have "?n \<notin> set cur" using names assms(5) cur(2) by blast
  ultimately show ?thesis using cur(1) drop by blast
qed

text \<open>
  Of two wanted indexes that get the same name only one is ever created, and no error is
  returned for the other.
\<close>

theorem colliding_index_left_out:
  assumes "ranges ord" and "SetupTables ord e refs s = (s', None)"
    and "distinct (map stored_name (schema_indexes s))"
    and "stored_name i = stored_name j" and "i \<noteq> j"
  shows "i \<notin> set (schema_indexes s') \<or> j \<notin> set (schema_indexes s')"
proof -
  from assms(2,1) obtain s1 s2 where "syncTable ord e SchedulesTable scheduleColumns refs s = (s1, None)"
    "syncTable ord e TasksTable taskColumns refs s1 = (s2, None)"
    "table_columns s1 TasksTable = table_columns s TasksTable"
    "table_columns s' SchedulesTable = table_columns s1 SchedulesTable" "table_columns s' = table_columns s2"
    "has_trigger s'" and ix: "schema_indexes s' = fold create_index (wanted_indexes refs) (schema_indexes s2)"
    and f: "\<exists>P. schema_indexes s2 = filter P (schema_indexes s)" by (rule SetupTables_result)
  from f assms(3) have "distinct (map stored_name (schema_indexes s2))"
    by (auto simp: distinct_map_filter)
  then have "distinct (map stored_name (schema_indexes s'))" unfolding ix by (rule create_distinct)
  then show ?thesis using assms(4,5) by (auto simp: distinct_map dest: inj_onD)
qed

text \<open>
  No two system indexes get the same name, so none of them is silently left out by
  \<open>CREATE INDEX IF NOT EXISTS\<close>: on a database without indexes the setup creates them all.
\<close>

theorem system_indexes_all_created:
  "distinct (map stored_name indexes) \<and>
   (\<forall>s. schema_indexes s = [] \<longrightarrow>
     (\<exists>s'. exec_ddl (CreateIndexes indexes) s = Inr s' \<and> schema_indexes s' = indexes))"
proof -
  have names: "distinct (map stored_name indexes)" by code_simp
  have "fold create_index l is = is @ l" if "distinct (map stored_name (is @ l))" for l "is"
    using that by (induction l arbitrary: "is") (auto simp: create_index_def)
  with names show ?thesis by simp
qed

definition ex_setup :: setup_env where
  "ex_setup = \<lparr>list_err = (\<lambda>_. None), sync_err = (\<lambda>_. None), notify_err = None, index_err = None\<rparr>"

definition ex_schema :: schema where
  "ex_schema = \<lparr>table_columns = (\<lambda>t. if t = ''tasks'' then [(''task_id'', ''uuid PRIMARY KEY''), (''old'', ''text'')] else []),
     schema_indexes = [], has_trigger = False\<rparr>"

definition ex_refs :: "foreign_reference list" where
  "ex_refs = [\<lparr>ColumnName = ''user_id'', ColumnType = ''uuid'', ReferencedTable = ''users'', ReferencedColumn = ''id''\<rparr>]"

lemma ranges_rev: "ranges rev"
  by (simp add: ranges_def)

lemma ex_setup_ok: "snd (SetupTables rev ex_setup ex_refs ex_schema) = None"
proof -
  define s1 where "s1 = fst (syncTable rev ex_setup SchedulesTable scheduleColumns ex_refs ex_schema)"
  define s2 where "s2 = fst (syncTable rev ex_setup TasksTable taskColumns ex_refs s1)"
  have "snd (syncTable rev ex_setup SchedulesTable scheduleColumns ex_refs ex_schema) = None"
    "snd (syncTable rev ex_setup TasksTable taskColumns ex_refs s1) = None" "table_columns s2 TasksTable \<noteq> []"
    unfolding s2_def s1_def by code_simp+
  then have "syncTable rev ex_setup SchedulesTable scheduleColumns ex_refs ex_schema = (s1, None)"
    "syncTable rev ex_setup TasksTable taskColumns ex_refs s1 = (s2, None)"
    "exec_ddl NotifySetup s2 = Inr (s2\<lparr>has_trigger := True\<rparr>)"
    unfolding s1_def s2_def by (simp_all only: prod_eq_iff fst_conv snd_conv exec_ddl.simps if_False)
  moreover have "notify_err ex_setup = None" "index_err ex_setup = None" by (simp_all add: ex_setup_def)
  ultimately show ?thesis by (simp only: SetupTables_def exec_def) simp
qed

lemma ex_setup_run:
  "SetupTables rev ex_setup ex_refs ex_schema = (fst (SetupTables rev ex_setup ex_refs ex_schema), None)"
  using ex_setup_ok by (metis prod.collapse)

lemma ex_refs_plain: "\<forall>ref \<in> set ex_refs. plain_name (ColumnName ref)" and ex_schema_folded: "stored_folded ex_schema"
proof -
  show "\<forall>ref \<in> set ex_refs. plain_name (ColumnName ref)" by code_simp
  have "fold_ident n = n" if "n \<in> column_names t ex_schema" for t n
  proof -
    have "fold_ident ''task_id'' = ''task_id''" "fold_ident ''old'' = ''old''" by code_simp+
    with that show ?thesis by (auto simp: column_names_def ex_schema_def split: if_splits)
  qed
  then show "stored_folded ex_schema" by (simp add: stored_folded_def)
qed

theorem SetupTables_establishes_witness:
  "let s' = fst (SetupTables rev ex_setup ex_refs ex_schema) in
   map_of (table_columns s' TasksTable) ''task_id'' = Some ''uuid PRIMARY KEY'' \<and>
   map_of (table_columns s' TasksTable) ''old'' = None \<and>
   map_of (table_columns s' TasksTable) ''user_id'' = Some ''uuid REFERENCES users (id) ON DELETE CASCADE'' \<and>
   set (wanted_indexes ex_refs) \<subseteq> set (schema_indexes s')"
proof -
  let ?s = "fst (SetupTables rev ex_setup ex_refs ex_schema)"
  have "distinct (map stored_name (wanted_indexes ex_refs))" by code_simp
  moreover have "schema_indexes ex_schema = []" by (simp add: ex_schema_def)
  ultimately have "set (wanted_indexes ex_refs) \<subseteq> set (schema_indexes ?s)"
    and cols: "map_of (table_columns ?s TasksTable) =
      synced (wanted_columns taskColumns ex_refs) (map_of (table_columns ex_schema TasksTable))"
    using SetupTables_establishes [OF ranges_rev ex_setup_run ex_refs_plain ex_schema_folded] by auto
  moreover have "synced (wanted_columns taskColumns ex_refs) (map_of (table_columns ex_schema TasksTable)) ''task_id'' = Some ''uuid PRIMARY KEY''"
    "synced (wanted_columns taskColumns ex_refs) (map_of (table_columns ex_schema TasksTable)) ''old'' = None"
    "synced (wanted_columns taskColumns ex_refs) (map_of (table_columns ex_schema TasksTable)) ''user_id'' =
       Some ''uuid REFERENCES users (id) ON DELETE CASCADE''"
    by code_simp+
  ultimately show ?thesis unfolding Let_def cols by blast
qed

theorem SetupTables_idempotent_witness:
  "let s' = fst (SetupTables rev ex_setup ex_refs ex_schema) in
   SetupTables rev (ex_setup\<lparr>sync_err := (\<lambda>_. Some (Ext ''denied''))\<rparr>) ex_refs s' = (s', None)"
  using SetupTables_idempotent [OF ranges_rev ex_setup_run ex_refs_plain ex_schema_folded,
      of "ex_setup\<lparr>sync_err := (\<lambda>_. Some (Ext ''denied''))\<rparr>"]
  by (simp add: ex_setup_def)

definition ex_upper :: "foreign_reference list" where
  "ex_upper = [\<lparr>ColumnName = ''user_id'', ColumnType = ''uuid'', ReferencedTable = ''users'', ReferencedColumn = ''id''\<rparr>,
     \<lparr>ColumnName = ''userId'', ColumnType = ''uuid'', ReferencedTable = ''users'', ReferencedColumn = ''id''\<rparr>]"

lemma ex_upper_run:
  "SetupTables rev ex_setup ex_upper ex_schema = (fst (SetupTables rev ex_setup ex_upper ex_schema), None)"
proof -
  define s1 where "s1 = fst (syncTable rev ex_setup SchedulesTable scheduleColumns ex_upper ex_schema)"
  define s2 where "s2 = fst (syncTable rev ex_setup TasksTable taskColumns ex_upper s1)"
  have "snd (syncTable rev ex_setup SchedulesTable scheduleColumns ex_upper ex_schema) = None"
    "snd (syncTable rev ex_setup TasksTable taskColumns ex_upper s1) = None" "table_columns s2 TasksTable \<noteq> []"
    unfolding s2_def s1_def by code_simp+
  then have "syncTable rev ex_setup SchedulesTable scheduleColumns ex_upper ex_schema = (s1, None)"
    "syncTable rev ex_setup TasksTable taskColumns ex_upper s1 = (s2, None)"
    "exec_ddl NotifySetup s2 = Inr (s2\<lparr>has_trigger := True\<rparr>)"
    unfolding s1_def s2_def by (simp_all only: prod_eq_iff fst_conv snd_conv exec_ddl.simps if_False)
  moreover have "notify_err ex_setup = None" "index_err ex_setup = None" by (simp_all add: ex_setup_def)
  ultimately have "snd (SetupTables rev ex_setup ex_upper ex_schema) = None"
    by (simp only: SetupTables_def exec_def) simp
  then show ?thesis by (metis prod.collapse)
qed

theorem upper_case_reference_resynced_witness:
  "let s' = fst (SetupTables rev ex_setup ex_upper ex_schema) in
   SetupTables rev (ex_setup\<lparr>sync_err := (\<lambda>_. Some (Ext ''denied''))\<rparr>) ex_upper s' = (s', Some (Ext ''denied''))"
proof -
  let ?ref = "\<lparr>ColumnName = ''userId'', ColumnType = ''uuid'', ReferencedTable = ''users'', ReferencedColumn = ''id''\<rparr>"
  let ?e = "ex_setup\<lparr>sync_err := (\<lambda>_. Some (Ext ''denied''))\<rparr>"
  have "?ref \<in> set ex_upper" by (simp add: ex_upper_def)
  moreover have "fold_ident (ColumnName ?ref) \<noteq> ColumnName ?ref"
    "fold_ident (ColumnName ?ref) \<notin> fst ` set (wanted_columns scheduleColumns ex_upper)" by code_simp+
  moreover have "list_err ?e SchedulesTable = None" "sync_err ?e SchedulesTable = Some (Ext ''denied'')"
    by (simp_all add: ex_setup_def)
  ultimately show ?thesis
    unfolding Let_def using upper_case_reference_resynced [OF ranges_rev ex_upper_run ex_schema_folded, of ?ref ?e] by blast
qed

theorem colliding_index_left_out_witness:
  "let s' = fst (SetupTables rev ex_setup ex_upper ex_schema) in
   mk_index TasksTable [''user_id''] ''hash'' \<notin> set (schema_indexes s') \<or>
   mk_index TasksTable [''userId''] ''hash'' \<notin> set (schema_indexes s')"
proof -
  have "stored_name (mk_index TasksTable [''user_id''] ''hash'') = stored_name (mk_index TasksTable [''userId''] ''hash'')"
    "mk_index TasksTable [''user_id''] ''hash'' \<noteq> mk_index TasksTable [''userId''] ''hash''" by code_simp+
  moreover have "distinct (map stored_name (schema_indexes ex_schema))" by (simp add: ex_schema_def)
  ultimately show ?thesis
    unfolding Let_def by (intro colliding_index_left_out [OF ranges_rev ex_upper_run])
qed

theorem system_indexes_all_created_witness:
  "\<exists>s'. exec_ddl (CreateIndexes indexes) ex_schema = Inr s' \<and> schema_indexes s' = indexes"
proof -
  have "schema_indexes ex_schema = []" by (simp add: ex_schema_def)
  with system_indexes_all_created show ?thesis by blast
qed

end
