(* ===== verification/Crypto.thy ===== *)
theory Crypto
  imports Go_Errors
begin

section \<open>Encryption, sealed messages and hashes\<close>

text \<open>
  \<open>pkg/crypto\<close>. The primitives of the Go library are parameters, collected in the record
  \<open>primitives\<close>: the AES block function, HMAC-SHA512/256, SHA512/256, SHA3-256 and the gob
  encoding of a token. What the code relies on is \<open>primitives_ok\<close>. The mode of operation (CFB),
  the hexadecimal and the base64 encodings are modelled.
\<close>

subsection \<open>Bytes\<close>

definition xor_char :: "char \<Rightarrow> char \<Rightarrow> char" where
  "xor_char c d = Char (digit0 c \<noteq> digit0 d) (digit1 c \<noteq> digit1 d) (digit2 c \<noteq> digit2 d) (digit3 c \<noteq> digit3 d)
     (digit4 c \<noteq> digit4 d) (digit5 c \<noteq> digit5 d) (digit6 c \<noteq> digit6 d) (digit7 c \<noteq> digit7 d)"

lemma xor_char_cancel [simp]: "xor_char (xor_char c d) d = c"
  by (cases c; cases d) (auto simp: xor_char_def)

definition xor_bytes :: "bytes \<Rightarrow> bytes \<Rightarrow> bytes" where
  "xor_bytes a b = map2 xor_char a b"

lemma length_xor_bytes [simp]: "length (xor_bytes a b) = min (length a) (length b)"
  by (simp add: xor_bytes_def)

lemma xor_bytes_cancel: "length a \<le> length b \<Longrightarrow> xor_bytes (xor_bytes a b) b = a"
proof (induction a arbitrary: b)
  case (Cons x a)
  then show ?case by (cases b) (simp_all add: xor_bytes_def)
qed (simp add: xor_bytes_def)

text \<open>
  Cipher feedback: a block is encrypted with the block function applied to the cipher text of
  the block before, the first one to the initialization vector. The last block may be short.
\<close>

definition BlockSize :: nat where
  "BlockSize = 16"

lemma BlockSize_pos [simp]: "0 < BlockSize"
  by (simp add: BlockSize_def)

function cfb_encrypt :: "(bytes \<Rightarrow> bytes) \<Rightarrow> bytes \<Rightarrow> bytes \<Rightarrow> bytes" where
  "cfb_encrypt E prev p =
     (if p = [] then []
      else let c = xor_bytes (take BlockSize p) (E prev) in c @ cfb_encrypt E c (drop BlockSize p))"
  by pat_completeness auto
termination by (relation "measure (\<lambda>(E, prev, p). length p)") auto

function cfb_decrypt :: "(bytes \<Rightarrow> bytes) \<Rightarrow> bytes \<Rightarrow> bytes \<Rightarrow> bytes" where
  "cfb_decrypt E prev c =
     (if c = [] then []
      else xor_bytes (take BlockSize c) (E prev) @ cfb_decrypt E (take BlockSize c) (drop BlockSize c))"
  by pat_completeness auto
termination by (relation "measure (\<lambda>(E, prev, c). length c)") auto

declare cfb_encrypt.simps [simp del] cfb_decrypt.simps [simp del]

definition block_fun :: "(bytes \<Rightarrow> bytes) \<Rightarrow> bool" where
  "block_fun E \<longleftrightarrow> (\<forall>b. length (E b) = BlockSize)"

lemma length_cfb_encrypt: "block_fun E \<Longrightarrow> length (cfb_encrypt E prev p) = length p"
proof (induction E prev p rule: cfb_encrypt.induct)
  case (1 E prev p)
  then show ?case
    by (subst cfb_encrypt.simps) (simp add: Let_def block_fun_def min_def)
qed

lemma cfb_roundtrip: "block_fun E \<Longrightarrow> cfb_decrypt E prev (cfb_encrypt E prev p) = p"
proof (induction E prev p rule: cfb_encrypt.induct)
  case (1 E prev p)
  show ?case
  proof (cases "p = []")
    case True
    then show ?thesis by (simp add: cfb_encrypt.simps cfb_decrypt.simps)
  next
    case False
    define c where "c = xor_bytes (take BlockSize p) (E prev)"
    define rest where "rest = cfb_encrypt E c (drop BlockSize p)"
    have E: "length (E prev) = BlockSize" using 1(2) by (simp add: block_fun_def)
    have enc: "cfb_encrypt E prev p = c @ rest"
      using False by (subst cfb_encrypt.simps) (simp add: Let_def c_def rest_def)
    have len: "length c = min (length p) BlockSize" by (simp add: c_def E)
    have "0 < length c" using False by (simp add: len)
    then have ne: "c \<noteq> []" by auto
    have rest0: "length c < BlockSize \<Longrightarrow> rest = []"
      using len by (simp add: rest_def cfb_encrypt.simps)
    have parts: "take BlockSize (c @ rest) = c" "drop BlockSize (c @ rest) = rest"
      using len rest0 by (cases "length c < BlockSize"; simp)+
    have "xor_bytes c (E prev) = take BlockSize p"
      unfolding c_def by (rule xor_bytes_cancel) (simp add: E)
    moreover have "cfb_decrypt E c rest = drop BlockSize p"
      unfolding rest_def using False 1(2) by (intro 1(1)) (simp_all add: c_def)
    ultimately show ?thesis
      using ne by (simp add: enc cfb_decrypt.simps [of _ _ "c @ rest"] parts del: take_append drop_append)
  qed
qed

subsection \<open>Texts of bytes\<close>

text \<open>\<open>hex.EncodeToString\<close> and \<open>hex.DecodeString\<close>.\<close>

definition hex_char :: "nat \<Rightarrow> char" where
  "hex_char n = (if n < 10 then char_of (48 + n) else char_of (87 + n))"

definition hex_value :: "char \<Rightarrow> nat option" where
  "hex_value c =
     (let n = of_char c :: nat
      in if 48 \<le> n \<and> n \<le> 57 then Some (n - 48)
      else if 97 \<le> n \<and> n \<le> 102 then Some (n - 87)
      else if 65 \<le> n \<and> n \<le> 70 then Some (n - 55) else None)"

definition hex_encode :: "bytes \<Rightarrow> string" where
  "hex_encode bs = concat (map (\<lambda>b. [hex_char (of_char b div 16), hex_char (of_char b mod 16)]) bs)"

fun hex_decode :: "string \<Rightarrow> error + bytes" where
  "hex_decode [] = Inr []"
| "hex_decode [c] = (if hex_value c = None then Inl (Ext ''encoding/hex: invalid byte'') else Inl (Ext ''encoding/hex: odd length hex string''))"
| "hex_decode (c # d # s) =
     (case (hex_value c, hex_value d) of
        (Some a, Some b) \<Rightarrow>
          (case hex_decode s of Inl e \<Rightarrow> Inl e | Inr bs \<Rightarrow> Inr (char_of (16 * a + b) # bs))
      | _ \<Rightarrow> Inl (Ext ''encoding/hex: invalid byte''))"

lemma hex_value_char: "n < 16 \<Longrightarrow> hex_value (hex_char n) = Some n"
  by (auto simp: hex_value_def hex_char_def Let_def)

lemma of_char_bound: "(of_char c :: nat) < 256"
  by (cases c) (simp add: of_char_def horner_sum_simps split: if_splits)

lemma hex_roundtrip: "hex_decode (hex_encode bs) = Inr bs"
proof (induction bs)
  case (Cons b bs)
  have "(of_char b :: nat) < 16 * 16" using of_char_bound [of b] by linarith
  then have "(of_char b :: nat) div 16 < 16" by (rule less_mult_imp_div_less)
  then show ?case
    using Cons by (simp add: hex_encode_def hex_value_char)
qed (simp add: hex_encode_def)

lemma length_hex_encode [simp]: "length (hex_encode bs) = 2 * length bs"
  by (induction bs) (simp_all add: hex_encode_def)

text \<open>
  \<open>base64.URLEncoding\<close>: three bytes are four digits of the alphabet, the last group is filled up
  with \<open>=\<close>. The decoder skips line breaks; the position that its error names is left out.
\<close>

definition b64_char :: "nat \<Rightarrow> char" where
  "b64_char n =
     (if n < 26 then char_of (65 + n) else if n < 52 then char_of (71 + n)
      else if n < 62 then char_of (n - 4) else if n = 62 then CHR ''-'' else CHR ''_'')"

definition b64_value :: "char \<Rightarrow> nat option" where
  "b64_value c =
     (let n = of_char c :: nat
      in if 65 \<le> n \<and> n \<le> 90 then Some (n - 65)
      else if 97 \<le> n \<and> n \<le> 122 then Some (n - 71)
      else if 48 \<le> n \<and> n \<le> 57 then Some (n + 4)
      else if n = 45 then Some 62 else if n = 95 then Some 63 else None)"

fun b64_encode :: "bytes \<Rightarrow> string" where
  "b64_encode [] = []"
| "b64_encode [a] =
     (let n = of_char a * 65536 in [b64_char (n div 262144), b64_char (n div 4096 mod 64), CHR ''='', CHR ''=''])"
| "b64_encode [a, b] =
     (let n = of_char a * 65536 + of_char b * 256
      in [b64_char (n div 262144), b64_char (n div 4096 mod 64), b64_char (n div 64 mod 64), CHR ''=''])"
| "b64_encode (a # b # c # bs) =
     (let n = of_char a * 65536 + of_char b * 256 + of_char c
      in [b64_char (n div 262144), b64_char (n div 4096 mod 64), b64_char (n div 64 mod 64), b64_char (n mod 64)]
         @ b64_encode bs)"

definition b64_error :: error where
  "b64_error = Ext ''illegal base64 data''"

fun b64_groups :: "string \<Rightarrow> error + bytes" where
  "b64_groups [] = Inr []"
| "b64_groups (a # b # c # d # s) =
     (case (b64_value a, b64_value b) of
        (Some x, Some y) \<Rightarrow>
          if c = CHR ''='' \<and> d = CHR ''='' \<and> s = []
          then Inr [char_of ((x * 262144 + y * 4096) div 65536)]
          else (case b64_value c of
              None \<Rightarrow> Inl b64_error
            | Some z \<Rightarrow>
              if d = CHR ''='' \<and> s = []
              then (let n = x * 262144 + y * 4096 + z * 64 in Inr [char_of (n div 65536), char_of (n div 256 mod 256)])
              else (case b64_value d of
                  None \<Rightarrow> Inl b64_error
                | Some w \<Rightarrow>
                  (case b64_groups s of Inl e \<Rightarrow> Inl e
                   | Inr bs \<Rightarrow>
                     let n = x * 262144 + y * 4096 + z * 64 + w
                     in Inr (char_of (n div 65536) # char_of (n div 256 mod 256) # char_of (n mod 256) # bs))))
      | _ \<Rightarrow> Inl b64_error)"
| "b64_groups s = Inl b64_error"

definition b64_decode :: "string \<Rightarrow> error + bytes" where
  "b64_decode s = b64_groups (filter (\<lambda>c. c \<noteq> CHR 0x0A \<and> c \<noteq> CHR 0x0D) s)"

lemma of_b64_char:
  "n < 64 \<Longrightarrow> (of_char (b64_char n) :: nat) =
     (if n < 26 then 65 + n else if n < 52 then 71 + n else if n < 62 then n - 4 else if n = 62 then 45 else 95)"
  by (simp add: b64_char_def)

lemma b64_value_char: "n < 64 \<Longrightarrow> b64_value (b64_char n) = Some n"
  by (simp add: b64_value_def Let_def of_b64_char) arith

lemma b64_plain: "n < 64 \<Longrightarrow> b64_char n \<noteq> CHR ''='' \<and> b64_char n \<noteq> CHR 0x0A \<and> b64_char n \<noteq> CHR 0x0D"
  using of_b64_char [of n] by (auto split: if_splits)

lemma b64_digits:
  fixes n :: nat
  assumes "n < 16777216"
  shows "n div 262144 < 64"
    and "n div 262144 * 262144 + n div 4096 mod 64 * 4096 + n div 64 mod 64 * 64 + n mod 64 = n"
proof -
  show "n div 262144 < 64" using assms by (simp add: less_mult_imp_div_less)
  have "n div 262144 = n div 4096 div 64" "n div 4096 = n div 64 div 64" by (simp_all add: div_mult2_eq [symmetric])
  then show "n div 262144 * 262144 + n div 4096 mod 64 * 4096 + n div 64 mod 64 * 64 + n mod 64 = n"
    using div_mult_mod_eq [of n 64] div_mult_mod_eq [of "n div 64" 64] div_mult_mod_eq [of "n div 4096" 64] by linarith
qed

lemma base256:
  fixes a b c :: nat
  assumes "a < 256" "b < 256" "c < 256"
  shows "(a * 65536 + b * 256 + c) mod 256 = c" "(a * 65536 + b * 256 + c) div 256 mod 256 = b"
    "(a * 65536 + b * 256 + c) div 65536 = a" "a * 65536 + b * 256 + c < 16777216"
proof -
  have n: "a * 65536 + b * 256 + c = c + (b + a * 256) * 256" by simp
  show "(a * 65536 + b * 256 + c) mod 256 = c" unfolding n using assms(3) by (simp only: mod_mult_self1 mod_less)
  have d: "(a * 65536 + b * 256 + c) div 256 = b + a * 256" unfolding n using assms(3) by simp
  then show "(a * 65536 + b * 256 + c) div 256 mod 256 = b" using assms(2) by simp
  have "(a * 65536 + b * 256 + c) div 65536 = (a * 65536 + b * 256 + c) div 256 div 256" by (simp add: div_mult2_eq [symmetric])
  then show "(a * 65536 + b * 256 + c) div 65536 = a" unfolding d using assms(2) by simp
  show "a * 65536 + b * 256 + c < 16777216" using assms by linarith
qed

lemmas base256_chars = base256 [OF of_char_bound of_char_bound of_char_bound]

lemma b64_groups_encode: "b64_groups (b64_encode bs) = Inr bs"
proof (induction bs rule: b64_encode.induct)
  case (2 a)
  define n :: nat where "n = of_char a * 65536"
  have n: "n < 16777216" "n div 65536 = of_char a" using base256 [OF of_char_bound [of a], of 0 0] by (simp_all add: n_def)
  have "n div 64 mod 64 = 0" "n mod 64 = 0" by (simp_all add: n_def div_mult_swap [symmetric] mod_eq_0_iff_dvd)
  with b64_digits [OF n(1)] have "n div 262144 * 262144 + n div 4096 mod 64 * 4096 = n" "n div 262144 < 64" by simp_all
  with n(2) show ?case by (simp add: Let_def b64_value_char n_def [symmetric])
next
  case (3 a b)
  define n :: nat where "n = of_char a * 65536 + of_char b * 256"
  have n: "n < 16777216" "n div 65536 = of_char a" "n div 256 mod 256 = of_char b"
    using base256 [OF of_char_bound [of a] of_char_bound [of b], of 0] by (simp_all add: n_def)
  have "n = (of_char a * 1024 + of_char b * 4) * 64" by (simp add: n_def)
  then have "n mod 64 = 0" by simp
  with b64_digits [OF n(1)] have "n div 262144 * 262144 + n div 4096 mod 64 * 4096 + n div 64 mod 64 * 64 = n" "n div 262144 < 64" by simp_all
  moreover have "char_of (n div 256) = b" using arg_cong [OF n(3), of char_of] by simp
  ultimately show ?case using n(2) by (simp add: Let_def b64_value_char b64_plain n_def [symmetric])
next
  case (4 a b c bs)
  define n :: nat where "n = of_char a * 65536 + of_char b * 256 + of_char c"
  have n: "n mod 256 = of_char c" "n div 256 mod 256 = of_char b" "n div 65536 = of_char a" "n < 16777216"
    unfolding n_def by (rule base256_chars)+
  have "char_of n = c" "char_of (n div 256) = b"
    using arg_cong [OF n(1), of char_of] arg_cong [OF n(2), of char_of] by simp_all
  with b64_digits [OF n(4)] n(3) "4.IH" show ?case
    by (simp add: Let_def b64_value_char b64_plain n_def [symmetric])
qed simp

lemma b64_encode_plain: "c \<in> set (b64_encode bs) \<Longrightarrow> c \<noteq> CHR 0x0A \<and> c \<noteq> CHR 0x0D"
proof (induction bs rule: b64_encode.induct)
  case (2 a)
  have "(of_char a :: nat) * 65536 div 262144 < 64" using of_char_bound [of a] by linarith
  with 2 show ?case by (auto simp: Let_def b64_plain)
next
  case (3 a b)
  have "((of_char a :: nat) * 65536 + of_char b * 256) div 262144 < 64" using of_char_bound [of a] of_char_bound [of b] by linarith
  with 3 show ?case by (auto simp: Let_def b64_plain)
next
  case (4 a b c bs)
  have "((of_char a :: nat) * 65536 + of_char b * 256 + of_char c) div 262144 < 64"
    using base256_chars(4) [of a b c] by linarith
  with 4 show ?case by (auto simp: Let_def b64_plain)
qed simp

lemma b64_roundtrip: "b64_decode (b64_encode bs) = Inr bs"
proof -
  have "filter (\<lambda>c. c \<noteq> CHR 0x0A \<and> c \<noteq> CHR 0x0D) (b64_encode bs) = b64_encode bs"
    by (rule filter_True) (use b64_encode_plain in blast)
  then show ?thesis by (simp add: b64_decode_def b64_groups_encode)
qed

subsection \<open>Encryption and sealing\<close>

record token =
  Data :: bytes
  CreatedAt :: time

record primitives =
  aes_block :: "bytes \<Rightarrow> bytes \<Rightarrow> bytes"
  hmac_sum :: "bytes \<Rightarrow> bytes \<Rightarrow> bytes"
  sha512_256 :: "bytes \<Rightarrow> bytes"
  sha3_256 :: "bytes \<Rightarrow> bytes"
  gob_encode :: "token \<Rightarrow> bytes"
  gob_decode :: "bytes \<Rightarrow> error + token"

definition Size256 :: nat where
  "Size256 = 32"

text \<open>
  The lengths of blocks and sums, and that a token that was encoded can be decoded.
\<close>

definition primitives_ok :: "primitives \<Rightarrow> bool" where
  "primitives_ok p \<longleftrightarrow> (\<forall>key. block_fun (aes_block p key)) \<and>
     (\<forall>key m. length (hmac_sum p key m) = Size256) \<and> (\<forall>m. length (sha512_256 p m) = Size256) \<and>
     (\<forall>t. gob_decode p (gob_encode p t) = Inr t)"

definition PassphraseToKey :: "primitives \<Rightarrow> string \<Rightarrow> bytes" where
  "PassphraseToKey p passphrase = sha512_256 p passphrase"

text \<open>\<open>aes.NewCipher\<close>: keys have 16, 24 or 32 bytes.\<close>

definition NewCipher :: "primitives \<Rightarrow> bytes \<Rightarrow> error + (bytes \<Rightarrow> bytes)" where
  "NewCipher p key =
     (if length key \<in> {16, 24, 32} then Inr (aes_block p key) else Inl (Ext ''crypto/aes: invalid key size''))"

text \<open>\<open>rnd\<close> is what reading the initialization vector from the random source yields.\<close>

definition Encrypt :: "primitives \<Rightarrow> error + bytes \<Rightarrow> bytes \<Rightarrow> bytes \<Rightarrow> error + bytes" where
  "Encrypt p rnd plainText key =
     (case NewCipher p key of Inl e \<Rightarrow> Inl e
      | Inr block \<Rightarrow>
        (case rnd of Inl e \<Rightarrow> Inl e | Inr iv \<Rightarrow> Inr (iv @ cfb_encrypt block iv plainText)))"

definition EncryptToString :: "primitives \<Rightarrow> error + bytes \<Rightarrow> bytes \<Rightarrow> bytes \<Rightarrow> error + string" where
  "EncryptToString p rnd plainText key =
     (case Encrypt p rnd plainText key of Inl e \<Rightarrow> Inl e | Inr bs \<Rightarrow> Inr (hex_encode bs))"

definition Decrypt :: "primitives \<Rightarrow> bytes \<Rightarrow> bytes \<Rightarrow> error + bytes" where
  "Decrypt p cipherText key =
     (case NewCipher p key of Inl e \<Rightarrow> Inl e
      | Inr block \<Rightarrow>
        if length cipherText < BlockSize then Inl (Crypto_err ErrCipherTooShort)
        else Inr (cfb_decrypt block (take BlockSize cipherText) (drop BlockSize cipherText)))"

definition DecryptFromString :: "primitives \<Rightarrow> string \<Rightarrow> bytes \<Rightarrow> error + bytes" where
  "DecryptFromString p cipherTextStr key =
     (case hex_decode cipherTextStr of Inl e \<Rightarrow> Inl e | Inr c \<Rightarrow> Decrypt p c key)"

definition Seal :: "primitives \<Rightarrow> error + bytes \<Rightarrow> bytes \<Rightarrow> bytes \<Rightarrow> error + bytes" where
  "Seal p rnd plainText key = Encrypt p rnd (plainText @ hmac_sum p key plainText) key"

definition SealToString :: "primitives \<Rightarrow> error + bytes \<Rightarrow> bytes \<Rightarrow> bytes \<Rightarrow> error + string" where
  "SealToString p rnd plainText key =
     (case Seal p rnd plainText key of Inl e \<Rightarrow> Inl e | Inr bs \<Rightarrow> Inr (b64_encode bs))"

text \<open>A negative split point makes the slice expression panic.\<close>

definition Unseal :: "primitives \<Rightarrow> bytes \<Rightarrow> bytes \<Rightarrow> (error + bytes) outcome" where
  "Unseal p cipherText key =
     (case Decrypt p cipherText key of Inl e \<Rightarrow> Ret (Inl e)
      | Inr messageAndMAC \<Rightarrow>
        if length messageAndMAC < Size256 then Panic
        else let splitPoint = length messageAndMAC - Size256;
                 messageMAC = drop splitPoint messageAndMAC;
                 plainText = take splitPoint messageAndMAC
             in if hmac_sum p key plainText \<noteq> messageMAC then Ret (Inl (Crypto_err ErrCorruptedMessage))
                else Ret (Inr plainText))"

definition UnsealFromString :: "primitives \<Rightarrow> string \<Rightarrow> bytes \<Rightarrow> (error + bytes) outcome" where
  "UnsealFromString p cipherTextStr key =
     (case b64_decode cipherTextStr of Inl e \<Rightarrow> Ret (Inl e) | Inr c \<Rightarrow> Unseal p c key)"

text \<open>
  \<open>GenerateRandomString\<close>: \<open>rnd\<close> gives the random bytes of a size. A negative length makes the
  allocation panic.
\<close>

definition GenerateRandomString :: "(nat \<Rightarrow> error + bytes) \<Rightarrow> int \<Rightarrow> (error + string) outcome" where
  "GenerateRandomString rnd len =
     (if len < 0 then Panic
      else let size = (if len mod 2 \<noteq> 0 then len + 1 else len)
      in Ret (case rnd (nat size) of Inl e \<Rightarrow> Inl e | Inr bs \<Rightarrow> Inr (take (nat len) (hex_encode bs))))"

definition GenerateToken :: "primitives \<Rightarrow> error + bytes \<Rightarrow> time \<Rightarrow> bytes \<Rightarrow> bytes \<Rightarrow> error + string" where
  "GenerateToken p rnd now dat key = SealToString p rnd (gob_encode p \<lparr>Data = dat, CreatedAt = now\<rparr>) key"

definition DecodeAndVerifyToken ::
  "primitives \<Rightarrow> time \<Rightarrow> string \<Rightarrow> bytes \<Rightarrow> duration \<Rightarrow> (error + bytes) outcome" where
  "DecodeAndVerifyToken p now tokenStr key lifetime =
     (case UnsealFromString p tokenStr key of
        Panic \<Rightarrow> Panic
      | Ret (Inl e) \<Rightarrow> Ret (Inl e)
      | Ret (Inr plainText) \<Rightarrow>
        (case gob_decode p plainText of Inl e \<Rightarrow> Ret (Inl e)
         | Inr t \<Rightarrow>
           if CreatedAt t + lifetime < now then Ret (Inl (Crypto_err ErrTokenExpired)) else Ret (Inr (Data t))))"

subsection \<open>Hashes\<close>

text \<open>
  The arguments of \<open>Hash\<close> by their dynamic type: a reader with what it yields, bytes, a text, a
  value with a \<open>String\<close> method, and any other value with the result of encoding it as JSON.
\<close>

datatype hash_arg =
    Reader "error + bytes" | Bytes_arg bytes | String_arg string | Stringer string | Value "error + bytes"

fun arg_bytes :: "hash_arg \<Rightarrow> error + bytes" where
  "arg_bytes (Reader r) = r"
| "arg_bytes (Bytes_arg b) = Inr b"
| "arg_bytes (String_arg s) = Inr s"
| "arg_bytes (Stringer s) = Inr s"
| "arg_bytes (Value j) = j"

fun hash_loop :: "bytes \<Rightarrow> hash_arg list \<Rightarrow> error + bytes" where
  "hash_loop w [] = Inr w"
| "hash_loop w (a # as) = (case arg_bytes a of Inl e \<Rightarrow> Inl e | Inr b \<Rightarrow> hash_loop (w @ b) as)"

definition Hash :: "primitives \<Rightarrow> hash_arg list \<Rightarrow> error + bytes" where
  "Hash p args = (case hash_loop [] args of Inl e \<Rightarrow> Inl e | Inr w \<Rightarrow> Inr (sha3_256 p w))"

definition HashToString :: "primitives \<Rightarrow> hash_arg list \<Rightarrow> error + string" where
  "HashToString p args = (case Hash p args of Inl e \<Rightarrow> Inl e | Inr h \<Rightarrow> Inr (hex_encode h))"

subsection \<open>Round trips\<close>

lemma Decrypt_Encrypt:
  assumes "primitives_ok p" "length iv = BlockSize" "Encrypt p (Inr iv) plain key = Inr c"
  shows "Decrypt p c key = Inr plain"
proof -
  from assms(3) have key: "NewCipher p key = Inr (aes_block p key)"
    by (auto simp: Encrypt_def NewCipher_def split: if_splits)
  have block: "block_fun (aes_block p key)" using assms(1) by (simp add: primitives_ok_def)
  from assms(3) key have "c = iv @ cfb_encrypt (aes_block p key) iv plain" by (simp add: Encrypt_def)
  then show ?thesis
    using assms(2) by (simp add: Decrypt_def key cfb_roundtrip [OF block])
qed

lemma Unseal_Seal:
  assumes "primitives_ok p" "length iv = BlockSize" "Seal p (Inr iv) plain key = Inr c"
  shows "Unseal p c key = Ret (Inr plain)"
proof -
  have "Decrypt p c key = Inr (plain @ hmac_sum p key plain)"
    using assms unfolding Seal_def by (rule Decrypt_Encrypt)
  moreover have "length (hmac_sum p key plain) = Size256" using assms(1) by (simp add: primitives_ok_def)
  ultimately show ?thesis by (simp add: Unseal_def)
qed

lemma UnsealFromString_SealToString:
  assumes "primitives_ok p" "length iv = BlockSize" "SealToString p (Inr iv) plain key = Inr s"
  shows "UnsealFromString p s key = Ret (Inr plain)"
  using assms(3) Unseal_Seal [OF assms(1,2)]
  by (auto simp: SealToString_def UnsealFromString_def b64_roundtrip split: sum.splits)

lemma valid_key_encrypts:
  "length key \<in> {16, 24, 32} \<Longrightarrow> \<exists>c. Encrypt p (Inr iv) plain key = Inr c"
  by (simp add: Encrypt_def NewCipher_def)

text \<open>
  Every text that is encrypted with a key of 16, 24 or 32 bytes is decrypted to itself, through
  the hexadecimal form; with another key length no encryption takes place.
\<close>

theorem encrypt_roundtrip:
  assumes "primitives_ok p" "length iv = BlockSize"
  shows "if length key \<in> {16, 24, 32}
    then \<exists>s. EncryptToString p (Inr iv) plain key = Inr s \<and> DecryptFromString p s key = Inr plain
    else \<exists>e. EncryptToString p (Inr iv) plain key = Inl e"
proof (cases "length key \<in> {16, 24, 32}")
  case True
  then obtain c where c: "Encrypt p (Inr iv) plain key = Inr c" using valid_key_encrypts by blast
  with True Decrypt_Encrypt [OF assms c] show ?thesis
    by (simp add: EncryptToString_def DecryptFromString_def hex_roundtrip)
qed (simp add: EncryptToString_def Encrypt_def NewCipher_def)

text \<open>
  C32: a generated token is accepted with its data exactly as long as its lifetime has not passed,
  and reported as expired afterwards.
\<close>

theorem token_roundtrip:
  assumes "primitives_ok p" "length iv = BlockSize" "length key \<in> {16, 24, 32}"
  shows "\<exists>s. GenerateToken p (Inr iv) created dat key = Inr s \<and>
    DecodeAndVerifyToken p now s key lifetime =
      Ret (if now \<le> created + lifetime then Inr dat else Inl (Crypto_err ErrTokenExpired))"
proof -
  let ?t = "\<lparr>Data = dat, CreatedAt = created\<rparr>"
  obtain c where "Encrypt p (Inr iv) (gob_encode p ?t @ hmac_sum p key (gob_encode p ?t)) key = Inr c"
    using valid_key_encrypts [OF assms(3)] by blast
  then have s: "SealToString p (Inr iv) (gob_encode p ?t) key = Inr (b64_encode c)"
    by (simp add: SealToString_def Seal_def)
  have "gob_decode p (gob_encode p ?t) = Inr ?t" using assms(1) by (simp add: primitives_ok_def)
  with UnsealFromString_SealToString [OF assms(1,2) s] s show ?thesis
    by (simp add: GenerateToken_def DecodeAndVerifyToken_def not_le)
qed

text \<open>
  C33: \<open>Unseal\<close> returns a text only when the cipher text holds this text and its authentication code
  under the key: anything else is refused, or makes it panic.
\<close>

theorem unseal_authentic:
  "Unseal p c key = Ret (Inr plain) \<longleftrightarrow>
     Decrypt p c key = Inr (plain @ hmac_sum p key plain) \<and> length (hmac_sum p key plain) = Size256"
proof
  assume "Unseal p c key = Ret (Inr plain)"
  then obtain m where m: "Decrypt p c key = Inr m" "\<not> length m < Size256"
    "hmac_sum p key (take (length m - Size256) m) = drop (length m - Size256) m" "plain = take (length m - Size256) m"
    by (auto simp: Unseal_def Let_def split: sum.splits if_splits)
  then show "Decrypt p c key = Inr (plain @ hmac_sum p key plain) \<and> length (hmac_sum p key plain) = Size256"
    by simp
qed (simp add: Unseal_def)

lemma length_cfb_decrypt: "block_fun E \<Longrightarrow> length (cfb_decrypt E prev c) = length c"
proof (induction E prev c rule: cfb_decrypt.induct)
  case (1 E prev c)
  then show ?case
    by (subst cfb_decrypt.simps) (simp add: block_fun_def min_def)
qed

text \<open>
  A cipher text that is long enough for \<open>Decrypt\<close> but shorter than an initialization vector and
  an authentication code, such as the texts that \<open>Encrypt\<close> makes of short messages, makes \<open>Unseal\<close>
  panic instead of returning \<open>ErrCorruptedMessage\<close>.
\<close>

theorem unseal_short_panics:
  assumes "primitives_ok p" "length key \<in> {16, 24, 32}" "BlockSize \<le> length c" "length c < BlockSize + Size256"
  shows "Unseal p c key = Panic"
proof -
  have "block_fun (aes_block p key)" using assms(1) by (simp add: primitives_ok_def)
  from length_cfb_decrypt [OF this] assms(2-4) show ?thesis
    by (auto simp: Unseal_def Decrypt_def NewCipher_def)
qed

text \<open>
  The hash of several arguments is the hash of their concatenation, so it does not tell where one
  argument ends and the next one begins.
\<close>

lemma hash_loop_strings: "hash_loop w (map String_arg ss) = Inr (w @ concat ss)"
  by (induction ss arbitrary: w) simp_all

lemma Hash_concat: "concat ss = concat ss' \<Longrightarrow> Hash p (map String_arg ss) = Hash p (map String_arg ss')"
  by (simp add: Hash_def hash_loop_strings)

lemma hex_encode_digits: "c \<in> set (hex_encode bs) \<Longrightarrow> hex_value c \<noteq> None"
proof -
  have "hex_value (hex_char (of_char b div 16)) \<noteq> None" "hex_value (hex_char (of_char b mod 16)) \<noteq> None" for b :: char
  proof -
    have "(of_char b :: nat) < 16 * 16" using of_char_bound [of b] by linarith
    then have "(of_char b :: nat) div 16 < 16" by (rule less_mult_imp_div_less)
    then show "hex_value (hex_char (of_char b div 16)) \<noteq> None" by (simp add: hex_value_char)
  qed (simp add: hex_value_char)
  then show "c \<in> set (hex_encode bs) \<Longrightarrow> hex_value c \<noteq> None" by (auto simp: hex_encode_def)
qed

text \<open>
  \<open>GenerateRandomString\<close> returns a string of exactly the given length of hexadecimal digits.
\<close>

theorem random_string_length:
  assumes "0 \<le> len" "\<forall>n. \<exists>bs. rnd n = Inr bs \<and> length bs = n"
  shows "\<exists>s. GenerateRandomString rnd len = Ret (Inr s) \<and> int (length s) = len \<and> list_all (\<lambda>c. hex_value c \<noteq> None) s"
proof -
  define size where "size = (if len mod 2 \<noteq> 0 then len + 1 else len)"
  obtain bs where bs: "rnd (nat size) = Inr bs" "length bs = nat size" using assms(2) by blast
  have "GenerateRandomString rnd len = Ret (Inr (take (nat len) (hex_encode bs)))"
    using assms(1) bs(1) by (simp add: GenerateRandomString_def size_def)
  moreover have "int (length (take (nat len) (hex_encode bs))) = len"
    using assms(1) bs(2) by (auto simp: size_def)
  moreover have "list_all (\<lambda>c. hex_value c \<noteq> None) (take (nat len) (hex_encode bs))"
    using hex_encode_digits by (auto simp: list_all_iff dest: in_set_takeD)
  ultimately show ?thesis by blast
qed

subsection \<open>Examples\<close>

text \<open>Primitives with the promised lengths, and a readable encoding of tokens.\<close>

definition sample_primitives :: primitives where
  "sample_primitives = \<lparr>
     aes_block = (\<lambda>key b. take BlockSize (map2 xor_char key b @ replicate BlockSize (CHR ''x''))),
     hmac_sum = (\<lambda>key m. take Size256 (m @ key @ replicate Size256 (CHR ''y''))),
     sha512_256 = (\<lambda>m. take Size256 (m @ replicate Size256 (CHR ''z''))),
     sha3_256 = (\<lambda>m. take Size256 (m @ replicate Size256 (CHR ''z''))),
     gob_encode = (\<lambda>t. (if CreatedAt t < 0 then CHR ''-'' else CHR ''+'') #
       replicate (nat \<bar>CreatedAt t\<bar>) (CHR ''1'') @ CHR '':'' # Data t),
     gob_decode = (\<lambda>s. case s of [] \<Rightarrow> Inl (Std_err EOF)
       | c # cs \<Rightarrow> let n = length (takeWhile (\<lambda>d. d = CHR ''1'') cs)
           in Inr \<lparr>Data = drop (n + 1) cs, CreatedAt = (if c = CHR ''-'' then - int n else int n)\<rparr>)\<rparr>"

lemma takeWhile_replicate: "x \<noteq> y \<Longrightarrow> takeWhile (\<lambda>d. d = x) (replicate n x @ y # ys) = replicate n x"
  by (induction n) simp_all

lemma primitives_ok_sample: "primitives_ok sample_primitives"
  by (simp add: primitives_ok_def sample_primitives_def block_fun_def takeWhile_replicate) linarith

definition ex_key :: bytes where
  "ex_key = PassphraseToKey sample_primitives ''secret''"

lemma length_ex_key [simp]: "length ex_key = 32"
  by (simp add: ex_key_def PassphraseToKey_def sample_primitives_def Size256_def)

theorem encrypt_roundtrip_witness:
  "\<exists>s. EncryptToString sample_primitives (Inr (replicate 16 (CHR ''v''))) ''hello'' ex_key = Inr s \<and>
     DecryptFromString sample_primitives s ex_key = Inr ''hello''"
  using encrypt_roundtrip [OF primitives_ok_sample, of "replicate 16 (CHR ''v'')" ex_key "''hello''"]
  by (simp add: BlockSize_def)

theorem token_roundtrip_witness:
  "\<exists>s. GenerateToken sample_primitives (Inr (replicate 16 (CHR ''v''))) 100 ''user'' ex_key = Inr s \<and>
     DecodeAndVerifyToken sample_primitives 111 s ex_key 10 = Ret (Inl (Crypto_err ErrTokenExpired))"
  using token_roundtrip [OF primitives_ok_sample, of "replicate 16 (CHR ''v'')" ex_key 100 "''user''" 111 10]
  by (simp add: BlockSize_def)

theorem unseal_short_panics_witness:
  "Unseal sample_primitives (replicate 20 (CHR ''c'')) ex_key = Panic"
  by (rule unseal_short_panics [OF primitives_ok_sample]) (simp_all add: BlockSize_def Size256_def)

theorem random_string_length_witness:
  "\<exists>s. GenerateRandomString (\<lambda>n. Inr (replicate n (CHR ''r''))) 7 = Ret (Inr s) \<and> int (length s) = 7 \<and>
     list_all (\<lambda>c. hex_value c \<noteq> None) s"
  by (rule random_string_length) simp_all

end
