(* ===== verification/Migrations.thy ===== *)
theory Migrations
  imports Setup_Tables Crypto Json
begin

section \<open>Database migrations\<close>

text \<open>
  \<open>pkg/db/migrations\<close>. The database is the list of recorded versions (the table
  \<open>migrations\<close>) and the world that the SQL files change: the state of the application and the
  tables of the queue. What an SQL text does to the world is the parameter \<open>sql\<close>; a text that
  fails changes nothing. \<open>assets\<close> gives the content of the file with a path; names of files hold
  no path separators. The number of attempts of \<open>backoff.Retry\<close> is the length of a list of
  environments. The pause before the preparation (\<open>GetJitter\<close>) is left out.
\<close>

record 'd world =
  app_state :: 'd
  queue_schema :: schema

record 'd mig_db =
  versions :: "string list"
  mig_world :: "'d world"

type_synonym assets = "string \<Rightarrow> error + string"
type_synonym 'd sql = "string \<Rightarrow> 'd world \<Rightarrow> error + 'd world"

subsection \<open>The statements\<close>

definition migrations_kind :: string where
  "migrations_kind = ''migrations''"

definition views_kind :: string where
  "views_kind = ''views''"

definition getSQL :: "string \<Rightarrow> string \<Rightarrow> assets \<Rightarrow> error + string" where
  "getSQL name kind assets =
     (case assets (''/'' @ kind @ ''/'' @ name) of Inl e \<Rightarrow> Inl (Wrap ''getSQL failed: '' e) | Inr s \<Rightarrow> Inr s)"

definition init_name :: string where
  "init_name = ''000_init.sql''"

definition sqlVersion :: "string \<Rightarrow> string \<Rightarrow> string" where
  "sqlVersion name hash = name @ ''_'' @ hash"

text \<open>The result of \<open>ExecContext\<close>, with the error of the connection if there is one.\<close>

definition run_sql :: "'d sql \<Rightarrow> error option \<Rightarrow> string \<Rightarrow> 'd world \<Rightarrow> error + 'd world" where
  "run_sql sql err stmt w = (case err of Some x \<Rightarrow> Inl x | None \<Rightarrow> sql stmt w)"

text \<open>
  \<open>backoff.Retry\<close>: the first attempt and the further ones that the plan allows, and the error of
  the context when it ended the waiting.
\<close>

fun retry_run :: "('e \<Rightarrow> 's \<Rightarrow> 's \<times> error option) \<Rightarrow> 'e \<Rightarrow> 'e list \<Rightarrow> error option \<Rightarrow> 's \<Rightarrow> 's \<times> error option" where
  "retry_run opn e [] stop s =
     (case opn e s of (s', None) \<Rightarrow> (s', None)
      | (s', Some x) \<Rightarrow> (s', Some (case stop of None \<Rightarrow> x | Some c \<Rightarrow> c)))"
| "retry_run opn e (e' # es) stop s =
     (case opn e s of (s', None) \<Rightarrow> (s', None) | (s', Some x) \<Rightarrow> retry_run opn e' es stop s')"

subsection \<open>Initialization\<close>

record init_env =
  in_exec_err :: "error option"
  in_setup :: setup_env

definition initialize ::
  "'d sql \<Rightarrow> (string list \<Rightarrow> string list) \<Rightarrow> assets \<Rightarrow> foreign_reference list option \<Rightarrow> init_env \<Rightarrow> 'd world
    \<Rightarrow> 'd world \<times> error option" where
  "initialize sql ord assets queueConfig e w =
     (case getSQL init_name migrations_kind assets of
        Inl x \<Rightarrow> (w, Some (Wrap ''can not read init statement: '' x))
      | Inr stmt \<Rightarrow>
        (case run_sql sql (in_exec_err e) stmt w of
           Inl x \<Rightarrow> (w, Some (Wrap ''init execution failed: '' x))
         | Inr w \<Rightarrow>
           (case queueConfig of None \<Rightarrow> (w, None)
            | Some references \<Rightarrow>
              let (s, err) = SetupTables ord (in_setup e) references (queue_schema w)
              in (w\<lparr>queue_schema := s\<rparr>, map_option (Wrap ''queue initialization failed: '') err))))"

subsection \<open>Migrations\<close>

record stmt_env =
  st_scan_err :: "error option"
  st_exec_err :: "error option"
  st_affected_err :: "error option"

text \<open>
  The versions are read from the database and not in the transaction; the texts are executed in it.
\<close>

fun migrate_loop ::
  "primitives \<Rightarrow> 'd sql \<Rightarrow> assets \<Rightarrow> string list \<Rightarrow> (nat \<Rightarrow> stmt_env) \<Rightarrow> nat \<Rightarrow> string list \<Rightarrow> 'd world
    \<Rightarrow> 'd world \<times> error option" where
  "migrate_loop p sql assets applied envs i [] w = (w, None)"
| "migrate_loop p sql assets applied envs i (stmtName # names) w =
     (case getSQL stmtName migrations_kind assets of
        Inl x \<Rightarrow> (w, Some (Wrap ''migration failed: '' x))
      | Inr stmt \<Rightarrow>
        (case HashToString p [String_arg stmt] of
           Inl x \<Rightarrow> (w, Some (errors_Wrap x ''can not hash sql statement''))
         | Inr hash \<Rightarrow>
           (case st_scan_err (envs i) of
              Some x \<Rightarrow> (w, Some (errors_Wrap x ''version hash scan err''))
            | None \<Rightarrow>
              if sqlVersion stmtName hash \<in> set applied
              then migrate_loop p sql assets applied envs (Suc i) names w
              else (case run_sql sql (st_exec_err (envs i)) stmt w of
                  Inl x \<Rightarrow> (w, Some (errors_Wrap x ''migration failed''))
                | Inr w \<Rightarrow>
                  (case st_affected_err (envs i) of
                     Some x \<Rightarrow> (w, Some (errors_Wrap x (''can'' @ [CHR 0x27] @ ''t count affected rows'')))
                   | None \<Rightarrow> migrate_loop p sql assets applied envs (Suc i) names w)))))"

text \<open>An error of the commit that says that the transaction is idle is dropped.\<close>

definition migrate ::
  "primitives \<Rightarrow> 'd sql \<Rightarrow> assets \<Rightarrow> string list \<Rightarrow> tx_env \<Rightarrow> (nat \<Rightarrow> stmt_env) \<Rightarrow> string list \<Rightarrow> 'd world
    \<Rightarrow> 'd world \<times> error option" where
  "migrate p sql assets applied tx envs list w =
     (case begin_err tx of Some x \<Rightarrow> (w, Some x)
      | None \<Rightarrow>
        (case migrate_loop p sql assets applied envs 0 list w of
           (w', None) \<Rightarrow>
             (case commit_err tx of None \<Rightarrow> (w', None)
              | Some x \<Rightarrow>
                if error_msg x = ''pq: unexpected transaction status idle'' then (w, None) else (w, Some x))
         | (w', Some x) \<Rightarrow>
             (w, Some (case rollback_err tx of None \<Rightarrow> x | Some r \<Rightarrow> errors_Wrap x (error_msg r)))))"

subsection \<open>Views\<close>

text \<open>
  The error of \<open>configureViews\<close> is declared again in the loop, and the result has no name: the
  deferred function always sees the nil error of \<open>BeginTx\<close>. So it always commits, and the error of
  the commit is lost. A transaction in which a statement failed is aborted: committing it rolls
  it back.
\<close>

fun views_loop ::
  "'d sql \<Rightarrow> assets \<Rightarrow> (nat \<Rightarrow> error option) \<Rightarrow> nat \<Rightarrow> string list \<Rightarrow> 'd world \<Rightarrow> 'd world option \<times> error option" where
  "views_loop sql assets errs i [] w = (Some w, None)"
| "views_loop sql assets errs i (stmtName # names) w =
     (case getSQL stmtName views_kind assets of
        Inl x \<Rightarrow> (Some w, Some (Wrap ''migration failed: '' x))
      | Inr stmt \<Rightarrow>
        (case run_sql sql (errs i) stmt w of
           Inl x \<Rightarrow> (None, Some (errors_Wrap x (''configure view failed at index '' @ nat_text i)))
         | Inr w \<Rightarrow> views_loop sql assets errs (Suc i) names w))"

record view_env =
  vw_tx :: tx_env
  vw_errs :: "nat \<Rightarrow> error option"

definition configureViews :: "'d sql \<Rightarrow> assets \<Rightarrow> string list \<Rightarrow> view_env \<Rightarrow> 'd world \<Rightarrow> 'd world \<times> error option" where
  "configureViews sql assets stmts e w =
     (case begin_err (vw_tx e) of Some x \<Rightarrow> (w, Some x)
      | None \<Rightarrow>
        let (work, err) = views_loop sql assets (vw_errs e) 0 stmts w
        in (case (work, commit_err (vw_tx e)) of (Some w', None) \<Rightarrow> w' | _ \<Rightarrow> w, err))"

subsection \<open>Preparing the database\<close>

record migration_config =
  MigrationStatements :: "string list"
  ViewStatements :: "string list"

record prepare_env =
  pe_table_err :: "error option"
  pe_index_err :: "error option"
  pe_tx :: tx_env
  pe_lock_err :: "error option"
  pe_scan_err :: "error option"
  pe_init_scan_err :: "error option"
  pe_init :: "init_env"
  pe_init_again :: "init_env list"
  pe_init_stop :: "error option"
  pe_save_init_err :: "error option"
  pe_migrate_tx :: tx_env
  pe_migrate :: "nat \<Rightarrow> stmt_env"
  pe_views :: view_env
  pe_views_again :: "view_env list"
  pe_views_stop :: "error option"
  pe_save_err :: "nat \<Rightarrow> error option"
  pe_insert_err :: "error option"

definition shouldRunInit :: "primitives \<Rightarrow> assets \<Rightarrow> error option \<Rightarrow> string list \<Rightarrow> error + bool" where
  "shouldRunInit p assets scan_err applied =
     (case getSQL init_name migrations_kind assets of
        Inl x \<Rightarrow> Inl (Wrap ''can not read init statement: '' x)
      | Inr stmt \<Rightarrow>
        (case HashToString p [String_arg stmt] of
           Inl x \<Rightarrow> Inl (Wrap ''init statement hash failed: '' x)
         | Inr hash \<Rightarrow>
           (case scan_err of Some x \<Rightarrow> Inl (Wrap ''version hash scan err: '' x)
            | None \<Rightarrow> Inr (sqlVersion init_name hash \<notin> set applied))))"

definition saveVersionHash :: "primitives \<Rightarrow> assets \<Rightarrow> error option \<Rightarrow> string \<Rightarrow> string list \<Rightarrow> error + string list" where
  "saveVersionHash p assets err name vs =
     (case getSQL name migrations_kind assets of
        Inl x \<Rightarrow> Inl (Wrap ''can not load sql statement: '' x)
      | Inr stmt \<Rightarrow>
        (case HashToString p [String_arg stmt] of
           Inl x \<Rightarrow> Inl (Wrap ''sql statement hash failed: '' x)
         | Inr hash \<Rightarrow>
           (case err of Some x \<Rightarrow> Inl (Wrap ''failed to save sql version: '' x)
            | None \<Rightarrow> Inr (if sqlVersion name hash \<in> set vs then vs else vs @ [sqlVersion name hash]))))"

fun saveVersions :: "primitives \<Rightarrow> assets \<Rightarrow> (nat \<Rightarrow> error option) \<Rightarrow> nat \<Rightarrow> string list \<Rightarrow> string list \<Rightarrow> error + string list" where
  "saveVersions p assets errs i [] vs = Inr vs"
| "saveVersions p assets errs i (name # names) vs =
     (case saveVersionHash p assets (errs i) name vs of Inl x \<Rightarrow> Inl x
      | Inr vs \<Rightarrow> saveVersions p assets errs (Suc i) names vs)"

text \<open>The last part: the record of the statements and of the version of the application.\<close>

definition record_versions ::
  "primitives \<Rightarrow> assets \<Rightarrow> migration_config \<Rightarrow> string \<Rightarrow> prepare_env \<Rightarrow> string list \<Rightarrow> error + string list" where
  "record_versions p assets config appVersion e vs =
     (case saveVersions p assets (pe_save_err e) 0 (MigrationStatements config) vs of Inl x \<Rightarrow> Inl x
      | Inr vs \<Rightarrow>
        (case pe_insert_err e of
           Some x \<Rightarrow> Inl (Wrap ''can not save app version to migration tracking: '' x)
         | None \<Rightarrow>
           if appVersion \<in> set vs
           then Inl (Wrap ''can not save app version to migration tracking: '' (Ext ''pq: duplicate key value''))
           else Inr (vs @ [appVersion])))"

definition migrate_and_views ::
  "primitives \<Rightarrow> 'd sql \<Rightarrow> assets \<Rightarrow> migration_config \<Rightarrow> string list \<Rightarrow> prepare_env \<Rightarrow> 'd world \<Rightarrow> 'd world \<times> error option" where
  "migrate_and_views p sql assets config applied e w =
     (case migrate p sql assets applied (pe_migrate_tx e) (pe_migrate e) (MigrationStatements config) w of
        (w, Some x) \<Rightarrow> (w, Some (New (''migrate err: '' @ error_msg x)))
      | (w, None) \<Rightarrow>
        (case retry_run (configureViews sql assets (ViewStatements config)) (pe_views e) (pe_views_again e) (pe_views_stop e) w of
           (w, Some x) \<Rightarrow> (w, Some (New (''configure views err: '' @ error_msg x)))
         | (w, None) \<Rightarrow> (w, None)))"

definition init_step ::
  "primitives \<Rightarrow> 'd sql \<Rightarrow> (string list \<Rightarrow> string list) \<Rightarrow> assets \<Rightarrow> foreign_reference list option \<Rightarrow> string list
    \<Rightarrow> prepare_env \<Rightarrow> 'd world \<Rightarrow> 'd world \<times> (error + string list)" where
  "init_step p sql ord assets queueConfig vs e w =
     (case shouldRunInit p assets (pe_init_scan_err e) vs of Inl x \<Rightarrow> (w, Inl x)
      | Inr run \<Rightarrow>
        if run then
          (case retry_run (initialize sql ord assets queueConfig) (pe_init e) (pe_init_again e) (pe_init_stop e) w of
             (w, Some x) \<Rightarrow> (w, Inl (New (''init err: '' @ error_msg x)))
           | (w, None) \<Rightarrow> (w, saveVersionHash p assets (pe_save_init_err e) init_name vs))
        else (w, Inr vs))"

text \<open>
  The body of the transaction: the world and the versions that the transaction holds at its
  end. A missing row leaves the scanned version empty.
\<close>

definition prepare_body ::
  "primitives \<Rightarrow> 'd sql \<Rightarrow> (string list \<Rightarrow> string list) \<Rightarrow> assets \<Rightarrow> migration_config \<Rightarrow> foreign_reference list option
    \<Rightarrow> string \<Rightarrow> prepare_env \<Rightarrow> 'd mig_db \<Rightarrow> 'd world \<times> (error + string list)" where
  "prepare_body p sql ord assets config queueConfig appVersion e d =
     (let w = mig_world d; vs = versions d
      in case pe_lock_err e of Some x \<Rightarrow> (w, Inl (New (''migrations table locked: '' @ error_msg x)))
      | None \<Rightarrow>
        (case pe_scan_err e of Some x \<Rightarrow> (w, Inl (New (''version scan err: '' @ error_msg x)))
         | None \<Rightarrow>
           let version = (if appVersion \<in> set vs then appVersion else [])
           in if version = appVersion then (w, Inr vs)
           else (case init_step p sql ord assets queueConfig vs e w of
               (w, Inl x) \<Rightarrow> (w, Inl x)
             | (w, Inr vs') \<Rightarrow>
               (case migrate_and_views p sql assets config vs e w of
                  (w, Some x) \<Rightarrow> (w, Inl x)
                | (w, None) \<Rightarrow> (w, record_versions p assets config appVersion e vs')))))"

definition PrepareDatabase ::
  "primitives \<Rightarrow> 'd sql \<Rightarrow> (string list \<Rightarrow> string list) \<Rightarrow> assets \<Rightarrow> migration_config \<Rightarrow> foreign_reference list option
    \<Rightarrow> string \<Rightarrow> prepare_env \<Rightarrow> 'd mig_db \<Rightarrow> 'd mig_db \<times> error option" where
  "PrepareDatabase p sql ord assets config queueConfig appVersion e d =
     (case pe_table_err e of Some x \<Rightarrow> (d, Some x)
      | None \<Rightarrow>
        (case pe_index_err e of Some x \<Rightarrow> (d, Some x)
         | None \<Rightarrow>
           (case begin_err (pe_tx e) of Some x \<Rightarrow> (d, Some x)
            | None \<Rightarrow>
              (case prepare_body p sql ord assets config queueConfig appVersion e d of
                 (w, Inl x) \<Rightarrow> (d\<lparr>mig_world := w\<rparr>, Some x)
               | (w, Inr vs) \<Rightarrow>
                 (case commit_err (pe_tx e) of
                    Some x \<Rightarrow> (d\<lparr>mig_world := w\<rparr>, Some x)
                  | None \<Rightarrow> (\<lparr>versions = vs, mig_world = w\<rparr>, None))))))"

subsection \<open>Which statements are executed\<close>

definition stmt_of :: "assets \<Rightarrow> string \<Rightarrow> string" where
  "stmt_of assets name = (case getSQL name migrations_kind assets of Inr s \<Rightarrow> s | Inl e \<Rightarrow> [])"

definition version_of :: "primitives \<Rightarrow> assets \<Rightarrow> string \<Rightarrow> string" where
  "version_of p assets name = sqlVersion name (hex_encode (sha3_256 p (stmt_of assets name)))"

text \<open>The statements whose present text is not recorded.\<close>

definition pending :: "primitives \<Rightarrow> assets \<Rightarrow> string list \<Rightarrow> string list \<Rightarrow> string list" where
  "pending p assets applied names = filter (\<lambda>n. version_of p assets n \<notin> set applied) names"

fun run_stmts :: "'d sql \<Rightarrow> string list \<Rightarrow> 'd world \<Rightarrow> 'd world option" where
  "run_stmts sql [] w = Some w"
| "run_stmts sql (s # ss) w = (case sql s w of Inl x \<Rightarrow> None | Inr w' \<Rightarrow> run_stmts sql ss w')"

lemma HashToString_text [simp]: "HashToString p [String_arg s] = Inr (hex_encode (sha3_256 p s))"
  by (simp add: HashToString_def Hash_def)

lemma getSQL_version:
  "getSQL name migrations_kind assets = Inr s \<Longrightarrow>
     stmt_of assets name = s \<and> version_of p assets name = sqlVersion name (hex_encode (sha3_256 p s))"
  by (simp add: stmt_of_def version_of_def)

lemma migrate_loop_ok:
  "migrate_loop p sql assets applied envs i names w = (w', None) \<Longrightarrow>
     run_stmts sql (map (stmt_of assets) (pending p assets applied names)) w = Some w'"
proof (induction names arbitrary: i w)
  case Nil
  then show ?case by (simp add: pending_def)
next
  case (Cons n names)
  from Cons.prems obtain s where s: "getSQL n migrations_kind assets = Inr s"
    by (cases "getSQL n migrations_kind assets") auto
  note v = getSQL_version [OF s, of p]
  from Cons.prems s have scan: "st_scan_err (envs i) = None" by (auto split: option.splits)
  show ?case
  proof (cases "version_of p assets n \<in> set applied")
    case True
    with Cons.prems s scan v have "migrate_loop p sql assets applied envs (Suc i) names w = (w', None)" by simp
    then show ?thesis using Cons.IH True by (simp add: pending_def)
  next
    case False
    with Cons.prems s scan v obtain w1 where "sql s w = Inr w1"
      "migrate_loop p sql assets applied envs (Suc i) names w1 = (w', None)"
      by (auto simp: run_sql_def split: sum.splits option.splits)
    with Cons.IH False v show ?thesis by (simp add: pending_def)
  qed
qed

lemma migrate_ok:
  assumes "migrate p sql assets applied tx envs names w = (w', None)" "commit_err tx = None"
  shows "run_stmts sql (map (stmt_of assets) (pending p assets applied names)) w = Some w'"
proof -
  from assms have "migrate_loop p sql assets applied envs 0 names w = (w', None)"
    by (auto simp: migrate_def split: option.splits prod.splits)
  then show ?thesis by (rule migrate_loop_ok)
qed

lemma saveVersionHash_ok:
  "saveVersionHash p assets err n vs = Inr vs' \<Longrightarrow> set vs' = insert (version_of p assets n) (set vs)"
  by (auto simp: saveVersionHash_def version_of_def stmt_of_def split: sum.splits option.splits if_splits)

lemma saveVersions_ok:
  "saveVersions p assets errs i names vs = Inr vs' \<Longrightarrow> set vs' = set vs \<union> version_of p assets ` set names"
proof (induction names arbitrary: i vs)
  case (Cons n names)
  from Cons.prems obtain vs1 where 1: "saveVersionHash p assets (errs i) n vs = Inr vs1"
    and 2: "saveVersions p assets errs (Suc i) names vs1 = Inr vs'"
    by (auto split: sum.splits)
  from Cons.IH [OF 2] saveVersionHash_ok [OF 1] show ?case by auto
qed simp

lemma record_versions_ok:
  "record_versions p assets config appVersion e vs = Inr vs' \<Longrightarrow>
     set vs' = set vs \<union> version_of p assets ` set (MigrationStatements config) \<union> {appVersion}"
  by (auto simp: record_versions_def dest: saveVersions_ok split: sum.splits option.splits if_splits)

text \<open>What a successful initialization step did.\<close>

lemma init_step_ok:
  assumes "init_step p sql ord assets qc vs e w = (w', Inr vs')"
  shows "set vs' = insert (version_of p assets init_name) (set vs) \<and>
    (if version_of p assets init_name \<in> set vs then w' = w
     else retry_run (initialize sql ord assets qc) (pe_init e) (pe_init_again e) (pe_init_stop e) w = (w', None))"
proof -
  from assms obtain run where run: "shouldRunInit p assets (pe_init_scan_err e) vs = Inr run"
    by (cases "shouldRunInit p assets (pe_init_scan_err e) vs") (simp_all add: init_step_def)
  then have v: "run \<longleftrightarrow> version_of p assets init_name \<notin> set vs"
    by (auto simp: shouldRunInit_def version_of_def stmt_of_def split: sum.splits option.splits)
  show ?thesis
  proof (cases run)
    case True
    with assms run have "retry_run (initialize sql ord assets qc) (pe_init e) (pe_init_again e) (pe_init_stop e) w = (w', None)"
      "saveVersionHash p assets (pe_save_init_err e) init_name vs = Inr vs'"
      by (auto simp: init_step_def split: prod.splits option.splits)
    with True v show ?thesis by (simp add: saveVersionHash_ok)
  next
    case False
    with assms run v show ?thesis by (auto simp: init_step_def)
  qed
qed

lemma migrate_and_views_ok:
  assumes "migrate_and_views p sql assets config applied e w = (w', None)"
  obtains w1 where "migrate p sql assets applied (pe_migrate_tx e) (pe_migrate e) (MigrationStatements config) w = (w1, None)"
    "retry_run (configureViews sql assets (ViewStatements config)) (pe_views e) (pe_views_again e) (pe_views_stop e) w1 = (w', None)"
  using assms by (auto simp: migrate_and_views_def split: prod.splits option.splits)

lemma PrepareDatabase_None:
  assumes "PrepareDatabase p sql ord assets config qc appVersion e d = (d', None)"
  shows "prepare_body p sql ord assets config qc appVersion e d = (mig_world d', Inr (versions d'))"
  using assms by (auto simp: PrepareDatabase_def split: option.splits prod.splits sum.splits)

lemma prepare_body_runs:
  assumes "prepare_body p sql ord assets config qc appVersion e d = (w', Inr vs')"
    and "appVersion \<notin> set (versions d)" "appVersion \<noteq> []"
  obtains w1 vs1 where "init_step p sql ord assets qc (versions d) e (mig_world d) = (w1, Inr vs1)"
    "migrate_and_views p sql assets config (versions d) e w1 = (w', None)"
    "record_versions p assets config appVersion e vs1 = Inr vs'"
  using assms by (auto simp: prepare_body_def Let_def split: option.splits prod.splits sum.splits)

lemma prepare_runs:
  assumes "PrepareDatabase p sql ord assets config qc appVersion e d = (d', None)"
    and "appVersion \<notin> set (versions d)" "appVersion \<noteq> []" "commit_err (pe_migrate_tx e) = None"
  shows "\<exists>w1 w2.
    (if version_of p assets init_name \<in> set (versions d) then w1 = mig_world d
     else retry_run (initialize sql ord assets qc) (pe_init e) (pe_init_again e) (pe_init_stop e) (mig_world d) = (w1, None)) \<and>
    run_stmts sql (map (stmt_of assets) (pending p assets (versions d) (MigrationStatements config))) w1 = Some w2 \<and>
    retry_run (configureViews sql assets (ViewStatements config)) (pe_views e) (pe_views_again e) (pe_views_stop e) w2 =
      (mig_world d', None) \<and>
    set (versions d) \<union> {appVersion} \<subseteq> set (versions d') \<and>
    pending p assets (versions d') (init_name # MigrationStatements config) = []"
proof -
  from prepare_body_runs [OF PrepareDatabase_None [OF assms(1)] assms(2,3)] obtain w1 vs1
    where init: "init_step p sql ord assets qc (versions d) e (mig_world d) = (w1, Inr vs1)"
      and mv: "migrate_and_views p sql assets config (versions d) e w1 = (mig_world d', None)"
      and rec: "record_versions p assets config appVersion e vs1 = Inr (versions d')"
    by metis
  from migrate_and_views_ok [OF mv] obtain w2
    where m: "migrate p sql assets (versions d) (pe_migrate_tx e) (pe_migrate e) (MigrationStatements config) w1 = (w2, None)"
      and v: "retry_run (configureViews sql assets (ViewStatements config)) (pe_views e) (pe_views_again e) (pe_views_stop e) w2 =
        (mig_world d', None)"
    by metis
  note i = init_step_ok [OF init]
  have set: "set (versions d') = insert (version_of p assets init_name) (set (versions d)) \<union>
      version_of p assets ` set (MigrationStatements config) \<union> {appVersion}"
    using record_versions_ok [OF rec] i by simp
  then have "pending p assets (versions d') (init_name # MigrationStatements config) = []"
    by (auto simp: pending_def filter_empty_conv)
  moreover have "set (versions d) \<union> {appVersion} \<subseteq> set (versions d')" using set by auto
  ultimately show ?thesis using i v migrate_ok [OF m assms(4)] by metis
qed

text \<open>
  C30: a successful preparation for a new version of the application initializes the database
  unless this text of the init file was executed before, executes exactly the migrations whose
  text is not recorded, once and in their order, then configures the views, and records the
  version and every migration: nothing is pending afterwards, also for later versions.
\<close>

theorem prepare_runs_pending_once:
  assumes "PrepareDatabase p sql ord assets config qc appVersion e d = (d', None)"
    and "appVersion \<notin> set (versions d)" "appVersion \<noteq> []" "commit_err (pe_migrate_tx e) = None"
  shows "\<exists>w1 w2.
    (if version_of p assets init_name \<in> set (versions d) then w1 = mig_world d
     else retry_run (initialize sql ord assets qc) (pe_init e) (pe_init_again e) (pe_init_stop e) (mig_world d) = (w1, None)) \<and>
    run_stmts sql (map (stmt_of assets) (pending p assets (versions d) (MigrationStatements config))) w1 = Some w2 \<and>
    retry_run (configureViews sql assets (ViewStatements config)) (pe_views e) (pe_views_again e) (pe_views_stop e) w2 =
      (mig_world d', None) \<and>
    set (versions d) \<union> {appVersion} \<subseteq> set (versions d') \<and>
    pending p assets (versions d') (init_name # MigrationStatements config) = []"
  by (rule prepare_runs [OF assms])

text \<open>
  A database that was prepared for a version is not changed by preparing it for this version
  again, whatever the statements and their texts are by then.
\<close>

theorem prepare_idempotent:
  assumes "PrepareDatabase p sql ord assets config qc appVersion e d = (d', None)"
    and "PrepareDatabase p' sql' ord' assets' config' qc' appVersion e' d' = (d'', err)"
  shows "d'' = d'"
proof -
  have same: "PrepareDatabase p' sql' ord' assets' config' qc' appVersion e' d' = (d'', err) \<Longrightarrow> d'' = d'"
    if "appVersion \<in> set (versions d') \<or> appVersion = []"
    using that unfolding PrepareDatabase_def prepare_body_def Let_def
    by (auto split: option.splits)
  show ?thesis
  proof (cases "appVersion \<in> set (versions d) \<or> appVersion = []")
    case True
    with PrepareDatabase_None [OF assms(1)] have "versions d' = versions d \<or> appVersion = []"
      by (auto simp: prepare_body_def Let_def split: option.splits)
    with True same assms(2) show ?thesis by auto
  next
    case False
    then obtain vs1 where "record_versions p assets config appVersion e vs1 = Inr (versions d')"
      using prepare_body_runs [OF PrepareDatabase_None [OF assms(1)]] by metis
    then have "appVersion \<in> set (versions d')" by (simp add: record_versions_ok)
    with same assms(2) show ?thesis by blast
  qed
qed

subsection \<open>Failures\<close>

text \<open>A preparation that fails records nothing.\<close>

lemma prepare_failure_keeps_versions:
  "PrepareDatabase p sql ord assets config qc appVersion e d = (d', Some x) \<Longrightarrow> versions d' = versions d"
  by (auto simp: PrepareDatabase_def split: option.splits prod.splits sum.splits)

text \<open>
  The error of the commit of the views is lost: with every view executed, \<open>configureViews\<close> returns
  no error although nothing of them is in the database.
\<close>

theorem views_commit_error_lost:
  assumes "begin_err (vw_tx e) = None" "commit_err (vw_tx e) = Some x"
    and "views_loop sql assets (vw_errs e) 0 stmts w = (Some w', None)"
  shows "configureViews sql assets stmts e w = (w, None)"
  using assms by (simp add: configureViews_def)

text \<open>
  When the file of a view cannot be read, the views before it are committed although an error is
  returned.
\<close>

theorem unreadable_view_commits_others:
  assumes "begin_err (vw_tx e) = None" "commit_err (vw_tx e) = None"
    and "views_loop sql assets (vw_errs e) 0 vs w = (Some w', None)" "getSQL v views_kind assets = Inl x"
  shows "configureViews sql assets (vs @ v # rest) e w = (w', Some (Wrap ''migration failed: '' x))"
proof -
  have "views_loop sql assets errs i (vs @ v # rest) w = (Some w', Some (Wrap ''migration failed: '' x))"
    if "views_loop sql assets errs i vs w = (Some w', None)" for errs i w
    using that assms(4)
    by (induction vs arbitrary: i w) (auto split: sum.splits)
  with assms(1-3) show ?thesis by (simp add: configureViews_def)
qed

text \<open>A database that logs the texts it executes, and files with short texts.\<close>

definition ex_sql_log :: "string list sql" where
  "ex_sql_log stmt w = Inr (w\<lparr>app_state := app_state w @ [stmt]\<rparr>)"

definition ex_assets :: assets where
  "ex_assets path =
     (if path = ''/migrations/000_init.sql'' then Inr ''INIT''
      else if path = ''/migrations/001.sql'' then Inr ''ALTER''
      else if path = ''/views/v.sql'' then Inr ''VIEW'' else Inl (Ext ''file does not exist''))"

definition ex_mig_config :: migration_config where
  "ex_mig_config = \<lparr>MigrationStatements = [''001.sql''], ViewStatements = [''v.sql'']\<rparr>"

definition ex_views :: "error option \<Rightarrow> view_env" where
  "ex_views err = \<lparr>vw_tx = tx_ok, vw_errs = (\<lambda>_. err)\<rparr>"

definition ex_prepare_env :: "error option \<Rightarrow> prepare_env" where
  "ex_prepare_env view_err = \<lparr>pe_table_err = None, pe_index_err = None, pe_tx = tx_ok, pe_lock_err = None,
     pe_scan_err = None, pe_init_scan_err = None,
     pe_init = \<lparr>in_exec_err = None, in_setup = ex_setup\<rparr>, pe_init_again = [], pe_init_stop = None,
     pe_save_init_err = None, pe_migrate_tx = tx_ok,
     pe_migrate = (\<lambda>_. \<lparr>st_scan_err = None, st_exec_err = None, st_affected_err = None\<rparr>),
     pe_views = ex_views view_err, pe_views_again = [], pe_views_stop = None,
     pe_save_err = (\<lambda>_. None), pe_insert_err = None\<rparr>"

definition ex_mig_db :: "string list mig_db" where
  "ex_mig_db = \<lparr>versions = [], mig_world = \<lparr>app_state = [], queue_schema = ex_schema\<rparr>\<rparr>"

definition ex_prepare :: "error option \<Rightarrow> string list mig_db \<Rightarrow> string list mig_db \<times> error option" where
  "ex_prepare view_err d =
     PrepareDatabase sample_primitives ex_sql_log (\<lambda>xs. xs) ex_assets ex_mig_config None ''v1'' (ex_prepare_env view_err) d"

definition ex_recorded :: "string list" where
  "ex_recorded = [version_of sample_primitives ex_assets init_name, version_of sample_primitives ex_assets ''001.sql'', ''v1'']"

lemma ex_stmts:
  "getSQL init_name migrations_kind ex_assets = Inr ''INIT''"
  "getSQL ''001.sql'' migrations_kind ex_assets = Inr ''ALTER''"
  "getSQL ''v.sql'' views_kind ex_assets = Inr ''VIEW''"
  by code_simp+

lemma ex_versions:
  "sqlVersion init_name (hex_encode (sha3_256 p ''INIT'')) = version_of p ex_assets init_name"
  "sqlVersion ''001.sql'' (hex_encode (sha3_256 p ''ALTER'')) = version_of p ex_assets ''001.sql''"
  using getSQL_version [OF ex_stmts(1), of p] getSQL_version [OF ex_stmts(2), of p] by simp_all

lemma ex_versions_differ:
  "version_of sample_primitives ex_assets init_name \<noteq> version_of sample_primitives ex_assets ''001.sql''"
  "version_of sample_primitives ex_assets init_name \<noteq> ''v1''"
  "version_of sample_primitives ex_assets ''001.sql'' \<noteq> ''v1''"
  by (simp_all add: version_of_def sqlVersion_def init_name_def)

lemma nat_text_0: "nat_text 0 = ''0''"
  by code_simp

lemma ex_prepare_eq:
  "ex_prepare err \<lparr>versions = [], mig_world = \<lparr>app_state = log, queue_schema = s\<rparr>\<rparr> =
     (case err of
        None \<Rightarrow> (\<lparr>versions = ex_recorded, mig_world = \<lparr>app_state = log @ [''INIT'', ''ALTER'', ''VIEW''], queue_schema = s\<rparr>\<rparr>, None)
      | Some x \<Rightarrow> (\<lparr>versions = [], mig_world = \<lparr>app_state = log @ [''INIT'', ''ALTER''], queue_schema = s\<rparr>\<rparr>,
          Some (New (''configure views err: configure view failed at index 0: '' @ error_msg x))))"
  unfolding ex_prepare_def PrepareDatabase_def prepare_body_def init_step_def migrate_and_views_def record_versions_def
  using ex_versions_differ
  by (simp add: ex_prepare_env_def tx_ok_def shouldRunInit_def ex_stmts initialize_def run_sql_def ex_sql_log_def
      ex_mig_config_def migrate_def configureViews_def ex_views_def saveVersionHash_def ex_recorded_def
      ex_versions
      errors_Wrap_def nat_text_0 split: option.splits)

text \<open>
  C31: The migrations are committed before they are recorded. For any database, statements and files: when
  the initialization and the migrations for a new version succeed and then the views fail, the preparation returns
  an error, what the statements did stays, and nothing is recorded. So whenever a later
  preparation for this version succeeds, it has executed the same statements a second time, upon what
  the first execution left, and also the init file again unless it was recorded before.
\<close>

theorem failed_views_repeat_migrations:
  assumes "appVersion \<notin> set (versions d)" "appVersion \<noteq> []"
    and "pe_table_err e = None" "pe_index_err e = None" "begin_err (pe_tx e) = None" "pe_lock_err e = None" "pe_scan_err e = None"
    and init: "init_step p sql ord assets qc (versions d) e (mig_world d) = (w1, Inr vs1)"
    and migrated: "migrate p sql assets (versions d) (pe_migrate_tx e) (pe_migrate e) (MigrationStatements config) w1 = (w2, None)"
    and committed: "commit_err (pe_migrate_tx e) = None"
    and views: "retry_run (configureViews sql assets (ViewStatements config)) (pe_views e) (pe_views_again e) (pe_views_stop e) w2 = (w3, Some y)"
  defines "todo \<equiv> map (stmt_of assets) (pending p assets (versions d) (MigrationStatements config))"
  shows "\<exists>d1 x. PrepareDatabase p sql ord assets config qc appVersion e d = (d1, Some x) \<and>
    versions d1 = versions d \<and> run_stmts sql todo w1 = Some w2 \<and> mig_world d1 = w3 \<and>
    (\<forall>e' d2. PrepareDatabase p sql ord assets config qc appVersion e' d1 = (d2, None) \<longrightarrow> commit_err (pe_migrate_tx e') = None \<longrightarrow>
      (\<exists>w1' w2'. (if version_of p assets init_name \<in> set (versions d) then w1' = w3
          else retry_run (initialize sql ord assets qc) (pe_init e') (pe_init_again e') (pe_init_stop e') w3 = (w1', None)) \<and>
        run_stmts sql todo w1' = Some w2'))"
proof -
  let ?d1 = "d\<lparr>mig_world := w3\<rparr>"
  have "prepare_body p sql ord assets config qc appVersion e d = (w3, Inl (New (''configure views err: '' @ error_msg y)))"
    using assms(1,2,6,7) init migrated views by (simp add: prepare_body_def migrate_and_views_def)
  then have "PrepareDatabase p sql ord assets config qc appVersion e d = (?d1, Some (New (''configure views err: '' @ error_msg y)))"
    using assms(3-5) by (simp add: PrepareDatabase_def)
  moreover have "run_stmts sql todo w1 = Some w2" unfolding todo_def by (rule migrate_ok [OF migrated committed])
  moreover have "\<exists>w1' w2'. (if version_of p assets init_name \<in> set (versions d) then w1' = w3
        else retry_run (initialize sql ord assets qc) (pe_init e') (pe_init_again e') (pe_init_stop e') w3 = (w1', None)) \<and>
      run_stmts sql todo w1' = Some w2'"
    if "PrepareDatabase p sql ord assets config qc appVersion e' ?d1 = (d2, None)" "commit_err (pe_migrate_tx e') = None" for e' d2
    using prepare_runs [OF that(1) _ assms(2) that(2)] assms(1) unfolding todo_def by fastforce
  ultimately show ?thesis by (intro exI [of _ ?d1]) auto
qed

text \<open>In the example the texts are executed twice.\<close>

theorem failed_views_repeat_migrations_witness:
  "\<exists>d1 d2 err. ex_prepare (Some (Ext ''pq: syntax error'')) ex_mig_db = (d1, Some err) \<and> versions d1 = [] \<and>
     app_state (mig_world d1) = [''INIT'', ''ALTER''] \<and> ex_prepare None d1 = (d2, None) \<and>
     app_state (mig_world d2) = [''INIT'', ''ALTER'', ''INIT'', ''ALTER'', ''VIEW'']"
proof -
  let ?x = "Ext ''pq: syntax error''" and ?p = sample_primitives and ?d = ex_mig_db
  let ?e = "ex_prepare_env (Some ?x)" and ?ord = "\<lambda>xs :: string list. xs"
  let ?w1 = "(mig_world ?d)\<lparr>app_state := [''INIT'']\<rparr>" and ?w2 = "(mig_world ?d)\<lparr>app_state := [''INIT'', ''ALTER'']\<rparr>"
  have c: "''v1'' \<notin> set (versions ?d)" "''v1'' \<noteq> ([] :: string)" "pe_table_err ?e = None" "pe_index_err ?e = None"
    "begin_err (pe_tx ?e) = None" "pe_lock_err ?e = None" "pe_scan_err ?e = None" "commit_err (pe_migrate_tx ?e) = None"
    by (simp_all add: ex_mig_db_def ex_prepare_env_def tx_ok_def)
  have i: "init_step ?p ex_sql_log ?ord ex_assets None (versions ?d) ?e (mig_world ?d) = (?w1, Inr [version_of ?p ex_assets init_name])"
    by (simp add: init_step_def ex_prepare_env_def shouldRunInit_def ex_stmts initialize_def run_sql_def ex_sql_log_def
        ex_mig_db_def saveVersionHash_def ex_versions)
  have m: "migrate ?p ex_sql_log ex_assets (versions ?d) (pe_migrate_tx ?e) (pe_migrate ?e) (MigrationStatements ex_mig_config) ?w1 = (?w2, None)"
    by (simp add: migrate_def ex_prepare_env_def tx_ok_def ex_mig_config_def ex_mig_db_def ex_stmts run_sql_def ex_sql_log_def)
  have v: "\<exists>y. retry_run (configureViews ex_sql_log ex_assets (ViewStatements ex_mig_config)) (pe_views ?e) (pe_views_again ?e) (pe_views_stop ?e) ?w2 =
      (?w2, Some y)"
    by (simp add: ex_prepare_env_def ex_views_def configureViews_def tx_ok_def ex_mig_config_def ex_stmts run_sql_def)
  then obtain y where v: "retry_run (configureViews ex_sql_log ex_assets (ViewStatements ex_mig_config)) (pe_views ?e) (pe_views_again ?e) (pe_views_stop ?e) ?w2 =
      (?w2, Some y)" by blast
  obtain d1 x where d1: "PrepareDatabase ?p ex_sql_log ?ord ex_assets ex_mig_config None ''v1'' ?e ?d = (d1, Some x)"
    "versions d1 = versions ?d" "mig_world d1 = ?w2"
    using failed_views_repeat_migrations [OF c(1-7) i m c(8) v] by blast
  have "d1 = \<lparr>versions = [], mig_world = \<lparr>app_state = [''INIT'', ''ALTER''], queue_schema = ex_schema\<rparr>\<rparr>"
    using d1(2,3) by (simp add: ex_mig_db_def)
  then show ?thesis using d1(1) ex_prepare_eq [of None "[''INIT'', ''ALTER'']" ex_schema] by (simp add: ex_prepare_def [symmetric])
qed

theorem prepare_runs_pending_once_witness:
  "\<exists>d'. ex_prepare None ex_mig_db = (d', None) \<and>
     pending sample_primitives ex_assets (versions d') (init_name # MigrationStatements ex_mig_config) = [] \<and>
     ''v1'' \<in> set (versions d')"
proof -
  obtain d' where d': "ex_prepare None ex_mig_db = (d', None)" by (simp add: ex_mig_db_def ex_prepare_eq)
  note prepare_runs_pending_once [OF d' [unfolded ex_prepare_def]]
  then have "pending sample_primitives ex_assets (versions d') (init_name # MigrationStatements ex_mig_config) = [] \<and>
     ''v1'' \<in> set (versions d')"
    by (auto simp: ex_mig_db_def ex_prepare_env_def tx_ok_def)
  with d' show ?thesis by blast
qed

theorem prepare_idempotent_witness:
  "\<exists>d' d'' err. ex_prepare None ex_mig_db = (d', None) \<and> ex_prepare None d' = (d'', err) \<and> d'' = d'"
proof -
  obtain d' where d': "ex_prepare None ex_mig_db = (d', None)" by (simp add: ex_mig_db_def ex_prepare_eq)
  obtain d'' err where d'': "ex_prepare None d' = (d'', err)" by (cases "ex_prepare None d'")
  from prepare_idempotent [OF d' [unfolded ex_prepare_def] d'' [unfolded ex_prepare_def]] d' d'' show ?thesis by blast
qed

definition ex_commit_fails :: view_env where
  "ex_commit_fails = \<lparr>vw_tx = tx_ok\<lparr>commit_err := Some (Ext ''connection lost'')\<rparr>, vw_errs = (\<lambda>_. None)\<rparr>"

theorem views_commit_error_lost_witness:
  "configureViews ex_sql_log ex_assets [''v.sql''] ex_commit_fails (mig_world ex_mig_db) = (mig_world ex_mig_db, None)"
  by (rule views_commit_error_lost) (simp_all add: ex_commit_fails_def tx_ok_def ex_stmts run_sql_def ex_sql_log_def)

theorem unreadable_view_commits_others_witness:
  "configureViews ex_sql_log ex_assets ([''v.sql''] @ ''missing'' # []) (ex_views None) (mig_world ex_mig_db) =
     ((mig_world ex_mig_db)\<lparr>app_state := [''VIEW'']\<rparr>,
      Some (Wrap ''migration failed: '' (Wrap ''getSQL failed: '' (Ext ''file does not exist''))))"
  by (rule unreadable_view_commits_others)
    (simp_all add: ex_views_def tx_ok_def ex_stmts run_sql_def ex_sql_log_def ex_mig_db_def getSQL_def ex_assets_def views_kind_def)

text \<open>
  An application without a version is never migrated: the missing row reads as the empty version,
  which is taken for a match.
\<close>

theorem empty_version_never_migrates:
  "versions (fst (PrepareDatabase p sql ord assets config qc [] e d)) = versions d \<and>
   mig_world (fst (PrepareDatabase p sql ord assets config qc [] e d)) = mig_world d"
  by (simp add: PrepareDatabase_def prepare_body_def Let_def split: option.splits)

end
