(* ===== verification/Union_FS.thy ===== *)
theory Union_FS
  imports Migrations "HOL-Library.Multiset"
begin

section \<open>The union file system\<close>

text \<open>
  \<open>pkg/fileutils/union\<close> and \<open>pkg/db/migrations/assets.go\<close>. A file system opens a path and yields a file
  or an error. The map of mount points is the list of its entries in the order in which it is
  visited; the results hold for every order.
\<close>

type_synonym 'f file_system = "string \<Rightarrow> error + 'f"

record 'f unionFS =
  ns :: "(string \<times> 'f file_system) list"
  root_entries :: "string list"

definition not_exist :: "string \<Rightarrow> error" where
  "not_exist path = Ext (''open '' @ path @ '': file does not exist'')"

text \<open>The mount point of the empty name makes the slice expression panic.\<close>

definition bind :: "string \<Rightarrow> 'f file_system \<Rightarrow> 'f unionFS \<Rightarrow> 'f unionFS outcome" where
  "bind mountPoint fs u =
     (if mountPoint = [] then Panic
      else Ret \<lparr>ns = ns u @ [(mountPoint, fs)], root_entries = root_entries u @ [tl mountPoint]\<rparr>)"

fun bind_all :: "(string \<times> 'f file_system) list \<Rightarrow> 'f unionFS \<Rightarrow> 'f unionFS outcome" where
  "bind_all [] u = Ret u"
| "bind_all ((mountPoint, fs) # mapping) u =
     (case bind mountPoint fs u of Panic \<Rightarrow> Panic | Ret u \<Rightarrow> bind_all mapping u)"

definition union_New :: "(string \<times> 'f file_system) list \<Rightarrow> 'f unionFS outcome" where
  "union_New mapping = bind_all mapping \<lparr>ns = [], root_entries = []\<rparr>"

datatype 'f union_file = Root_dir "string list" | File 'f

fun open_mounted :: "(string \<times> 'f file_system) list \<Rightarrow> string \<Rightarrow> error + 'f union_file" where
  "open_mounted [] path = Inl (not_exist path)"
| "open_mounted ((prefix, fs) # rest) path =
     (if path = prefix \<or> has_prefix path (prefix @ ''/'')
      then let innerPath = drop (length prefix) path;
               innerPath = (if innerPath = [] then ''/'' else innerPath)
           in (case fs innerPath of Inl e \<Rightarrow> Inl e | Inr f \<Rightarrow> Inr (File f))
      else open_mounted rest path)"

definition union_Open :: "'f unionFS \<Rightarrow> string \<Rightarrow> error + 'f union_file" where
  "union_Open u path = (if path = ''/'' then Inr (Root_dir (root_entries u)) else open_mounted (ns u) path)"

text \<open>An opened directory with its position.\<close>

record dir =
  dir_name :: string
  dir_entries :: "string list"
  dir_pos :: nat

definition dir_Seek :: "int \<Rightarrow> int \<Rightarrow> dir \<Rightarrow> dir \<times> error option" where
  "dir_Seek offset whence d =
     (if offset = 0 \<and> whence = 0 then (d\<lparr>dir_pos := 0\<rparr>, None)
      else (d, Some (New (''unsupported Seek in directory '' @ dir_name d))))"

definition Readdir :: "int \<Rightarrow> dir \<Rightarrow> dir \<times> (error + string list)" where
  "Readdir cnt d =
     (let left = length (dir_entries d) - dir_pos d
      in if length (dir_entries d) \<le> dir_pos d \<and> cnt > 0 then (d, Inl (Std_err EOF))
      else let n = (if cnt \<le> 0 \<or> cnt > int left then left else nat cnt)
      in (d\<lparr>dir_pos := dir_pos d + n\<rparr>, Inr (take n (drop (dir_pos d) (dir_entries d)))))"

definition dir_Read :: "dir \<Rightarrow> error" where
  "dir_Read d = New (''cannot Read from directory '' @ dir_name d)"

definition NewSQLAssets :: "'f file_system \<Rightarrow> 'f file_system \<Rightarrow> 'f unionFS outcome" where
  "NewSQLAssets migs views = union_New [(''/migrations'', migs), (''/views'', views)]"

subsection \<open>Mount points\<close>

text \<open>The form that the documentation asks for: a slash and the name of one directory.\<close>

definition mount_point :: "string \<Rightarrow> bool" where
  "mount_point m \<longleftrightarrow> (\<exists>name. m = CHR ''/'' # name \<and> name \<noteq> [] \<and> CHR ''/'' \<notin> set name)"

definition mounted_at :: "string \<Rightarrow> string \<Rightarrow> bool" where
  "mounted_at m path \<longleftrightarrow> path = m \<or> has_prefix path (m @ ''/'')"

lemma mounted_at_takeWhile:
  assumes "mount_point m" "mounted_at m path"
  shows "m = CHR ''/'' # takeWhile (\<lambda>c. c \<noteq> CHR ''/'') (tl path)"
proof -
  from assms(1) obtain name where m: "m = CHR ''/'' # name" "CHR ''/'' \<notin> set name" by (auto simp: mount_point_def)
  have *: "takeWhile (\<lambda>c. c \<noteq> CHR ''/'') (name @ ys) = name @ takeWhile (\<lambda>c. c \<noteq> CHR ''/'') ys" for ys
    using m(2) by (intro takeWhile_append2) auto
  from assms(2) consider "path = m" | t where "path = m @ CHR ''/'' # t"
    by (auto simp: mounted_at_def has_prefix_iff)
  then show ?thesis
  proof cases
    case 1
    have "takeWhile (\<lambda>c. c \<noteq> CHR ''/'') name = name" using m(2) by (auto simp: takeWhile_eq_all_conv)
    from this [symmetric] show ?thesis using m(1) 1 by simp
  next
    case (2 t)
    then show ?thesis using m(1) * [of "CHR ''/'' # t"] by simp
  qed
qed

lemma open_mounted_unique:
  assumes "\<forall>(m, fs) \<in> set mapping. mount_point m" "(m, fs) \<in> set mapping" "distinct (map fst mapping)" "mounted_at m path"
  shows "open_mounted mapping path =
    (case fs (if path = m then ''/'' else drop (length m) path) of Inl e \<Rightarrow> Inl e | Inr f \<Rightarrow> Inr (File f))"
  using assms
proof (induction mapping)
  case (Cons a mapping)
  obtain p g where a: "a = (p, g)" by (cases a)
  have p: "mount_point p" "mount_point m" using Cons.prems(1,2) a by auto
  show ?case
  proof (cases "mounted_at p path")
    case True
    from mounted_at_takeWhile [OF p(1) True] mounted_at_takeWhile [OF p(2) Cons.prems(4)] have pm: "p = m" by simp
    with Cons.prems(3) a have "m \<notin> fst ` set mapping" by simp
    with Cons.prems(2) a pm have "g = fs" by (auto simp: image_iff)
    with pm True a show ?thesis
      by (auto simp: mounted_at_def Let_def has_prefix_iff)
  next
    case False
    with Cons.prems(2,4) a have "(m, fs) \<in> set mapping" by auto
    with Cons False a show ?thesis by (auto simp: mounted_at_def)
  qed
qed simp

lemma open_mounted_none:
  "\<forall>(m, fs) \<in> set mapping. \<not> mounted_at m path \<Longrightarrow> open_mounted mapping path = Inl (not_exist path)"
  by (induction mapping) (auto simp: mounted_at_def)

lemma bind_all_eq:
  "\<forall>(m, fs) \<in> set mapping. m \<noteq> [] \<Longrightarrow>
   bind_all mapping u = Ret \<lparr>ns = ns u @ mapping, root_entries = root_entries u @ map (tl \<circ> fst) mapping\<rparr>"
  by (induction mapping arbitrary: u) (auto simp: bind_def)

lemma union_New_eq:
  "\<forall>(m, fs) \<in> set mapping. mount_point m \<Longrightarrow> union_New mapping = Ret \<lparr>ns = mapping, root_entries = map (tl \<circ> fst) mapping\<rparr>"
  unfolding union_New_def by (subst bind_all_eq) (auto simp: mount_point_def)

text \<open>Opening does not depend on the order in which Go visits the map.\<close>

lemma open_mounted_order:
  assumes "\<forall>(m, fs) \<in> set mapping. mount_point m" "distinct (map fst mapping)" "mset mapping' = mset mapping"
  shows "open_mounted mapping' path = open_mounted mapping path"
proof -
  have set: "set mapping' = set mapping" using assms(3) by (rule mset_eq_setD)
  have dist: "distinct (map fst mapping')" using assms(2,3) by (metis mset_eq_imp_distinct_iff mset_map)
  show ?thesis
  proof (cases "\<exists>(m, fs) \<in> set mapping. mounted_at m path")
    case True
    then obtain m fs where "(m, fs) \<in> set mapping" "mounted_at m path" by auto
    with assms(1,2) set dist show ?thesis
      by (simp add: open_mounted_unique [where m = m and fs = fs])
  next
    case False
    then have none: "\<forall>(m, fs) \<in> set mapping. \<not> mounted_at m path" by auto
    then show ?thesis using open_mounted_none [of mapping path] open_mounted_none [of mapping' path] set by simp
  qed
qed

text \<open>
  C35: Opening in a union of file systems. The constructor succeeds when every mount point is a
  slash with the name of one directory. A path below a mount point is opened in the file system
  mounted there, and in no other one, with the rest of the path; a path below no mount point does
  not exist; and the root lists the mounted directories. This holds whatever the order in which
  the map of mount points is visited, both when it is built and when a path is opened.
\<close>

theorem union_opens_the_mounted_fs:
  assumes "\<forall>(m, fs) \<in> set mapping. mount_point m" "distinct (map fst mapping)"
  shows "\<exists>u. union_New mapping = Ret u \<and>
    union_Open u ''/'' = Inr (Root_dir (map (tl \<circ> fst) mapping)) \<and>
    (\<forall>order. mset order = mset mapping \<longrightarrow>
      (\<forall>m fs rest. (m, fs) \<in> set mapping \<longrightarrow>
        union_Open (u\<lparr>ns := order\<rparr>) m = (case fs ''/'' of Inl e \<Rightarrow> Inl e | Inr f \<Rightarrow> Inr (File f)) \<and>
        union_Open (u\<lparr>ns := order\<rparr>) (m @ ''/'' @ rest) = (case fs (''/'' @ rest) of Inl e \<Rightarrow> Inl e | Inr f \<Rightarrow> Inr (File f))) \<and>
      (\<forall>path. path \<noteq> ''/'' \<longrightarrow> (\<forall>(m, fs) \<in> set mapping. \<not> mounted_at m path) \<longrightarrow>
        union_Open (u\<lparr>ns := order\<rparr>) path = Inl (not_exist path)))"
proof (intro exI conjI allI impI)
  show "union_New mapping = Ret \<lparr>ns = mapping, root_entries = map (tl \<circ> fst) mapping\<rparr>"
    by (rule union_New_eq [OF assms(1)])
  fix order m fs rest
  assume order: "mset order = mset mapping" and m: "(m, fs) \<in> set mapping"
  have len: "2 \<le> length m" using m assms(1) by (auto simp: mount_point_def neq_Nil_conv)
  note unique = open_mounted_unique [OF assms(1) m assms(2), folded open_mounted_order [OF assms order]]
  show "union_Open (\<lparr>ns = mapping, root_entries = map (tl \<circ> fst) mapping\<rparr>\<lparr>ns := order\<rparr>) m =
    (case fs ''/'' of Inl e \<Rightarrow> Inl e | Inr f \<Rightarrow> Inr (File f))"
    using len unique [of m] by (auto simp: union_Open_def mounted_at_def)
  have "m @ ''/'' @ rest \<noteq> ''/''" using len by (cases m) auto
  then show "union_Open (\<lparr>ns = mapping, root_entries = map (tl \<circ> fst) mapping\<rparr>\<lparr>ns := order\<rparr>) (m @ ''/'' @ rest) =
    (case fs (''/'' @ rest) of Inl e \<Rightarrow> Inl e | Inr f \<Rightarrow> Inr (File f))"
    using unique [of "m @ ''/'' @ rest"] by (simp add: union_Open_def mounted_at_def has_prefix_iff)
next
  fix order path
  assume order: "mset order = mset mapping" and "path \<noteq> ''/''" "\<forall>(m, fs) \<in> set mapping. \<not> mounted_at m path"
  then show "union_Open (\<lparr>ns = mapping, root_entries = map (tl \<circ> fst) mapping\<rparr>\<lparr>ns := order\<rparr>) path = Inl (not_exist path)"
    by (simp add: union_Open_def open_mounted_order [OF assms order] open_mounted_none)
qed (simp add: union_Open_def)

subsection \<open>The assets of the migrations\<close>

text \<open>Opening and reading a file, as \<open>getSQL\<close> does it.\<close>

definition read_assets :: "string unionFS \<Rightarrow> assets" where
  "read_assets u path =
     (case union_Open u path of Inl e \<Rightarrow> Inl e
      | Inr (File s) \<Rightarrow> Inr s
      | Inr (Root_dir entries) \<Rightarrow> Inl (dir_Read \<lparr>dir_name = ''/'', dir_entries = entries, dir_pos = 0\<rparr>))"

lemma read_assets_File:
  "union_Open u path = (case r of Inl e \<Rightarrow> Inl e | Inr f \<Rightarrow> Inr (File f)) \<Longrightarrow> read_assets u path = r"
  by (cases r) (simp_all add: read_assets_def)

definition ex_mounts :: "(string \<times> string file_system) list" where
  "ex_mounts = [(''/migrations'', \<lambda>p. if p = ''/a.sql'' then Inr ''A'' else Inl (not_exist p)), (''/views'', \<lambda>p. Inl (not_exist p))]"

lemma mount_point_assets: "mount_point ''/migrations''" "mount_point ''/views''"
  by (simp_all add: mount_point_def)

theorem union_opens_the_mounted_fs_witness:
  "\<exists>u. union_New ex_mounts = Ret u \<and> union_Open (u\<lparr>ns := rev ex_mounts\<rparr>) ''/migrations/a.sql'' = Inr (File ''A'') \<and>
    union_Open (u\<lparr>ns := rev ex_mounts\<rparr>) ''/migrations2/a.sql'' = Inl (not_exist ''/migrations2/a.sql'')"
proof -
  have "\<forall>(m, fs) \<in> set ex_mounts. mount_point m" "distinct (map fst ex_mounts)"
    using mount_point_assets by (simp_all add: ex_mounts_def)
  from union_opens_the_mounted_fs [OF this] obtain u where u: "union_New ex_mounts = Ret u"
    and *: "\<And>order. mset order = mset ex_mounts \<longrightarrow>
      (\<forall>m fs rest. (m, fs) \<in> set ex_mounts \<longrightarrow>
        union_Open (u\<lparr>ns := order\<rparr>) m = (case fs ''/'' of Inl e \<Rightarrow> Inl e | Inr f \<Rightarrow> Inr (File f)) \<and>
        union_Open (u\<lparr>ns := order\<rparr>) (m @ ''/'' @ rest) = (case fs (''/'' @ rest) of Inl e \<Rightarrow> Inl e | Inr f \<Rightarrow> Inr (File f))) \<and>
      (\<forall>path. path \<noteq> ''/'' \<longrightarrow> (\<forall>(m, fs) \<in> set ex_mounts. \<not> mounted_at m path) \<longrightarrow>
        union_Open (u\<lparr>ns := order\<rparr>) path = Inl (not_exist path))"
    by blast
  have fs: "(''/migrations'', \<lambda>p. if p = ''/a.sql'' then Inr ''A'' else Inl (not_exist p)) \<in> set ex_mounts"
    by (simp add: ex_mounts_def)
  have "union_Open (u\<lparr>ns := rev ex_mounts\<rparr>) (''/migrations'' @ ''/'' @ ''a.sql'') = Inr (File ''A'')"
    using * [of "rev ex_mounts"] fs by fastforce
  moreover have "union_Open (u\<lparr>ns := rev ex_mounts\<rparr>) ''/migrations2/a.sql'' = Inl (not_exist ''/migrations2/a.sql'')"
    using * [of "rev ex_mounts"] by (simp add: ex_mounts_def mounted_at_def)
  ultimately show ?thesis using u by simp
qed

text \<open>
  The statements of the migrations and of the views come from their own file systems:
  \<open>getSQL\<close> on the assets made by \<open>NewSQLAssets\<close> reads the file of that name in the file system of
  that kind and in no other one, and a statement of another kind does not exist.
\<close>

theorem NewSQLAssets_separates:
  "\<exists>u. NewSQLAssets migs views = Ret u \<and>
    getSQL name migrations_kind (read_assets u) =
      (case migs (''/'' @ name) of Inl e \<Rightarrow> Inl (Wrap ''getSQL failed: '' e) | Inr s \<Rightarrow> Inr s) \<and>
    getSQL name views_kind (read_assets u) =
      (case views (''/'' @ name) of Inl e \<Rightarrow> Inl (Wrap ''getSQL failed: '' e) | Inr s \<Rightarrow> Inr s)"
proof -
  have mp: "\<forall>(m, fs) \<in> set [(''/migrations'', migs), (''/views'', views)]. mount_point m"
    using mount_point_assets by simp
  have rd: "read_assets \<lparr>ns = [(''/migrations'', migs), (''/views'', views)], root_entries = [''migrations'', ''views'']\<rparr>
      (''/migrations/'' @ name) = migs (''/'' @ name)"
    by (rule read_assets_File) (simp add: union_Open_def)
  have rd2: "read_assets \<lparr>ns = [(''/migrations'', migs), (''/views'', views)], root_entries = [''migrations'', ''views'']\<rparr>
      (''/views/'' @ name) = views (''/'' @ name)"
    by (rule read_assets_File) (simp add: union_Open_def)
  show ?thesis
    using rd rd2 by (simp add: NewSQLAssets_def union_New_eq [OF mp] getSQL_def migrations_kind_def views_kind_def)
qed

subsection \<open>Reading the root directory\<close>

text \<open>Reading a directory in pieces of \<open>cnt\<close> entries until the end of the directory.\<close>

fun read_pieces :: "nat \<Rightarrow> int \<Rightarrow> dir \<Rightarrow> (string list \<times> error) option" where
  "read_pieces 0 cnt d = None"
| "read_pieces (Suc fuel) cnt d =
     (case Readdir cnt d of
        (d', Inl e) \<Rightarrow> Some ([], e)
      | (d', Inr es) \<Rightarrow> (case read_pieces fuel cnt d' of None \<Rightarrow> None | Some (rest, e) \<Rightarrow> Some (es @ rest, e)))"

lemma Readdir_piece:
  assumes "0 < cnt" "dir_pos d < length (dir_entries d)"
  shows "\<exists>n > 0. dir_pos d + n \<le> length (dir_entries d) \<and>
    Readdir cnt d = (d\<lparr>dir_pos := dir_pos d + n\<rparr>, Inr (take n (drop (dir_pos d) (dir_entries d))))"
  using assms by (intro exI [of _ "if cnt > int (length (dir_entries d) - dir_pos d) then length (dir_entries d) - dir_pos d else nat cnt"])
    (auto simp: Readdir_def Let_def)

text \<open>
  Reading the root directory of a union in pieces of any positive size ends, with the end of
  file, and yields every entry exactly once and in order; a read of everything returns what is
  left; and after seeking to the start everything can be read again.
\<close>

theorem Readdir_enumerates:
  assumes "0 < cnt" "dir_pos d \<le> length (dir_entries d)"
  shows "read_pieces (Suc (length (dir_entries d) - dir_pos d)) cnt d = Some (drop (dir_pos d) (dir_entries d), Std_err EOF)"
    "snd (Readdir 0 d) = Inr (drop (dir_pos d) (dir_entries d))"
    "read_pieces (Suc (length (dir_entries d))) cnt (fst (dir_Seek 0 0 (fst (Readdir n d)))) = Some (dir_entries d, Std_err EOF)"
proof -
  have pieces: "read_pieces fuel cnt d = Some (drop (dir_pos d) (dir_entries d), Std_err EOF)"
    if "length (dir_entries d) - dir_pos d < fuel" "dir_pos d \<le> length (dir_entries d)" for fuel d
    using that
  proof (induction fuel arbitrary: d)
    case (Suc fuel)
    show ?case
    proof (cases "dir_pos d = length (dir_entries d)")
      case True
      then show ?thesis using assms(1) by (simp add: Readdir_def)
    next
      case False
      with Suc.prems have "dir_pos d < length (dir_entries d)" by simp
      from Readdir_piece [OF assms(1) this] obtain n where n: "0 < n" "dir_pos d + n \<le> length (dir_entries d)"
        "Readdir cnt d = (d\<lparr>dir_pos := dir_pos d + n\<rparr>, Inr (take n (drop (dir_pos d) (dir_entries d))))" by blast
      have "drop (dir_pos d) (dir_entries d) =
          take n (drop (dir_pos d) (dir_entries d)) @ drop (dir_pos d + n) (dir_entries d)"
        by (metis append_take_drop_id drop_drop add.commute)
      with Suc.IH [of "d\<lparr>dir_pos := dir_pos d + n\<rparr>"] Suc.prems n show ?thesis by simp
    qed
  qed simp
  show "read_pieces (Suc (length (dir_entries d) - dir_pos d)) cnt d = Some (drop (dir_pos d) (dir_entries d), Std_err EOF)"
    by (rule pieces) (simp_all add: assms)
  show "snd (Readdir 0 d) = Inr (drop (dir_pos d) (dir_entries d))"
    by (simp add: Readdir_def Let_def)
  have "dir_entries (fst (dir_Seek 0 0 (fst (Readdir n d)))) = dir_entries d" "dir_pos (fst (dir_Seek 0 0 (fst (Readdir n d)))) = 0"
    by (simp_all add: dir_Seek_def Readdir_def Let_def)
  then show "read_pieces (Suc (length (dir_entries d))) cnt (fst (dir_Seek 0 0 (fst (Readdir n d)))) = Some (dir_entries d, Std_err EOF)"
    by (subst pieces) simp_all
qed

theorem Readdir_enumerates_witness:
  "read_pieces 4 2 \<lparr>dir_name = ''/'', dir_entries = [''a'', ''b'', ''c''], dir_pos = 0\<rparr> = Some ([''a'', ''b'', ''c''], Std_err EOF)"
  using Readdir_enumerates(1) [of 2 "\<lparr>dir_name = ''/'', dir_entries = [''a'', ''b'', ''c''], dir_pos = 0\<rparr>"]
  by (simp del: read_pieces.simps add: numeral_eq_Suc)

end
