(* ===== verification/Metrics.thy ===== *)
theory Metrics
  imports Go_Errors
begin

section \<open>The metrics of the queue\<close>

text \<open>
  \<open>pkg/queue/metrics.go\<close>: the metrics of the task queue, of the scheduler and of the two workers,
  and the change of the service label. The options of the metrics are the values of the source,
  with the buckets of the histograms (whole numbers). A collector is its options with the names of
  its variable labels. The registry of Prometheus is a parameter; what is used of it is
  \<open>registry_ok\<close> below. The values that the collectors count are not part of the model.
\<close>

record const_labels =
  service_label :: string
  instance_label :: string

record metric_opts =
  Namespace :: string
  Subsystem :: string
  metric_name :: string
  Help :: string
  Buckets :: "nat list"
  ConstLabels :: const_labels

record collector =
  collector_opts :: metric_opts
  collector_labels :: "string list"

definition durationMsBuckets :: "nat list" where
  "durationMsBuckets = [10, 50, 100, 200, 300, 500, 1000, 2000, 3000, 5000]"

definition durationSBuckets :: "nat list" where
  "durationSBuckets = [1, 10, 50, 100, 200, 300, 500, 1000, 2000, 3000, 5000]"

definition queueMetricLabels :: "string list" where
  "queueMetricLabels = [''queue'']"

definition taskMetricLabels :: "string list" where
  "taskMetricLabels = [''queue'', ''type'']"

subsection \<open>The options\<close>

definition defTaskCounterOpts :: "const_labels \<Rightarrow> metric_opts" where
  "defTaskCounterOpts cl =
     \<lparr>Namespace = ''queue'', Subsystem = ''task'', metric_name = ''total_count'',
      Help = ''count of tasks that have been enqueued'', Buckets = [], ConstLabels = cl\<rparr>"

definition defEnqueueDurationOpts :: "const_labels \<Rightarrow> metric_opts" where
  "defEnqueueDurationOpts cl =
     \<lparr>Namespace = ''queue'', Subsystem = ''task'', metric_name = ''enqueue_duration_ms'',
      Help = ''duration of enqueueing in ms'', Buckets = durationMsBuckets, ConstLabels = cl\<rparr>"

definition defScheduleCounterOpts :: "const_labels \<Rightarrow> metric_opts" where
  "defScheduleCounterOpts cl =
     \<lparr>Namespace = ''queue'', Subsystem = ''scheduler'', metric_name = ''total_scheduled'',
      Help = ''count of tasks that have been scheduled'', Buckets = [], ConstLabels = cl\<rparr>"

definition defSchedulerErrorCounterOpts :: "const_labels \<Rightarrow> metric_opts" where
  "defSchedulerErrorCounterOpts cl =
     \<lparr>Namespace = ''queue'', Subsystem = ''scheduler'', metric_name = ''total_errors'',
      Help = ''count of errors while scheduling'', Buckets = [], ConstLabels = cl\<rparr>"

definition defTaskWorkerActiveGaugeOpts :: "const_labels \<Rightarrow> metric_opts" where
  "defTaskWorkerActiveGaugeOpts cl =
     \<lparr>Namespace = ''queue'', Subsystem = ''task_worker'', metric_name = ''active_gauge'',
      Help = ''gauge of active instances'', Buckets = [], ConstLabels = cl\<rparr>"

definition defTaskWorkerWorkingGaugeOpts :: "const_labels \<Rightarrow> metric_opts" where
  "defTaskWorkerWorkingGaugeOpts cl =
     \<lparr>Namespace = ''queue'', Subsystem = ''task_worker'', metric_name = ''working_gauge'',
      Help = ''gauge of working instances'', Buckets = [], ConstLabels = cl\<rparr>"

definition defTaskWorkerDequeueingGaugeOpts :: "const_labels \<Rightarrow> metric_opts" where
  "defTaskWorkerDequeueingGaugeOpts cl =
     \<lparr>Namespace = ''queue'', Subsystem = ''task_worker'', metric_name = ''dequeueing_gauge'',
      Help = ''gauge of instances that are trying to dequeue a task'', Buckets = [], ConstLabels = cl\<rparr>"

definition defTaskWorkerProcessingDurationOpts :: "const_labels \<Rightarrow> metric_opts" where
  "defTaskWorkerProcessingDurationOpts cl =
     \<lparr>Namespace = ''queue'', Subsystem = ''task_worker'', metric_name = ''processing_duration_s'',
      Help = ''total duration of tasks being processed in seconds'', Buckets = durationSBuckets, ConstLabels = cl\<rparr>"

definition defTaskWorkerDequeueingDurationOpts :: "const_labels \<Rightarrow> metric_opts" where
  "defTaskWorkerDequeueingDurationOpts cl =
     \<lparr>Namespace = ''queue'', Subsystem = ''task_worker'', metric_name = ''dequeueing_duration_s'',
      Help = ''total duration spent waiting for a new task in seconds'', Buckets = durationSBuckets, ConstLabels = cl\<rparr>"

definition defTaskWorkerProcessedCounterOpts :: "const_labels \<Rightarrow> metric_opts" where
  "defTaskWorkerProcessedCounterOpts cl =
     \<lparr>Namespace = ''queue'', Subsystem = ''task_worker'', metric_name = ''task_count'',
      Help = ''total count of processed tasks'', Buckets = [], ConstLabels = cl\<rparr>"

definition defTaskWorkerDequeueErrorsCounterOpts :: "const_labels \<Rightarrow> metric_opts" where
  "defTaskWorkerDequeueErrorsCounterOpts cl =
     \<lparr>Namespace = ''queue'', Subsystem = ''task_worker'', metric_name = ''dequeue_error_count'',
      Help = ''total count of dequeueing errors'', Buckets = [], ConstLabels = cl\<rparr>"

definition defTaskWorkerProcessingErrorsCounterOpts :: "const_labels \<Rightarrow> metric_opts" where
  "defTaskWorkerProcessingErrorsCounterOpts cl =
     \<lparr>Namespace = ''queue'', Subsystem = ''task_worker'', metric_name = ''processing_error_count'',
      Help = ''total count of errors while processing a task'', Buckets = [], ConstLabels = cl\<rparr>"

definition defTaskWorkerErrorsCounterOpts :: "const_labels \<Rightarrow> metric_opts" where
  "defTaskWorkerErrorsCounterOpts cl =
     \<lparr>Namespace = ''queue'', Subsystem = ''task_worker'', metric_name = ''error_count'',
      Help = ''total count of errors'', Buckets = [], ConstLabels = cl\<rparr>"

definition defScheduleWorkerActiveGaugeOpts :: "const_labels \<Rightarrow> metric_opts" where
  "defScheduleWorkerActiveGaugeOpts cl =
     \<lparr>Namespace = ''queue'', Subsystem = ''schedule_worker'', metric_name = ''active_gauge'',
      Help = ''gauge of active instances'', Buckets = [], ConstLabels = cl\<rparr>"

definition defScheduleWorkerWorkingGaugeOpts :: "const_labels \<Rightarrow> metric_opts" where
  "defScheduleWorkerWorkingGaugeOpts cl =
     \<lparr>Namespace = ''queue'', Subsystem = ''schedule_worker'', metric_name = ''working_gauge'',
      Help = ''gauge of working instances'', Buckets = [], ConstLabels = cl\<rparr>"

definition defScheduleWorkerWaitingGaugeOpts :: "const_labels \<Rightarrow> metric_opts" where
  "defScheduleWorkerWaitingGaugeOpts cl =
     \<lparr>Namespace = ''queue'', Subsystem = ''schedule_worker'', metric_name = ''waiting_gauge'',
      Help = ''gauge of waiting instances'', Buckets = [], ConstLabels = cl\<rparr>"

definition defScheduleWorkerDequeueingGaugeOpts :: "const_labels \<Rightarrow> metric_opts" where
  "defScheduleWorkerDequeueingGaugeOpts cl =
     \<lparr>Namespace = ''queue'', Subsystem = ''schedule_worker'', metric_name = ''dequeueing_gauge'',
      Help = ''gauge of instances that are trying to dequeue a schedule'', Buckets = [], ConstLabels = cl\<rparr>"

definition defScheduleWorkerProcessingDurationOpts :: "const_labels \<Rightarrow> metric_opts" where
  "defScheduleWorkerProcessingDurationOpts cl =
     \<lparr>Namespace = ''queue'', Subsystem = ''schedule_worker'', metric_name = ''processing_duration_s'',
      Help = ''total duration of tasks being scheduled in seconds'', Buckets = durationSBuckets, ConstLabels = cl\<rparr>"

definition defScheduleWorkerDequeueingDurationOpts :: "const_labels \<Rightarrow> metric_opts" where
  "defScheduleWorkerDequeueingDurationOpts cl =
     \<lparr>Namespace = ''queue'', Subsystem = ''schedule_worker'', metric_name = ''dequeueing_duration_s'',
      Help = ''total duration spent waiting for a new task to schedule in seconds'', Buckets = durationSBuckets, ConstLabels = cl\<rparr>"

definition defScheduleWorkerProcessedCounterOpts :: "const_labels \<Rightarrow> metric_opts" where
  "defScheduleWorkerProcessedCounterOpts cl =
     \<lparr>Namespace = ''queue'', Subsystem = ''schedule_worker'', metric_name = ''task_count'',
      Help = ''total count of processed schedules'', Buckets = [], ConstLabels = cl\<rparr>"

definition defScheduleWorkerDequeueErrorsCounterOpts :: "const_labels \<Rightarrow> metric_opts" where
  "defScheduleWorkerDequeueErrorsCounterOpts cl =
     \<lparr>Namespace = ''queue'', Subsystem = ''schedule_worker'', metric_name = ''dequeue_error_count'',
      Help = ''total count of schedule dequeueing errors'', Buckets = [], ConstLabels = cl\<rparr>"

definition defScheduleWorkerProcessingErrorsCounterOpts :: "const_labels \<Rightarrow> metric_opts" where
  "defScheduleWorkerProcessingErrorsCounterOpts cl =
     \<lparr>Namespace = ''queue'', Subsystem = ''schedule_worker'', metric_name = ''processing_error_count'',
      Help = ''total count of errors while processing a schedule'', Buckets = [], ConstLabels = cl\<rparr>"

definition defScheduleWorkerErrorsCounterOpts :: "const_labels \<Rightarrow> metric_opts" where
  "defScheduleWorkerErrorsCounterOpts cl =
     \<lparr>Namespace = ''queue'', Subsystem = ''schedule_worker'', metric_name = ''error_count'',
      Help = ''total count of errors'', Buckets = [], ConstLabels = cl\<rparr>"

lemmas opts_defs =
  defTaskCounterOpts_def
  defEnqueueDurationOpts_def
  defScheduleCounterOpts_def
  defSchedulerErrorCounterOpts_def
  defTaskWorkerActiveGaugeOpts_def
  defTaskWorkerWorkingGaugeOpts_def
  defTaskWorkerDequeueingGaugeOpts_def
  defTaskWorkerProcessingDurationOpts_def
  defTaskWorkerDequeueingDurationOpts_def
  defTaskWorkerProcessedCounterOpts_def
  defTaskWorkerDequeueErrorsCounterOpts_def
  defTaskWorkerProcessingErrorsCounterOpts_def
  defTaskWorkerErrorsCounterOpts_def
  defScheduleWorkerActiveGaugeOpts_def
  defScheduleWorkerWorkingGaugeOpts_def
  defScheduleWorkerWaitingGaugeOpts_def
  defScheduleWorkerDequeueingGaugeOpts_def
  defScheduleWorkerProcessingDurationOpts_def
  defScheduleWorkerDequeueingDurationOpts_def
  defScheduleWorkerProcessedCounterOpts_def
  defScheduleWorkerDequeueErrorsCounterOpts_def
  defScheduleWorkerProcessingErrorsCounterOpts_def
  defScheduleWorkerErrorsCounterOpts_def

subsection \<open>The global instances\<close>

record TaskQueueMetricsType =
  tq_Labels :: "string list"
  TaskCounter :: collector
  EnqueueDuration :: collector

record SchedulerMetricsType =
  sc_Labels :: "string list"
  ScheduleCounter :: collector
  ErrorCounter :: collector

record WorkerMetricsType =
  wk_Labels :: "string list"
  ActiveGauge :: collector
  WorkingGauge :: collector
  DequeueingGauge :: collector
  ProcessingDuration :: collector
  DequeueingDuration :: collector
  ProcessedCounter :: collector
  DequeueErrorCounter :: collector
  ProcessingErrorsCounter :: collector
  ErrorsCounter :: collector

record ScheduleWorkerMetricsType = WorkerMetricsType +
  WaitingGauge :: collector

record metrics =
  TaskQueueMetrics :: TaskQueueMetricsType
  SchedulerMetrics :: SchedulerMetricsType
  TaskWorkerMetrics :: WorkerMetricsType
  ScheduleWorkerMetrics :: ScheduleWorkerMetricsType

text \<open>The literals of the four instances with the constant labels of their options.\<close>

definition plain :: "metric_opts \<Rightarrow> collector" where
  "plain opts = \<lparr>collector_opts = opts, collector_labels = []\<rparr>"

definition vec :: "metric_opts \<Rightarrow> string list \<Rightarrow> collector" where
  "vec opts ls = \<lparr>collector_opts = opts, collector_labels = ls\<rparr>"

definition task_queue_metrics :: "const_labels \<Rightarrow> TaskQueueMetricsType" where
  "task_queue_metrics cl =
     \<lparr>tq_Labels = queueMetricLabels,
      TaskCounter = vec (defTaskCounterOpts cl) taskMetricLabels,
      EnqueueDuration = vec (defEnqueueDurationOpts cl) queueMetricLabels\<rparr>"

definition scheduler_metrics :: "const_labels \<Rightarrow> SchedulerMetricsType" where
  "scheduler_metrics cl =
     \<lparr>sc_Labels = queueMetricLabels,
      ScheduleCounter = vec (defScheduleCounterOpts cl) taskMetricLabels,
      ErrorCounter = vec (defSchedulerErrorCounterOpts cl) taskMetricLabels\<rparr>"

definition task_worker_metrics :: "const_labels \<Rightarrow> WorkerMetricsType" where
  "task_worker_metrics cl =
     \<lparr>wk_Labels = taskMetricLabels,
      ActiveGauge = plain (defTaskWorkerActiveGaugeOpts cl),
      WorkingGauge = plain (defTaskWorkerWorkingGaugeOpts cl),
      DequeueingGauge = plain (defTaskWorkerDequeueingGaugeOpts cl),
      ProcessingDuration = plain (defTaskWorkerProcessingDurationOpts cl),
      DequeueingDuration = plain (defTaskWorkerDequeueingDurationOpts cl),
      ProcessedCounter = vec (defTaskWorkerProcessedCounterOpts cl) taskMetricLabels,
      DequeueErrorCounter = plain (defTaskWorkerDequeueErrorsCounterOpts cl),
      ProcessingErrorsCounter = vec (defTaskWorkerProcessingErrorsCounterOpts cl) taskMetricLabels,
      ErrorsCounter = plain (defTaskWorkerErrorsCounterOpts cl)\<rparr>"

definition schedule_worker_metrics :: "const_labels \<Rightarrow> ScheduleWorkerMetricsType" where
  "schedule_worker_metrics cl =
     \<lparr>wk_Labels = taskMetricLabels,
      ActiveGauge = plain (defScheduleWorkerActiveGaugeOpts cl),
      WorkingGauge = plain (defScheduleWorkerWorkingGaugeOpts cl),
      DequeueingGauge = plain (defScheduleWorkerDequeueingGaugeOpts cl),
      ProcessingDuration = plain (defScheduleWorkerProcessingDurationOpts cl),
      DequeueingDuration = plain (defScheduleWorkerDequeueingDurationOpts cl),
      ProcessedCounter = vec (defScheduleWorkerProcessedCounterOpts cl) taskMetricLabels,
      DequeueErrorCounter = plain (defScheduleWorkerDequeueErrorsCounterOpts cl),
      ProcessingErrorsCounter = vec (defScheduleWorkerProcessingErrorsCounterOpts cl) taskMetricLabels,
      ErrorsCounter = plain (defScheduleWorkerErrorsCounterOpts cl),
      WaitingGauge = plain (defScheduleWorkerWaitingGaugeOpts cl)\<rparr>"

subsection \<open>The registry\<close>

text \<open>
  What a registry knows of a collector: it is identified by its full name and the values of its
  constant labels, and all collectors of one name agree on the help text and on the names of the
  labels, also after they are unregistered.
\<close>

type_synonym collector_id = "(string \<times> string \<times> string) \<times> const_labels"
type_synonym dimension = "string \<times> string list"

definition full_name :: "collector \<Rightarrow> string \<times> string \<times> string" where
  "full_name c = (Namespace (collector_opts c), Subsystem (collector_opts c), metric_name (collector_opts c))"

definition desc_id :: "collector \<Rightarrow> collector_id" where
  "desc_id c = (full_name c, ConstLabels (collector_opts c))"

definition desc_dim :: "collector \<Rightarrow> dimension" where
  "desc_dim c = (Help (collector_opts c), collector_labels c)"

record 'r registry =
  reg_register :: "collector \<Rightarrow> 'r \<Rightarrow> 'r outcome"
  reg_unregister :: "collector \<Rightarrow> 'r \<Rightarrow> 'r"
  reg_ids :: "'r \<Rightarrow> collector_id set"
  reg_dims :: "'r \<Rightarrow> string \<times> string \<times> string \<Rightarrow> dimension option"

definition registry_ok :: "'r registry \<Rightarrow> bool" where
  "registry_ok R \<longleftrightarrow>
     (\<forall>c r. desc_id c \<notin> reg_ids R r \<longrightarrow> reg_dims R r (full_name c) \<in> {None, Some (desc_dim c)} \<longrightarrow>
        (\<exists>r'. reg_register R c r = Ret r' \<and> reg_ids R r' = insert (desc_id c) (reg_ids R r) \<and>
          reg_dims R r' = (reg_dims R r)(full_name c := Some (desc_dim c)))) \<and>
     (\<forall>c r. desc_id c \<in> reg_ids R r \<or> reg_dims R r (full_name c) \<notin> {None, Some (desc_dim c)} \<longrightarrow>
        reg_register R c r = Panic) \<and>
     (\<forall>c r. reg_ids R (reg_unregister R c r) = reg_ids R r - {desc_id c} \<and>
        reg_dims R (reg_unregister R c r) = reg_dims R r)"

fun register_all :: "'r registry \<Rightarrow> collector list \<Rightarrow> 'r \<Rightarrow> 'r outcome" where
  "register_all R [] r = Ret r"
| "register_all R (c # cs) r = (case reg_register R c r of Panic \<Rightarrow> Panic | Ret r \<Rightarrow> register_all R cs r)"

fun unregister_all :: "'r registry \<Rightarrow> collector list \<Rightarrow> 'r \<Rightarrow> 'r" where
  "unregister_all R [] r = r"
| "unregister_all R (c # cs) r = unregister_all R cs (reg_unregister R c r)"

text \<open>The collectors of an instance in the order in which its literal creates and registers them.\<close>

definition queue_created :: "TaskQueueMetricsType \<Rightarrow> collector list" where
  "queue_created t = [TaskCounter t, EnqueueDuration t]"

definition scheduler_created :: "SchedulerMetricsType \<Rightarrow> collector list" where
  "scheduler_created t = [ScheduleCounter t, ErrorCounter t]"

definition worker_created :: "('a) WorkerMetricsType_scheme \<Rightarrow> collector list" where
  "worker_created t =
     [ActiveGauge t, WorkingGauge t, DequeueingGauge t, ProcessingDuration t, DequeueingDuration t,
      ProcessedCounter t, DequeueErrorCounter t, ProcessingErrorsCounter t, ErrorsCounter t]"

definition schedule_worker_created :: "ScheduleWorkerMetricsType \<Rightarrow> collector list" where
  "schedule_worker_created t = worker_created t @ [WaitingGauge t]"

text \<open>The order in which they are unregistered.\<close>

definition worker_unregistered :: "WorkerMetricsType \<Rightarrow> collector list" where
  "worker_unregistered t =
     [ProcessingDuration t, DequeueingDuration t, ActiveGauge t, WorkingGauge t, DequeueingGauge t,
      ProcessedCounter t, ProcessingErrorsCounter t, ErrorsCounter t, DequeueErrorCounter t]"

definition schedule_worker_unregistered :: "ScheduleWorkerMetricsType \<Rightarrow> collector list" where
  "schedule_worker_unregistered t =
     [ProcessingDuration t, DequeueingDuration t, ActiveGauge t, WorkingGauge t, WaitingGauge t, DequeueingGauge t,
      ProcessedCounter t, ProcessingErrorsCounter t, ErrorsCounter t, DequeueErrorCounter t]"

subsection \<open>Initialization and change of the service name\<close>

text \<open>\<open>getHostname\<close>, with the result of \<open>os.Hostname\<close>.\<close>

definition getHostname :: "'e + string \<Rightarrow> string" where
  "getHostname hostname = (case hostname of Inl err \<Rightarrow> ''unknown'' | Inr h \<Rightarrow> h)"

definition constLabels :: "string \<Rightarrow> 'e + string \<Rightarrow> const_labels" where
  "constLabels processName hostname = \<lparr>service_label = processName, instance_label = getHostname hostname\<rparr>"

text \<open>The variables of the package are initialized in the order of the source.\<close>

definition init_metrics :: "'r registry \<Rightarrow> const_labels \<Rightarrow> 'r \<Rightarrow> (metrics \<times> 'r) outcome" where
  "init_metrics R cl r =
     (case register_all R (queue_created (task_queue_metrics cl)) r of Panic \<Rightarrow> Panic
      | Ret r \<Rightarrow> (case register_all R (worker_created (task_worker_metrics cl)) r of Panic \<Rightarrow> Panic
      | Ret r \<Rightarrow> (case register_all R (scheduler_created (scheduler_metrics cl)) r of Panic \<Rightarrow> Panic
      | Ret r \<Rightarrow> (case register_all R (schedule_worker_created (schedule_worker_metrics cl)) r of Panic \<Rightarrow> Panic
      | Ret r \<Rightarrow> Ret (\<lparr>TaskQueueMetrics = task_queue_metrics cl, SchedulerMetrics = scheduler_metrics cl,
          TaskWorkerMetrics = task_worker_metrics cl, ScheduleWorkerMetrics = schedule_worker_metrics cl\<rparr>, r)))))"

text \<open>One part of the change: the collectors are unregistered and new ones created.\<close>

definition replace :: "'r registry \<Rightarrow> collector list \<Rightarrow> collector list \<Rightarrow> 'r \<Rightarrow> 'r outcome" where
  "replace R old new r = register_all R new (unregister_all R old r)"

definition switch_task_queue :: "'r registry \<Rightarrow> const_labels \<Rightarrow> metrics \<times> 'r \<Rightarrow> (metrics \<times> 'r) outcome" where
  "switch_task_queue R newConstLabels = (\<lambda>(g, r).
     (case replace R [TaskCounter (TaskQueueMetrics g), EnqueueDuration (TaskQueueMetrics g)]
        (queue_created (task_queue_metrics newConstLabels)) r of Panic \<Rightarrow> Panic
      | Ret r \<Rightarrow> Ret (g\<lparr>TaskQueueMetrics := task_queue_metrics newConstLabels\<rparr>, r)))"

definition switch_scheduler :: "'r registry \<Rightarrow> const_labels \<Rightarrow> metrics \<times> 'r \<Rightarrow> (metrics \<times> 'r) outcome" where
  "switch_scheduler R newConstLabels = (\<lambda>(g, r).
     (case replace R [ScheduleCounter (SchedulerMetrics g), ErrorCounter (SchedulerMetrics g)]
        (scheduler_created (scheduler_metrics newConstLabels)) r of Panic \<Rightarrow> Panic
      | Ret r \<Rightarrow> Ret (g\<lparr>SchedulerMetrics := scheduler_metrics newConstLabels\<rparr>, r)))"

definition switch_task_worker :: "'r registry \<Rightarrow> const_labels \<Rightarrow> metrics \<times> 'r \<Rightarrow> (metrics \<times> 'r) outcome" where
  "switch_task_worker R newConstLabels = (\<lambda>(g, r).
     (case replace R (worker_unregistered (TaskWorkerMetrics g))
        (worker_created (task_worker_metrics newConstLabels)) r of Panic \<Rightarrow> Panic
      | Ret r \<Rightarrow> Ret (g\<lparr>TaskWorkerMetrics := task_worker_metrics newConstLabels\<rparr>, r)))"

definition switch_schedule_worker :: "'r registry \<Rightarrow> const_labels \<Rightarrow> metrics \<times> 'r \<Rightarrow> (metrics \<times> 'r) outcome" where
  "switch_schedule_worker R newConstLabels = (\<lambda>(g, r).
     (case replace R (schedule_worker_unregistered (ScheduleWorkerMetrics g))
        (schedule_worker_created (schedule_worker_metrics newConstLabels)) r of Panic \<Rightarrow> Panic
      | Ret r \<Rightarrow> Ret (g\<lparr>ScheduleWorkerMetrics := schedule_worker_metrics newConstLabels\<rparr>, r)))"

definition SwitchMetricsServiceName :: "'r registry \<Rightarrow> const_labels \<Rightarrow> string \<Rightarrow> metrics \<times> 'r \<Rightarrow> (metrics \<times> 'r) outcome" where
  "SwitchMetricsServiceName R cl serviceName s =
     (let newConstLabels = \<lparr>service_label = serviceName, instance_label = instance_label cl\<rparr> in
      (case switch_task_queue R newConstLabels s of Panic \<Rightarrow> Panic
       | Ret s \<Rightarrow> (case switch_scheduler R newConstLabels s of Panic \<Rightarrow> Panic
       | Ret s \<Rightarrow> (case switch_task_worker R newConstLabels s of Panic \<Rightarrow> Panic
       | Ret s \<Rightarrow> switch_schedule_worker R newConstLabels s))))"

text \<open>The start of the program with later changes of the name.\<close>

fun switch_all :: "'r registry \<Rightarrow> const_labels \<Rightarrow> string list \<Rightarrow> metrics \<times> 'r \<Rightarrow> (metrics \<times> 'r) outcome" where
  "switch_all R cl [] s = Ret s"
| "switch_all R cl (n # ns) s = (case SwitchMetricsServiceName R cl n s of Panic \<Rightarrow> Panic | Ret s \<Rightarrow> switch_all R cl ns s)"

definition run_metrics :: "'r registry \<Rightarrow> const_labels \<Rightarrow> string list \<Rightarrow> 'r \<Rightarrow> (metrics \<times> 'r) outcome" where
  "run_metrics R cl ns r = (case init_metrics R cl r of Panic \<Rightarrow> Panic | Ret s \<Rightarrow> switch_all R cl ns s)"

subsection \<open>Registering groups of collectors\<close>

lemma unregister_all_eq:
  assumes "registry_ok R"
  shows "reg_ids R (unregister_all R cs r) = reg_ids R r - desc_id ` set cs \<and>
    reg_dims R (unregister_all R cs r) = reg_dims R r"
proof (induction cs arbitrary: r)
  case (Cons c cs)
  have "reg_ids R (reg_unregister R c r) = reg_ids R r - {desc_id c}" "reg_dims R (reg_unregister R c r) = reg_dims R r"
    using assms by (simp_all add: registry_ok_def)
  then show ?case using Cons [of "reg_unregister R c r"] by auto
qed simp

text \<open>The registry holds the collectors and agrees with their dimensions.\<close>

definition dims_agree :: "'r registry \<Rightarrow> 'r \<Rightarrow> collector list \<Rightarrow> bool" where
  "dims_agree R r cs \<longleftrightarrow> (\<forall>c \<in> set cs. reg_dims R r (full_name c) = Some (desc_dim c))"

lemma register_all_ok:
  assumes "registry_ok R" "distinct (map full_name cs)" "\<forall>c \<in> set cs. \<forall>i \<in> reg_ids R r. fst i \<noteq> full_name c"
    and "\<forall>c \<in> set cs. reg_dims R r (full_name c) \<in> {None, Some (desc_dim c)}"
  shows "\<exists>r'. register_all R cs r = Ret r' \<and> reg_ids R r' = reg_ids R r \<union> desc_id ` set cs \<and> dims_agree R r' cs \<and>
    (\<forall>n. n \<notin> full_name ` set cs \<longrightarrow> reg_dims R r' n = reg_dims R r n)"
  using assms(2-4)
proof (induction cs arbitrary: r)
  case (Cons c cs)
  have "desc_id c \<notin> reg_ids R r" using Cons.prems(2) by (force simp: desc_id_def)
  then obtain r1 where r1: "reg_register R c r = Ret r1" "reg_ids R r1 = insert (desc_id c) (reg_ids R r)"
    "reg_dims R r1 = (reg_dims R r)(full_name c := Some (desc_dim c))"
    using assms(1) Cons.prems(3) unfolding registry_ok_def by (meson list.set_intros(1))
  have new: "full_name c \<notin> full_name ` set cs" using Cons.prems(1) by simp
  have "\<exists>r'. register_all R cs r1 = Ret r' \<and> reg_ids R r' = reg_ids R r1 \<union> desc_id ` set cs \<and> dims_agree R r' cs \<and>
    (\<forall>n. n \<notin> full_name ` set cs \<longrightarrow> reg_dims R r' n = reg_dims R r1 n)" (is "\<exists>r'. ?ok r'")
  proof (rule Cons.IH)
    show "\<forall>c \<in> set cs. \<forall>i \<in> reg_ids R r1. fst i \<noteq> full_name c"
      using Cons.prems(2) new r1(2) by (auto simp: desc_id_def)
    show "\<forall>c \<in> set cs. reg_dims R r1 (full_name c) \<in> {None, Some (desc_dim c)}"
      using Cons.prems(3) new r1(3) by (auto simp: image_iff)
  qed (use Cons.prems(1) in simp)
  then obtain r' where r': "?ok r'" ..
  then have "reg_dims R r' (full_name c) = Some (desc_dim c)" using r1(3) new by (metis fun_upd_same)
  then have "dims_agree R r' (c # cs)" using r' by (simp add: dims_agree_def)
  with r' r1 show ?case by simp
qed (simp add: dims_agree_def)

text \<open>No collector of \<open>cs\<close> has a name that occurs in \<open>I\<close>.\<close>

definition apart_from :: "collector_id set \<Rightarrow> collector list \<Rightarrow> bool" where
  "apart_from I cs \<longleftrightarrow> (\<forall>i \<in> I. fst i \<notin> full_name ` set cs)"

lemma apart_from_Un [simp]: "apart_from (I \<union> J) cs \<longleftrightarrow> apart_from I cs \<and> apart_from J cs"
  by (simp add: apart_from_def ball_Un)

lemma apart_from_append [simp]: "apart_from I (cs @ ds) \<longleftrightarrow> apart_from I cs \<and> apart_from I ds"
  by (auto simp: apart_from_def)

lemma dims_agree_append [simp]: "dims_agree R r (cs @ ds) \<longleftrightarrow> dims_agree R r cs \<and> dims_agree R r ds"
  by (auto simp: dims_agree_def)

lemma dims_agree_cong: "reg_dims R r = reg_dims R r' \<Longrightarrow> dims_agree R r cs \<Longrightarrow> dims_agree R r' cs"
  by (simp add: dims_agree_def)

text \<open>A group replaced by one of the same names and dimensions.\<close>

definition same_metrics :: "collector list \<Rightarrow> collector list \<Rightarrow> bool" where
  "same_metrics old new \<longleftrightarrow> map full_name old = map full_name new \<and> map desc_dim old = map desc_dim new"

lemma replace_ok:
  assumes R: "registry_ok R" and d: "distinct (map full_name new)" and same: "same_metrics old new"
    and ids: "reg_ids R r = F \<union> desc_id ` set old" and apart: "apart_from F new"
    and un: "set unreg = set old" and dims: "dims_agree R r old"
  shows "\<exists>r'. replace R unreg new r = Ret r' \<and> reg_ids R r' = F \<union> desc_id ` set new \<and> reg_dims R r' = reg_dims R r"
proof -
  let ?r = "unregister_all R unreg r"
  note F = apart [unfolded apart_from_def]
  have names: "full_name ` set old = full_name ` set new" using same by (metis same_metrics_def list.set_map)
  have "F \<inter> desc_id ` set old = {}" using F unfolding names [symmetric] desc_id_def by fastforce
  then have ids': "reg_ids R ?r = F" and dims': "reg_dims R ?r = reg_dims R r"
    using unregister_all_eq [OF R, of unreg r] ids un by auto
  have agree: "reg_dims R r (full_name c) = Some (desc_dim c)" if "c \<in> set new" for c
  proof -
    from that obtain i where i: "i < length new" "new ! i = c" by (metis in_set_conv_nth)
    have "length old = length new" using same by (metis same_metrics_def length_map)
    with same i have "full_name (old ! i) = full_name c" "desc_dim (old ! i) = desc_dim c" "old ! i \<in> set old"
      by (metis same_metrics_def nth_map, metis same_metrics_def nth_map, simp)
    with dims show ?thesis by (metis dims_agree_def)
  qed
  from register_all_ok [OF R d, of ?r] F agree ids' dims' obtain r' where r':
    "register_all R new ?r = Ret r'" "reg_ids R r' = F \<union> desc_id ` set new" "dims_agree R r' new"
    "\<forall>n. n \<notin> full_name ` set new \<longrightarrow> reg_dims R r' n = reg_dims R ?r n" by (auto simp: image_iff)
  have "reg_dims R r' n = reg_dims R r n" for n
  proof (cases "n \<in> full_name ` set new")
    case True
    then show ?thesis using r'(3) agree by (auto simp: dims_agree_def)
  next
    case False
    then show ?thesis using r'(4) dims' by metis
  qed
  with r'(1,2) show ?thesis by (auto simp: replace_def)
qed

subsection \<open>The four groups\<close>

abbreviation "tq cl \<equiv> queue_created (task_queue_metrics cl)"
abbreviation "sc cl \<equiv> scheduler_created (scheduler_metrics cl)"
abbreviation "tw cl \<equiv> worker_created (task_worker_metrics cl)"
abbreviation "sw cl \<equiv> schedule_worker_created (schedule_worker_metrics cl)"

lemmas metrics_defs = queue_created_def scheduler_created_def worker_created_def schedule_worker_created_def
  task_queue_metrics_def scheduler_metrics_def task_worker_metrics_def schedule_worker_metrics_def
  plain_def vec_def opts_defs full_name_def

lemma distinct_names:
  "distinct (map full_name (tq cl))" "distinct (map full_name (sc cl))"
  "distinct (map full_name (tw cl))" "distinct (map full_name (sw cl))"
  by (simp_all add: metrics_defs)

lemma same_names:
  "same_metrics (tq cl) (tq cl')" "same_metrics (sc cl) (sc cl')" "same_metrics (tw cl) (tw cl')" "same_metrics (sw cl) (sw cl')"
  by (simp_all add: same_metrics_def desc_dim_def metrics_defs)

lemma subsystems:
  "\<forall>c \<in> set (tq cl). fst (snd (full_name c)) = ''task''"
  "\<forall>c \<in> set (sc cl). fst (snd (full_name c)) = ''scheduler''"
  "\<forall>c \<in> set (tw cl). fst (snd (full_name c)) = ''task_worker''"
  "\<forall>c \<in> set (sw cl). fst (snd (full_name c)) = ''schedule_worker''"
  by (simp_all add: metrics_defs)

definition all_metrics :: "const_labels \<Rightarrow> collector list" where
  "all_metrics cl = tq cl @ sc cl @ tw cl @ sw cl"

definition metrics_of :: "const_labels \<Rightarrow> metrics" where
  "metrics_of cl = \<lparr>TaskQueueMetrics = task_queue_metrics cl, SchedulerMetrics = scheduler_metrics cl,
     TaskWorkerMetrics = task_worker_metrics cl, ScheduleWorkerMetrics = schedule_worker_metrics cl\<rparr>"

lemma all_same: "same_metrics (all_metrics cl) (all_metrics cl')"
  using same_names [of cl cl'] by (simp add: same_metrics_def all_metrics_def)

lemma same_metricsD:
  assumes "same_metrics old new"
  shows "full_name ` set old = full_name ` set new" "dims_agree R r old \<longleftrightarrow> dims_agree R r new"
proof -
  show "full_name ` set old = full_name ` set new" using assms by (metis same_metrics_def list.set_map)
  have "zip (map full_name old) (map desc_dim old) = zip (map full_name new) (map desc_dim new)"
    using assms by (simp add: same_metrics_def)
  then have "map (\<lambda>c. (full_name c, desc_dim c)) old = map (\<lambda>c. (full_name c, desc_dim c)) new"
    by (simp add: zip_map_map zip_same_conv_map comp_def)
  then have "(\<lambda>c. (full_name c, desc_dim c)) ` set old = (\<lambda>c. (full_name c, desc_dim c)) ` set new"
    by (simp only: set_map [symmetric])
  moreover have "dims_agree R r cs \<longleftrightarrow> (\<forall>(n, d) \<in> (\<lambda>c. (full_name c, desc_dim c)) ` set cs. reg_dims R r n = Some d)" for cs
    by (simp add: dims_agree_def)
  ultimately show "dims_agree R r old \<longleftrightarrow> dims_agree R r new" by (simp only:)
qed

lemma subsystems_apart:
  assumes "\<forall>c \<in> set a. fst (snd (full_name c)) = x" "\<forall>c \<in> set b. fst (snd (full_name c)) = y" "x \<noteq> y"
  shows "apart_from (desc_id ` set a) b"
  unfolding apart_from_def
proof
  fix i assume "i \<in> desc_id ` set a"
  then have "fst (snd (fst i)) = x" using assms(1) by (auto simp: desc_id_def)
  moreover have "fst (snd n) = y" if "n \<in> full_name ` set b" for n using assms(2) that by auto
  ultimately show "fst i \<notin> full_name ` set b" using assms(3) by blast
qed

lemma groups_apart:
  "apart_from (desc_id ` set (sc cl)) (tq cl')" "apart_from (desc_id ` set (tw cl)) (tq cl')"
  "apart_from (desc_id ` set (sw cl)) (tq cl')" "apart_from (desc_id ` set (tq cl)) (sc cl')"
  "apart_from (desc_id ` set (tw cl)) (sc cl')" "apart_from (desc_id ` set (sw cl)) (sc cl')"
  "apart_from (desc_id ` set (tq cl)) (tw cl')" "apart_from (desc_id ` set (sc cl)) (tw cl')"
  "apart_from (desc_id ` set (sw cl)) (tw cl')" "apart_from (desc_id ` set (tq cl)) (sw cl')"
  "apart_from (desc_id ` set (sc cl)) (sw cl')" "apart_from (desc_id ` set (tw cl)) (sw cl')"
  by (rule subsystems_apart, rule subsystems, rule subsystems, simp)+

lemma unregistered_sets:
  "set (worker_unregistered t) = set (worker_created t)"
  "set (schedule_worker_unregistered u) = set (schedule_worker_created u)"
  by (auto simp: worker_unregistered_def worker_created_def schedule_worker_unregistered_def schedule_worker_created_def)

subsection \<open>The invariant\<close>

text \<open>
  The global instances are those of the constant labels, they are registered beside the other
  collectors of the program, whose identifiers are \<open>F\<close>.
\<close>

definition metrics_inv :: "'r registry \<Rightarrow> collector_id set \<Rightarrow> const_labels \<Rightarrow> metrics \<times> 'r \<Rightarrow> bool" where
  "metrics_inv R F cl s \<longleftrightarrow> fst s = metrics_of cl \<and> reg_ids R (snd s) = F \<union> desc_id ` set (all_metrics cl) \<and>
     dims_agree R (snd s) (all_metrics cl)"

lemma apart_all: "apart_from F (all_metrics cl) \<Longrightarrow> apart_from F (all_metrics cl')"
  using same_metricsD(1) [OF all_same] by (metis apart_from_def)

lemma switch_ok:
  assumes R: "registry_ok R" and F: "apart_from F (all_metrics cl')" and inv: "metrics_inv R F cl s"
  shows "\<exists>s'. SwitchMetricsServiceName R cl0 n s = Ret s' \<and>
    metrics_inv R F \<lparr>service_label = n, instance_label = instance_label cl0\<rparr> s'"
proof -
  let ?cl = "\<lparr>service_label = n, instance_label = instance_label cl0\<rparr>"
  let ?I = "\<lambda>cs. desc_id ` set cs"
  obtain g r where s: "s = (g, r)" by (cases s)
  have g: "g = metrics_of cl" and ids: "reg_ids R r = F \<union> ?I (tq cl) \<union> ?I (sc cl) \<union> ?I (tw cl) \<union> ?I (sw cl)"
    and dims: "dims_agree R r (tq cl)" "dims_agree R r (sc cl)" "dims_agree R r (tw cl)" "dims_agree R r (sw cl)"
    using inv s by (simp_all add: metrics_inv_def all_metrics_def image_Un Un_ac)
  have FF: "apart_from F (tq ?cl)" "apart_from F (sc ?cl)" "apart_from F (tw ?cl)" "apart_from F (sw ?cl)"
    using apart_all [OF F, of ?cl] by (simp_all add: all_metrics_def)
  have "\<exists>r1. replace R (tq cl) (tq ?cl) r = Ret r1 \<and>
    reg_ids R r1 = (F \<union> ?I (sc cl) \<union> ?I (tw cl) \<union> ?I (sw cl)) \<union> ?I (tq ?cl) \<and> reg_dims R r1 = reg_dims R r"
    by (rule replace_ok [OF R distinct_names(1) same_names(1) [of cl]]) (simp_all add: ids FF dims groups_apart Un_ac)
  then obtain r1 where r1: "replace R (tq cl) (tq ?cl) r = Ret r1" "reg_dims R r1 = reg_dims R r"
    "reg_ids R r1 = F \<union> ?I (sc cl) \<union> ?I (tw cl) \<union> ?I (sw cl) \<union> ?I (tq ?cl)" by blast
  have "\<exists>r2. replace R (sc cl) (sc ?cl) r1 = Ret r2 \<and>
    reg_ids R r2 = (F \<union> ?I (tq ?cl) \<union> ?I (tw cl) \<union> ?I (sw cl)) \<union> ?I (sc ?cl) \<and> reg_dims R r2 = reg_dims R r1"
    by (rule replace_ok [OF R distinct_names(2) same_names(2) [of cl]])
      (simp_all add: r1 FF dims_agree_cong [OF r1(2) [symmetric]] dims groups_apart Un_ac)
  then obtain r2 where r2: "replace R (sc cl) (sc ?cl) r1 = Ret r2" "reg_dims R r2 = reg_dims R r"
    "reg_ids R r2 = F \<union> ?I (tq ?cl) \<union> ?I (tw cl) \<union> ?I (sw cl) \<union> ?I (sc ?cl)" using r1(2) by auto
  have "\<exists>r3. replace R (worker_unregistered (task_worker_metrics cl)) (tw ?cl) r2 = Ret r3 \<and>
    reg_ids R r3 = (F \<union> ?I (tq ?cl) \<union> ?I (sc ?cl) \<union> ?I (sw cl)) \<union> ?I (tw ?cl) \<and> reg_dims R r3 = reg_dims R r2"
    by (rule replace_ok [OF R distinct_names(3) same_names(3) [of cl]])
      (simp_all add: r2 FF dims_agree_cong [OF r2(2) [symmetric]] dims groups_apart unregistered_sets Un_ac)
  then obtain r3 where r3: "replace R (worker_unregistered (task_worker_metrics cl)) (tw ?cl) r2 = Ret r3"
    "reg_dims R r3 = reg_dims R r" "reg_ids R r3 = F \<union> ?I (tq ?cl) \<union> ?I (sc ?cl) \<union> ?I (sw cl) \<union> ?I (tw ?cl)"
    using r2(2) by auto
  have "\<exists>r4. replace R (schedule_worker_unregistered (schedule_worker_metrics cl)) (sw ?cl) r3 = Ret r4 \<and>
    reg_ids R r4 = (F \<union> ?I (tq ?cl) \<union> ?I (sc ?cl) \<union> ?I (tw ?cl)) \<union> ?I (sw ?cl) \<and> reg_dims R r4 = reg_dims R r3"
    by (rule replace_ok [OF R distinct_names(4) same_names(4) [of cl]])
      (simp_all add: r3 FF dims_agree_cong [OF r3(2) [symmetric]] dims groups_apart unregistered_sets Un_ac)
  then obtain r4 where r4: "replace R (schedule_worker_unregistered (schedule_worker_metrics cl)) (sw ?cl) r3 = Ret r4"
    "reg_dims R r4 = reg_dims R r" "reg_ids R r4 = F \<union> ?I (tq ?cl) \<union> ?I (sc ?cl) \<union> ?I (tw ?cl) \<union> ?I (sw ?cl)"
    using r3(2) by auto
  have created: "[TaskCounter (task_queue_metrics cl), EnqueueDuration (task_queue_metrics cl)] = tq cl"
    "[ScheduleCounter (scheduler_metrics cl), ErrorCounter (scheduler_metrics cl)] = sc cl"
    by (simp_all add: queue_created_def scheduler_created_def)
  have "dims_agree R r (all_metrics cl)" using dims by (simp add: all_metrics_def)
  with same_metricsD(2) [OF all_same] have "dims_agree R r (all_metrics ?cl)" by metis
  then have "dims_agree R r4 (all_metrics ?cl)" by (rule dims_agree_cong [OF r4(2) [symmetric]])
  then have "metrics_inv R F ?cl (metrics_of ?cl, r4)"
    by (simp add: metrics_inv_def r4(3) all_metrics_def image_Un Un_ac)
  then show ?thesis
    by (simp add: SwitchMetricsServiceName_def switch_task_queue_def switch_scheduler_def switch_task_worker_def
        switch_schedule_worker_def Let_def s g metrics_of_def created r1(1) r2(1) r3(1) r4(1))
qed

lemma register_disjoint:
  assumes "registry_ok R" "distinct (map full_name cs)" "apart_from (reg_ids R r) cs"
    and "\<forall>n \<in> full_name ` set cs. reg_dims R r n = None"
  shows "\<exists>r'. register_all R cs r = Ret r' \<and> reg_ids R r' = reg_ids R r \<union> desc_id ` set cs \<and> dims_agree R r' cs \<and>
    (\<forall>n. n \<notin> full_name ` set cs \<longrightarrow> reg_dims R r' n = reg_dims R r n)"
  using assms(3,4) by (intro register_all_ok [OF assms(1,2)]) (force simp: apart_from_def)+

lemma register_all_append:
  "register_all R (cs @ ds) r = (case register_all R cs r of Panic \<Rightarrow> Panic | Ret r \<Rightarrow> register_all R ds r)"
  by (induction cs arbitrary: r) (auto split: outcome.splits)

text \<open>The collectors in the order of the initialization of the package.\<close>

definition init_order :: "const_labels \<Rightarrow> collector list" where
  "init_order cl = tq cl @ tw cl @ sc cl @ sw cl"

lemma init_order_set: "set (init_order cl) = set (all_metrics cl)"
  by (auto simp: init_order_def all_metrics_def)

lemma init_order_distinct: "distinct (map full_name (init_order cl))"
proof -
  have disj: "full_name ` set a \<inter> full_name ` set b = {}" if "apart_from (desc_id ` set a) b" for a b
  proof -
    have "\<forall>c \<in> set a. full_name c \<notin> full_name ` set b" using that by (simp add: apart_from_def desc_id_def)
    then show ?thesis by blast
  qed
  show ?thesis
    by (simp add: init_order_def distinct_names disj groups_apart image_Un Int_Un_distrib)
qed

lemma init_ok:
  assumes R: "registry_ok R" and F: "apart_from (reg_ids R r) (all_metrics cl)"
    and dims: "\<forall>n \<in> full_name ` set (all_metrics cl). reg_dims R r n = None"
  shows "\<exists>s'. init_metrics R cl r = Ret s' \<and> metrics_inv R (reg_ids R r) cl s'"
proof -
  have "\<exists>r'. register_all R (init_order cl) r = Ret r' \<and> reg_ids R r' = reg_ids R r \<union> desc_id ` set (init_order cl) \<and>
    dims_agree R r' (init_order cl) \<and> (\<forall>n. n \<notin> full_name ` set (init_order cl) \<longrightarrow> reg_dims R r' n = reg_dims R r n)"
    using F dims by (intro register_disjoint [OF R init_order_distinct]) (simp_all add: apart_from_def init_order_set)
  then obtain r' where r': "register_all R (init_order cl) r = Ret r'"
    "reg_ids R r' = reg_ids R r \<union> desc_id ` set (all_metrics cl)" "dims_agree R r' (all_metrics cl)"
    unfolding dims_agree_def init_order_set by blast
  have "init_metrics R cl r =
    (case register_all R (init_order cl) r of Panic \<Rightarrow> Panic | Ret r \<Rightarrow> Ret (metrics_of cl, r))"
    by (simp add: init_metrics_def init_order_def register_all_append metrics_of_def split: outcome.split)
  with r' show ?thesis by (simp add: metrics_inv_def)
qed

text \<open>
  The metrics over the life of a program. The initialization of the package registers its 23
  collectors, and every later change of the service name succeeds too, also a change back to an
  earlier name: no registration collides, so nothing panics. After any sequence of changes exactly
  the collectors with the last name are registered, beside the collectors that the program has
  registered under other names, which are untouched, and they are the ones that the global
  instances use; no collector of an earlier name is left behind.
\<close>

theorem metrics_follow_service_name:
  assumes "registry_ok R" "apart_from (reg_ids R r) (all_metrics cl)"
    "\<forall>n \<in> full_name ` set (all_metrics cl). reg_dims R r n = None"
  shows "\<exists>r'. run_metrics R cl names r =
      Ret (metrics_of \<lparr>service_label = last (service_label cl # names), instance_label = instance_label cl\<rparr>, r') \<and>
    reg_ids R r' = reg_ids R r \<union>
      desc_id ` set (all_metrics \<lparr>service_label = last (service_label cl # names), instance_label = instance_label cl\<rparr>)"
proof -
  from init_ok [OF assms] obtain s where s: "init_metrics R cl r = Ret s" "metrics_inv R (reg_ids R r) cl s" by blast
  have "\<exists>s'. switch_all R cl names s = Ret s' \<and>
      metrics_inv R (reg_ids R r) \<lparr>service_label = last (service_label cl' # names), instance_label = instance_label cl\<rparr> s'"
    if "metrics_inv R (reg_ids R r) cl' s" "instance_label cl' = instance_label cl" for cl' s
    using that
  proof (induction names arbitrary: cl' s)
    case Nil
    then have "cl' = \<lparr>service_label = service_label cl', instance_label = instance_label cl\<rparr>" by simp
    then show ?case using Nil(1) by (metis last_ConsL switch_all.simps(1))
  next
    case (Cons n names)
    from switch_ok [OF assms(1,2) Cons.prems(1)] obtain s1 where
      "SwitchMetricsServiceName R cl n s = Ret s1"
      "metrics_inv R (reg_ids R r) \<lparr>service_label = n, instance_label = instance_label cl\<rparr> s1" by blast
    with Cons.IH [OF this(2)] show ?case by simp
  qed
  from this [OF s(2)] s(1) show ?thesis by (auto simp: run_metrics_def metrics_inv_def)
qed

text \<open>A registry as the set of the identifiers with the dimensions.\<close>

definition sample_registry :: "(collector_id set \<times> (string \<times> string \<times> string \<Rightarrow> dimension option)) registry" where
  "sample_registry =
     \<lparr>reg_register = (\<lambda>c (ids, dims).
        if desc_id c \<in> ids \<or> dims (full_name c) \<notin> {None, Some (desc_dim c)} then Panic
        else Ret (insert (desc_id c) ids, dims(full_name c := Some (desc_dim c)))),
      reg_unregister = (\<lambda>c (ids, dims). (ids - {desc_id c}, dims)), reg_ids = fst, reg_dims = snd\<rparr>"

lemma sample_registry_ok: "registry_ok sample_registry"
  by (auto simp: registry_ok_def sample_registry_def)

theorem metrics_follow_service_name_witness:
  "\<exists>r'. run_metrics sample_registry (constLabels ''app'' (Inr ''host'')) [''x'', ''app''] ({}, Map.empty) =
      Ret (metrics_of (constLabels ''app'' (Inr ''host'')), r') \<and>
    fst r' = desc_id ` set (all_metrics (constLabels ''app'' (Inr ''host'')))"
proof -
  have "apart_from (reg_ids sample_registry ({}, Map.empty)) (all_metrics (constLabels ''app'' (Inr ''host'')))"
    "\<forall>n \<in> full_name ` set (all_metrics (constLabels ''app'' (Inr ''host''))). reg_dims sample_registry ({}, Map.empty) n = None"
    by (simp_all add: sample_registry_def apart_from_def)
  from metrics_follow_service_name [OF sample_registry_ok this, of "[''x'', ''app'']"] show ?thesis
    by (simp add: sample_registry_def constLabels_def getHostname_def)
qed

end
