(* ===== verification/Managers.thy ===== *)
theory Managers
  imports Go_Errors Json Authorization "HOL-Library.Word"
begin

section \<open>Pagination, page information and resolving of identifiers\<close>

text \<open>
  \<open>pkg/http/parameters\<close> and \<open>pkg/data/managers\<close>. A condition of a query (\<open>squirrel.Sqlizer\<close>) is a
  predicate on rows, \<open>None\<close> for nil. A query yields rows until it fails or ends.
\<close>

subsection \<open>Pagination\<close>

definition DefaultPageSize :: "32 word" where "DefaultPageSize = 20"

definition MinPageSize :: "32 word" where "MinPageSize = 5"

definition MaxPageSize :: "32 word" where "MaxPageSize = 100"

record page =
  Number :: "32 word"
  Size :: "32 word"

definition max_uint32 :: nat where
  "max_uint32 = 4294967295"

text \<open>
  \<open>strconv.ParseUint(s, 10, 32)\<close> without its error: 0 for a text that is not a number, and the
  greatest value once the digits read so far exceed it.
\<close>

fun parse_digits :: "nat \<Rightarrow> string \<Rightarrow> nat" where
  "parse_digits n [] = n"
| "parse_digits n (c # cs) =
     (if \<not> is_digit c then 0
      else let n1 = n * 10 + (of_char c - 48)
      in if n1 > max_uint32 then max_uint32 else parse_digits n1 cs)"

definition ParseUint32 :: "string \<Rightarrow> nat" where
  "ParseUint32 s = (if s = [] then 0 else parse_digits 0 s)"

definition NormalizePaginationWithValues ::
  "string \<Rightarrow> string \<Rightarrow> 32 word \<Rightarrow> 32 word \<Rightarrow> 32 word \<Rightarrow> page" where
  "NormalizePaginationWithValues pageNumber pageSize defaultPageSize minPageSize maxPageSize =
     (let number = word_of_nat (ParseUint32 pageNumber);
          size = word_of_nat (ParseUint32 pageSize);
          number = (if number < 1 then 1 else number);
          size = (if size = 0 then defaultPageSize
            else if size < minPageSize then minPageSize
            else if size > maxPageSize then maxPageSize else size)
      in \<lparr>Number = number, Size = size\<rparr>)"

definition NormalizePagination :: "string \<Rightarrow> string \<Rightarrow> page" where
  "NormalizePagination pageNumber pageSize =
     NormalizePaginationWithValues pageNumber pageSize DefaultPageSize MinPageSize MaxPageSize"

text \<open>
  \<open>chiResolver.Resolve\<close>: a parameter of the route, or one of the query; both are given as functions
  that yield the empty text for a missing one.
\<close>

definition chi_Resolve :: "(string \<Rightarrow> string) \<Rightarrow> (string \<Rightarrow> string) \<Rightarrow> string \<Rightarrow> string" where
  "chi_Resolve url_param query_get name =
     (let val = url_param name in TrimSpace (if val = [] then query_get name else val))"

subsection \<open>Page information\<close>

record page_info =
  ItemCount :: "32 word"
  ItemsPerPage :: "32 word"
  UnfilteredItemCount :: "32 word"
  Current :: "32 word"

text \<open>
  Scanning a count into a \<open>uint32\<close> fails when it does not fit.
\<close>

definition scan_count :: "error option \<Rightarrow> nat \<Rightarrow> error + 32 word" where
  "scan_count err n =
     (case err of Some x \<Rightarrow> Inl x
      | None \<Rightarrow> if n \<le> max_uint32 then Inr (word_of_nat n) else Inl (Ext ''sql: Scan error: value out of range''))"

definition where_opt :: "('r \<Rightarrow> bool) option \<Rightarrow> 'r list \<Rightarrow> 'r list" where
  "where_opt cond rows = (case cond of None \<Rightarrow> rows | Some c \<Rightarrow> filter c rows)"

text \<open>
  The two counts are two queries: \<open>rows1\<close> and \<open>rows2\<close> are what the query yields at the first and at
  the second one. When the second one fails its count is left at 0.
\<close>

definition GetPageInfoWithQuery ::
  "page \<Rightarrow> ('r \<Rightarrow> bool) option \<Rightarrow> error option \<Rightarrow> 'r list \<Rightarrow> error option \<Rightarrow> 'r list \<Rightarrow> page_info \<times> error option" where
  "GetPageInfoWithQuery pg filt err1 rows1 err2 rows2 =
     (let info = \<lparr>ItemCount = 0, ItemsPerPage = Size pg, UnfilteredItemCount = 0, Current = Number pg\<rparr>
      in case scan_count err1 (length rows1) of
           Inl x \<Rightarrow> (info, Some x)
         | Inr unfiltered \<Rightarrow>
           let info = info\<lparr>UnfilteredItemCount := unfiltered\<rparr>
           in case filt of
                Some c \<Rightarrow>
                  (case scan_count err2 (length (filter c rows2)) of
                     Inl x \<Rightarrow> (info, Some x)
                   | Inr n \<Rightarrow> (info\<lparr>ItemCount := n\<rparr>, None))
              | None \<Rightarrow> (info\<lparr>ItemCount := unfiltered\<rparr>, None))"

definition GetPageInfo ::
  "page \<Rightarrow> ('r \<Rightarrow> bool) option \<Rightarrow> ('r \<Rightarrow> bool) option \<Rightarrow> error option \<Rightarrow> 'r list \<Rightarrow> error option \<Rightarrow> 'r list
    \<Rightarrow> page_info \<times> error option" where
  "GetPageInfo pg scope filt err1 table1 err2 table2 =
     GetPageInfoWithQuery pg filt err1 (where_opt scope table1) err2 (where_opt scope table2)"

subsection \<open>Identifiers\<close>

record id_resolver =
  table :: string
  idColumn :: string
  secondaryColumn :: string

text \<open>
  What \<open>rows.Next\<close> and \<open>rows.Err\<close> see: the rows, and the error that ends the iteration after so many
  of them. \<open>Scan\<close> fails when the column is not a text.
\<close>

record rows_result =
  got_rows :: "string option list"
  rows_err :: "error option"

definition ID_empty :: error where
  "ID_empty = Validation_err Ozzo3 (''id: the id parameter can'' @ [CHR 0x27] @ ''t be empty.'')
     [(''id'', Some (''the id parameter can'' @ [CHR 0x27] @ ''t be empty''))]"

definition non_unique :: "id_resolver \<Rightarrow> string \<Rightarrow> error" where
  "non_unique r value = New (''id for `'' @ secondaryColumn r @ '' = '' @ value @
     ''` can'' @ [CHR 0x27] @ ''t be resolved in `'' @ table r @ ''` due to non-unique results'')"

text \<open>
  \<open>column\<close> reads a column of a row; \<open>is_uuid\<close> is the parser of the uuid package. \<open>run\<close> executes the
  query with the condition and the limit of two rows.
\<close>

definition id_Resolve ::
  "(string \<Rightarrow> bool) \<Rightarrow> (string \<Rightarrow> 'r \<Rightarrow> string option) \<Rightarrow> (('r \<Rightarrow> bool) \<Rightarrow> error + rows_result)
    \<Rightarrow> id_resolver \<Rightarrow> string \<Rightarrow> ('r \<Rightarrow> bool) option \<Rightarrow> error + string" where
  "id_Resolve is_uuid column run r value filt =
     (if value = [] then Inl ID_empty
      else let lookupColumn = (if is_uuid (TrimSpace value) then idColumn r else secondaryColumn r)
      in case run (\<lambda>row. (case filt of None \<Rightarrow> True | Some c \<Rightarrow> c row) \<and> column lookupColumn row = Some value) of
           Inl x \<Rightarrow> Inl x
         | Inr rows \<Rightarrow>
           (case got_rows rows of
              [] \<Rightarrow> Inl (Http_err ErrNotFound)
            | i # others \<Rightarrow>
              (case i of None \<Rightarrow> Inl (Ext ''sql: Scan error: converting NULL to string is unsupported'')
               | Some ident \<Rightarrow>
                 if others \<noteq> [] then Inl (non_unique r value)
                 else (case rows_err rows of Some x \<Rightarrow> Inl x | None \<Rightarrow> Inr ident))))"

definition id_Sqlizer ::
  "(string \<Rightarrow> bool) \<Rightarrow> (string \<Rightarrow> 'r \<Rightarrow> string option) \<Rightarrow> (('r \<Rightarrow> bool) \<Rightarrow> error + rows_result)
    \<Rightarrow> id_resolver \<Rightarrow> string \<Rightarrow> ('r \<Rightarrow> bool) option \<Rightarrow> error + ('r \<Rightarrow> bool)" where
  "id_Sqlizer is_uuid column run r value filt =
     (case id_Resolve is_uuid column run r value filt of Inl x \<Rightarrow> Inl x
      | Inr ident \<Rightarrow>
        let idPred = (\<lambda>row. column (idColumn r) row = Some ident)
        in case filt of None \<Rightarrow> Inr idPred | Some c \<Rightarrow> Inr (\<lambda>row. c row \<and> idPred row))"

text \<open>The query on a table that is read without errors.\<close>

definition run_table :: "(string \<Rightarrow> 'r \<Rightarrow> string option) \<Rightarrow> id_resolver \<Rightarrow> 'r list \<Rightarrow> ('r \<Rightarrow> bool) \<Rightarrow> error + rows_result" where
  "run_table column r rows cond =
     Inr \<lparr>got_rows = map (column (idColumn r)) (take 2 (filter cond rows)), rows_err = None\<rparr>"

subsection \<open>Properties\<close>

lemma parse_digits_bound: "n \<le> max_uint32 \<Longrightarrow> parse_digits n s \<le> max_uint32"
  by (induction n s rule: parse_digits.induct) (auto simp: Let_def)

lemma ParseUint32_bound: "ParseUint32 s \<le> max_uint32"
  by (simp add: ParseUint32_def parse_digits_bound)

text \<open>The number that a text of digits stands for.\<close>

fun dec_value :: "nat \<Rightarrow> string \<Rightarrow> nat" where
  "dec_value n [] = n"
| "dec_value n (c # cs) = dec_value (n * 10 + (of_char c - 48)) cs"

lemma dec_value_mono: "n \<le> dec_value n s"
proof (induction n s rule: dec_value.induct)
  case (2 n c cs)
  have "n \<le> n * 10 + (of_char c - 48)" by simp
  also have "\<dots> \<le> dec_value (n * 10 + (of_char c - 48)) cs" by (rule 2)
  finally show ?case by simp
qed simp

lemma dec_value_append: "dec_value n (s @ t) = dec_value (dec_value n s) t"
  by (induction n s rule: dec_value.induct) simp_all

lemma parse_digits_value:
  "list_all is_digit s \<Longrightarrow> dec_value n s \<le> max_uint32 \<Longrightarrow> parse_digits n s = dec_value n s"
proof (induction n s rule: dec_value.induct)
  case (2 n c cs)
  have "n * 10 + (of_char c - 48) \<le> max_uint32"
    using dec_value_mono [of "n * 10 + (of_char c - 48)" cs] 2(3) by simp
  with 2 show ?case by (simp add: Let_def)
qed simp

lemma nat_text_digits: "list_all is_digit (nat_text n) \<and> dec_value 0 (nat_text n) = n"
proof (induction n rule: nat_text.induct)
  case (1 n)
  have digit: "is_digit (char_of (48 + k)) \<and> (of_char (char_of (48 + k) :: char) :: nat) = 48 + k" if "k < 10" for k :: nat
    using that by (simp add: is_digit_def)
  show ?case
  proof (cases "n < 10")
    case True
    with digit [of n] show ?thesis by (simp add: nat_text.simps [of n])
  next
    case False
    with 1 digit [of "n mod 10"] show ?thesis
      by (simp add: nat_text.simps [of n] dec_value_append)
  qed
qed

lemma ParseUint32_text: "n \<le> max_uint32 \<Longrightarrow> ParseUint32 (nat_text n) = n"
  using nat_text_digits [of n] by (simp add: ParseUint32_def parse_digits_value)

text \<open>
  Whatever texts a client sends, the number of the page is at least 1 and its size is between the
  bounds; the texts of a page within the bounds are taken as they are.
\<close>

theorem pagination_bounds:
  assumes "minPageSize \<le> defaultPageSize" "defaultPageSize \<le> maxPageSize"
  shows "1 \<le> Number (NormalizePaginationWithValues n s defaultPageSize minPageSize maxPageSize) \<and>
    minPageSize \<le> Size (NormalizePaginationWithValues n s defaultPageSize minPageSize maxPageSize) \<and>
    Size (NormalizePaginationWithValues n s defaultPageSize minPageSize maxPageSize) \<le> maxPageSize \<and>
    (1 \<le> k \<longrightarrow> 1 \<le> z \<longrightarrow> minPageSize \<le> z \<longrightarrow> z \<le> maxPageSize \<longrightarrow>
      NormalizePaginationWithValues (nat_text (unat k)) (nat_text (unat z)) defaultPageSize minPageSize maxPageSize =
        \<lparr>Number = k, Size = z\<rparr>)"
proof -
  have "unat x \<le> max_uint32" for x :: "32 word" using unsigned_less [of x, where ?'a = nat] by (simp add: max_uint32_def)
  then have "word_of_nat (ParseUint32 (nat_text (unat x))) = x" for x :: "32 word" by (simp add: ParseUint32_text)
  moreover have "1 \<le> x \<longleftrightarrow> x \<noteq> 0" for x :: "32 word" by (simp add: not_less [symmetric])
  ultimately show ?thesis
    using assms by (auto simp: NormalizePaginationWithValues_def Let_def not_less)
qed

theorem pagination_bounds_witness:
  "NormalizePagination (nat_text 3) (nat_text 50) = \<lparr>Number = 3, Size = 50\<rparr> \<and>
   5 \<le> Size (NormalizePagination ''99999999999'' ''99999999999'') \<and> Size (NormalizePagination ''x'' ''-7'') \<le> 100"
  using pagination_bounds [of 5 20 100 "''99999999999''" "''99999999999''" 3 50] pagination_bounds [of 5 20 100 "''x''" "''-7''"]
  by (simp add: NormalizePagination_def DefaultPageSize_def MinPageSize_def MaxPageSize_def)

text \<open>
  On a table that does not change between the two counts, the counts are those of the rows in
  scope and of the rows in scope that pass the filter, so the filtered count is the smaller one.
\<close>

theorem page_info_counts:
  assumes "length (where_opt scope rows) \<le> max_uint32"
  shows "\<exists>info. GetPageInfo pg scope filt None rows None rows = (info, None) \<and>
    unat (UnfilteredItemCount info) = length (where_opt scope rows) \<and>
    unat (ItemCount info) = length (where_opt filt (where_opt scope rows)) \<and>
    ItemCount info \<le> UnfilteredItemCount info"
proof -
  have u: "unat (word_of_nat k :: 32 word) = k" if "k \<le> max_uint32" for k
    using that by (simp add: max_uint32_def unat_of_nat)
  show ?thesis
  proof (cases filt)
    case None
    with assms u show ?thesis by (simp add: GetPageInfo_def GetPageInfoWithQuery_def scan_count_def Let_def where_opt_def)
  next
    case (Some c)
    have le: "length (filter c (where_opt scope rows)) \<le> length (where_opt scope rows)" by (rule length_filter_le)
    with assms have "length (filter c (where_opt scope rows)) \<le> max_uint32" by linarith
    with assms u Some le show ?thesis
      by (simp add: GetPageInfo_def GetPageInfoWithQuery_def scan_count_def Let_def where_opt_def [of "Some c"] word_le_nat_alt)
  qed
qed

theorem page_info_counts_witness:
  "\<exists>info. GetPageInfo (NormalizePagination [] []) (Some (\<lambda>x. 0 < x)) (Some even) None [0, 1, 2, 3, 4 :: int] None [0, 1, 2, 3, 4] = (info, None) \<and>
     unat (UnfilteredItemCount info) = 4 \<and> unat (ItemCount info) = 2"
  using page_info_counts [of "Some (\<lambda>x. 0 < x)" "[0, 1, 2, 3, 4 :: int]" "NormalizePagination [] []" "Some even"]
  by (auto simp: where_opt_def max_uint32_def)

text \<open>The condition that \<open>Resolve\<close> looks up.\<close>

definition lookup_cond ::
  "(string \<Rightarrow> bool) \<Rightarrow> (string \<Rightarrow> 'r \<Rightarrow> string option) \<Rightarrow> id_resolver \<Rightarrow> string \<Rightarrow> ('r \<Rightarrow> bool) option \<Rightarrow> 'r \<Rightarrow> bool" where
  "lookup_cond is_uuid column r value filt row \<longleftrightarrow> (case filt of None \<Rightarrow> True | Some c \<Rightarrow> c row) \<and>
     column (if is_uuid (TrimSpace value) then idColumn r else secondaryColumn r) row = Some value"

lemma id_Resolve_table:
  "value \<noteq> [] \<Longrightarrow> id_Resolve is_uuid column (run_table column r rows) r value filt =
     (case filter (lookup_cond is_uuid column r value filt) rows of
        [] \<Rightarrow> Inl (Http_err ErrNotFound)
      | row # others \<Rightarrow>
        (case column (idColumn r) row of
           None \<Rightarrow> Inl (Ext ''sql: Scan error: converting NULL to string is unsupported'')
         | Some i \<Rightarrow> if others = [] then Inr i else Inl (non_unique r value)))"
  by (simp add: id_Resolve_def run_table_def Let_def lookup_cond_def [abs_def] split: list.split option.split)

text \<open>
  A value is resolved exactly when one row in the filter has it, in the id column if it looks
  like an identifier and in the secondary column otherwise; the result is the identifier of that row.
\<close>

theorem resolve_unique:
  assumes "value \<noteq> []"
  shows "id_Resolve is_uuid column (run_table column r rows) r value filt = Inr i \<longleftrightarrow>
    (\<exists>row. filter (lookup_cond is_uuid column r value filt) rows = [row] \<and> column (idColumn r) row = Some i)"
  unfolding id_Resolve_table [OF assms] by (auto split: list.split option.split)

text \<open>
  An error while the first row is read is reported as a missing object.
\<close>

theorem resolve_hides_read_error:
  assumes "value \<noteq> []" "\<forall>cond. run cond = Inr \<lparr>got_rows = [], rows_err = Some x\<rparr>"
  shows "id_Resolve is_uuid column run r value filt = Inl (Http_err ErrNotFound)"
  using assms by (simp add: id_Resolve_def Let_def)

text \<open>
  The condition that \<open>Sqlizer\<close> returns selects exactly the row that was resolved, on a table with
  unique identifiers.
\<close>

lemma Sqlizer_selects:
  assumes "id_Sqlizer is_uuid column (run_table column r rows) r value filt = Inr cond" "value \<noteq> []"
    and "\<forall>a \<in> set rows. \<forall>b \<in> set rows. column (idColumn r) a = column (idColumn r) b \<longrightarrow> a = b" "row \<in> set rows"
  shows "cond row \<longleftrightarrow> lookup_cond is_uuid column r value filt row"
proof -
  from assms(1) obtain i where i: "id_Resolve is_uuid column (run_table column r rows) r value filt = Inr i"
    and cond: "cond row \<longleftrightarrow> (case filt of None \<Rightarrow> True | Some c \<Rightarrow> c row) \<and> column (idColumn r) row = Some i"
    by (auto simp: id_Sqlizer_def Let_def split: sum.splits option.splits)
  from i obtain x where x: "filter (lookup_cond is_uuid column r value filt) rows = [x]" "column (idColumn r) x = Some i"
    unfolding id_Resolve_table [OF assms(2)] by (auto split: list.splits option.splits if_splits)
  from x(1) have "set (filter (lookup_cond is_uuid column r value filt) rows) = {x}" by simp
  then have "x \<in> set rows" "lookup_cond is_uuid column r value filt x"
    and "lookup_cond is_uuid column r value filt row \<Longrightarrow> row = x"
    using assms(4) by auto
  then show ?thesis using assms(3,4) x(2) cond by (metis lookup_cond_def)
qed

definition ex_resolver :: id_resolver where
  "ex_resolver = \<lparr>table = ''collections'', idColumn = ''collection_id'', secondaryColumn = ''name''\<rparr>"

definition ex_column :: "string \<Rightarrow> string \<times> string \<Rightarrow> string option" where
  "ex_column col row = (if col = ''collection_id'' then Some (fst row) else if col = ''name'' then Some (snd row) else None)"

theorem resolve_unique_witness:
  "id_Resolve (\<lambda>s. length s = 36) ex_column (run_table ex_column ex_resolver [(''1'', ''a''), (''2'', ''b''), (''3'', ''c'')])
     ex_resolver ''b'' (Some (\<lambda>row. fst row \<noteq> ''3'')) = Inr ''2''"
  by (subst resolve_unique) (simp_all add: lookup_cond_def ex_column_def ex_resolver_def TrimSpace_def is_space_def)

theorem resolve_hides_read_error_witness:
  "id_Resolve (\<lambda>s. length s = 36) ex_column (\<lambda>_. Inr \<lparr>got_rows = [], rows_err = Some (Std_err DeadlineExceeded)\<rparr>)
     ex_resolver ''b'' None = Inl (Http_err ErrNotFound)"
  by (rule resolve_hides_read_error) simp_all

end
