(* ===== verification/Rules.thy ===== *)
theory Rules
  imports Managers "HOL-Library.AList"
begin

section \<open>Validation rules, generated names and formatting\<close>

text \<open>
  \<open>pkg/validation/rules.go\<close>, \<open>pkg/db/names.go\<close> and \<open>pkg/data/strings/format.go\<close>. The package
  \<open>ozzo-validation\<close> is the record \<open>ozzo\<close>: its rules, which values they accept, and the validation
  of a value by a list of rules; \<open>ozzo_ok\<close> is what its documentation says of them. Lengths are in
  bytes, as they are there.
\<close>

record 'r ozzo =
  oz_Validate :: "string \<Rightarrow> 'r list \<Rightarrow> error option"
  oz_Required :: 'r
  oz_Length :: "nat \<Rightarrow> nat \<Rightarrow> 'r"
  oz_Match :: "(string \<Rightarrow> bool) \<Rightarrow> string \<Rightarrow> 'r"
  oz_URL :: 'r
  oz_UUID :: 'r
  oz_NilOrNotEmpty :: 'r
  oz_accepts :: "'r \<Rightarrow> string \<Rightarrow> bool"

definition ozzo_ok :: "'r ozzo \<Rightarrow> bool" where
  "ozzo_ok z \<longleftrightarrow>
     (\<forall>v rs. oz_Validate z v rs = None \<longleftrightarrow> list_all (\<lambda>r. oz_accepts z r v) rs) \<and>
     (\<forall>v. oz_accepts z (oz_Required z) v \<longleftrightarrow> v \<noteq> []) \<and>
     (\<forall>v. oz_accepts z (oz_NilOrNotEmpty z) v \<longleftrightarrow> v \<noteq> []) \<and>
     (\<forall>lo hi v. oz_accepts z (oz_Length z lo hi) v \<longleftrightarrow> v = [] \<or> lo \<le> length v \<and> (hi = 0 \<or> length v \<le> hi)) \<and>
     (\<forall>re m v. oz_accepts z (oz_Match z re m) v \<longleftrightarrow> v = [] \<or> re v)"

definition MinNameLength :: nat where "MinNameLength = 2"

definition MaxNameLength :: nat where "MaxNameLength = 255"

definition MaxSQLIdentifierLength :: nat where "MaxSQLIdentifierLength = 63"

definition sqlIdentifierErrorMsg :: string where
  "sqlIdentifierErrorMsg =
     ''SQL names must start with an alphabetic character and may only include alphanumeric characters and underscores '' @
     [CHR 0x27] @ ''_'' @ [CHR 0x27]"

text \<open>The expression \<open>^[a-zA-Z]+[a-zA-Z0-9_]*$\<close>: the text is split into a part for each of the two classes.\<close>

definition identifierRE :: "string \<Rightarrow> bool" where
  "identifierRE s = list_ex (\<lambda>i. 0 < i \<and> list_all is_letter (take i s) \<and>
     list_all (\<lambda>c. is_letter c \<or> is_digit c \<or> c = CHR ''_'') (drop i s)) [0..<Suc (length s)]"

definition Name :: "'r ozzo \<Rightarrow> string \<Rightarrow> error option" where
  "Name z value = oz_Validate z value [oz_Required z, oz_Length z MinNameLength MaxNameLength]"

definition SQLIdentifier :: "'r ozzo \<Rightarrow> string \<Rightarrow> error option" where
  "SQLIdentifier z value =
     oz_Validate z value
       [oz_Required z, oz_Length z MinNameLength MaxSQLIdentifierLength, oz_Match z identifierRE sqlIdentifierErrorMsg]"

definition URL :: "'r ozzo \<Rightarrow> string \<Rightarrow> error option" where
  "URL z value = oz_Validate z value [oz_Required z, oz_URL z]"

definition UUID :: "'r ozzo \<Rightarrow> string \<Rightarrow> error option" where
  "UUID z value = oz_Validate z value [oz_Required z, oz_UUID z]"

definition SQLNameOrUUID :: "'r ozzo \<Rightarrow> string \<Rightarrow> error option" where
  "SQLNameOrUUID z value =
     (case UUID z value of
        None \<Rightarrow> None
      | Some e \<Rightarrow> (case SQLIdentifier z value of
          Some err \<Rightarrow> Some (errors_Wrap err ''must be a valid UUID or a valid SQL identifier'')
        | None \<Rightarrow> None))"

definition NotEmpty :: "'r ozzo \<Rightarrow> string \<Rightarrow> error option" where
  "NotEmpty z value = oz_Validate z value [oz_NilOrNotEmpty z]"

text \<open>
  The errors of several values are a map with the value as the key; \<open>Filter\<close> drops the entries
  without an error and is nil when none is left. \<open>list_err\<close> is the error of the first validation,
  which fails for an empty list.
\<close>

datatype uuids_error = List_err error | Values_err "(string \<times> error) list"

fun uuid_errors :: "'r ozzo \<Rightarrow> string list \<Rightarrow> (string \<times> error option) list \<Rightarrow> (string \<times> error option) list" where
  "uuid_errors z [] errs = errs"
| "uuid_errors z (val # vals) errs = uuid_errors z vals (AList.update val (UUID z val) errs)"

definition Filter_errors :: "(string \<times> error option) list \<Rightarrow> (string \<times> error) list" where
  "Filter_errors errs = map (\<lambda>(k, e). (k, the e)) (filter (\<lambda>(k, e). e \<noteq> None) errs)"

definition UUIDs :: "'r ozzo \<Rightarrow> error \<Rightarrow> string list \<Rightarrow> uuids_error option" where
  "UUIDs z list_err values =
     (if values = [] then Some (List_err list_err)
      else case Filter_errors (uuid_errors z values []) of [] \<Rightarrow> None | es \<Rightarrow> Some (Values_err es))"

text \<open>\<open>GenerateSQLName\<close>, with the text of the random identifier.\<close>

definition GenerateSQLName :: "string \<Rightarrow> string" where
  "GenerateSQLName uuid = ''s'' @ filter (\<lambda>c. c \<noteq> CHR ''-'') uuid"

text \<open>The texts of identifiers: five groups of hexadecimal digits.\<close>

definition hex_char :: "char \<Rightarrow> bool" where
  "hex_char c \<longleftrightarrow> c \<in> set ''0123456789abcdef''"

definition uuid_text :: "string \<Rightarrow> bool" where
  "uuid_text s \<longleftrightarrow> (\<exists>a b c d e. s = a @ ''-'' @ b @ ''-'' @ c @ ''-'' @ d @ ''-'' @ e \<and>
     map length [a, b, c, d, e] = [8, 4, 4, 4, 12] \<and> list_all (list_all hex_char) [a, b, c, d, e])"

subsection \<open>Formatting of sizes\<close>

text \<open>The divisor is a 64 bit integer.\<close>

function unit_loop :: "int \<Rightarrow> int \<Rightarrow> nat \<Rightarrow> int \<times> nat" where
  "unit_loop n dv ex = (if n \<ge> 1000 then unit_loop (n div 1000) (wrap64 (dv * 1000)) (ex + 1) else (dv, ex))"
  by pat_completeness auto
termination by (relation "measure (\<lambda>(n, dv, ex). nat n)") auto

declare unit_loop.simps [simp del]

text \<open>\<open>quot\<close> is the text of the floating point quotient with one decimal.\<close>

definition HumanReadableByteCount :: "(int \<Rightarrow> int \<Rightarrow> string) \<Rightarrow> int \<Rightarrow> string outcome" where
  "HumanReadableByteCount quot b =
     (if b < 1000 then Ret (int_text b @ '' B'')
      else let (dv, ex) = unit_loop (b div 1000) 1000 0
           in if ex < length ''kMGTPE'' then Ret (quot b dv @ '' '' @ [''kMGTPE'' ! ex] @ ''B'') else Panic)"

subsection \<open>Identifiers\<close>

lemma identifierRE_iff:
  "identifierRE s \<longleftrightarrow> s \<noteq> [] \<and> is_letter (hd s) \<and> list_all (\<lambda>c. is_letter c \<or> is_digit c \<or> c = CHR ''_'') s"
  (is "_ \<longleftrightarrow> ?r")
proof
  assume "identifierRE s"
  then obtain i where i: "0 < i" "list_all is_letter (take i s)" "list_all (\<lambda>c. is_letter c \<or> is_digit c \<or> c = CHR ''_'') (drop i s)"
    "i \<le> length s" by (auto simp: identifierRE_def list_ex_iff less_Suc_eq_le simp del: upt_Suc)
  then obtain c t where s: "s = c # t" by (cases s) auto
  have "list_all (\<lambda>c. is_letter c \<or> is_digit c \<or> c = CHR ''_'') (take i s @ drop i s)"
    using i(2,3) by (simp only: list_all_append) (simp add: list_all_iff)
  with i s show ?r by (cases i) simp_all
next
  assume ?r
  then obtain c t where s: "s = c # t" by (cases s) auto
  with \<open>?r\<close> show "identifierRE s"
    unfolding identifierRE_def list_ex_iff by (intro bexI [of _ 1]) (simp_all del: upt_Suc)
qed

lemma SQLIdentifier_iff:
  assumes "ozzo_ok z"
  shows "SQLIdentifier z v = None \<longleftrightarrow> 2 \<le> length v \<and> length v \<le> 63 \<and> is_letter (hd v) \<and>
    list_all (\<lambda>c. is_letter c \<or> is_digit c \<or> c = CHR ''_'') v"
proof -
  have "SQLIdentifier z v = None \<longleftrightarrow> v \<noteq> [] \<and> 2 \<le> length v \<and> length v \<le> 63 \<and> identifierRE v"
    using assms unfolding ozzo_ok_def SQLIdentifier_def MinNameLength_def MaxSQLIdentifierLength_def by auto
  then show ?thesis by (auto simp: identifierRE_iff)
qed

lemma hex_char_facts: "hex_char c \<Longrightarrow> (is_letter c \<or> is_digit c) \<and> c \<noteq> CHR ''-''"
  by (auto simp: hex_char_def is_letter_def is_lower_def is_upper_def is_digit_def)

lemma GenerateSQLName_groups:
  assumes "uuid_text u"
  obtains a b c d e where "u = a @ ''-'' @ b @ ''-'' @ c @ ''-'' @ d @ ''-'' @ e"
    "length a = 8" "length b = 4" "length c = 4" "length d = 4" "length e = 12"
    "list_all hex_char (a @ b @ c @ d @ e)" "GenerateSQLName u = ''s'' @ a @ b @ c @ d @ e"
proof -
  from assms obtain a b c d e where *: "u = a @ ''-'' @ b @ ''-'' @ c @ ''-'' @ d @ ''-'' @ e"
    "length a = 8" "length b = 4" "length c = 4" "length d = 4" "length e = 12"
    "list_all hex_char a" "list_all hex_char b" "list_all hex_char c" "list_all hex_char d" "list_all hex_char e"
    by (auto simp: uuid_text_def)
  have keep: "filter (\<lambda>c. c \<noteq> CHR ''-'') g = g" if "list_all hex_char g" for g
    using that hex_char_facts by (auto simp: list_all_iff filter_id_conv)
  from * keep have "GenerateSQLName u = ''s'' @ a @ b @ c @ d @ e" by (simp add: GenerateSQLName_def)
  with * that show ?thesis by simp
qed

lemma GenerateSQLName_inj:
  assumes "uuid_text u" "uuid_text u'" "GenerateSQLName u = GenerateSQLName u'"
  shows "u = u'"
proof -
  from GenerateSQLName_groups [OF assms(1)] obtain a b c d e where 1: "u = a @ ''-'' @ b @ ''-'' @ c @ ''-'' @ d @ ''-'' @ e"
    "length a = 8" "length b = 4" "length c = 4" "length d = 4" "GenerateSQLName u = ''s'' @ a @ b @ c @ d @ e" by metis
  from GenerateSQLName_groups [OF assms(2)] obtain a' b' c' d' e' where 2: "u' = a' @ ''-'' @ b' @ ''-'' @ c' @ ''-'' @ d' @ ''-'' @ e'"
    "length a' = 8" "length b' = 4" "length c' = 4" "length d' = 4" "GenerateSQLName u' = ''s'' @ a' @ b' @ c' @ d' @ e'" by metis
  have "a @ b @ c @ d @ e = a' @ b' @ c' @ d' @ e'" using assms(3) 1(6) 2(6) by simp
  with 1 2 show ?thesis by simp
qed

lemma GenerateSQLName_valid:
  assumes "ozzo_ok z" "uuid_text u"
  shows "SQLIdentifier z (GenerateSQLName u) = None \<and> length (GenerateSQLName u) = 33"
proof -
  from GenerateSQLName_groups [OF assms(2)] obtain a b c d e where *:
    "length a = 8" "length b = 4" "length c = 4" "length d = 4" "length e = 12"
    "list_all hex_char (a @ b @ c @ d @ e)" "GenerateSQLName u = ''s'' @ a @ b @ c @ d @ e" by metis
  have len: "length (GenerateSQLName u) = 33" using * by simp
  have s: "is_letter (CHR ''s'')" by (simp add: is_letter_def is_lower_def)
  have "list_all (\<lambda>c. is_letter c \<or> is_digit c \<or> c = CHR ''_'') (a @ b @ c @ d @ e)"
    using *(6) hex_char_facts unfolding list_all_iff by blast
  then have "list_all (\<lambda>c. is_letter c \<or> is_digit c \<or> c = CHR ''_'') (GenerateSQLName u)"
    unfolding *(7) using s by simp
  moreover have "is_letter (hd (GenerateSQLName u))" using *(7) s by simp
  ultimately show ?thesis using len SQLIdentifier_iff [OF assms(1)] by simp
qed

lemma sql_names_parts:
  assumes "ozzo_ok z"
  shows "SQLIdentifier z v = None \<longleftrightarrow> 2 \<le> length v \<and> length v \<le> 63 \<and> is_letter (hd v) \<and>
      list_all (\<lambda>c. is_letter c \<or> is_digit c \<or> c = CHR ''_'') v"
    "SQLNameOrUUID z v = None \<longleftrightarrow> UUID z v = None \<or> SQLIdentifier z v = None"
    "uuid_text u \<Longrightarrow> SQLIdentifier z (GenerateSQLName u) = None \<and> length (GenerateSQLName u) = 33"
    "uuid_text u \<Longrightarrow> uuid_text u' \<Longrightarrow> GenerateSQLName u = GenerateSQLName u' \<Longrightarrow> u = u'"
  by (rule SQLIdentifier_iff [OF assms], simp add: SQLNameOrUUID_def split: option.split,
      rule GenerateSQLName_valid [OF assms], assumption, rule GenerateSQLName_inj)

text \<open>
  Valid SQL names. A value is a valid SQL identifier exactly when it has from 2 to 63 bytes,
  starts with a letter and has letters, digits and underscores only; every value that is accepted
  as a name or an identifier is one of the two; and a generated name is always valid, has 33
  bytes, and comes from one random identifier only.
\<close>

theorem sql_names:
  assumes "ozzo_ok z"
  shows "(SQLIdentifier z v = None \<longleftrightarrow> 2 \<le> length v \<and> length v \<le> 63 \<and> is_letter (hd v) \<and>
      list_all (\<lambda>c. is_letter c \<or> is_digit c \<or> c = CHR ''_'') v) \<and>
    (SQLNameOrUUID z v = None \<longleftrightarrow> UUID z v = None \<or> SQLIdentifier z v = None) \<and>
    (\<forall>u. uuid_text u \<longrightarrow> SQLIdentifier z (GenerateSQLName u) = None \<and> length (GenerateSQLName u) = 33) \<and>
    (\<forall>u u'. uuid_text u \<longrightarrow> uuid_text u' \<longrightarrow> GenerateSQLName u = GenerateSQLName u' \<longrightarrow> u = u')"
  by (rule conjI [OF sql_names_parts(1) [OF assms] conjI [OF sql_names_parts(2) [OF assms] conjI]];
      intro allI impI; rule sql_names_parts [OF assms]; assumption)

datatype sample_rule = S_required | S_length nat nat | S_match "string \<Rightarrow> bool" | S_none

fun sample_accepts :: "sample_rule \<Rightarrow> string \<Rightarrow> bool" where
  "sample_accepts S_required v = (v \<noteq> [])"
| "sample_accepts (S_length lo hi) v = (v = [] \<or> lo \<le> length v \<and> (hi = 0 \<or> length v \<le> hi))"
| "sample_accepts (S_match re) v = (v = [] \<or> re v)"
| "sample_accepts S_none v = False"

definition sample_ozzo :: "sample_rule ozzo" where
  "sample_ozzo =
     \<lparr>oz_Validate = (\<lambda>v rs. if list_all (\<lambda>r. sample_accepts r v) rs then None else Some (Ext ''invalid'')),
      oz_Required = S_required, oz_Length = S_length, oz_Match = (\<lambda>re m. S_match re), oz_URL = S_none, oz_UUID = S_none,
      oz_NilOrNotEmpty = S_required, oz_accepts = sample_accepts\<rparr>"

lemma sample_ozzo_ok: "ozzo_ok sample_ozzo"
  by (simp add: ozzo_ok_def sample_ozzo_def)

theorem sql_names_witness:
  "SQLIdentifier sample_ozzo ''t_1'' = None \<and> SQLIdentifier sample_ozzo ''1t'' \<noteq> None \<and>
   SQLIdentifier sample_ozzo (GenerateSQLName ''01234567-89ab-cdef-0123-456789abcdef'') = None"
proof -
  have "uuid_text ''01234567-89ab-cdef-0123-456789abcdef''"
    unfolding uuid_text_def
    by (rule exI [of _ "''01234567''"], rule exI [of _ "''89ab''"], rule exI [of _ "''cdef''"], rule exI [of _ "''0123''"],
        rule exI [of _ "''456789abcdef''"]) (simp add: hex_char_def)
  with sql_names [OF sample_ozzo_ok, of "''t_1''"] sql_names [OF sample_ozzo_ok, of "''1t''"]
  show ?thesis by (simp add: is_letter_def is_digit_def is_lower_def is_upper_def)
qed

subsection \<open>Lists of identifiers\<close>

lemma uuid_errors_map:
  "map_of (uuid_errors z vals errs) k = (if k \<in> set vals then Some (UUID z k) else map_of errs k)"
  by (induction vals arbitrary: errs) (auto simp: update_conv)

lemma uuid_errors_distinct: "distinct (map fst errs) \<Longrightarrow> distinct (map fst (uuid_errors z vals errs))"
  by (induction vals arbitrary: errs) (auto intro: distinct_update)

lemma Filter_errors_mem: "(v, e) \<in> set (Filter_errors errs) \<longleftrightarrow> (v, Some e) \<in> set errs"
  by (induction errs) (auto simp: Filter_errors_def)

text \<open>
  A list of identifiers is accepted exactly when it is not empty and every one of them is
  valid; otherwise the error of a list that is not empty has one entry for every invalid value and
  none for a valid one, however often the values occur.
\<close>

theorem UUIDs_reports_invalid:
  "UUIDs z le vals = None \<longleftrightarrow> vals \<noteq> [] \<and> (\<forall>v. v \<in> set vals \<longrightarrow> UUID z v = None)"
  "UUIDs z le vals = Some (Values_err es) \<Longrightarrow>
     distinct (map fst es) \<and> (\<forall>v e. (v, e) \<in> set es \<longleftrightarrow> v \<in> set vals \<and> UUID z v = Some e)"
proof -
  have dist: "distinct (map fst (uuid_errors z vals []))" by (rule uuid_errors_distinct) simp
  have mem: "(k, x) \<in> set (uuid_errors z vals []) \<longleftrightarrow> k \<in> set vals \<and> x = UUID z k" for k x
    using map_of_eq_Some_iff [OF dist, of k x] uuid_errors_map [of z vals "[]" k] by (auto split: if_splits)
  have filt: "(v, e) \<in> set (Filter_errors (uuid_errors z vals [])) \<longleftrightarrow> v \<in> set vals \<and> UUID z v = Some e" for v e
    using mem [of v "Some e"] by (auto simp: Filter_errors_mem)
  have "distinct (map fst (filter (\<lambda>(k, e). e \<noteq> None) (uuid_errors z vals [])))" using dist by (rule distinct_map_filter)
  then have fdist: "distinct (map fst (Filter_errors (uuid_errors z vals [])))"
    by (simp add: Filter_errors_def comp_def case_prod_beta)
  show "UUIDs z le vals = None \<longleftrightarrow> vals \<noteq> [] \<and> (\<forall>v. v \<in> set vals \<longrightarrow> UUID z v = None)"
  proof (cases "Filter_errors (uuid_errors z vals [])")
    case Nil
    then have "UUID z v = None" if "v \<in> set vals" for v using filt [of v "the (UUID z v)"] that by (cases "UUID z v") simp_all
    with Nil show ?thesis by (simp add: UUIDs_def)
  next
    case (Cons p ps)
    then have "fst p \<in> set vals \<and> UUID z (fst p) = Some (snd p)" using filt [of "fst p" "snd p"] by simp
    then have "\<not> (\<forall>v. v \<in> set vals \<longrightarrow> UUID z v = None)" by auto
    with Cons show ?thesis by (simp add: UUIDs_def)
  qed
  assume "UUIDs z le vals = Some (Values_err es)"
  then have "es = Filter_errors (uuid_errors z vals [])" by (auto simp: UUIDs_def split: if_splits list.splits)
  with filt fdist show "distinct (map fst es) \<and> (\<forall>v e. (v, e) \<in> set es \<longleftrightarrow> v \<in> set vals \<and> UUID z v = Some e)" by simp
qed

theorem UUIDs_reports_invalid_witness:
  "UUIDs sample_ozzo (Ext ''empty'') [''x'', ''y'', ''x''] \<noteq> None"
  using UUIDs_reports_invalid(1) [of sample_ozzo "Ext ''empty''" "[''x'', ''y'', ''x'']"]
  by (auto simp: UUID_def sample_ozzo_def)

subsection \<open>Sizes\<close>

lemma unit_loop_scale:
  assumes "1 \<le> n" "dv = 1000 ^ Suc ex" "dv * n \<le> b" "b < dv * (n + 1)" "b < 2 ^ 63"
  shows "\<exists>k. unit_loop n dv ex = (1000 ^ Suc k, k) \<and> 1000 ^ Suc k \<le> b \<and> b < 1000 ^ (k + 2)"
  using assms
proof (induction n dv ex rule: unit_loop.induct)
  case (1 n dv ex)
  have dv: "0 < dv" using 1(3) by simp
  show ?case
  proof (cases "n \<ge> 1000")
    case True
    have "dv * 1000 \<le> dv * n" using True dv by simp
    then have le: "dv * 1000 \<le> b" using 1(4) by linarith
    then have w: "wrap64 (dv * 1000) = dv * 1000" using dv 1(6) by (intro wrap64_id) auto
    have q: "1000 * (n div 1000) \<le> n" "n + 1 \<le> 1000 * (n div 1000 + 1)" by presburger+
    have "dv * (1000 * (n div 1000)) \<le> dv * n" "dv * (n + 1) \<le> dv * (1000 * (n div 1000 + 1))"
      using q dv by (simp_all only: mult_le_cancel_left_pos)
    then have "dv * 1000 * (n div 1000) \<le> b" "b < dv * 1000 * (n div 1000 + 1)"
      using 1(4,5) by (simp_all only: mult.assoc)
    then have "\<exists>k. unit_loop (n div 1000) (wrap64 (dv * 1000)) (ex + 1) = (1000 ^ Suc k, k) \<and> 1000 ^ Suc k \<le> b \<and> b < 1000 ^ (k + 2)"
      using 1(3-6) True unfolding w by (intro "1.IH" [unfolded w]) auto
    then show ?thesis using True by (simp add: unit_loop.simps [of n])
  next
    case False
    have "dv \<le> dv * n" using 1(2) dv by simp
    moreover have "dv * (n + 1) \<le> dv * 1000" using False dv by simp
    ultimately have "dv \<le> b" "b < dv * 1000" using 1(4,5) by linarith+
    then have "1000 ^ Suc ex \<le> b" "b < 1000 ^ (ex + 2)" unfolding 1(3) by simp_all
    then show ?thesis using False 1(3) by (simp add: unit_loop.simps [of n])
  qed
qed

text \<open>
  The formatting of a size never fails for a 64 bit number. From 1000 bytes on the divisor is
  the greatest power of 1000 that is not greater than the size, it is computed without overflow,
  and its prefix exists.
\<close>

theorem byte_count_unit:
  assumes "1000 \<le> b" "b < 2 ^ 63"
  shows "\<exists>k < 6. 1000 ^ Suc k \<le> b \<and> b < 1000 ^ (k + 2) \<and>
    HumanReadableByteCount quot b = Ret (quot b (1000 ^ Suc k) @ '' '' @ [''kMGTPE'' ! k] @ ''B'')"
proof -
  have "\<exists>k. unit_loop (b div 1000) 1000 0 = (1000 ^ Suc k, k) \<and> 1000 ^ Suc k \<le> b \<and> b < 1000 ^ (k + 2)"
    using assms by (intro unit_loop_scale) auto
  then obtain k where k: "unit_loop (b div 1000) 1000 0 = (1000 ^ Suc k, k)" "1000 ^ Suc k \<le> b" "b < 1000 ^ (k + 2)" by blast
  have "k < 6"
  proof (rule ccontr)
    assume "\<not> k < 6"
    then have "(1000 :: int) ^ 7 \<le> 1000 ^ Suc k" by (intro power_increasing) auto
    with k(2) assms(2) show False by simp
  qed
  with k assms(1) show ?thesis by (intro exI [of _ k]) (simp add: HumanReadableByteCount_def)
qed

theorem byte_count_unit_witness:
  "\<exists>k < 6. 1000 ^ Suc k \<le> (9223372036854775807 :: int) \<and> (9223372036854775807 :: int) < 1000 ^ (k + 2) \<and>
    HumanReadableByteCount (\<lambda>b d. ''9.2'') 9223372036854775807 = Ret (''9.2 '' @ [''kMGTPE'' ! k] @ ''B'')"
  using byte_count_unit [of 9223372036854775807 "\<lambda>b d. ''9.2''"] by simp

end
