(* ===== verification/Config.thy ===== *)
theory Config
  imports Managers
begin

section \<open>Configuration\<close>

text \<open>
  \<open>pkg/config\<close> and \<open>pkg/db/open.go\<close>. The environment is the function \<open>LookupEnv\<close>; \<open>ReadFile\<close> gives
  the content of a file. The port is a 32 bit word. The functions that parse keys and log levels
  are parameters.
\<close>

record Database =
  Host :: string
  Port :: "32 word"
  Db_Name :: string
  Username :: string
  PasswordPath :: string
  PoolSize :: int
  DriverName :: string

type_synonym env = "string \<Rightarrow> string option"
type_synonym files = "string \<Rightarrow> error + string"

definition defaultPorts :: "string \<Rightarrow> 32 word" where
  "defaultPorts driver = (if driver = ''postgres'' then 5432 else 0)"

definition GetPassword :: "files \<Rightarrow> Database \<Rightarrow> error + string" where
  "GetPassword ReadFile cfg =
     (if PasswordPath cfg = [] then Inr []
      else case ReadFile (PasswordPath cfg) of
        Inl err \<Rightarrow> Inl (Wrap (''can not read the database password file `'' @ PasswordPath cfg @ ''`: '') err)
      | Inr passwordBytes \<Rightarrow> Inr (TrimSpace passwordBytes))"

definition GetHost :: "Database \<Rightarrow> string" where
  "GetHost cfg = (if Host cfg \<noteq> [] then Host cfg else ''localhost'')"

definition GetPort :: "Database \<Rightarrow> 32 word" where
  "GetPort cfg = (if Port cfg \<noteq> 0 then Port cfg else defaultPorts (DriverName cfg))"

text \<open>\<open>strconv.Quote\<close> on ASCII texts.\<close>

definition quote_char :: "char \<Rightarrow> string" where
  "quote_char c =
     (if c = CHR 0x22 then [CHR 0x5C, CHR 0x22]
      else if c = CHR 0x5C then [CHR 0x5C, CHR 0x5C]
      else if c = CHR 0x07 then [CHR 0x5C, CHR ''a'']
      else if c = CHR 0x08 then [CHR 0x5C, CHR ''b'']
      else if c = CHR 0x0C then [CHR 0x5C, CHR ''f'']
      else if c = CHR 0x0A then [CHR 0x5C, CHR ''n'']
      else if c = CHR 0x0D then [CHR 0x5C, CHR ''r'']
      else if c = CHR 0x09 then [CHR 0x5C, CHR ''t'']
      else if c = CHR 0x0B then [CHR 0x5C, CHR ''v'']
      else if (of_char c :: nat) < 32 \<or> c = CHR 0x7F
      then CHR 0x5C # ''x'' @ [hex_digit (of_char c div 16), hex_digit (of_char c mod 16)]
      else [c])"

definition Quote :: "string \<Rightarrow> string" where
  "Quote s = CHR 0x22 # concat (map quote_char s) @ [CHR 0x22]"

definition ssl_modes :: "string list" where
  "ssl_modes = [''disable'', ''require'', ''verify-ca'', ''verify-full'']"

text \<open>One setting of the connection string, which ends with a blank, and an optional one.\<close>

definition setting :: "string \<Rightarrow> string \<Rightarrow> string" where
  "setting key value = key @ ''='' @ value @ '' ''"

definition env_setting :: "env \<Rightarrow> string \<Rightarrow> string \<Rightarrow> string" where
  "env_setting LookupEnv key name = (case LookupEnv name of None \<Rightarrow> [] | Some value \<Rightarrow> setting key value)"

definition GetConnectionString :: "env \<Rightarrow> files \<Rightarrow> Database \<Rightarrow> error + string" where
  "GetConnectionString LookupEnv ReadFile cfg =
     (let sslMode = (case LookupEnv ''PGSSLMODE'' of None \<Rightarrow> ''disable'' | Some v \<Rightarrow> v) in
      if sslMode \<notin> set ssl_modes then Inl (New (''unknown or unsupported ssl mode: '' @ Quote sslMode))
      else
        let connStr = setting ''sslmode'' sslMode @ env_setting LookupEnv ''sslcert'' ''PGSSLCERT'' @
              env_setting LookupEnv ''sslkey'' ''PGSSLKEY'' @ env_setting LookupEnv ''sslrootcert'' ''PGSSLROOTCERT'';
            connStr = connStr @ (if Host cfg \<noteq> [] then setting ''host'' (Host cfg) else []);
            connStr = connStr @ (if Port cfg \<noteq> 0 then setting ''port'' (nat_text (unat (Port cfg))) else []);
            connStr = connStr @ (if Db_Name cfg \<noteq> [] then setting ''dbname'' (Db_Name cfg) else []);
            connStr = connStr @ (if Username cfg \<noteq> [] then setting ''user'' (Username cfg) else [])
        in if PasswordPath cfg \<noteq> []
           then (case GetPassword ReadFile cfg of
               Inl err \<Rightarrow> Inl err
             | Inr pw \<Rightarrow> Inr (TrimSpace (if pw \<noteq> [] then connStr @ setting ''password'' pw else connStr)))
           else Inr (TrimSpace connStr))"

subsection \<open>Keys and logging\<close>

record JWT =
  PublicKeyPath :: string
  PrivateKeyPath :: string

definition GetPublicKey :: "files \<Rightarrow> (string \<Rightarrow> error + 'k) \<Rightarrow> JWT \<Rightarrow> error + 'k" where
  "GetPublicKey ReadFile ParseRSAPublicKeyFromPEM j =
     (if PublicKeyPath j = [] then Inl (New ''path to the public key file is empty'')
      else case ReadFile (PublicKeyPath j) of
        Inl err \<Rightarrow> Inl (Wrap (''can not read the public key file `'' @ PublicKeyPath j @ ''`: '') err)
      | Inr keyBytes \<Rightarrow> ParseRSAPublicKeyFromPEM keyBytes)"

definition GetPrivateKey :: "files \<Rightarrow> (string \<Rightarrow> error + 'k) \<Rightarrow> JWT \<Rightarrow> error + 'k" where
  "GetPrivateKey ReadFile ParseRSAPrivateKeyFromPEM j =
     (if PrivateKeyPath j = [] then Inl (New ''path to the private key file is empty'')
      else case ReadFile (PrivateKeyPath j) of
        Inl err \<Rightarrow> Inl (Wrap (''can not read the private key file `'' @ PrivateKeyPath j @ ''`: '') err)
      | Inr keyBytes \<Rightarrow> ParseRSAPrivateKeyFromPEM keyBytes)"

text \<open>The global logger: its level and its formatter.\<close>

record ('l, 'f) logger =
  log_level :: 'l
  log_formatter :: 'f

definition Logging :: "(string \<Rightarrow> error + 'l) \<Rightarrow> 'f \<Rightarrow> string \<Rightarrow> 'f option \<Rightarrow> ('l, 'f) logger \<Rightarrow> ('l, 'f) logger \<times> error option" where
  "Logging ParseLevel textFormatter level formatter lg =
     (case ParseLevel level of
        Inl err \<Rightarrow> (lg, Some (Wrap ''can not parse log-level: '' err))
      | Inr lvl \<Rightarrow>
          (lg\<lparr>log_level := lvl, log_formatter := (case formatter of None \<Rightarrow> textFormatter | Some f \<Rightarrow> f)\<rparr>, None))"

subsection \<open>Opening the database\<close>

text \<open>
  What one call of the function given to \<open>backoff.Retry\<close> meets: the context has ended, \<open>sql.Open\<close>
  fails, the ping on the new handle fails, or it succeeds. The further calls that the plan of
  the exponential backoff allows are the rest of the list.
\<close>

datatype 'h attempt = Ctx_done error | Open_fails error | Ping_fails 'h error | Connects 'h

text \<open>The handles that were opened and the result.\<close>

fun open_retry :: "'h attempt \<Rightarrow> 'h attempt list \<Rightarrow> 'h list \<times> (error + 'h)" where
  "open_retry (Ctx_done e) later = ([], Inl e)"
| "open_retry (Connects h) later = ([h], Inr h)"
| "open_retry (Open_fails e) [] = ([], Inl e)"
| "open_retry (Open_fails e) (a # later) = open_retry a later"
| "open_retry (Ping_fails h e) [] = ([h], Inl e)"
| "open_retry (Ping_fails h e) (a # later) = (let (hs, r) = open_retry a later in (h # hs, r))"

text \<open>The result: the opened handles, and the handle with its limit of connections.\<close>

definition db_Open :: "env \<Rightarrow> files \<Rightarrow> (string \<Rightarrow> string \<Rightarrow> 'h attempt \<times> 'h attempt list) \<Rightarrow> Database \<Rightarrow>
    'h list \<times> (error + 'h \<times> int)" where
  "db_Open LookupEnv ReadFile attempts cfg =
     (case GetConnectionString LookupEnv ReadFile cfg of
        Inl err \<Rightarrow> ([], Inl err)
      | Inr connStr \<Rightarrow>
          (case attempts (DriverName cfg) connStr of (a, later) \<Rightarrow>
            (case open_retry a later of
               (hs, Inl err) \<Rightarrow> (hs, Inl err)
             | (hs, Inr h) \<Rightarrow> (hs, Inr (h, PoolSize cfg)))))"

subsection \<open>The connection string is read back\<close>

text \<open>
  The documented form of a string of settings: blanks separate keys with their values, and blanks
  around the equal sign are optional. Quoted values are not considered, as none are written.
\<close>

function read_settings :: "string \<Rightarrow> (string \<times> string) list" where
  "read_settings s =
     (let s1 = dropWhile is_space s;
          key = takeWhile (\<lambda>c. c \<noteq> CHR ''='' \<and> \<not> is_space c) s1;
          s2 = dropWhile is_space (dropWhile (\<lambda>c. c \<noteq> CHR ''='' \<and> \<not> is_space c) s1)
      in if s2 = [] \<or> hd s2 \<noteq> CHR ''='' then []
         else let s3 = dropWhile is_space (tl s2)
              in (key, takeWhile (\<lambda>c. \<not> is_space c) s3) # read_settings (dropWhile (\<lambda>c. \<not> is_space c) s3))"
  by pat_completeness auto
termination
proof (relation "measure length", simp, goal_cases)
  case (1 s x xa xb xc)
  have "length xc \<le> length (tl xb)" by (simp only: 1(5) length_dropWhile_le)
  moreover have "length xb \<le> length s" using 1(1,3) length_dropWhile_le order_trans by metis
  moreover have "xb \<noteq> []" using 1(4) by simp
  ultimately have "length xc < length s" by (cases xb) auto
  then show ?case using length_dropWhile_le [of "\<lambda>c. \<not> is_space c" xc] by simp
qed

declare read_settings.simps [simp del]

text \<open>Words that can stand in such a string as they are.\<close>

definition plain_word :: "string \<Rightarrow> bool" where
  "plain_word w \<longleftrightarrow> w \<noteq> [] \<and> list_all (\<lambda>c. \<not> is_space c \<and> c \<noteq> CHR 0x27 \<and> c \<noteq> CHR 0x5C) w"

definition plain_key :: "string \<Rightarrow> bool" where
  "plain_key w \<longleftrightarrow> plain_word w \<and> CHR ''='' \<notin> set w"

abbreviation "pair_text kv \<equiv> fst kv @ ''='' @ snd kv"

lemma space_equals [simp]: "\<not> is_space CHR ''=''" "is_space CHR '' ''"
  by (simp_all add: is_space_def)

lemma plain_word_dropWhile [simp]: "plain_word w \<Longrightarrow> dropWhile is_space (w @ t) = w @ t"
  by (cases w) (auto simp: plain_word_def)

lemma plain_key_scan:
  assumes "plain_key k"
  shows "takeWhile (\<lambda>c. c \<noteq> CHR ''='' \<and> \<not> is_space c) (k @ CHR ''='' # t) = k"
    "dropWhile (\<lambda>c. c \<noteq> CHR ''='' \<and> \<not> is_space c) (k @ CHR ''='' # t) = CHR ''='' # t"
proof -
  have *: "\<And>c. c \<in> set k \<Longrightarrow> c \<noteq> CHR ''='' \<and> \<not> is_space c"
    using assms unfolding plain_key_def plain_word_def list_all_iff by blast
  show "takeWhile (\<lambda>c. c \<noteq> CHR ''='' \<and> \<not> is_space c) (k @ CHR ''='' # t) = k" using * by (simp add: takeWhile_append2)
  show "dropWhile (\<lambda>c. c \<noteq> CHR ''='' \<and> \<not> is_space c) (k @ CHR ''='' # t) = CHR ''='' # t" using * by (simp add: dropWhile_append2)
qed

lemma plain_word_scan:
  assumes "plain_word w"
  shows "takeWhile (\<lambda>c. \<not> is_space c) (w @ CHR '' '' # t) = w" "dropWhile (\<lambda>c. \<not> is_space c) (w @ CHR '' '' # t) = CHR '' '' # t"
    "takeWhile (\<lambda>c. \<not> is_space c) w = w" "dropWhile (\<lambda>c. \<not> is_space c) w = []"
proof -
  have *: "\<And>c. c \<in> set w \<Longrightarrow> \<not> is_space c" using assms by (simp add: plain_word_def list_all_iff)
  show "takeWhile (\<lambda>c. \<not> is_space c) (w @ CHR '' '' # t) = w" using * by (simp add: takeWhile_append2)
  show "dropWhile (\<lambda>c. \<not> is_space c) (w @ CHR '' '' # t) = CHR '' '' # t" using * by (simp add: dropWhile_append2)
  show "takeWhile (\<lambda>c. \<not> is_space c) w = w" using * by (simp add: takeWhile_eq_all_conv)
  show "dropWhile (\<lambda>c. \<not> is_space c) w = []" using * by simp
qed

lemma read_settings_nil [simp]: "read_settings [] = []"
  by (simp add: read_settings.simps)

lemma read_settings_space [simp]: "read_settings (CHR '' '' # s) = read_settings s"
  by (subst (1 2) read_settings.simps) simp

lemma read_settings_word:
  assumes "plain_key k" "plain_word v"
  shows "read_settings (k @ ''='' @ v @ '' '' @ t) = (k, v) # read_settings t" "read_settings (k @ ''='' @ v) = [(k, v)]"
proof -
  have k: "plain_word k" using assms(1) by (simp add: plain_key_def)
  have v: "dropWhile is_space v = v" using plain_word_dropWhile [OF assms(2), of "[]"] by simp
  show "read_settings (k @ ''='' @ v @ '' '' @ t) = (k, v) # read_settings t"
    by (subst read_settings.simps) (simp add: k assms plain_key_scan plain_word_scan Let_def)
  show "read_settings (k @ ''='' @ v) = [(k, v)]"
    by (subst read_settings.simps) (simp add: k v assms plain_key_scan plain_word_scan Let_def)
qed

lemma read_settings_blank_value:
  assumes "plain_key k" "plain_word v"
  shows "read_settings (k @ ''= '' @ v) = [(k, v)]"
proof -
  have k: "plain_word k" using assms(1) by (simp add: plain_key_def)
  have v: "dropWhile is_space v = v" using plain_word_dropWhile [OF assms(2), of "[]"] by simp
  show ?thesis by (subst read_settings.simps) (simp add: k v assms plain_key_scan plain_word_scan Let_def)
qed

lemma read_settings_join:
  "list_all (\<lambda>kv. plain_key (fst kv) \<and> plain_word (snd kv)) kvs \<Longrightarrow> read_settings (join '' '' (map pair_text kvs)) = kvs"
proof (induction kvs rule: induct_list012)
  case (2 kv)
  then show ?case using read_settings_word(2) [of "fst kv" "snd kv"] by simp
next
  case (3 kv kv' kvs)
  then show ?case using read_settings_word(1) [of "fst kv" "snd kv"] by simp
qed simp

lemma TrimSpace_blank:
  assumes "w \<noteq> []" "\<not> is_space (hd w)" "\<not> is_space (last w)"
  shows "TrimSpace (w @ '' '') = w"
proof -
  have 1: "dropWhile is_space (w @ '' '') = w @ '' ''" using assms(1,2) by (cases w) simp_all
  have "rev w \<noteq> []" "\<not> is_space (hd (rev w))" using assms(1,3) by (simp_all add: hd_rev)
  then have 2: "dropWhile is_space (rev w) = rev w" by (cases "rev w") simp_all
  show ?thesis by (simp add: TrimSpace_def 1 2)
qed

abbreviation "plain_pair kv \<equiv> plain_key (fst kv) \<and> plain_word (snd kv)"

lemma pair_text_ends:
  "plain_pair kv \<Longrightarrow> \<not> is_space (hd (pair_text kv @ t)) \<and> \<not> is_space (last (pair_text kv))"
  by (cases "fst kv") (auto simp: plain_key_def plain_word_def list_all_iff)

lemma join_ends:
  "list_all plain_pair kvs \<Longrightarrow> kvs \<noteq> [] \<Longrightarrow> join '' '' (map pair_text kvs) \<noteq> [] \<and>
    \<not> is_space (hd (join '' '' (map pair_text kvs))) \<and> \<not> is_space (last (join '' '' (map pair_text kvs)))"
proof (induction kvs rule: induct_list012)
  case (2 kv)
  then show ?case using pair_text_ends [of kv "[]"] by simp
next
  case (3 kv kv' kvs)
  then show ?case using pair_text_ends [of kv "'' '' @ join '' '' (map pair_text (kv' # kvs))"] by simp
qed simp

lemma settings_join:
  "kvs \<noteq> [] \<Longrightarrow> concat (map (\<lambda>kv. setting (fst kv) (snd kv)) kvs) = join '' '' (map pair_text kvs) @ '' ''"
  by (induction kvs rule: induct_list012) (simp_all add: setting_def)

lemma TrimSpace_join:
  assumes "list_all plain_pair kvs" "kvs \<noteq> []"
  shows "TrimSpace (concat (map (\<lambda>kv. setting (fst kv) (snd kv)) kvs)) = join '' '' (map pair_text kvs)"
  using join_ends [OF assms] TrimSpace_blank unfolding settings_join [OF assms(2)] by blast

text \<open>The settings of a configuration, a list of keys with their values.\<close>

definition env_pair :: "env \<Rightarrow> string \<Rightarrow> string \<Rightarrow> (string \<times> string) list" where
  "env_pair LookupEnv key name = (case LookupEnv name of None \<Rightarrow> [] | Some v \<Rightarrow> [(key, v)])"

definition opt_pair :: "string \<Rightarrow> string \<Rightarrow> (string \<times> string) list" where
  "opt_pair key v = (if v = [] then [] else [(key, v)])"

definition conn_settings :: "env \<Rightarrow> Database \<Rightarrow> string \<Rightarrow> (string \<times> string) list" where
  "conn_settings LookupEnv cfg pw =
     (''sslmode'', case LookupEnv ''PGSSLMODE'' of None \<Rightarrow> ''disable'' | Some v \<Rightarrow> v) #
     env_pair LookupEnv ''sslcert'' ''PGSSLCERT'' @ env_pair LookupEnv ''sslkey'' ''PGSSLKEY'' @
     env_pair LookupEnv ''sslrootcert'' ''PGSSLROOTCERT'' @ opt_pair ''host'' (Host cfg) @
     opt_pair ''port'' (if Port cfg = 0 then [] else nat_text (unat (Port cfg))) @
     opt_pair ''dbname'' (Db_Name cfg) @ opt_pair ''user'' (Username cfg) @ opt_pair ''password'' pw"

lemma GetConnectionString_settings:
  assumes "GetConnectionString LookupEnv ReadFile cfg = Inr s"
  shows "\<exists>pw. GetPassword ReadFile cfg = Inr pw \<and>
    s = TrimSpace (concat (map (\<lambda>kv. setting (fst kv) (snd kv)) (conn_settings LookupEnv cfg pw))) \<and>
    (case LookupEnv ''PGSSLMODE'' of None \<Rightarrow> ''disable'' | Some v \<Rightarrow> v) \<in> set ssl_modes"
proof -
  have env: "concat (map (\<lambda>kv. setting (fst kv) (snd kv)) (env_pair LookupEnv k n)) = env_setting LookupEnv k n" for k n
    by (simp add: env_pair_def env_setting_def split: option.split)
  have opt: "concat (map (\<lambda>kv. setting (fst kv) (snd kv)) (opt_pair k v)) = (if v \<noteq> [] then setting k v else [])" for k v
    by (simp add: opt_pair_def)
  show ?thesis
    using assms by (cases "PasswordPath cfg = []")
      (auto simp: GetConnectionString_def conn_settings_def Let_def env opt GetPassword_def split: if_splits sum.splits)
qed

lemma nat_text_plain: "plain_word (nat_text n)"
proof -
  have "list_all (\<lambda>c. \<not> is_space c \<and> c \<noteq> CHR 0x27 \<and> c \<noteq> CHR 0x5C) (nat_text n)"
    using nat_text_digits [of n] by (auto simp: list_all_iff is_digit_def is_space_def)
  then show ?thesis by (simp add: plain_word_def)
qed

definition plain_or_empty :: "string \<Rightarrow> bool" where
  "plain_or_empty w \<longleftrightarrow> w = [] \<or> plain_word w"

lemma plain_keys:
  "plain_key ''sslmode''" "plain_key ''sslcert''" "plain_key ''sslkey''" "plain_key ''sslrootcert''" "plain_key ''host''"
  "plain_key ''port''" "plain_key ''dbname''" "plain_key ''user''" "plain_key ''password''"
  by (simp_all add: plain_key_def plain_word_def is_space_def)

lemma plain_modes: "mode \<in> set ssl_modes \<Longrightarrow> plain_word mode"
  by (auto simp: ssl_modes_def plain_word_def is_space_def)

lemma opt_pair_plain: "plain_key k \<Longrightarrow> plain_or_empty v \<Longrightarrow> list_all plain_pair (opt_pair k v)"
  by (auto simp: opt_pair_def plain_or_empty_def)

lemma env_pair_plain: "plain_key k \<Longrightarrow> (\<And>v. e n = Some v \<Longrightarrow> plain_word v) \<Longrightarrow> list_all plain_pair (env_pair e k n)"
  by (simp add: env_pair_def split: option.split)

lemma conn_settings_plain:
  assumes "(case e ''PGSSLMODE'' of None \<Rightarrow> ''disable'' | Some v \<Rightarrow> v) \<in> set ssl_modes"
    and "\<forall>n \<in> {''PGSSLCERT'', ''PGSSLKEY'', ''PGSSLROOTCERT''}. \<forall>v. e n = Some v \<longrightarrow> plain_word v"
    and "plain_or_empty (Host cfg)" "plain_or_empty (Db_Name cfg)" "plain_or_empty (Username cfg)" "plain_or_empty pw"
  shows "list_all plain_pair (conn_settings e cfg pw)"
proof -
  have port: "plain_or_empty (if Port cfg = 0 then [] else nat_text (unat (Port cfg)))"
    using nat_text_plain by (simp add: plain_or_empty_def)
  show ?thesis
    unfolding conn_settings_def list_all_append list.pred_inject
    using assms plain_modes [OF assms(1)] port by (auto intro!: opt_pair_plain env_pair_plain plain_keys)
qed

lemma map_of_env_pair: "map_of (env_pair e k n @ kvs) x = (if x = k \<and> e n \<noteq> None then e n else map_of kvs x)"
  by (auto simp: env_pair_def split: option.split)

lemma map_of_opt_pair: "map_of (opt_pair k v @ kvs) x = (if x = k \<and> v \<noteq> [] then Some v else map_of kvs x)"
  by (simp add: opt_pair_def)

lemma map_of_opt_pair_end: "map_of (opt_pair k v) x = (if x = k \<and> v \<noteq> [] then Some v else None)"
  by (simp add: opt_pair_def)

lemma conn_string_read_back_parts:
  assumes "GetConnectionString LookupEnv ReadFile cfg = Inr s"
    and "\<forall>n \<in> {''PGSSLCERT'', ''PGSSLKEY'', ''PGSSLROOTCERT''}. \<forall>v. LookupEnv n = Some v \<longrightarrow> plain_word v"
    and "plain_or_empty (Host cfg)" "plain_or_empty (Db_Name cfg)" "plain_or_empty (Username cfg)"
    and "\<forall>pw. GetPassword ReadFile cfg = Inr pw \<longrightarrow> plain_or_empty pw"
  shows "map_of (read_settings s) ''host'' = (if Host cfg = [] then None else Some (Host cfg))"
    "map_of (read_settings s) ''port'' = (if Port cfg = 0 then None else Some (nat_text (unat (Port cfg))))"
    "map_of (read_settings s) ''dbname'' = (if Db_Name cfg = [] then None else Some (Db_Name cfg))"
    "map_of (read_settings s) ''user'' = (if Username cfg = [] then None else Some (Username cfg))"
    "\<exists>pw. GetPassword ReadFile cfg = Inr pw \<and> map_of (read_settings s) ''password'' = (if pw = [] then None else Some pw)"
    "\<exists>mode \<in> set ssl_modes. map_of (read_settings s) ''sslmode'' = Some mode"
proof -
  from GetConnectionString_settings [OF assms(1)] obtain pw where pw: "GetPassword ReadFile cfg = Inr pw"
    and s: "s = TrimSpace (concat (map (\<lambda>kv. setting (fst kv) (snd kv)) (conn_settings LookupEnv cfg pw)))"
    and mode: "(case LookupEnv ''PGSSLMODE'' of None \<Rightarrow> ''disable'' | Some v \<Rightarrow> v) \<in> set ssl_modes" by blast
  have "list_all plain_pair (conn_settings LookupEnv cfg pw)"
    using assms(2-6) pw by (intro conn_settings_plain [where e = LookupEnv, OF mode]) simp_all
  moreover from this have "s = join '' '' (map pair_text (conn_settings LookupEnv cfg pw))"
    unfolding s by (rule TrimSpace_join) (simp add: conn_settings_def)
  ultimately have r: "read_settings s = conn_settings LookupEnv cfg pw" using read_settings_join by simp
  note m = r conn_settings_def map_of_env_pair map_of_opt_pair map_of_opt_pair_end map_of.simps
  show "map_of (read_settings s) ''host'' = (if Host cfg = [] then None else Some (Host cfg))"
    "map_of (read_settings s) ''port'' = (if Port cfg = 0 then None else Some (nat_text (unat (Port cfg))))"
    "map_of (read_settings s) ''dbname'' = (if Db_Name cfg = [] then None else Some (Db_Name cfg))"
    "map_of (read_settings s) ''user'' = (if Username cfg = [] then None else Some (Username cfg))"
    by (simp_all add: m del: map_of_append)
  have "map_of (read_settings s) ''password'' = (if pw = [] then None else Some pw)" by (simp add: m del: map_of_append)
  with pw show "\<exists>pw. GetPassword ReadFile cfg = Inr pw \<and> map_of (read_settings s) ''password'' = (if pw = [] then None else Some pw)"
    by blast
  from mode show "\<exists>mode \<in> set ssl_modes. map_of (read_settings s) ''sslmode'' = Some mode" by (auto simp: m simp del: map_of_append)
qed

text \<open>
  The connection string means what the configuration says. When no value holds a blank, a quote
  or a backslash and none of the paths in the environment is empty, reading the string as it is
  documented gives back exactly the host, the port, the name, the user and the password of the
  configuration, no setting for a missing one, and an allowed mode of encryption.
\<close>

theorem conn_string_read_back:
  assumes "GetConnectionString LookupEnv ReadFile cfg = Inr s"
    and "\<forall>n \<in> {''PGSSLCERT'', ''PGSSLKEY'', ''PGSSLROOTCERT''}. \<forall>v. LookupEnv n = Some v \<longrightarrow> plain_word v"
    and "plain_or_empty (Host cfg)" "plain_or_empty (Db_Name cfg)" "plain_or_empty (Username cfg)"
    and "\<forall>pw. GetPassword ReadFile cfg = Inr pw \<longrightarrow> plain_or_empty pw"
  shows "map_of (read_settings s) ''host'' = (if Host cfg = [] then None else Some (Host cfg)) \<and>
    map_of (read_settings s) ''port'' = (if Port cfg = 0 then None else Some (nat_text (unat (Port cfg)))) \<and>
    map_of (read_settings s) ''dbname'' = (if Db_Name cfg = [] then None else Some (Db_Name cfg)) \<and>
    map_of (read_settings s) ''user'' = (if Username cfg = [] then None else Some (Username cfg)) \<and>
    (\<exists>pw. GetPassword ReadFile cfg = Inr pw \<and> map_of (read_settings s) ''password'' = (if pw = [] then None else Some pw)) \<and>
    (\<exists>mode \<in> set ssl_modes. map_of (read_settings s) ''sslmode'' = Some mode)"
  using conn_string_read_back_parts [OF assms] by (intro conjI)

definition ex_cfg :: Database where
  "ex_cfg = \<lparr>Host = ''db'', Port = 0, Db_Name = ''app'', Username = ''me'', PasswordPath = [], PoolSize = 5, DriverName = ''postgres''\<rparr>"

lemma ex_conn_string:
  "GetConnectionString Map.empty ReadFile ex_cfg = Inr ''sslmode=disable host=db dbname=app user=me''"
  by (simp add: GetConnectionString_def Let_def ssl_modes_def env_setting_def setting_def TrimSpace_def is_space_def ex_cfg_def)

theorem conn_string_read_back_witness:
  "map_of (read_settings ''sslmode=disable host=db dbname=app user=me'') ''host'' = Some ''db''"
  using conn_string_read_back [OF ex_conn_string]
  by (simp add: ex_cfg_def plain_or_empty_def plain_word_def is_space_def GetPassword_def)

text \<open>
  The values of the connection string are not quoted. A name of a database that holds a blank
  is written as two settings, so that it also sets the user: the string is the same as that of
  another configuration.
\<close>

theorem conn_string_injection:
  assumes "n \<noteq> []" "u \<noteq> []"
  shows "GetConnectionString LookupEnv ReadFile (cfg\<lparr>Db_Name := n @ '' user='' @ u, Username := []\<rparr>) =
    GetConnectionString LookupEnv ReadFile (cfg\<lparr>Db_Name := n, Username := u\<rparr>)"
  using assms by (simp add: GetConnectionString_def Let_def setting_def GetPassword_def cong: if_cong sum.case_cong)

theorem conn_string_injection_witness:
  "GetConnectionString LookupEnv ReadFile (ex_cfg\<lparr>Db_Name := ''app user=postgres'', Username := []\<rparr>) =
    GetConnectionString LookupEnv ReadFile (ex_cfg\<lparr>Db_Name := ''app'', Username := ''postgres''\<rparr>)"
  using conn_string_injection [of "''app''" "''postgres''" LookupEnv ReadFile ex_cfg] by simp

text \<open>
  A path that is set to the empty text in the environment swallows the setting that follows:
  with an empty \<open>PGSSLROOTCERT\<close> the host is read as the path of the certificate and the connection
  is made to the default host.
\<close>

theorem empty_path_swallows_host:
  assumes "LookupEnv ''PGSSLMODE'' = None" "LookupEnv ''PGSSLCERT'' = None" "LookupEnv ''PGSSLKEY'' = None"
    and "LookupEnv ''PGSSLROOTCERT'' = Some []" "plain_word (Host cfg)"
    and "Port cfg = 0" "Db_Name cfg = []" "Username cfg = []" "PasswordPath cfg = []"
  shows "\<exists>s. GetConnectionString LookupEnv ReadFile cfg = Inr s \<and>
    read_settings s = [(''sslmode'', ''disable''), (''sslrootcert'', ''host='' @ Host cfg)]"
proof -
  have "\<not> is_space (last (Host cfg))" "Host cfg \<noteq> []" using assms(5) by (auto simp: plain_word_def list_all_iff)
  then have "TrimSpace ((''sslmode=disable sslrootcert= host='' @ Host cfg) @ '' '') = ''sslmode=disable sslrootcert= host='' @ Host cfg"
    by (intro TrimSpace_blank) (simp_all add: is_space_def)
  then have "GetConnectionString LookupEnv ReadFile cfg = Inr (''sslmode=disable sslrootcert= host='' @ Host cfg)"
    using assms(1-4,6-9) \<open>Host cfg \<noteq> []\<close> by (simp add: GetConnectionString_def Let_def ssl_modes_def env_setting_def setting_def)
  moreover have "read_settings (''sslmode=disable sslrootcert= host='' @ Host cfg) =
    [(''sslmode'', ''disable''), (''sslrootcert'', ''host='' @ Host cfg)]"
  proof -
    have "plain_word (''host='' @ Host cfg)" using assms(5) by (simp add: plain_word_def is_space_def)
    from read_settings_blank_value [OF plain_keys(4) this]
    have "read_settings (''sslrootcert= host='' @ Host cfg) = [(''sslrootcert'', ''host='' @ Host cfg)]" by simp
    then show ?thesis
      using read_settings_word(1) [of "''sslmode''" "''disable''" "''sslrootcert= host='' @ Host cfg"] plain_keys(1)
        plain_modes [of "''disable''"] by (simp add: ssl_modes_def)
  qed
  ultimately show ?thesis by blast
qed

theorem empty_path_swallows_host_witness:
  "\<exists>s. GetConnectionString [''PGSSLROOTCERT'' \<mapsto> []] (\<lambda>p. Inl (Ext p))
      \<lparr>Host = ''db'', Port = 0, Db_Name = [], Username = [], PasswordPath = [], PoolSize = 0, DriverName = ''postgres''\<rparr> = Inr s \<and>
    read_settings s = [(''sslmode'', ''disable''), (''sslrootcert'', ''host=db'')]"
  using empty_path_swallows_host [of "[''PGSSLROOTCERT'' \<mapsto> []]"
      "\<lparr>Host = ''db'', Port = 0, Db_Name = [], Username = [], PasswordPath = [], PoolSize = 0, DriverName = ''postgres''\<rparr>"
      "\<lambda>p. Inl (Ext p)"]
  by (simp add: plain_word_def is_space_def)

subsection \<open>Opening\<close>

fun failure :: "'h attempt \<Rightarrow> bool" where
  "failure (Open_fails e) = True"
| "failure (Ping_fails h e) = True"
| "failure a = False"

fun handle_of :: "'h attempt \<Rightarrow> 'h list" where
  "handle_of (Ping_fails h e) = [h]"
| "handle_of (Connects h) = [h]"
| "handle_of a = []"

lemma open_retry_success:
  "open_retry a as = (hs, Inr h) \<longleftrightarrow>
    (\<exists>later. dropWhile failure (a # as) = Connects h # later) \<and>
    hs = concat (map handle_of (takeWhile failure (a # as))) @ [h]"
proof (induction a as arbitrary: hs rule: open_retry.induct)
  case (6 h' e a later)
  have "open_retry (Ping_fails h' e) (a # later) = (hs, Inr h) \<longleftrightarrow>
    (\<exists>hs'. hs = h' # hs' \<and> open_retry a later = (hs', Inr h))"
    by (cases "open_retry a later") auto
  then show ?case by (simp only: 6) auto
qed auto

text \<open>
  Opening the database. A handle is returned exactly when the first attempt that is not a
  failure of opening or of the ping connects, before the context ends and before the attempts are
  used up, and it has the size of the pool of the configuration. Every handle of a failed ping
  before it stays open: it is neither returned nor closed.
\<close>

theorem db_Open_first_connection:
  assumes "GetConnectionString LookupEnv ReadFile cfg = Inr s" "attempts (DriverName cfg) s = (a, as)"
  shows "db_Open LookupEnv ReadFile attempts cfg = (hs, Inr (h, n)) \<longleftrightarrow>
    n = PoolSize cfg \<and> (\<exists>later. dropWhile failure (a # as) = Connects h # later) \<and>
    hs = concat (map handle_of (takeWhile failure (a # as))) @ [h]"
  using assms open_retry_success [of a as hs h]
  by (auto simp: db_Open_def split: sum.splits prod.splits)

theorem db_Open_first_connection_witness:
  "db_Open Map.empty (\<lambda>p. Inl (Ext p)) (\<lambda>d s. (Ping_fails (1 :: nat) (Ext ''refused''), [Connects 2])) ex_cfg = ([1, 2], Inr (2, 5))"
  by (subst db_Open_first_connection [OF ex_conn_string, where a = "Ping_fails 1 (Ext ''refused'')" and as = "[Connects 2]"])
    (simp_all add: ex_cfg_def)

end
