(* ===== verification/Http_Server.thy ===== *)
theory Http_Server
  imports Config
begin

section \<open>The HTTP server and its middlewares\<close>

text \<open>
  \<open>pkg/http/server.go\<close>, \<open>monitoring.go\<close>, \<open>profiling.go\<close> and \<open>pkg/http/middlewares\<close> without the
  authorization. A handler yields what it makes observable (entries of the log, metrics and spans)
  and ends with the status that it wrote, 0 if none, or panics. Durations and sizes are left
  out. The handlers of recovery and of CORS are code of other packages, given as functions.
\<close>

record http_request =
  rq_Method :: string
  rq_Path :: string
  rq_EscapedPath :: string
  rq_URL :: string
  rq_UserAgent :: string
  rq_RoutePattern :: string

type_synonym fields = "(string \<times> string) list"

datatype log_level = Info | Warn

datatype http_event =
    Log_entry log_level string fields
  | Counted string string string
  | Span_started string
  | Span_tag string string
  | Span_finished

datatype reply = Done nat | Panicked nat

fun written :: "reply \<Rightarrow> nat" where
  "written (Done s) = s"
| "written (Panicked s) = s"

type_synonym handler = "http_request \<Rightarrow> http_event list \<times> reply"

subsection \<open>Paths without identifiers\<close>

text \<open>\<open>strconv.Atoi\<close> succeeds: an optional sign and digits within the range of an \<open>int\<close>.\<close>

definition Atoi_ok :: "string \<Rightarrow> bool" where
  "Atoi_ok s =
     (let neg = (s \<noteq> [] \<and> hd s = CHR ''-'');
          ds = (if s \<noteq> [] \<and> (hd s = CHR ''-'' \<or> hd s = CHR ''+'') then tl s else s)
      in ds \<noteq> [] \<and> list_all is_digit ds \<and> dec_value 0 ds < (if neg then 2 ^ 63 + 1 else 2 ^ 63))"

definition clean_part :: "(string \<Rightarrow> bool) \<Rightarrow> string \<Rightarrow> string" where
  "clean_part is_uuid part = (if is_uuid part then ''*'' else if Atoi_ok part then ''*'' else part)"

definition PathWithCleanID :: "(string \<Rightarrow> bool) \<Rightarrow> http_request \<Rightarrow> string" where
  "PathWithCleanID is_uuid r = join ''/'' (map (clean_part is_uuid) (split_on (CHR ''/'') (rq_Path r)))"

definition MethodAndPathCleanID :: "(string \<Rightarrow> bool) \<Rightarrow> http_request \<Rightarrow> string" where
  "MethodAndPathCleanID is_uuid r =
     ''HTTP '' @ rq_Method r @ '' '' @ join ''/'' (map (clean_part is_uuid) (split_on (CHR ''/'') (rq_Path r)))"

definition ChiRouteName :: "http_request \<Rightarrow> string" where
  "ChiRouteName r = ''HTTP '' @ rq_Method r @ '' '' @ rq_RoutePattern r"

subsection \<open>Logging\<close>

record LoggingOption =
  lo_app :: string
  lo_Ignore :: "(http_request \<Rightarrow> bool) option"
  lo_Fields :: "(http_request \<Rightarrow> fields) option"

definition WithLogging :: "string \<Rightarrow> LoggingOption" where
  "WithLogging app = \<lparr>lo_app = app, lo_Ignore = None, lo_Fields = None\<rparr>"

definition defaultFields :: "http_request \<Rightarrow> fields" where
  "defaultFields r = [(''method'', rq_Method r), (''path'', rq_EscapedPath r)]"

definition defaultIgnore :: "http_request \<Rightarrow> bool" where
  "defaultIgnore r =
     (let agent = map to_lower (rq_UserAgent r) in contains agent ''healthcheck'' \<or> contains agent ''kube-probe'')"

definition isSuccess :: "nat \<Rightarrow> bool" where
  "isSuccess status \<longleftrightarrow> status \<ge> 200 \<and> status < 400"

definition logging_WrapHandler :: "LoggingOption \<Rightarrow> handler \<Rightarrow> handler" where
  "logging_WrapHandler opt handler = (\<lambda>r.
     (let ignore = (case lo_Ignore opt of None \<Rightarrow> defaultIgnore | Some f \<Rightarrow> f);
          fs = (case lo_Fields opt of None \<Rightarrow> defaultFields | Some f \<Rightarrow> f)
      in case handler r of
           (evs, Panicked s) \<Rightarrow> (evs, Panicked s)
         | (evs, Done s) \<Rightarrow>
             (let st = (if s = 0 then 200 else s);
                  logger = (''app'', lo_app opt) # fs r @ [(''status_code'', nat_text st)]
              in if \<not> isSuccess st then (evs @ [Log_entry Warn ''problem while handling request'' logger], Done s)
                 else if \<not> ignore r then (evs @ [Log_entry Info ''successfully handled request'' logger], Done s)
                 else (evs, Done s))))"

subsection \<open>Metrics\<close>

text \<open>The function given by the deferred call runs also when the handler panics.\<close>

definition metrics_WrapHandler :: "(http_request \<Rightarrow> string) \<Rightarrow> handler \<Rightarrow> handler" where
  "metrics_WrapHandler opNameFunc handler = (\<lambda>r.
     (case handler r of (evs, rep) \<Rightarrow>
        (evs @ [Counted (nat_text (written rep)) (map to_lower (rq_Method r)) (opNameFunc r)], rep)))"

definition WithMetrics :: "(string \<Rightarrow> bool) \<Rightarrow> (http_request \<Rightarrow> string) option \<Rightarrow> http_request \<Rightarrow> string" where
  "WithMetrics is_uuid opNameFunc = (case opNameFunc of None \<Rightarrow> PathWithCleanID is_uuid | Some f \<Rightarrow> f)"

subsection \<open>Tracing\<close>

record mwOptions =
  opNameFunc :: "http_request \<Rightarrow> string"
  spanObserver :: "http_request \<Rightarrow> http_event list"
  componentName :: string

type_synonym mwOption = "mwOptions \<Rightarrow> mwOptions"

definition operationNameFunc :: "(http_request \<Rightarrow> string) \<Rightarrow> mwOption" where
  "operationNameFunc f opts = opts\<lparr>opNameFunc := f\<rparr>"

definition mwSpanObserver :: "(http_request \<Rightarrow> http_event list) \<Rightarrow> mwOption" where
  "mwSpanObserver f opts = opts\<lparr>spanObserver := f\<rparr>"

definition mwComponentName :: "string \<Rightarrow> mwOption" where
  "mwComponentName n opts = opts\<lparr>componentName := n\<rparr>"

text \<open>The status is converted to 16 bits.\<close>

definition traceMiddleware :: "handler \<Rightarrow> mwOption list \<Rightarrow> handler" where
  "traceMiddleware h options = (\<lambda>r.
     (let opts = fold (\<lambda>opt o'. opt o') options
            \<lparr>opNameFunc = (\<lambda>r. ''HTTP '' @ rq_Method r), spanObserver = (\<lambda>r. []), componentName = []\<rparr>;
          begun = [Span_started (opNameFunc opts r), Span_tag ''http.method'' (rq_Method r), Span_tag ''http.url'' (rq_URL r)] @
            spanObserver opts r @ [Span_tag ''component'' (componentName opts)]
      in case h r of
           (evs, Panicked s) \<Rightarrow> (begun @ evs, Panicked s)
         | (evs, Done s) \<Rightarrow> (begun @ evs @ [Span_tag ''http.status_code'' (nat_text (s mod 65536)), Span_finished], Done s)))"

record tracingOption =
  to_app :: string
  to_tags :: fields
  to_opNameFunc :: "http_request \<Rightarrow> string"

text \<open>\<open>WithTracing\<close> panics when the tracer cannot be set up.\<close>

definition WithTracing :: "(string \<Rightarrow> bool) \<Rightarrow> (string \<Rightarrow> error option) \<Rightarrow> string \<Rightarrow> fields \<Rightarrow> (http_request \<Rightarrow> string) option \<Rightarrow> tracingOption outcome" where
  "WithTracing is_uuid InitJaeger app tags f =
     (case InitJaeger app of
        Some err \<Rightarrow> Panic
      | None \<Rightarrow> Ret \<lparr>to_app = app, to_tags = tags,
          to_opNameFunc = (case f of None \<Rightarrow> MethodAndPathCleanID is_uuid | Some f \<Rightarrow> f)\<rparr>)"

definition tracing_WrapHandler :: "tracingOption \<Rightarrow> handler \<Rightarrow> handler" where
  "tracing_WrapHandler opt handler =
     traceMiddleware handler
       [operationNameFunc (to_opNameFunc opt),
        mwSpanObserver (\<lambda>r. Span_tag ''http.uri'' (rq_EscapedPath r) # map (\<lambda>(k, v). Span_tag k v) (to_tags opt)),
        mwComponentName (to_app opt)]"

subsection \<open>CORS and the name of the host\<close>

record corsOption =
  allowedOrigins :: "string list"
  allowedMethods :: "string list"
  allowedHeaders :: "string list"
  allowCredentials :: bool

definition WithCORS :: "string list \<Rightarrow> string list \<Rightarrow> string list \<Rightarrow> bool \<Rightarrow> corsOption" where
  "WithCORS origins methods headers credentials =
     \<lparr>allowedOrigins = origins, allowedMethods = methods, allowedHeaders = headers, allowCredentials = credentials\<rparr>"

definition WithCORSWideOpen :: corsOption where
  "WithCORSWideOpen =
     \<lparr>allowedOrigins = [''*''], allowedMethods = [''HEAD'', ''GET'', ''POST'', ''PUT'', ''PATCH'', ''DELETE''],
      allowedHeaders = [''*''], allowCredentials = True\<rparr>"

text \<open>The name is kept in a variable of the package: its value and the result.\<close>

definition getHostname :: "error + string \<Rightarrow> string \<Rightarrow> string \<times> string" where
  "getHostname os_Hostname hostname =
     (let h = (if hostname = [] then (case os_Hostname of Inl err \<Rightarrow> ''unknown'' | Inr h \<Rightarrow> h) else hostname) in (h, h))"

subsection \<open>The server\<close>

datatype Option =
    Opt_logging LoggingOption
  | Opt_metrics "http_request \<Rightarrow> string"
  | Opt_tracing tracingOption
  | Opt_recovery "handler \<Rightarrow> handler"
  | Opt_cors corsOption "corsOption \<Rightarrow> handler \<Rightarrow> handler"

fun WrapHandler :: "Option \<Rightarrow> handler \<Rightarrow> handler" where
  "WrapHandler (Opt_logging opt) h = logging_WrapHandler opt h"
| "WrapHandler (Opt_metrics f) h = metrics_WrapHandler f h"
| "WrapHandler (Opt_tracing opt) h = tracing_WrapHandler opt h"
| "WrapHandler (Opt_recovery f) h = f h"
| "WrapHandler (Opt_cors opt f) h = f opt h"

record http_config =
  cf_Addr :: string
  cf_Handler :: handler
  cf_Options :: "Option list"

text \<open>Timeouts in seconds.\<close>

record http_server =
  sv_Handler :: handler
  sv_Addr :: string
  sv_ReadTimeout :: nat
  sv_WriteTimeout :: nat
  sv_MaxHeaderBytes :: nat

definition server_New :: "http_config \<Rightarrow> http_server" where
  "server_New cfg =
     \<lparr>sv_Handler = fold (\<lambda>opt h. WrapHandler opt h) (cf_Options cfg) (cf_Handler cfg), sv_Addr = cf_Addr cfg,
      sv_ReadTimeout = 10, sv_WriteTimeout = 10, sv_MaxHeaderBytes = 1048576\<rparr>"

subsection \<open>The servers for monitoring and profiling\<close>

text \<open>The handler of a path of \<open>monitoringServer\<close>; the default one writes the body and no status.\<close>

datatype 'h monitoring_handler = Prom_handler | Health_handler 'h | Default_health

definition monitoringServer :: "'h option \<Rightarrow> string \<Rightarrow> 'h monitoring_handler option" where
  "monitoringServer healthHandler =
     [''/metrics'' \<mapsto> Prom_handler,
      ''/health'' \<mapsto> (case healthHandler of Some h \<Rightarrow> Health_handler h | None \<Rightarrow> Default_health)]"

text \<open>
  \<open>ListenAndServePprof\<close> as a machine: what happens outside of it, in any order, and the channel
  \<open>done\<close>, which has room for two errors. It waits for the context, then for the shutdown, then for
  an error on the channel.
\<close>

datatype serve_event = Serve_ends error | Ctx_cancelled | Shutdown_ends "error option"

datatype pprof_phase = Wait_ctx | Shutting_down | Wait_done | Returned error

record pprof_state =
  pp_done :: "error list"
  pp_phase :: pprof_phase

definition pprof_receive :: "pprof_state \<Rightarrow> pprof_state" where
  "pprof_receive s =
     (case (pp_phase s, pp_done s) of (Wait_done, e # es) \<Rightarrow> s\<lparr>pp_done := es, pp_phase := Returned e\<rparr> | _ \<Rightarrow> s)"

fun pprof_step :: "serve_event \<Rightarrow> pprof_state \<Rightarrow> pprof_state" where
  "pprof_step (Serve_ends e) s = pprof_receive (s\<lparr>pp_done := pp_done s @ [e]\<rparr>)"
| "pprof_step Ctx_cancelled s = (if pp_phase s = Wait_ctx then s\<lparr>pp_phase := Shutting_down\<rparr> else s)"
| "pprof_step (Shutdown_ends r) s =
     (if pp_phase s = Shutting_down
      then pprof_receive (s\<lparr>pp_phase := Wait_done,
        pp_done := pp_done s @ (case r of None \<Rightarrow> [] | Some err \<Rightarrow> [New (''failed to stop profiling server: '' @ error_msg err)])\<rparr>)
      else s)"

definition ListenAndServePprof :: "serve_event list \<Rightarrow> pprof_state" where
  "ListenAndServePprof evs = fold pprof_step evs \<lparr>pp_done = [], pp_phase = Wait_ctx\<rparr>"

subsection \<open>Splitting and joining\<close>

lemma split_on_free: "x \<notin> set w \<Longrightarrow> split_on x w = [w]"
  by (induction w) auto

lemma split_on_append: "x \<notin> set w \<Longrightarrow> split_on x (w @ x # s) = w # split_on x s"
  by (induction w) (auto simp: split: list.splits)

lemma split_on_join:
  "list_all (\<lambda>w. x \<notin> set w) ws \<Longrightarrow> ws \<noteq> [] \<Longrightarrow> split_on x (join [x] ws) = ws"
  by (induction ws rule: induct_list012) (simp_all add: split_on_free split_on_append)

lemma split_on_parts: "list_all (\<lambda>w. x \<notin> set w) (split_on x s)"
  by (induction s) (auto split: list.splits)

text \<open>
  The path of a request for metrics and spans. It has as many segments as the path, every
  segment that is not an identifier or a number is kept, and none of the others is left, so that
  the number of different names is bounded by the routes; cleaning a clean path changes nothing.
\<close>

theorem clean_path:
  assumes "\<not> is_uuid ''*''"
  shows "split_on (CHR ''/'') (PathWithCleanID is_uuid r) = map (clean_part is_uuid) (split_on (CHR ''/'') (rq_Path r))"
    "\<forall>p \<in> set (split_on (CHR ''/'') (PathWithCleanID is_uuid r)). \<not> is_uuid p \<and> \<not> Atoi_ok p"
    "PathWithCleanID is_uuid (r\<lparr>rq_Path := PathWithCleanID is_uuid r\<rparr>) = PathWithCleanID is_uuid r"
    "MethodAndPathCleanID is_uuid r = ''HTTP '' @ rq_Method r @ '' '' @ PathWithCleanID is_uuid r"
proof -
  have star: "\<not> Atoi_ok ''*''" by (simp add: Atoi_ok_def is_digit_def)
  have clean: "\<not> is_uuid (clean_part is_uuid p) \<and> \<not> Atoi_ok (clean_part is_uuid p)" for p
    using assms star by (simp add: clean_part_def)
  have idem: "clean_part is_uuid (clean_part is_uuid p) = clean_part is_uuid p" for p
    using clean [of p] by (simp add: clean_part_def [of _ "clean_part is_uuid p"])
  have slash: "CHR ''/'' \<notin> set (clean_part is_uuid p)" if "CHR ''/'' \<notin> set p" for p
    using that by (simp add: clean_part_def)
  show parts: "split_on (CHR ''/'') (PathWithCleanID is_uuid r) = map (clean_part is_uuid) (split_on (CHR ''/'') (rq_Path r))"
    unfolding PathWithCleanID_def
    using split_on_parts [of "CHR ''/''" "rq_Path r"] slash by (intro split_on_join) (auto simp: list_all_iff)
  show "\<forall>p \<in> set (split_on (CHR ''/'') (PathWithCleanID is_uuid r)). \<not> is_uuid p \<and> \<not> Atoi_ok p"
    unfolding parts using clean by auto
  show "PathWithCleanID is_uuid (r\<lparr>rq_Path := PathWithCleanID is_uuid r\<rparr>) = PathWithCleanID is_uuid r"
    by (simp add: PathWithCleanID_def [of _ "r\<lparr>rq_Path := PathWithCleanID is_uuid r\<rparr>"] parts idem comp_def)
      (simp add: PathWithCleanID_def)
  show "MethodAndPathCleanID is_uuid r = ''HTTP '' @ rq_Method r @ '' '' @ PathWithCleanID is_uuid r"
    by (simp add: MethodAndPathCleanID_def PathWithCleanID_def)
qed

definition ex_request :: http_request where
  "ex_request = \<lparr>rq_Method = ''GET'', rq_Path = ''/t/42/x'', rq_EscapedPath = ''/t/42/x'', rq_URL = ''/t/42/x'',
     rq_UserAgent = ''kube-probe/1'', rq_RoutePattern = ''/t/{id}/x''\<rparr>"

theorem clean_path_witness:
  "split_on (CHR ''/'') (PathWithCleanID (\<lambda>s. False) ex_request) = [[], ''t'', ''*'', ''x'']"
  using clean_path(1) [of "\<lambda>s. False" ex_request]
  by (simp add: ex_request_def clean_part_def Atoi_ok_def is_digit_def)

subsection \<open>What a request leaves behind\<close>

text \<open>
  What an option shows of a request: before the handler it wraps is called, and after this handler
  has ended with a status or by a panic.
\<close>

fun seen_before :: "Option \<Rightarrow> http_request \<Rightarrow> http_event list" where
  "seen_before (Opt_tracing opt) r =
     [Span_started (to_opNameFunc opt r), Span_tag ''http.method'' (rq_Method r), Span_tag ''http.url'' (rq_URL r),
      Span_tag ''http.uri'' (rq_EscapedPath r)] @ map (\<lambda>(k, v). Span_tag k v) (to_tags opt) @
     [Span_tag ''component'' (to_app opt)]"
| "seen_before _ r = []"

fun seen_after :: "Option \<Rightarrow> nat \<Rightarrow> http_request \<Rightarrow> http_event list" where
  "seen_after (Opt_logging opt) s r =
     (let st = (if s = 0 then 200 else s);
          fs = (''app'', lo_app opt) # (case lo_Fields opt of None \<Rightarrow> defaultFields | Some f \<Rightarrow> f) r @ [(''status_code'', nat_text st)]
      in if st < 200 \<or> 400 \<le> st then [Log_entry Warn ''problem while handling request'' fs]
         else if (case lo_Ignore opt of None \<Rightarrow> defaultIgnore | Some f \<Rightarrow> f) r then []
         else [Log_entry Info ''successfully handled request'' fs])"
| "seen_after (Opt_metrics f) s r = [Counted (nat_text s) (map to_lower (rq_Method r)) (f r)]"
| "seen_after (Opt_tracing opt) s r = [Span_tag ''http.status_code'' (nat_text (s mod 65536)), Span_finished]"
| "seen_after _ s r = []"

fun seen_panic :: "Option \<Rightarrow> nat \<Rightarrow> http_request \<Rightarrow> http_event list" where
  "seen_panic (Opt_metrics f) s r = [Counted (nat_text s) (map to_lower (rq_Method r)) (f r)]"
| "seen_panic _ s r = []"

abbreviation "recovery_opt opt \<equiv> (case opt of Opt_recovery x \<Rightarrow> True | _ \<Rightarrow> False)"

text \<open>
  What is documented of the recovery: it keeps what the handler did, and ends without a panic, with
  the status of the handler if it ended so. The handler of CORS passes the request on, or answers
  it itself, as it does with preflights.
\<close>

definition recovers :: "(handler \<Rightarrow> handler) \<Rightarrow> http_request \<Rightarrow> bool" where
  "recovers f r \<longleftrightarrow> (\<forall>h. (\<forall>evs s. h r = (evs, Done s) \<longrightarrow> f h r = (evs, Done s)) \<and>
     (\<forall>evs s. h r = (evs, Panicked s) \<longrightarrow> (\<exists>s'. f h r = (evs, Done s'))))"

fun passes_on :: "Option \<Rightarrow> http_request \<Rightarrow> bool" where
  "passes_on (Opt_recovery f) r = recovers f r"
| "passes_on (Opt_cors opt f) r = (\<forall>h. f opt h r = h r)"
| "passes_on _ r = True"

definition answers_itself :: "(handler \<Rightarrow> handler) \<Rightarrow> nat \<Rightarrow> http_request \<Rightarrow> bool" where
  "answers_itself f s r \<longleftrightarrow> (\<forall>h. f h r = ([], Done s))"

abbreviation "wrapped opts h \<equiv> fold (\<lambda>opt h. WrapHandler opt h) opts h"

lemma wrap_done:
  assumes "passes_on opt r" and "h r = (evs, Done s)"
  shows "WrapHandler opt h r = (seen_before opt r @ evs @ seen_after opt s r, Done s)"
  using assms
  by (cases opt) (auto simp: logging_WrapHandler_def metrics_WrapHandler_def tracing_WrapHandler_def traceMiddleware_def
      operationNameFunc_def mwSpanObserver_def mwComponentName_def recovers_def Let_def isSuccess_def not_less)

lemma wrap_panicked:
  assumes "passes_on opt r" and "\<not> recovery_opt opt" and "h r = (evs, Panicked s)"
  shows "WrapHandler opt h r = (seen_before opt r @ evs @ seen_panic opt s r, Panicked s)"
  using assms
  by (cases opt) (auto simp: logging_WrapHandler_def metrics_WrapHandler_def tracing_WrapHandler_def traceMiddleware_def
      operationNameFunc_def mwSpanObserver_def mwComponentName_def Let_def)

abbreviation "all_before opts r \<equiv> concat (map (\<lambda>opt. seen_before opt r) (rev opts))"
abbreviation "all_after opts s r \<equiv> concat (map (\<lambda>opt. seen_after opt s r) opts)"
abbreviation "all_panic opts s r \<equiv> concat (map (\<lambda>opt. seen_panic opt s r) opts)"

lemma wrapped_done:
  assumes "\<forall>opt \<in> set opts. passes_on opt r" and "h r = (evs, Done s)"
  shows "wrapped opts h r = (all_before opts r @ evs @ all_after opts s r, Done s)"
  using assms
proof (induction opts arbitrary: h evs)
  case (Cons opt opts)
  from Cons.prems have "WrapHandler opt h r = (seen_before opt r @ evs @ seen_after opt s r, Done s)"
    by (intro wrap_done) auto
  from Cons.IH [where h = "WrapHandler opt h", OF _ this] Cons.prems show ?case by simp
qed simp

lemma wrapped_panicked:
  assumes "\<forall>opt \<in> set opts. passes_on opt r \<and> \<not> recovery_opt opt" and "h r = (evs, Panicked s)"
  shows "wrapped opts h r = (all_before opts r @ evs @ all_panic opts s r, Panicked s)"
  using assms
proof (induction opts arbitrary: h evs)
  case (Cons opt opts)
  from Cons.prems have "WrapHandler opt h r = (seen_before opt r @ evs @ seen_panic opt s r, Panicked s)"
    by (intro wrap_panicked) auto
  from Cons.IH [where h = "WrapHandler opt h", OF _ this] Cons.prems show ?case by simp
qed simp

lemma served: "sv_Handler (server_New cfg) = wrapped (cf_Options cfg) (cf_Handler cfg)"
  by (simp add: server_New_def)

lemma wrapped_recovered:
  assumes "\<forall>opt \<in> set (inner @ Opt_recovery f # outer). passes_on opt r" and "\<forall>opt \<in> set inner. \<not> recovery_opt opt"
    and "h r = (evs, Panicked s)"
  shows "\<exists>s'. wrapped (inner @ Opt_recovery f # outer) h r =
     (all_before (inner @ Opt_recovery f # outer) r @ evs @ all_panic inner s r @ all_after outer s' r, Done s')"
proof -
  have "wrapped inner h r = (all_before inner r @ evs @ all_panic inner s r, Panicked s)"
    using assms by (intro wrapped_panicked) auto
  moreover have "recovers f r" using assms(1) by simp
  ultimately obtain s' where "f (wrapped inner h) r = (all_before inner r @ evs @ all_panic inner s r, Done s')"
    unfolding recovers_def by blast
  from wrapped_done [where h = "f (wrapped inner h)", OF _ this, of outer] assms(1) show ?thesis
    by (intro exI [of _ s']) simp
qed

lemma wrapped_preflight:
  assumes "answers_itself (f opt) s r" and "\<forall>opt \<in> set outer. passes_on opt r"
  shows "wrapped (inner @ Opt_cors opt f # outer) h r = (all_before outer r @ all_after outer s r, Done s)"
  using wrapped_done [where h = "f opt (wrapped inner h)" and evs = "[]" and s = s, OF assms(2)] assms(1)
  by (simp add: answers_itself_def)

text \<open>
  C36: What a request leaves behind under any list of options, whatever their order, entry by entry.
  Options wrap from the first, the innermost, to the last. When the handler ends with a status,
  every option contributes its entries in the order of the wrapping, with this status, the label
  of the method and the name of the route, and the status is kept. When it panics and no option
  recovers, only the metrics options still count it, no span is finished and nothing is logged;
  the first recovery ends this, and the options outside of it see its status. A request that a
  CORS option answers itself, as a preflight, is seen only by the options outside of it.
\<close>

theorem request_observed:
  "((\<forall>opt \<in> set (cf_Options cfg). passes_on opt r) \<longrightarrow> cf_Handler cfg r = (evs, Done s) \<longrightarrow>
     sv_Handler (server_New cfg) r =
       (all_before (cf_Options cfg) r @ evs @ all_after (cf_Options cfg) s r, Done s)) \<and>
   ((\<forall>opt \<in> set (cf_Options cfg). passes_on opt r \<and> \<not> recovery_opt opt) \<longrightarrow> cf_Handler cfg r = (evs, Panicked s) \<longrightarrow>
     sv_Handler (server_New cfg) r =
       (all_before (cf_Options cfg) r @ evs @ all_panic (cf_Options cfg) s r, Panicked s)) \<and>
   ((\<forall>opt \<in> set (cf_Options cfg). passes_on opt r) \<longrightarrow> cf_Options cfg = inner @ Opt_recovery f # outer \<longrightarrow>
     (\<forall>opt \<in> set inner. \<not> recovery_opt opt) \<longrightarrow> cf_Handler cfg r = (evs, Panicked s) \<longrightarrow>
     (\<exists>s'. sv_Handler (server_New cfg) r =
       (all_before (cf_Options cfg) r @ evs @ all_panic inner s r @ all_after outer s' r, Done s'))) \<and>
   (cf_Options cfg = inner @ Opt_cors co g # outer \<longrightarrow> answers_itself (g co) s r \<longrightarrow>
     (\<forall>opt \<in> set outer. passes_on opt r) \<longrightarrow>
     sv_Handler (server_New cfg) r = (all_before outer r @ all_after outer s r, Done s))"
  unfolding served
proof (intro conjI impI)
  assume "\<forall>opt \<in> set (cf_Options cfg). passes_on opt r" "cf_Handler cfg r = (evs, Done s)"
  then show "wrapped (cf_Options cfg) (cf_Handler cfg) r =
      (all_before (cf_Options cfg) r @ evs @ all_after (cf_Options cfg) s r, Done s)" by (rule wrapped_done)
next
  assume "\<forall>opt \<in> set (cf_Options cfg). passes_on opt r \<and> \<not> recovery_opt opt" "cf_Handler cfg r = (evs, Panicked s)"
  then show "wrapped (cf_Options cfg) (cf_Handler cfg) r =
      (all_before (cf_Options cfg) r @ evs @ all_panic (cf_Options cfg) s r, Panicked s)" by (rule wrapped_panicked)
next
  assume "\<forall>opt \<in> set (cf_Options cfg). passes_on opt r" "cf_Options cfg = inner @ Opt_recovery f # outer"
    "\<forall>opt \<in> set inner. \<not> recovery_opt opt" "cf_Handler cfg r = (evs, Panicked s)"
  then show "\<exists>s'. wrapped (cf_Options cfg) (cf_Handler cfg) r =
      (all_before (cf_Options cfg) r @ evs @ all_panic inner s r @ all_after outer s' r, Done s')"
    using wrapped_recovered [of inner f outer r "cf_Handler cfg" evs s] by simp
next
  assume "cf_Options cfg = inner @ Opt_cors co g # outer" "answers_itself (g co) s r"
    "\<forall>opt \<in> set outer. passes_on opt r"
  then show "wrapped (cf_Options cfg) (cf_Handler cfg) r = (all_before outer r @ all_after outer s r, Done s)"
    using wrapped_preflight [of g co s r outer inner "cf_Handler cfg"] by simp
qed

definition ex_recover :: "handler \<Rightarrow> handler" where
  "ex_recover h = (\<lambda>r. case h r of (evs, Done s) \<Rightarrow> (evs, Done s) | (evs, Panicked s) \<Rightarrow> (evs, Done 500))"

definition ex_cors :: "corsOption \<Rightarrow> handler \<Rightarrow> handler" where
  "ex_cors opt h = (\<lambda>r. if rq_Method r = ''OPTIONS'' then ([], Done 204) else h r)"

definition ex_config :: http_config where
  "ex_config = \<lparr>cf_Addr = '':8080'', cf_Handler = (\<lambda>r. ([], Panicked 0)),
     cf_Options = [Opt_metrics rq_Path, Opt_tracing \<lparr>to_app = ''a'', to_tags = [], to_opNameFunc = rq_Path\<rparr>,
       Opt_recovery ex_recover, Opt_cors WithCORSWideOpen ex_cors, Opt_logging (WithLogging ''a'')]\<rparr>"

lemma ex_recovers: "recovers ex_recover r"
  by (auto simp: recovers_def ex_recover_def)

theorem request_observed_witness:
  "(\<exists>s'. sv_Handler (server_New ex_config) ex_request =
     ([Span_started ''/t/42/x'', Span_tag ''http.method'' ''GET'', Span_tag ''http.url'' ''/t/42/x'',
       Span_tag ''http.uri'' ''/t/42/x'', Span_tag ''component'' ''a'', Counted ''0'' ''get'' ''/t/42/x''] @
      seen_after (Opt_logging (WithLogging ''a'')) s' ex_request, Done s')) \<and>
   sv_Handler (server_New ex_config) (ex_request\<lparr>rq_Method := ''OPTIONS'', rq_UserAgent := []\<rparr>) =
     ([Log_entry Info ''successfully handled request''
        [(''app'', ''a''), (''method'', ''OPTIONS''), (''path'', ''/t/42/x''), (''status_code'', ''204'')]], Done 204)"
proof -
  let ?inner = "[Opt_metrics rq_Path, Opt_tracing \<lparr>to_app = ''a'', to_tags = [], to_opNameFunc = rq_Path\<rparr>]"
  let ?q = "ex_request\<lparr>rq_Method := ''OPTIONS'', rq_UserAgent := []\<rparr>"
  have opts: "cf_Options ex_config = ?inner @ Opt_recovery ex_recover # [Opt_cors WithCORSWideOpen ex_cors, Opt_logging (WithLogging ''a'')]"
    "cf_Options ex_config = (?inner @ [Opt_recovery ex_recover]) @ Opt_cors WithCORSWideOpen ex_cors # [Opt_logging (WithLogging ''a'')]"
    by (simp_all add: ex_config_def)
  have pass: "\<forall>opt \<in> set (cf_Options ex_config). passes_on opt ex_request"
    by (simp add: ex_config_def ex_recovers ex_cors_def ex_request_def)
  have h: "cf_Handler ex_config ex_request = ([], Panicked 0)" by (simp add: ex_config_def)
  have "\<forall>opt \<in> set ?inner. \<not> recovery_opt opt" by simp
  from request_observed [where cfg = ex_config and r = ex_request, THEN conjunct2, THEN conjunct2, THEN conjunct1,
      rule_format (no_asm), OF pass opts(1) this h]
  have 1: "\<exists>s'. sv_Handler (server_New ex_config) ex_request = (all_before (cf_Options ex_config) ex_request @
      [] @ all_panic ?inner 0 ex_request @ all_after [Opt_cors WithCORSWideOpen ex_cors, Opt_logging (WithLogging ''a'')] s' ex_request, Done s')" .
  have a: "answers_itself (ex_cors WithCORSWideOpen) 204 ?q" by (simp add: answers_itself_def ex_cors_def)
  have "\<forall>opt \<in> set [Opt_logging (WithLogging ''a'')]. passes_on opt ?q" by simp
  from request_observed [where cfg = ex_config and r = ?q, THEN conjunct2, THEN conjunct2, THEN conjunct2,
      rule_format (no_asm), OF opts(2) a this]
  have 2: "sv_Handler (server_New ex_config) ?q =
    (all_before [Opt_logging (WithLogging ''a'')] ?q @ all_after [Opt_logging (WithLogging ''a'')] 204 ?q, Done 204)" .
  have names: "map to_lower (rq_Method ex_request) = ''get''" "nat_text 0 = ''0''" "nat_text 204 = ''204''" "\<not> defaultIgnore ?q"
    by code_simp+
  have logged: "all_before [Opt_logging (WithLogging ''a'')] ?q = []"
    "all_after [Opt_logging (WithLogging ''a'')] 204 ?q = [Log_entry Info ''successfully handled request''
        [(''app'', ''a''), (''method'', ''OPTIONS''), (''path'', ''/t/42/x''), (''status_code'', ''204'')]]"
    using names(3,4) by (simp_all add: WithLogging_def defaultFields_def ex_request_def)
  have begun: "all_before (cf_Options ex_config) ex_request =
      [Span_started ''/t/42/x'', Span_tag ''http.method'' ''GET'', Span_tag ''http.url'' ''/t/42/x'',
       Span_tag ''http.uri'' ''/t/42/x'', Span_tag ''component'' ''a'']"
    "all_panic ?inner 0 ex_request = [Counted ''0'' ''get'' ''/t/42/x'']"
    using names(1,2) by (simp_all add: ex_config_def ex_request_def)
  have "all_after [Opt_cors WithCORSWideOpen ex_cors, Opt_logging (WithLogging ''a'')] s' ex_request =
      seen_after (Opt_logging (WithLogging ''a'')) s' ex_request" for s' by simp
  with 1 show ?thesis unfolding 2 logged begun by simp
qed

fun stage :: "pprof_phase \<Rightarrow> nat" where
  "stage Wait_ctx = 0"
| "stage Shutting_down = 1"
| "stage Wait_done = 2"
| "stage (Returned e) = 3"

lemma stage_receive: "stage (pp_phase s) \<le> stage (pp_phase (pprof_receive s))"
  by (auto simp: pprof_receive_def split: pprof_phase.split list.split)

lemma stage_step: "stage (pp_phase s) \<le> stage (pp_phase (pprof_step e s))"
  using stage_receive by (cases e) (auto intro: order_trans [OF _ stage_receive])

lemma stage_fold: "stage (pp_phase s) \<le> stage (pp_phase (fold pprof_step evs s))"
  by (induction evs arbitrary: s) (auto intro: order_trans [OF stage_step])

lemma stage_cancelled: "1 \<le> stage (pp_phase (pprof_step Ctx_cancelled s))"
  by (cases "pp_phase s") auto

lemma stage_shutdown: "1 \<le> stage (pp_phase s) \<Longrightarrow> 2 \<le> stage (pp_phase (pprof_step (Shutdown_ends r) s))"
  by (cases "pp_phase s") (auto intro: order_trans [OF _ stage_receive])

lemma stage_serve: "2 \<le> stage (pp_phase s) \<Longrightarrow> 3 \<le> stage (pp_phase (pprof_step (Serve_ends e) s))"
  by (cases "pp_phase s") (auto simp: pprof_receive_def split: list.split)

lemma waits: "Ctx_cancelled \<notin> set evs \<Longrightarrow> pp_phase s = Wait_ctx \<Longrightarrow> pp_phase (fold pprof_step evs s) = Wait_ctx"
proof (induction evs arbitrary: s)
  case (Cons e evs)
  then have "pp_phase (pprof_step e s) = Wait_ctx" by (cases e) (auto simp: pprof_receive_def)
  with Cons show ?case by simp
qed simp

text \<open>
  The profiling server reports nothing before the context ends: as long as the context is not
  cancelled, \<open>ListenAndServePprof\<close> does not return, even when its server has failed to listen. Once
  the context is cancelled, the shutdown has ended and the server has ended, it returns.
\<close>

theorem pprof_waits_for_context:
  "Ctx_cancelled \<notin> set evs \<Longrightarrow> pp_phase (ListenAndServePprof evs) = Wait_ctx"
  "\<exists>x. pp_phase (ListenAndServePprof (evs0 @ Ctx_cancelled # evs1 @ Shutdown_ends r # evs2 @ Serve_ends e # evs3)) = Returned x"
proof -
  show "Ctx_cancelled \<notin> set evs \<Longrightarrow> pp_phase (ListenAndServePprof evs) = Wait_ctx"
    by (simp add: ListenAndServePprof_def waits)
  let ?s = "ListenAndServePprof (evs0 @ Ctx_cancelled # evs1 @ Shutdown_ends r # evs2 @ Serve_ends e # evs3)"
  have "3 \<le> stage (pp_phase ?s)"
    unfolding ListenAndServePprof_def fold_append fold_Cons comp_apply
    by (rule order_trans [OF stage_serve [OF order_trans [OF stage_shutdown [OF order_trans [OF stage_cancelled stage_fold]] stage_fold]] stage_fold])
  then show "\<exists>x. pp_phase ?s = Returned x" by (cases "pp_phase ?s") simp_all
qed

theorem pprof_waits_for_context_witness:
  "pp_phase (ListenAndServePprof [Serve_ends (Ext ''address already in use'')]) = Wait_ctx"
  by (rule pprof_waits_for_context(1)) simp

end
