(* ===== verification/Tracing.thy ===== *)
theory Tracing
  imports Config
begin

section \<open>Tracing\<close>

text \<open>
  \<open>pkg/tracing\<close>, \<open>pkg/db/tracing.go\<close>, \<open>pkg/otel\<close>. What is written to a span and to the log is a
  list of events. The clients of Jaeger and of OpenTelemetry are code of other packages; the
  results of their constructors are parameters.
\<close>

datatype trace_event =
    Start string
  | Tag string string
  | Log_KV string string
  | Error_flag
  | Finish
  | Log_line string "(string \<times> string) list" string

subsection \<open>The tracers\<close>

record tracer =
  pkgName :: string
  tr_componentName :: string

text \<open>A span is absent or has the texts of its trace and its own identifier when it is one of Jaeger.\<close>

datatype span = No_span | Other_span | Jaeger_span string string

definition StartSpan :: "tracer \<Rightarrow> string \<Rightarrow> trace_event list" where
  "StartSpan t operationName = [Start operationName, Tag ''pkg.name'' (pkgName t), Tag ''pkg.component'' (tr_componentName t)]"

definition FinishSpan :: "tracer \<Rightarrow> span \<Rightarrow> error option \<Rightarrow> trace_event list" where
  "FinishSpan t sp err =
     (case err of None \<Rightarrow> []
      | Some e \<Rightarrow> [Log_line ''error'' [(''package'', pkgName t), (''component'', tr_componentName t)] (error_msg e)]) @
     (if sp = No_span then []
      else (case err of None \<Rightarrow> [] | Some e \<Rightarrow> [Log_KV ''error.msg'' (error_msg e), Error_flag]) @ [Finish])"

fun GetTraceID :: "span \<Rightarrow> string" where
  "GetTraceID (Jaeger_span trace_id span_id) = trace_id"
| "GetTraceID _ = []"

fun GetSpanID :: "span \<Rightarrow> string" where
  "GetSpanID (Jaeger_span trace_id span_id) = span_id"
| "GetSpanID _ = []"

definition logging_StartSpan :: "tracer \<Rightarrow> span \<Rightarrow> string \<Rightarrow> trace_event list" where
  "logging_StartSpan t sp operationName =
     (let traceID = GetTraceID sp; spanID = GetTraceID sp
      in [Start operationName, Tag ''pkg.name'' (pkgName t), Tag ''pkg.component'' (tr_componentName t),
          Log_line ''debug'' [(''pkg_name'', pkgName t), (''pkg_component'', tr_componentName t), (''operation'', operationName),
            (''trace_id'', traceID), (''span_id'', spanID)] ''start''])"

definition logging_FinishSpan :: "tracer \<Rightarrow> span \<Rightarrow> error option \<Rightarrow> trace_event list" where
  "logging_FinishSpan t sp err =
     (let traceID = GetTraceID sp; spanID = GetTraceID sp;
          logger = [(''pkg_name'', pkgName t), (''pkg_component'', tr_componentName t), (''trace_id'', traceID), (''span_id'', spanID)];
          logger = (case err of None \<Rightarrow> logger | Some e \<Rightarrow> logger @ [(''error'', ''true'')])
      in (case err of None \<Rightarrow> [] | Some e \<Rightarrow> [Log_line ''error'' logger (error_msg e)]) @
         (if sp = No_span then []
          else (case err of None \<Rightarrow> [] | Some e \<Rightarrow> [Log_KV ''error.msg'' (error_msg e), Error_flag]) @ [Finish]) @
         [Log_line ''debug'' logger ''finish''])"

text \<open>The hook of the logger: the fields of the entry, with the identifiers of the span of its context.\<close>

definition SpanHook_Fire :: "span \<Rightarrow> string \<Rightarrow> (string \<times> string) list \<Rightarrow> trace_event list \<times> (string \<times> string) list" where
  "SpanHook_Fire sp message fs =
     (case sp of
        No_span \<Rightarrow> ([], fs)
      | Other_span \<Rightarrow> ([Log_KV ''log.msg'' message], fs)
      | Jaeger_span traceId spanId \<Rightarrow> ([Log_KV ''log.msg'' message], (''traceId'', traceId) # (''spanId'', spanId) # fs))"

subsection \<open>Jaeger\<close>

text \<open>The interval in nanoseconds.\<close>

record jaeger_config =
  ServiceName :: string
  Sampler_Type :: string
  Sampler_Param :: int
  BufferFlushInterval :: int

definition getConfig :: "error + jaeger_config \<Rightarrow> string \<Rightarrow> error + jaeger_config" where
  "getConfig FromEnv app =
     (case FromEnv of
        Inl err \<Rightarrow> Inl err
      | Inr cfg \<Rightarrow>
          (let cfg = (if ServiceName cfg = [] then cfg\<lparr>ServiceName := app\<rparr> else cfg);
               cfg = (if Sampler_Type cfg = [] then cfg\<lparr>Sampler_Type := ''const'', Sampler_Param := 1\<rparr> else cfg);
               cfg = (if BufferFlushInterval cfg = 0 then cfg\<lparr>BufferFlushInterval := 1000000000\<rparr> else cfg)
           in Inr cfg))"

text \<open>The global tracer: none yet, or one with its configuration.\<close>

definition InitJaeger :: "(string \<Rightarrow> jaeger_config \<Rightarrow> error option) \<Rightarrow> error + jaeger_config \<Rightarrow> string \<Rightarrow>
    jaeger_config option \<Rightarrow> jaeger_config option \<times> error option" where
  "InitJaeger InitGlobalTracer FromEnv app glob =
     (case glob of
        Some c \<Rightarrow> (glob, None)
      | None \<Rightarrow>
          (case getConfig FromEnv app of
             Inl err \<Rightarrow> (glob, Some err)
           | Inr cfg \<Rightarrow> (case InitGlobalTracer app cfg of Some err \<Rightarrow> (glob, Some err) | None \<Rightarrow> (Some cfg, None))))"

subsection \<open>The traced database\<close>

record 'q sqldb =
  db_ExecContext :: "'q \<Rightarrow> error + string"
  db_QueryContext :: "'q \<Rightarrow> error + string"
  db_QueryRowContext :: "'q \<Rightarrow> error + string"

text \<open>
  A query is its text with its arguments. The maximal length is an \<open>int\<close> of 64 bits.
\<close>

record 'a traceableDB =
  td_db :: "(string \<times> 'a) sqldb"
  maxQueryLength :: int

definition db_tracer :: tracer where
  "db_tracer = \<lparr>pkgName = ''db'', tr_componentName = ''traceableSQL''\<rparr>"

definition WrapWithTracing :: "(string \<times> 'a) sqldb \<Rightarrow> 'a traceableDB" where
  "WrapWithTracing db = \<lparr>td_db = db, maxQueryLength = -1\<rparr>"

definition logQuery :: "'a traceableDB \<Rightarrow> string \<Rightarrow> trace_event list" where
  "logQuery d query =
     (if maxQueryLength d = 0 then []
      else let query = (if maxQueryLength d > 0 \<and> int (length query) > maxQueryLength d
             then take (nat (maxQueryLength d)) query @ ''...'' else query)
      in [Log_KV ''sql'' query])"

text \<open>The conversion of an unsigned number to a signed one.\<close>

definition WithTrimmedQuery :: "64 word \<Rightarrow> 'a traceableDB \<Rightarrow> 'a traceableDB" where
  "WithTrimmedQuery maxLength d = d\<lparr>maxQueryLength := sint maxLength\<rparr>"

definition debug_line :: "string \<Rightarrow> string \<Rightarrow> trace_event" where
  "debug_line meth query = Log_line ''debug'' [(''sql_method'', meth)] query"

definition result_error :: "error + 'b \<Rightarrow> error option" where
  "result_error r = (case r of Inl e \<Rightarrow> Some e | Inr x \<Rightarrow> None)"

definition ExecContext :: "'a traceableDB \<Rightarrow> string \<Rightarrow> 'a \<Rightarrow> trace_event list \<times> (error + string)" where
  "ExecContext d query args =
     (let r = db_ExecContext (td_db d) (query, args)
      in (StartSpan db_tracer ''ExecContext'' @ logQuery d query @ [debug_line ''ExecContext'' query] @
          FinishSpan db_tracer Other_span (result_error r), r))"

definition QueryContext :: "'a traceableDB \<Rightarrow> string \<Rightarrow> 'a \<Rightarrow> trace_event list \<times> (error + string)" where
  "QueryContext d query args =
     (let r = db_QueryContext (td_db d) (query, args)
      in (StartSpan db_tracer ''QueryContext'' @ logQuery d query @ [debug_line ''QueryContext'' query] @
          FinishSpan db_tracer Other_span (result_error r), r))"

definition QueryRowContext :: "'a traceableDB \<Rightarrow> string \<Rightarrow> 'a \<Rightarrow> trace_event list \<times> (error + string)" where
  "QueryRowContext d query args =
     (let r = db_QueryRowContext (td_db d) (query, args)
      in (StartSpan db_tracer ''QueryRowContext'' @ logQuery d query @ [debug_line ''QueryRowContext'' query] @
          FinishSpan db_tracer Other_span None, r))"

subsection \<open>OpenTelemetry\<close>

definition truthyEnv :: "env \<Rightarrow> string \<Rightarrow> bool" where
  "truthyEnv LookupEnv name = (case LookupEnv name of None \<Rightarrow> False | Some value \<Rightarrow> value \<in> {''true'', ''1'', ''yes'', ''on''})"

definition get_env :: "env \<Rightarrow> string \<Rightarrow> string \<Rightarrow> string" where
  "get_env LookupEnv name defaultValue = (case LookupEnv name of None \<Rightarrow> defaultValue | Some value \<Rightarrow> value)"

datatype propagator = TraceContext | Jaeger | Xray | Baggage

definition withPropagators :: "string \<Rightarrow> propagator list" where
  "withPropagators propagators =
     (if contains propagators ''tracecontext'' then [TraceContext] else []) @
     (if contains propagators ''jaeger'' then [Jaeger] else []) @
     (if contains propagators ''xray'' then [Xray] else []) @
     (if contains propagators ''baggage'' then [Baggage] else [])"

datatype id_generator = Random_ids | Xray_ids

definition idGenerator :: "string \<Rightarrow> id_generator" where
  "idGenerator propagators = (if contains propagators ''xray'' then Xray_ids else Random_ids)"

record component_info =
  Info_Name :: string
  Info_Version :: string
  Info_Commit :: string

datatype otlp_client = Grpc_client | Http_client

datatype exporter = Jaeger_exporter | Log_exporter bool bool | Otlp_exporter "otlp_client option"

text \<open>
  The constructors of the exporters and resources, which may fail; creating the OTLP exporter from a
  missing client may panic.
\<close>

record otel_lib =
  new_exporter :: "exporter \<Rightarrow> error option outcome"
  new_resource :: "(string \<times> string) list \<Rightarrow> error option"
  detect_eks :: "error option"

record otel_provider =
  pv_exporter :: exporter
  pv_service :: string
  pv_attributes :: "(string \<times> string) list"
  pv_eks :: bool
  pv_ids :: id_generator

text \<open>The global propagators and the global provider.\<close>

record otel_globals =
  gl_propagators :: "propagator list"
  gl_provider :: "otel_provider option"

definition select_exporter :: "env \<Rightarrow> exporter option" where
  "select_exporter LookupEnv =
     (let e = get_env LookupEnv ''OTEL_TRACES_EXPORTER'' ''disabled'' in
      if e = ''jaeger'' then Some Jaeger_exporter
      else if e = ''log'' then Some (Log_exporter (truthyEnv LookupEnv ''OTEL_EXPORTER_LOG_PRETTY_PRINT'')
        (truthyEnv LookupEnv ''OTEL_EXPORTER_LOG_TIMESTAMPS''))
      else if e = ''otlp'' then
        (let kind = get_env LookupEnv ''OTEL_EXPORTER_OTLP_PROTOCOL'' ''grpc''
         in Some (Otlp_exporter (if kind = ''grpc'' then Some Grpc_client else if kind = ''http'' then Some Http_client else None)))
      else None)"

definition start_provider :: "otel_lib \<Rightarrow> env \<Rightarrow> component_info \<Rightarrow> exporter \<Rightarrow> otel_globals \<Rightarrow> otel_globals \<times> error option" where
  "start_provider lib LookupEnv component ex g =
     (let propagators = map to_lower (get_env LookupEnv ''OTEL_PROPAGATORS'' ''tracecontext,baggage'');
          g = g\<lparr>gl_propagators := withPropagators propagators\<rparr>;
          name = get_env LookupEnv ''OTEL_SERVICE_NAME'' (Info_Name component);
          attrs = [(''service.version'', Info_Version component), (''service.commit'', Info_Commit component), (''service.name'', name)];
          in_eks = truthyEnv LookupEnv ''OTEL_DETECTOR_EKS''
      in case new_resource lib attrs of
           Some err \<Rightarrow> (g, Some err)
         | None \<Rightarrow>
             (case (if in_eks then detect_eks lib else None) of
                Some err \<Rightarrow> (g, Some err)
              | None \<Rightarrow> (g\<lparr>gl_provider := Some \<lparr>pv_exporter = ex, pv_service = name, pv_attributes = attrs, pv_eks = in_eks,
                  pv_ids = idGenerator propagators\<rparr>\<rparr>, None)))"

definition Provider :: "otel_lib \<Rightarrow> env \<Rightarrow> component_info \<Rightarrow> otel_globals \<Rightarrow> (otel_globals \<times> error option) outcome" where
  "Provider lib LookupEnv component g =
     (case select_exporter LookupEnv of
        None \<Rightarrow> Ret (g, None)
      | Some ex \<Rightarrow>
          (case new_exporter lib ex of
             Panic \<Rightarrow> Panic
           | Ret (Some err) \<Rightarrow> Ret (g, Some err)
           | Ret None \<Rightarrow> Ret (start_provider lib LookupEnv component ex g)))"

text \<open>The helpers for spans, with the status and the errors that are recorded.\<close>

datatype otel_event = Record_error error | Set_status string | End_span

definition RecordError :: "bool \<Rightarrow> error option \<Rightarrow> otel_event list" where
  "RecordError span_is_nil err =
     (case err of None \<Rightarrow> [] | Some e \<Rightarrow> if span_is_nil then [] else [Record_error e, Set_status (error_msg e)])"

definition EndSpan :: "error option \<Rightarrow> otel_event list" where
  "EndSpan err = (case err of None \<Rightarrow> [End_span] | Some e \<Rightarrow> [Record_error e, Set_status (error_msg e), End_span])"

text \<open>\<open>Middleware\<close>: the name of the spans and whether a request to a path is traced.\<close>

definition otel_Middleware :: "string \<Rightarrow> (string \<Rightarrow> bool) list \<Rightarrow> string \<times> (string \<Rightarrow> bool)" where
  "otel_Middleware name filters =
     (let name = (if name = [] then ''Server'' else name);
          filters = (if filters = [] then [\<lambda>path. \<not> (path = ''/metrics'' \<or> path = ''/health'')] else filters)
      in (name, \<lambda>path. list_all (\<lambda>f. f path) filters))"

subsection \<open>Properties\<close>

lemma traced_db_transparent_parts:
  "snd (ExecContext d q a) = db_ExecContext (td_db d) (q, a)"
  "snd (QueryContext d q a) = db_QueryContext (td_db d) (q, a)"
  "snd (QueryRowContext d q a) = db_QueryRowContext (td_db d) (q, a)"
  "x \<in> {ExecContext d q a, QueryContext d q a, QueryRowContext d q a} \<Longrightarrow>
     (\<exists>n rest. fst x = Start n # rest @ [Finish] \<and> (\<forall>m. Start m \<notin> set rest) \<and> Finish \<notin> set rest)"
  "Error_flag \<in> set (fst (ExecContext d q a)) \<longleftrightarrow> (\<exists>e. db_ExecContext (td_db d) (q, a) = Inl e)"
  "Error_flag \<in> set (fst (QueryContext d q a)) \<longleftrightarrow> (\<exists>e. db_QueryContext (td_db d) (q, a) = Inl e)"
  "Error_flag \<notin> set (fst (QueryRowContext d q a))"
proof -
  note defs = ExecContext_def QueryContext_def QueryRowContext_def Let_def StartSpan_def FinishSpan_def logQuery_def debug_line_def
    result_error_def
  show "snd (ExecContext d q a) = db_ExecContext (td_db d) (q, a)"
    "snd (QueryContext d q a) = db_QueryContext (td_db d) (q, a)"
    "snd (QueryRowContext d q a) = db_QueryRowContext (td_db d) (q, a)"
    "Error_flag \<in> set (fst (ExecContext d q a)) \<longleftrightarrow> (\<exists>e. db_ExecContext (td_db d) (q, a) = Inl e)"
    "Error_flag \<in> set (fst (QueryContext d q a)) \<longleftrightarrow> (\<exists>e. db_QueryContext (td_db d) (q, a) = Inl e)"
    "Error_flag \<notin> set (fst (QueryRowContext d q a))"
    by (simp_all add: defs split: sum.split)
  have span: "\<exists>n rest. StartSpan db_tracer n' @ logQuery d q @ [debug_line n' q] @ FinishSpan db_tracer Other_span e =
      Start n # rest @ [Finish] \<and> (\<forall>m. Start m \<notin> set rest) \<and> Finish \<notin> set rest" for n' e
    by (rule exI [of _ n'], rule exI [of _ "butlast (tl (StartSpan db_tracer n' @ logQuery d q @ [debug_line n' q] @ FinishSpan db_tracer Other_span e))"])
      (simp add: StartSpan_def logQuery_def debug_line_def FinishSpan_def Let_def butlast_append split: option.split)
  show "\<exists>n rest. fst x = Start n # rest @ [Finish] \<and> (\<forall>m. Start m \<notin> set rest) \<and> Finish \<notin> set rest"
    if "x \<in> {ExecContext d q a, QueryContext d q a, QueryRowContext d q a}"
  proof -
    from that consider "x = ExecContext d q a" | "x = QueryContext d q a" | "x = QueryRowContext d q a" by blast
    then show ?thesis by cases (simp_all only: ExecContext_def QueryContext_def QueryRowContext_def Let_def fst_conv span)
  qed
qed

text \<open>
  Tracing does not change the database. Every call passes the query and the arguments on as they
  are and returns the result of the database; it starts one span and finishes it as the last
  thing; and the span of \<open>Exec\<close> and \<open>Query\<close> is marked as failed exactly when the call failed, while
  that of \<open>QueryRow\<close>, whose error is only known later, never is.
\<close>

theorem traced_db_transparent:
  "snd (ExecContext d q a) = db_ExecContext (td_db d) (q, a) \<and>
   snd (QueryContext d q a) = db_QueryContext (td_db d) (q, a) \<and>
   snd (QueryRowContext d q a) = db_QueryRowContext (td_db d) (q, a) \<and>
   (\<forall>x. x \<in> {ExecContext d q a, QueryContext d q a, QueryRowContext d q a} \<longrightarrow>
     (\<exists>n rest. fst x = Start n # rest @ [Finish] \<and> (\<forall>m. Start m \<notin> set rest) \<and> Finish \<notin> set rest)) \<and>
   (Error_flag \<in> set (fst (ExecContext d q a)) \<longleftrightarrow> (\<exists>e. db_ExecContext (td_db d) (q, a) = Inl e)) \<and>
   (Error_flag \<in> set (fst (QueryContext d q a)) \<longleftrightarrow> (\<exists>e. db_QueryContext (td_db d) (q, a) = Inl e)) \<and>
   Error_flag \<notin> set (fst (QueryRowContext d q a))"
  by (intro conjI allI impI; rule traced_db_transparent_parts; assumption?)

definition ex_sqldb :: "(string \<times> nat) sqldb" where
  "ex_sqldb = \<lparr>db_ExecContext = (\<lambda>q. Inl (Ext ''down'')), db_QueryContext = (\<lambda>q. Inr ''rows''), db_QueryRowContext = (\<lambda>q. Inr ''row'')\<rparr>"

theorem traced_db_transparent_witness:
  "\<exists>n rest. fst (ExecContext (WrapWithTracing ex_sqldb) ''DELETE'' 0) = Start n # rest @ [Finish] \<and>
    (\<forall>m. Start m \<notin> set rest) \<and> Finish \<notin> set rest"
  using traced_db_transparent [of "WrapWithTracing ex_sqldb" "''DELETE''" 0] by blast

lemma sint_64: "sint n = (if unat n < 2 ^ 63 then int (unat n) else int (unat n) - 2 ^ 64)" for n :: "64 word"
proof -
  define k where "k = unat n"
  have k: "k < 2 ^ 64" using unsigned_less [of n, where ?'a = nat] by (simp add: k_def)
  have "uint n = int k" by (simp add: k_def)
  then have *: "sint n = (int k + 2 ^ 63) mod 2 ^ 64 - 2 ^ 63"
    by (simp add: sint_uint signed_take_bit_eq_take_bit_shift take_bit_eq_mod)
  show ?thesis
  proof (cases "k < 2 ^ 63")
    case True
    then have "(int k + 2 ^ 63) mod 2 ^ 64 = int k + 2 ^ 63" by (intro mod_pos_pos_trivial) simp_all
    with * True show ?thesis by (simp add: k_def [symmetric])
  next
    case False
    have "(int k + 2 ^ 63) mod 2 ^ 64 = (int k + 2 ^ 63 - 2 ^ 64) mod 2 ^ 64" by (rule minus_mod_self2 [symmetric])
    also have "\<dots> = int k + 2 ^ 63 - 2 ^ 64" using False k by (intro mod_pos_pos_trivial) simp_all
    finally show ?thesis using * False by (simp add: k_def [symmetric])
  qed
qed

lemma logQuery_trimmed:
  assumes "0 < m"
  shows "\<exists>t. logQuery (d\<lparr>maxQueryLength := int m\<rparr>) q = [Log_KV ''sql'' t] \<and> length t \<le> m + 3 \<and>
    take m t = take m q \<and> (length q \<le> m \<longrightarrow> t = q)"
  using assms by (auto simp: logQuery_def Let_def)

text \<open>
  The length of the queries in the spans. A limit of 0 logs nothing; under a limit below \<open>2 ^ 63\<close>
  the logged text has at most three bytes more than the limit, agrees with the query up to the
  limit, and is the query itself when it is within the limit. A greater limit becomes negative in
  the conversion and means no limit.
\<close>

theorem logged_query_bounds:
  "logQuery (WithTrimmedQuery 0 d) q = []"
  "0 < n \<Longrightarrow> unat n < 2 ^ 63 \<Longrightarrow>
     \<exists>t. logQuery (WithTrimmedQuery n d) q = [Log_KV ''sql'' t] \<and> length t \<le> unat n + 3 \<and>
       take (unat n) t = take (unat n) q \<and> (length q \<le> unat n \<longrightarrow> t = q)"
  "2 ^ 63 \<le> unat n \<Longrightarrow> logQuery (WithTrimmedQuery n d) q = [Log_KV ''sql'' q]"
proof -
  show "logQuery (WithTrimmedQuery 0 d) q = []" by (simp add: logQuery_def WithTrimmedQuery_def)
  have s: "sint n = (if unat n < 2 ^ 63 then int (unat n) else int (unat n) - 2 ^ 64)" for n :: "64 word"
    by (rule sint_64)
  show "\<exists>t. logQuery (WithTrimmedQuery n d) q = [Log_KV ''sql'' t] \<and> length t \<le> unat n + 3 \<and>
       take (unat n) t = take (unat n) q \<and> (length q \<le> unat n \<longrightarrow> t = q)" if "0 < n" "unat n < 2 ^ 63"
  proof -
    have "0 < unat n" using that(1) by (simp add: unat_gt_0 word_greater_zero_iff)
    from logQuery_trimmed [OF this, of d q] show ?thesis using that(2) by (simp only: WithTrimmedQuery_def s if_True)
  qed
  show "logQuery (WithTrimmedQuery n d) q = [Log_KV ''sql'' q]" if "2 ^ 63 \<le> unat n"
  proof -
    have "uint n < 2 ^ 64" using unsigned_less [of n, where ?'a = int] by simp
    then show ?thesis using that by (simp add: logQuery_def WithTrimmedQuery_def s Let_def)
  qed
qed

theorem logged_query_bounds_witness:
  "logQuery (WithTrimmedQuery 18446744073709551615 (WrapWithTracing ex_sqldb)) ''SELECT'' = [Log_KV ''sql'' ''SELECT'']"
  by (rule logged_query_bounds(3)) simp

text \<open>
  The global tracer of Jaeger is set up once: after a successful initialization every later one
  succeeds and keeps the tracer, whatever its name; a failed one leaves no tracer, so that it can
  be tried again. The tracer has a name, a sampler and an interval.
\<close>

theorem InitJaeger_once:
  "InitJaeger init env app None = (g, None) \<Longrightarrow>
     InitJaeger init' env' app' g = (g, None) \<and>
     (\<exists>cfg. g = Some cfg \<and> (app \<noteq> [] \<longrightarrow> ServiceName cfg \<noteq> []) \<and> Sampler_Type cfg \<noteq> [] \<and> BufferFlushInterval cfg \<noteq> 0)"
  "InitJaeger init env app None = (g, Some e) \<Longrightarrow> g = None"
  by (auto simp: InitJaeger_def getConfig_def Let_def split: sum.splits option.splits if_splits)

definition ex_jaeger :: jaeger_config where
  "ex_jaeger = \<lparr>ServiceName = [], Sampler_Type = [], Sampler_Param = 0, BufferFlushInterval = 0\<rparr>"

theorem InitJaeger_once_witness:
  "InitJaeger (\<lambda>a c. None) (Inr ex_jaeger) ''b''
     (Some \<lparr>ServiceName = ''a'', Sampler_Type = ''const'', Sampler_Param = 1, BufferFlushInterval = 1000000000\<rparr>) =
   (Some \<lparr>ServiceName = ''a'', Sampler_Type = ''const'', Sampler_Param = 1, BufferFlushInterval = 1000000000\<rparr>, None)"
  by (rule InitJaeger_once(1) [where init = "\<lambda>a c. None" and env = "Inr ex_jaeger" and app = "''a''", THEN conjunct1])
    (simp add: InitJaeger_def getConfig_def ex_jaeger_def)

text \<open>
  The provider of OpenTelemetry. Without one of the three exporters in the environment nothing
  is changed. When an error is returned, the global provider is the one from before. When it
  succeeds with an exporter, the provider is set, with the name from the environment or the one of
  the component, identifiers for X-Ray exactly when X-Ray is among the propagators, and the
  propagators are distinct.
\<close>

theorem Provider_globals:
  "LookupEnv ''OTEL_TRACES_EXPORTER'' \<notin> {Some ''jaeger'', Some ''log'', Some ''otlp''} \<Longrightarrow>
     Provider lib LookupEnv c g = Ret (g, None)"
  "Provider lib LookupEnv c g = Ret (g', Some e) \<Longrightarrow> gl_provider g' = gl_provider g"
  "Provider lib LookupEnv c g = Ret (g', None) \<Longrightarrow> LookupEnv ''OTEL_TRACES_EXPORTER'' \<in> {Some ''jaeger'', Some ''log'', Some ''otlp''} \<Longrightarrow>
     \<exists>p. gl_provider g' = Some p \<and> Some (pv_exporter p) = select_exporter LookupEnv \<and>
       pv_service p = (case LookupEnv ''OTEL_SERVICE_NAME'' of None \<Rightarrow> Info_Name c | Some n \<Rightarrow> n) \<and>
       (pv_ids p = Xray_ids \<longleftrightarrow> Xray \<in> set (gl_propagators g')) \<and> distinct (gl_propagators g')"
proof -
  show "Provider lib LookupEnv c g = Ret (g, None)"
    if "LookupEnv ''OTEL_TRACES_EXPORTER'' \<notin> {Some ''jaeger'', Some ''log'', Some ''otlp''}"
    using that by (auto simp: Provider_def select_exporter_def get_env_def split: option.splits)
  show "gl_provider g' = gl_provider g" if "Provider lib LookupEnv c g = Ret (g', Some e)"
    using that by (auto simp: Provider_def start_provider_def Let_def split: option.splits outcome.splits if_splits)
  show "\<exists>p. gl_provider g' = Some p \<and> Some (pv_exporter p) = select_exporter LookupEnv \<and>
       pv_service p = (case LookupEnv ''OTEL_SERVICE_NAME'' of None \<Rightarrow> Info_Name c | Some n \<Rightarrow> n) \<and>
       (pv_ids p = Xray_ids \<longleftrightarrow> Xray \<in> set (gl_propagators g')) \<and> distinct (gl_propagators g')"
    if p: "Provider lib LookupEnv c g = Ret (g', None)" and e: "LookupEnv ''OTEL_TRACES_EXPORTER'' \<in> {Some ''jaeger'', Some ''log'', Some ''otlp''}"
  proof -
    have "select_exporter LookupEnv \<noteq> None" using e by (auto simp: select_exporter_def get_env_def Let_def)
    with p obtain ex where ex: "select_exporter LookupEnv = Some ex" "start_provider lib LookupEnv c ex g = (g', None)"
      by (auto simp: Provider_def split: option.splits outcome.splits)
    have x: "distinct (withPropagators s)" "Xray \<in> set (withPropagators s) \<longleftrightarrow> idGenerator s = Xray_ids" for s
      by (simp_all add: withPropagators_def idGenerator_def)
    show ?thesis using ex(2) ex(1) x
      by (auto simp: start_provider_def Let_def get_env_def split: option.splits if_splits)
  qed
qed

theorem Provider_globals_witness:
  "Provider \<lparr>new_exporter = (\<lambda>e. Ret None), new_resource = (\<lambda>a. None), detect_eks = None\<rparr> Map.empty
     \<lparr>Info_Name = ''app'', Info_Version = ''1'', Info_Commit = ''c''\<rparr> \<lparr>gl_propagators = [], gl_provider = None\<rparr> =
   Ret (\<lparr>gl_propagators = [], gl_provider = None\<rparr>, None)"
  by (rule Provider_globals(1)) simp

text \<open>
  A protocol of the OTLP exporter other than \<open>grpc\<close> and \<open>http\<close>, such as the documented
  \<open>http/protobuf\<close>, leaves the exporter without a client; no error is returned for it here.
\<close>

theorem unknown_otlp_protocol_has_no_client:
  assumes "LookupEnv ''OTEL_TRACES_EXPORTER'' = Some ''otlp''" "LookupEnv ''OTEL_EXPORTER_OTLP_PROTOCOL'' = Some kind"
    and "kind \<notin> {''grpc'', ''http''}"
  shows "select_exporter LookupEnv = Some (Otlp_exporter None)"
    "new_exporter lib (Otlp_exporter None) = Panic \<Longrightarrow> Provider lib LookupEnv c g = Panic"
  using assms by (simp_all add: select_exporter_def get_env_def Provider_def)

theorem unknown_otlp_protocol_has_no_client_witness:
  "select_exporter [''OTEL_TRACES_EXPORTER'' \<mapsto> ''otlp'', ''OTEL_EXPORTER_OTLP_PROTOCOL'' \<mapsto> ''http/protobuf''] = Some (Otlp_exporter None)"
  by (rule unknown_otlp_protocol_has_no_client(1) [where kind = "''http/protobuf''"]) simp_all

end
