(* ===== verification/Claims_Json.thy ===== *)
theory Claims_Json
  imports Config
begin

section \<open>Claims and time stamps in JSON and in the context\<close>

text \<open>
  The rest of \<open>pkg/http/middlewares/authorization\<close>: \<open>Timestamp\<close> as JSON, and the claims in the context
  of a request. Decoding a JSON text into a \<open>json.Number\<close>, parsing a time of RFC 3339 and the
  conversion of a floating point number to an instant are parameters (\<open>time_codec\<close>).
\<close>

record time_codec =
  tc_Number :: "bytes \<Rightarrow> error + string"
  tc_ParseRFC3339 :: "string \<Rightarrow> error + time"
  tc_Float64 :: "string \<Rightarrow> time \<times> error option"

text \<open>What is used of \<open>json.Number\<close>: the text of an integer is kept, and null leaves it empty.\<close>

definition codec_ok :: "time_codec \<Rightarrow> bool" where
  "codec_ok c \<longleftrightarrow> (\<forall>i. tc_Number c (int_text i) = Inr (int_text i)) \<and> tc_Number c ''null'' = Inr []"

text \<open>\<open>strconv.ParseInt(s, 10, 64)\<close>: an optional sign and digits, within the range.\<close>

definition ParseInt64 :: "string \<Rightarrow> error + int" where
  "ParseInt64 s =
     (let neg = (s \<noteq> [] \<and> hd s = CHR ''-'');
          ds = (if s \<noteq> [] \<and> (hd s = CHR ''-'' \<or> hd s = CHR ''+'') then tl s else s);
          n = (if neg then - int (dec_value 0 ds) else int (dec_value 0 ds))
      in if ds = [] \<or> \<not> list_all is_digit ds then Inl (New (''strconv.ParseInt: parsing '' @ Quote s @ '': invalid syntax''))
         else if n < - (2 ^ 63) \<or> n \<ge> 2 ^ 63 then Inl (New (''strconv.ParseInt: parsing '' @ Quote s @ '': value out of range''))
         else Inr n)"

definition Timestamp_MarshalJSON :: "time \<Rightarrow> bytes" where
  "Timestamp_MarshalJSON t = int_text (unix_seconds t)"

text \<open>The time stamp after decoding and the error; a failed parse of RFC 3339 yields the zero time.\<close>

definition Timestamp_UnmarshalJSON :: "time_codec \<Rightarrow> bytes \<Rightarrow> time \<Rightarrow> time \<times> error option" where
  "Timestamp_UnmarshalJSON c data t =
     (if contains data ''T'' then
        (let s = rev (dropWhile (\<lambda>x. x = CHR 0x22) (rev (dropWhile (\<lambda>x. x = CHR 0x22) data)))
         in case tc_ParseRFC3339 c s of Inl err \<Rightarrow> (zero_time, Some err) | Inr t' \<Rightarrow> (t', None))
      else if contains data ''.'' then
        (case tc_Number c data of Inl err \<Rightarrow> (t, Some err) | Inr numeric \<Rightarrow> tc_Float64 c numeric)
      else
        (case tc_Number c data of
           Inl err \<Rightarrow> (t, Some err)
         | Inr numeric \<Rightarrow> (case ParseInt64 numeric of Inl err \<Rightarrow> (t, Some err) | Inr v \<Rightarrow> (v * 1000000000, None))))"

subsection \<open>The claims of a request\<close>

text \<open>The values of a context: keys have a type of their own, so keys of other packages differ.\<close>

datatype 'v ctx_key = Auth_key string | Other_key 'v

type_synonym ('v, 'x) ctx = "'v ctx_key \<Rightarrow> (claims + 'x) option"

definition authClaimsKey :: "'v ctx_key" where
  "authClaimsKey = Auth_key ''DatastoreClaims''"

definition key_String :: "string \<Rightarrow> string" where
  "key_String c = ''com.contiamo.labs.auth.contextKey.'' @ c"

definition GetClaimsFromCtx :: "('v, 'x) ctx \<Rightarrow> claims option" where
  "GetClaimsFromCtx ctx = (case ctx authClaimsKey of Some (Inl c) \<Rightarrow> Some c | _ \<Rightarrow> None)"

definition SetClaims :: "('v, 'x) ctx \<Rightarrow> claims \<Rightarrow> ('v, 'x) ctx" where
  "SetClaims ctx c = ctx(authClaimsKey \<mapsto> Inl c)"

subsection \<open>Properties\<close>

lemma int_text_parse:
  assumes "- (2 ^ 63) \<le> i" "i < 2 ^ 63"
  shows "ParseInt64 (int_text i) = Inr i"
proof -
  have d: "list_all is_digit (nat_text n)" "dec_value 0 (nat_text n) = n" for n using nat_text_digits by auto
  have h: "hd (nat_text n) \<noteq> CHR ''-''" "hd (nat_text n) \<noteq> CHR ''+''" for n
    using d(1) [of n] by (cases "nat_text n"; auto simp: is_digit_def)+
  show ?thesis
  proof (cases "i < 0")
    case True
    then show ?thesis using assms d h by (simp add: ParseInt64_def int_text_def Let_def)
  next
    case False
    then have "int (nat i) = i" by simp
    then show ?thesis using False assms d h by (simp add: ParseInt64_def int_text_def Let_def del: nat_eq_iff)
  qed
qed

lemma int_text_chars: "c \<in> set (int_text i) \<Longrightarrow> is_digit c \<or> c = CHR ''-''"
  using nat_text_digits by (auto simp: int_text_def list_all_iff split: if_splits)

lemma contains_char: "contains s [c] \<longleftrightarrow> c \<in> set s"
  by (induction s) auto

lemma int_text_plain: "\<not> contains (int_text i) ''T'' \<and> \<not> contains (int_text i) ''.''"
  using int_text_chars [of "CHR ''T''" i] int_text_chars [of "CHR ''.''" i] by (auto simp: contains_char is_digit_def)

text \<open>
  A time stamp of a token through JSON. Encoding and decoding gives the time stamp cut to whole
  seconds, for every time whose seconds fit into 64 bits; doing it again changes nothing; the
  result is never later than the time stamp and less than a second before it. A null is not
  accepted: the time stamp is left as it was and an error is returned.
\<close>

theorem timestamp_json_roundtrip:
  assumes "codec_ok c" "- (2 ^ 63) \<le> unix_seconds t" "unix_seconds t < 2 ^ 63"
  shows "Timestamp_UnmarshalJSON c (Timestamp_MarshalJSON t) old = (json_time t, None)"
    "Timestamp_MarshalJSON (json_time t) = Timestamp_MarshalJSON t"
    "json_time t \<le> t \<and> t < json_time t + 1000000000"
    "\<exists>err. Timestamp_UnmarshalJSON c ''null'' old = (old, Some err)"
proof -
  show "Timestamp_UnmarshalJSON c (Timestamp_MarshalJSON t) old = (json_time t, None)"
    using assms int_text_plain [of "unix_seconds t"] int_text_parse [OF assms(2,3)]
    by (simp add: Timestamp_UnmarshalJSON_def Timestamp_MarshalJSON_def codec_ok_def json_time_def)
  show "Timestamp_MarshalJSON (json_time t) = Timestamp_MarshalJSON t"
    by (simp add: Timestamp_MarshalJSON_def unix_seconds_def json_time_def)
  show "json_time t \<le> t \<and> t < json_time t + 1000000000"
    by (simp add: unix_seconds_def json_time_def) presburger
  show "\<exists>err. Timestamp_UnmarshalJSON c ''null'' old = (old, Some err)"
    using assms(1) by (simp add: Timestamp_UnmarshalJSON_def codec_ok_def ParseInt64_def)
qed

definition sample_codec :: time_codec where
  "sample_codec = \<lparr>tc_Number = (\<lambda>d. if d = ''null'' then Inr [] else Inr d), tc_ParseRFC3339 = (\<lambda>s. Inl (Ext s)),
     tc_Float64 = (\<lambda>s. (zero_time, None))\<rparr>"

lemma sample_codec_ok: "codec_ok sample_codec"
proof -
  have "int_text i \<noteq> ''null''" for i using int_text_chars [of "CHR ''n''" i] by (auto simp: is_digit_def)
  then show ?thesis by (simp add: codec_ok_def sample_codec_def)
qed

theorem timestamp_json_roundtrip_witness:
  "Timestamp_UnmarshalJSON sample_codec (Timestamp_MarshalJSON 1700000000500000000) 0 = (1700000000000000000, None)"
  using timestamp_json_roundtrip(1) [OF sample_codec_ok, of 1700000000500000000 0] by (simp add: unix_seconds_def json_time_def)

text \<open>
  The claims that the middleware stores are the ones that a handler reads, and they hide no other
  value of the context.
\<close>

theorem claims_context_roundtrip:
  "GetClaimsFromCtx (SetClaims ctx c) = Some c"
  "k \<noteq> authClaimsKey \<Longrightarrow> SetClaims ctx c k = ctx k"
  by (simp_all add: GetClaimsFromCtx_def SetClaims_def)

end
