(* ===== verification/File_Copy.thy ===== *)
theory File_Copy
  imports Go_Errors "HOL-Library.AList" "HOL-Library.List_Lexorder" "HOL-Library.Char_ord"
    "HOL-Library.Sublist" "HOL-Library.Word"
begin

unbundle bit_operations_syntax

section \<open>Copying of files\<close>

text \<open>
  \<open>pkg/fileutils/copy.go\<close> and \<open>list.go\<close> over the file system of the operating system. A path is
  the list of its components from the root, as \<open>filepath.Join\<close> makes it from a clean path, and
  the file system is the association list of the paths that exist. Of the mode of a file the nine
  permission bits are kept; there are no links and no special files.

  What the operating system answers beyond the state of the tree (permissions, a full disk, a
  path that is too long) is the function \<open>refuse\<close>: the error, if any, of an operation on a path.
  \<open>copy_stops\<close> is an error of \<open>io.Copy\<close> with the number of the bytes that were written before it.
  The calls of the code can recurse without end, so they take fuel, the number of nested calls of
  \<open>Copy\<close>; \<open>None\<close> is a run that needs more.
\<close>

type_synonym path = "string list"
type_synonym file_mode = "9 word"

datatype node = Regular file_mode bytes | Directory file_mode

type_synonym fs = "(path \<times> node) list"

datatype fs_op = Op_Stat | Op_Create | Op_Chmod | Op_Open | Op_Mkdir | Op_ReadDir

record os =
  umask :: file_mode
  refuse :: "fs_op \<Rightarrow> path \<Rightarrow> error option"
  copy_stops :: "path \<Rightarrow> path \<Rightarrow> (nat \<times> error) option"

definition ENOENT :: error where "ENOENT = Ext ''no such file or directory''"
definition ENOTDIR :: error where "ENOTDIR = Ext ''not a directory''"
definition EISDIR :: error where "EISDIR = Ext ''is a directory''"

abbreviation get :: "fs \<Rightarrow> path \<Rightarrow> node option" where "get \<equiv> map_of"
abbreviation put :: "path \<Rightarrow> node \<Rightarrow> fs \<Rightarrow> fs" where "put \<equiv> AList.update"

fun is_dir :: "node option \<Rightarrow> bool" where
  "is_dir (Some (Directory m)) = True"
| "is_dir _ = False"

fun node_mode :: "node \<Rightarrow> file_mode" where
  "node_mode (Regular m c) = m"
| "node_mode (Directory m) = m"

subsection \<open>The calls of package \<open>os\<close>\<close>

definition os_Stat :: "os \<Rightarrow> path \<Rightarrow> fs \<Rightarrow> error + node" where
  "os_Stat env p fs =
     (case refuse env Op_Stat p of Some e \<Rightarrow> Inl e
      | None \<Rightarrow> (case get fs p of None \<Rightarrow> Inl ENOENT | Some n \<Rightarrow> Inr n))"

text \<open>\<open>os.Create\<close> truncates a file that exists and keeps its mode.\<close>

definition os_Create :: "os \<Rightarrow> path \<Rightarrow> fs \<Rightarrow> fs \<times> error option" where
  "os_Create env p fs =
     (case refuse env Op_Create p of Some e \<Rightarrow> (fs, Some e)
      | None \<Rightarrow>
          (case get fs p of
             Some (Directory m) \<Rightarrow> (fs, Some EISDIR)
           | Some (Regular m c) \<Rightarrow> (put p (Regular m []) fs, None)
           | None \<Rightarrow>
               if is_dir (get fs (butlast p)) then (put p (Regular (0b110110110 AND NOT (umask env)) []) fs, None)
               else (fs, Some (if get fs (butlast p) = None then ENOENT else ENOTDIR))))"

definition os_Chmod :: "os \<Rightarrow> path \<Rightarrow> file_mode \<Rightarrow> fs \<Rightarrow> fs \<times> error option" where
  "os_Chmod env p m fs =
     (case refuse env Op_Chmod p of Some e \<Rightarrow> (fs, Some e)
      | None \<Rightarrow>
          (case get fs p of
             None \<Rightarrow> (fs, Some ENOENT)
           | Some (Regular _ c) \<Rightarrow> (put p (Regular m c) fs, None)
           | Some (Directory _) \<Rightarrow> (put p (Directory m) fs, None)))"

definition os_Open :: "os \<Rightarrow> path \<Rightarrow> fs \<Rightarrow> error option" where
  "os_Open env p fs =
     (case refuse env Op_Open p of Some e \<Rightarrow> Some e
      | None \<Rightarrow> if get fs p = None then Some ENOENT else None)"

text \<open>\<open>io.Copy\<close> into the file that was just created, whose position is its beginning.\<close>

definition io_Copy :: "os \<Rightarrow> path \<Rightarrow> path \<Rightarrow> fs \<Rightarrow> fs \<times> error option" where
  "io_Copy env src dest fs =
     (case (get fs src, get fs dest) of
        (Some (Regular _ c), Some (Regular m _)) \<Rightarrow>
          (case copy_stops env src dest of
             None \<Rightarrow> (put dest (Regular m c) fs, None)
           | Some (n, e) \<Rightarrow> (put dest (Regular m (take n c)) fs, Some e))
      | _ \<Rightarrow> (fs, Some EISDIR))"

text \<open>\<open>os.MkdirAll\<close> makes the missing directories from the root to the path.\<close>

fun mkdirs :: "os \<Rightarrow> file_mode \<Rightarrow> path list \<Rightarrow> fs \<Rightarrow> fs \<times> error option" where
  "mkdirs env m [] fs = (fs, None)"
| "mkdirs env m (p # ps) fs =
     (case get fs p of
        Some (Directory _) \<Rightarrow> mkdirs env m ps fs
      | Some (Regular _ _) \<Rightarrow> (fs, Some ENOTDIR)
      | None \<Rightarrow>
          (case refuse env Op_Mkdir p of
             Some e \<Rightarrow> (fs, Some e)
           | None \<Rightarrow> mkdirs env m ps (put p (Directory (m AND NOT (umask env))) fs)))"

definition os_MkdirAll :: "os \<Rightarrow> path \<Rightarrow> file_mode \<Rightarrow> fs \<Rightarrow> fs \<times> error option" where
  "os_MkdirAll env p m fs = mkdirs env m (prefixes p) fs"

text \<open>\<open>os.ReadDir\<close> returns the entries of a directory sorted by their names.\<close>

definition entries :: "fs \<Rightarrow> path \<Rightarrow> string list" where
  "entries fs p = sort (remdups (map last (filter (\<lambda>q. q \<noteq> [] \<and> butlast q = p) (map fst fs))))"

definition os_ReadDir :: "os \<Rightarrow> path \<Rightarrow> fs \<Rightarrow> error + string list" where
  "os_ReadDir env p fs =
     (case refuse env Op_ReadDir p of Some e \<Rightarrow> Inl e
      | None \<Rightarrow>
          (case get fs p of
             None \<Rightarrow> Inl ENOENT
           | Some (Regular _ _) \<Rightarrow> Inl ENOTDIR
           | Some (Directory _) \<Rightarrow> Inr (entries fs p)))"

subsection \<open>The package\<close>

definition fcopy :: "os \<Rightarrow> path \<Rightarrow> path \<Rightarrow> node \<Rightarrow> fs \<Rightarrow> fs \<times> error option" where
  "fcopy env src dest srcStat fs =
     (case os_Create env dest fs of
        (fs, Some err) \<Rightarrow> (fs, Some err)
      | (fs, None) \<Rightarrow>
          (case os_Chmod env dest (node_mode srcStat) fs of
             (fs, Some err) \<Rightarrow> (fs, Some err)
           | (fs, None) \<Rightarrow>
               (case os_Open env src fs of
                  Some err \<Rightarrow> (fs, Some err)
                | None \<Rightarrow> io_Copy env src dest fs)))"

text \<open>The loop of \<open>dcopy\<close>; \<open>rec\<close> is the recursive call of \<open>Copy\<close>.\<close>

fun copy_entries ::
    "(path \<Rightarrow> path \<Rightarrow> fs \<Rightarrow> (fs \<times> error option) option) \<Rightarrow> path \<Rightarrow> path \<Rightarrow> string list \<Rightarrow> fs \<Rightarrow>
     (fs \<times> error option) option" where
  "copy_entries rec src dest [] fs = Some (fs, None)"
| "copy_entries rec src dest (name # infos) fs =
     (case rec (src @ [name]) (dest @ [name]) fs of
        None \<Rightarrow> None
      | Some (fs, Some err) \<Rightarrow> Some (fs, Some err)
      | Some (fs, None) \<Rightarrow> copy_entries rec src dest infos fs)"

definition dcopy ::
    "(path \<Rightarrow> path \<Rightarrow> fs \<Rightarrow> (fs \<times> error option) option) \<Rightarrow> os \<Rightarrow> path \<Rightarrow> path \<Rightarrow> node \<Rightarrow> fs \<Rightarrow>
     (fs \<times> error option) option" where
  "dcopy rec env src dest srcStat fs =
     (case os_MkdirAll env dest (node_mode srcStat) fs of
        (fs, Some err) \<Rightarrow> Some (fs, Some err)
      | (fs, None) \<Rightarrow>
          (case os_ReadDir env src fs of
             Inl err \<Rightarrow> Some (fs, Some err)
           | Inr infos \<Rightarrow> copy_entries rec src dest infos fs))"

fun Copy :: "os \<Rightarrow> nat \<Rightarrow> path \<Rightarrow> path \<Rightarrow> fs \<Rightarrow> (fs \<times> error option) option" where
  "Copy env 0 src dest fs = None"
| "Copy env (Suc fuel) src dest fs =
     (case os_Stat env src fs of
        Inl err \<Rightarrow> Some (fs, Some err)
      | Inr info \<Rightarrow>
          if is_dir (Some info) then dcopy (Copy env fuel) env src dest info fs
          else Some (fcopy env src dest info fs))"

text \<open>\<open>ListFiles\<close> drops the error of the directory.\<close>

definition ListFiles :: "os \<Rightarrow> path \<Rightarrow> fs \<Rightarrow> string list" where
  "ListFiles env p fs = (case os_ReadDir env p fs of Inl err \<Rightarrow> [] | Inr infos \<Rightarrow> infos)"

text \<open>A system that refuses nothing, and a small tree.\<close>

definition os0 :: os where
  "os0 = \<lparr>umask = 0b000010010, refuse = (\<lambda>op p. None), copy_stops = (\<lambda>s d. None)\<rparr>"

definition fs0 :: fs where
  "fs0 = [([], Directory 0b111101101), ([''a''], Directory 0b111111111), ([''a'', ''x''], Regular 0b110000000 ''1''),
          ([''a'', ''d''], Directory 0b111000000), ([''a'', ''d'', ''y''], Regular 0b110100100 ''2'')]"

subsection \<open>What copying means\<close>

text \<open>
  A tree: the root is a directory and so is the parent of everything that exists. \<open>apart\<close> says
  that neither path lies in the tree of the other.
\<close>

definition fs_ok :: "fs \<Rightarrow> bool" where
  "fs_ok fs \<longleftrightarrow> is_dir (get fs []) \<and> (\<forall>p n. get fs (p @ [n]) \<noteq> None \<longrightarrow> is_dir (get fs p))"

definition apart :: "path \<Rightarrow> path \<Rightarrow> bool" where
  "apart p q \<longleftrightarrow> \<not> prefix p q \<and> \<not> prefix q p"

text \<open>
  The node that the copy of \<open>n\<close> leaves where \<open>old\<close> was: a file replaces a file with its mode and
  content, a directory that is there already keeps its mode, and a new one has the mode of the
  source without the bits of the mask.
\<close>

fun copied :: "os \<Rightarrow> node option \<Rightarrow> node \<Rightarrow> node" where
  "copied env old (Regular m c) = Regular m c"
| "copied env (Some (Directory m')) (Directory m) = Directory m'"
| "copied env old (Directory m) = Directory (m AND NOT (umask env))"

definition overlay :: "os \<Rightarrow> node option \<Rightarrow> node option \<Rightarrow> node option" where
  "overlay env old new = (case new of None \<Rightarrow> old | Some n \<Rightarrow> Some (copied env old n))"

text \<open>The tree of \<open>src\<close> is laid over the tree of \<open>dest\<close>.\<close>

definition merged :: "os \<Rightarrow> path \<Rightarrow> path \<Rightarrow> fs \<Rightarrow> fs \<Rightarrow> bool" where
  "merged env src dest fs fs' \<longleftrightarrow>
     (\<forall>r. get fs' (dest @ r) = overlay env (get fs (dest @ r)) (get fs (src @ r)))"

text \<open>Outside the tree of \<open>dest\<close> nothing changes but for missing directories above it.\<close>

definition kept :: "path \<Rightarrow> fs \<Rightarrow> fs \<Rightarrow> bool" where
  "kept dest fs fs' \<longleftrightarrow>
     (\<forall>q. \<not> prefix dest q \<longrightarrow> get fs' q = get fs q \<or>
        strict_prefix q dest \<and> get fs q = None \<and> is_dir (get fs' q))"

text \<open>No file lies where a directory is to be copied, and no directory where a file is.\<close>

definition fits :: "path \<Rightarrow> path \<Rightarrow> fs \<Rightarrow> bool" where
  "fits src dest fs \<longleftrightarrow>
     (\<forall>r. get fs (src @ r) \<noteq> None \<longrightarrow> get fs (dest @ r) \<noteq> None \<longrightarrow>
        is_dir (get fs (src @ r)) = is_dir (get fs (dest @ r)))"

definition calm :: "os \<Rightarrow> bool" where
  "calm env \<longleftrightarrow> (\<forall>op p. refuse env op p = None) \<and> (\<forall>s d. copy_stops env s d = None)"

lemma is_dir_iff: "is_dir x \<longleftrightarrow> (\<exists>m. x = Some (Directory m))"
  by (cases x rule: is_dir.cases) auto

lemma is_dir_not_None: "is_dir x \<Longrightarrow> x \<noteq> None"
  by (cases x) auto

lemma get_put [simp]: "get (put p n fs) q = (if q = p then Some n else get fs q)"
  by (simp add: update_conv')

lemma fs_ok_put:
  assumes "fs_ok fs" "p = [] \<or> is_dir (get fs (butlast p))" "is_dir (Some n) \<or> \<not> is_dir (get fs p)"
    "p = [] \<longrightarrow> is_dir (Some n)"
  shows "fs_ok (put p n fs)"
  using assms unfolding fs_ok_def by (auto simp: butlast_append split: if_splits)

lemma set_entries: "n \<in> set (entries fs p) \<longleftrightarrow> get fs (p @ [n]) \<noteq> None"
proof -
  have "n \<in> set (entries fs p) \<longleftrightarrow> (\<exists>q \<in> fst ` set fs. q \<noteq> [] \<and> butlast q = p \<and> last q = n)"
    by (auto simp: entries_def image_iff)
  also have "\<dots> \<longleftrightarrow> p @ [n] \<in> fst ` set fs"
    by (metis append_butlast_last_id butlast_snoc last_snoc snoc_eq_iff_butlast)
  finally show ?thesis by (auto simp: map_of_eq_None_iff)
qed

lemma distinct_entries: "distinct (entries fs p)"
  by (simp add: entries_def)

lemma above_is_dir: "fs_ok fs \<Longrightarrow> get fs p \<noteq> None \<Longrightarrow> strict_prefix q p \<Longrightarrow> is_dir (get fs q)"
proof (induction p rule: rev_induct)
  case (snoc n p)
  then have d: "is_dir (get fs p)" by (simp only: fs_ok_def)
  then have "get fs p \<noteq> None" by (rule is_dir_not_None)
  with snoc d show ?case by (auto simp: strict_prefix_def)
qed simp

lemma kept_refl: "kept dest fs fs"
  by (simp add: kept_def)

lemma kept_inside: "kept dest fs fs' \<Longrightarrow> fs_ok fs \<Longrightarrow> dest \<noteq> [] \<Longrightarrow> is_dir (get fs (butlast dest)) \<Longrightarrow> \<not> prefix dest q \<Longrightarrow>
  get fs' q = get fs q"
proof (rule ccontr)
  assume *: "kept dest fs fs'" "fs_ok fs" "dest \<noteq> []" "is_dir (get fs (butlast dest))" "\<not> prefix dest q" "get fs' q \<noteq> get fs q"
  then have q: "strict_prefix q dest" "get fs q = None" unfolding kept_def by blast+
  obtain p n where pn: "dest = p @ [n]" using *(3) by (metis append_butlast_last_id)
  with q have "prefix q p" by (auto simp: strict_prefix_def)
  with q * pn have "strict_prefix q p" by (auto simp: strict_prefix_def)
  with above_is_dir [OF *(2) is_dir_not_None, of p q] * pn have "is_dir (get fs q)" by simp
  with q show False by simp
qed

lemma apart_append: "apart p q \<Longrightarrow> apart (p @ r) (q @ s)"
  unfolding apart_def by (metis prefix_append prefixI prefix_same_cases append_prefixD)

lemma apart_not_prefix: "apart src dest \<Longrightarrow> \<not> prefix dest (src @ r) \<and> \<not> prefix (src @ r) dest"
  using apart_append [of src dest r "[]"] by (simp add: apart_def)

lemma kept_src: "kept dest fs fs' \<Longrightarrow> apart src dest \<Longrightarrow> get fs' (src @ r) = get fs (src @ r)"
  using apart_not_prefix [of src dest r] unfolding kept_def strict_prefix_def by blast

lemma copied_dir [simp]: "is_dir (Some (copied env old n)) = is_dir (Some n)"
  by (cases "(env, old, n)" rule: copied.cases) auto

subsection \<open>One file and one directory\<close>

lemma mkdirs_append:
  "mkdirs env m (ps @ qs) fs =
     (case mkdirs env m ps fs of (fs, Some e) \<Rightarrow> (fs, Some e) | (fs, None) \<Rightarrow> mkdirs env m qs fs)"
  by (induction env m ps fs rule: mkdirs.induct) (auto split: option.splits node.splits)

text \<open>The effect of \<open>os.MkdirAll\<close>.\<close>

definition made :: "os \<Rightarrow> path \<Rightarrow> file_mode \<Rightarrow> fs \<Rightarrow> fs \<Rightarrow> bool" where
  "made env p m fs fs' \<longleftrightarrow>
     fs_ok fs' \<and> (\<forall>q. get fs' q = get fs q \<or>
       prefix q p \<and> get fs q = None \<and> get fs' q = Some (Directory (m AND NOT (umask env))))"

lemma MkdirAll_made:
  "fs_ok fs \<Longrightarrow> os_MkdirAll env p m fs = (fs', e) \<Longrightarrow>
   made env p m fs fs' \<and> (e = None \<longrightarrow> is_dir (get fs' p)) \<and>
   (calm env \<and> (\<forall>q. prefix q p \<longrightarrow> get fs q = None \<or> is_dir (get fs q)) \<longrightarrow> e = None)"
proof (induction p arbitrary: fs' e rule: rev_induct)
  case Nil
  then obtain m0 where "get fs [] = Some (Directory m0)" by (auto simp: fs_ok_def is_dir_iff)
  with Nil have "fs' = fs" "e = None" "is_dir (get fs [])" by (simp_all add: os_MkdirAll_def)
  with Nil show ?case by (simp add: made_def)
next
  case (snoc n p)
  obtain fs1 e1 where 1: "os_MkdirAll env p m fs = (fs1, e1)" by fastforce
  note IH = snoc.IH [OF snoc.prems(1) 1]
  have step: "os_MkdirAll env (p @ [n]) m fs = (if e1 = None then mkdirs env m [p @ [n]] fs1 else (fs1, e1))"
    using 1 by (simp add: os_MkdirAll_def prefixes_snoc mkdirs_append split: option.split)
  have same: "get fs1 (p @ [n]) = get fs (p @ [n])"
    using IH by (auto simp: made_def)
  show ?case
  proof (cases "e1 = None")
    case False
    with step snoc.prems have "fs' = fs1" "e = e1" by simp_all
    with IH False show ?thesis by (auto simp: made_def)
  next
    case True
    with step snoc.prems have *: "mkdirs env m [p @ [n]] fs1 = (fs', e)" by simp
    show ?thesis
    proof (cases "get fs (p @ [n])")
      case None
      show ?thesis
      proof (cases "refuse env Op_Mkdir (p @ [n])")
        case (Some err)
        with * None same have "fs' = fs1" "e = Some err" by simp_all
        with IH Some show ?thesis by (auto simp: made_def calm_def)
      next
        case ok: None
        with * None same have **: "fs' = put (p @ [n]) (Directory (m AND NOT (umask env))) fs1" "e = None" by simp_all
        have "fs_ok fs'" using IH True unfolding ** by (intro fs_ok_put) (simp_all add: made_def)
        with ** IH None show ?thesis unfolding made_def by (auto simp: is_dir_iff)
      qed
    next
      case (Some nd)
      with * same have "fs' = fs1" "e = (if is_dir (Some nd) then None else Some ENOTDIR)" by (cases nd; simp)+
      with IH Some same True show ?thesis unfolding made_def
        by (cases nd) (auto simp del: prefix_snoc simp: is_dir_iff intro: prefix_snoc [THEN iffD2])
    qed
  qed
qed

lemma made_kept: "made env dest m fs fs' \<Longrightarrow> kept dest fs fs'"
  unfolding made_def kept_def strict_prefix_def by (metis is_dir.simps(1) prefix_order.refl)

text \<open>The effect of \<open>fcopy\<close>: only the file itself changes.\<close>

lemma fcopy_effect:
  assumes ok: "fs_ok fs" and ap: "apart src dest" and src: "get fs src = Some (Regular m c)"
    and run: "fcopy env src dest (Regular m c) fs = (fs', e)"
  shows "fs_ok fs' \<and> (\<forall>q. q \<noteq> dest \<longrightarrow> get fs' q = get fs q) \<and>
    (e = None \<longrightarrow> get fs' dest = Some (Regular m c)) \<and>
    (get fs' dest = get fs dest \<or> \<not> is_dir (get fs dest) \<and> is_dir (get fs (butlast dest)) \<and> \<not> is_dir (get fs' dest)) \<and>
    (calm env \<and> \<not> is_dir (get fs dest) \<and> is_dir (get fs (butlast dest)) \<longrightarrow> e = None)"
proof -
  have ne: "src \<noteq> dest" "dest \<noteq> []" using ap by (auto simp: apart_def)
  obtain fs1 e1 where 1: "os_Create env dest fs = (fs1, e1)" by fastforce
  show ?thesis
  proof (cases "e1")
    case (Some err)
    with 1 run have "fs' = fs" "e = Some err"
      by (auto simp: fcopy_def os_Create_def split: option.splits node.splits if_splits)
    with 1 Some ok show ?thesis
      by (auto simp: os_Create_def calm_def split: option.splits node.splits if_splits)
  next
    case None
    have nd: "\<not> is_dir (get fs dest)" using 1 None by (auto simp: os_Create_def split: option.splits node.splits)
    have par: "is_dir (get fs (butlast dest))"
    proof (cases "get fs dest = None")
      case True
      with 1 None show ?thesis by (auto simp: os_Create_def split: option.splits if_splits)
    next
      case False
      then show ?thesis using ok ne unfolding fs_ok_def by (metis append_butlast_last_id)
    qed
    obtain m1 where fs1: "fs1 = put dest (Regular m1 []) fs"
      using 1 None by (auto simp: os_Create_def split: option.splits node.splits if_splits)
    have "\<exists>m' c'. get fs' = (get fs)(dest \<mapsto> Regular m' c') \<and> (e = None \<longrightarrow> m' = m \<and> c' = c)"
    proof (cases "refuse env Op_Chmod dest")
      case (Some err)
      with 1 None run have "fs' = fs1" "e = Some err" by (simp_all add: fcopy_def os_Chmod_def fs1)
      then show ?thesis by (auto simp: fs1 update_conv')
    next
      case chmod: None
      show ?thesis
      proof (cases "refuse env Op_Open src")
        case (Some err)
        with 1 None chmod run have "fs' = put dest (Regular m []) fs1" "e = Some err"
          by (simp_all add: fcopy_def os_Chmod_def os_Open_def fs1)
        then show ?thesis by (auto simp: fs1 update_conv')
      next
        case opened: None
        with 1 [unfolded fs1] None chmod run [symmetric] ne src have "(fs', e) = (case copy_stops env src dest of
            None \<Rightarrow> (put dest (Regular m c) (put dest (Regular m []) fs), None)
          | Some (n, e) \<Rightarrow> (put dest (Regular m (take n c)) (put dest (Regular m []) fs), Some e))"
          unfolding fs1 by (simp add: fcopy_def os_Chmod_def os_Open_def io_Copy_def)
        then have "get fs' = (get fs)(dest \<mapsto> Regular m (case copy_stops env src dest of None \<Rightarrow> c | Some (n, _) \<Rightarrow> take n c)) \<and>
            (e = None \<longrightarrow> copy_stops env src dest = None)"
          by (cases "copy_stops env src dest") (auto simp: update_conv')
        then show ?thesis by (intro exI [of _ m] exI [of _ "case copy_stops env src dest of None \<Rightarrow> c | Some (n, _) \<Rightarrow> take n c"]) simp
      qed
    qed
    then obtain m' c' where fs': "get fs' = (get fs)(dest \<mapsto> Regular m' c')" "e = None \<longrightarrow> m' = m \<and> c' = c"
      by blast
    have "calm env \<Longrightarrow> e = None"
      using 1 None run ne src unfolding fcopy_def fs1 os_Chmod_def os_Open_def io_Copy_def calm_def
      by (auto split: option.splits)
    moreover have "fs_ok (put dest (Regular m' c') fs)" using ok nd par ne by (intro fs_ok_put) simp_all
    then have "fs_ok fs'" by (simp add: fs_ok_def fs'(1))
    ultimately show ?thesis using fs' nd par by simp
  qed
qed

subsection \<open>Copying between separate trees\<close>

definition copy_spec :: "os \<Rightarrow> path \<Rightarrow> path \<Rightarrow> fs \<Rightarrow> fs \<times> error option \<Rightarrow> bool" where
  "copy_spec env src dest fs = (\<lambda>(fs', e).
     fs_ok fs' \<and> kept dest fs fs' \<and> (e = None \<longrightarrow> get fs src \<noteq> None \<and> merged env src dest fs fs') \<and>
     (calm env \<and> fits src dest fs \<and> get fs src \<noteq> None \<and> is_dir (get fs (butlast dest)) \<longrightarrow> e = None))"

lemma copy_specD:
  assumes "copy_spec env src dest fs (fs', e)"
  shows "fs_ok fs'" "kept dest fs fs'" "e = None \<Longrightarrow> merged env src dest fs fs'"
    "calm env \<Longrightarrow> fits src dest fs \<Longrightarrow> get fs src \<noteq> None \<Longrightarrow> is_dir (get fs (butlast dest)) \<Longrightarrow> e = None"
  using assms by (simp_all add: copy_spec_def)

lemma below_file: "fs_ok fs \<Longrightarrow> get fs p = Some (Regular m c) \<Longrightarrow> r \<noteq> [] \<Longrightarrow> get fs (p @ r) = None"
  using above_is_dir [of fs "p @ r" p] by (cases "get fs (p @ r)") (auto simp: strict_prefix_def)

lemma fcopy_spec:
  assumes "fs_ok fs" "apart src dest" "get fs src = Some (Regular m c)"
  shows "copy_spec env src dest fs (fcopy env src dest (Regular m c) fs)"
proof -
  obtain fs' e where run: "fcopy env src dest (Regular m c) fs = (fs', e)" by fastforce
  note ef = fcopy_effect [OF assms run]
  have "merged env src dest fs fs'" if "e = None"
    using that ef assms below_file [OF assms(1,3)] unfolding merged_def overlay_def
    by (intro allI, case_tac r) (simp_all del: prefix_Cons)
  moreover have "kept dest fs fs'" using ef by (auto simp: kept_def)
  moreover have "\<not> is_dir (get fs dest)" if "fits src dest fs"
  proof
    assume d: "is_dir (get fs dest)"
    with that [unfolded fits_def, rule_format, of "[]"] assms(3) show False by (auto simp: is_dir_not_None)
  qed
  ultimately show ?thesis using ef assms(3) by (auto simp: run copy_spec_def)
qed

text \<open>One entry of the loop, and then all of them; \<open>rec\<close> is a call that meets the specification.\<close>

definition rec_ok :: "os \<Rightarrow> (path \<Rightarrow> path \<Rightarrow> fs \<Rightarrow> (fs \<times> error option) option) \<Rightarrow> bool" where
  "rec_ok env rec \<longleftrightarrow>
     (\<forall>src dest fs res. fs_ok fs \<longrightarrow> apart src dest \<longrightarrow> rec src dest fs = Some res \<longrightarrow>
        copy_spec env src dest fs res)"

definition listed :: "string list \<Rightarrow> path \<Rightarrow> bool" where
  "listed ns r \<longleftrightarrow> r \<noteq> [] \<and> hd r \<in> set ns"

lemma entry_spec:
  assumes "rec_ok env rec" "fs_ok fs" "apart src dest" "is_dir (get fs dest)"
    "rec (src @ [n]) (dest @ [n]) fs = Some (fs', e)"
  shows "fs_ok fs'" "\<And>q. \<not> prefix (dest @ [n]) q \<Longrightarrow> get fs' q = get fs q"
    "e = None \<Longrightarrow> get fs' (dest @ n # r) = overlay env (get fs (dest @ n # r)) (get fs (src @ n # r))"
    "calm env \<Longrightarrow> fits src dest fs \<Longrightarrow> get fs (src @ [n]) \<noteq> None \<Longrightarrow> e = None"
proof -
  have ap: "apart (src @ [n]) (dest @ [n])" using assms(3) by (rule apart_append)
  have spec: "copy_spec env (src @ [n]) (dest @ [n]) fs (fs', e)"
    using assms(1,2,5) ap unfolding rec_ok_def by blast
  note d = copy_specD [OF spec]
  show "fs_ok fs'" by (fact d(1))
  show "get fs' q = get fs q" if "\<not> prefix (dest @ [n]) q" for q
    using kept_inside [OF d(2) assms(2) _ _ that] assms(4) by simp
  show "get fs' (dest @ n # r) = overlay env (get fs (dest @ n # r)) (get fs (src @ n # r))" if "e = None"
    using d(3) [OF that] unfolding merged_def by (elim allE [of _ r]) simp
  show "e = None" if "calm env" "fits src dest fs" "get fs (src @ [n]) \<noteq> None"
  proof (rule d(4) [OF that(1) _ that(3)])
    show "fits (src @ [n]) (dest @ [n]) fs"
      unfolding fits_def
    proof
      fix r show "get fs ((src @ [n]) @ r) \<noteq> None \<longrightarrow> get fs ((dest @ [n]) @ r) \<noteq> None \<longrightarrow>
          is_dir (get fs ((src @ [n]) @ r)) = is_dir (get fs ((dest @ [n]) @ r))"
        using that(2) unfolding fits_def by (elim allE [of _ "n # r"]) simp
    qed
    show "is_dir (get fs (butlast (dest @ [n])))" using assms(4) by simp
  qed
qed

lemma entries_spec:
  assumes "rec_ok env rec" "distinct ns" "fs_ok fs" "apart src dest" "is_dir (get fs dest)"
    "copy_entries rec src dest ns fs = Some (fs', e)"
  shows "fs_ok fs' \<and> (\<forall>q. (\<forall>r. listed ns r \<longrightarrow> q \<noteq> dest @ r) \<longrightarrow> get fs' q = get fs q) \<and>
    (e = None \<longrightarrow> (\<forall>r. listed ns r \<longrightarrow> get fs' (dest @ r) = overlay env (get fs (dest @ r)) (get fs (src @ r)))) \<and>
    (calm env \<and> fits src dest fs \<and> (\<forall>n \<in> set ns. get fs (src @ [n]) \<noteq> None) \<longrightarrow> e = None)"
  using assms(2-)
proof (induction ns arbitrary: fs)
  case Nil
  then show ?case by (simp add: listed_def)
next
  case (Cons n ns)
  obtain fs1 e1 where 1: "rec (src @ [n]) (dest @ [n]) fs = Some (fs1, e1)"
    using Cons.prems(5) by (auto split: option.splits)
  note ent = entry_spec [OF assms(1) Cons.prems(2-4) 1]
  have src1: "get fs1 (src @ r) = get fs (src @ r)" for r
  proof (rule ent(2))
    show "\<not> prefix (dest @ [n]) (src @ r)" using apart_not_prefix [OF Cons.prems(3), of r] by (auto dest: append_prefixD)
  qed
  have other: "get fs1 (dest @ r) = get fs (dest @ r)" if "r = [] \<or> hd r \<noteq> n" for r
    by (rule ent(2)) (use that in \<open>cases r; auto\<close>)
  have frame1: "get fs1 q = get fs q" if "\<forall>r. listed (n # ns) r \<longrightarrow> q \<noteq> dest @ r" for q
  proof (rule ent(2), rule notI)
    assume "prefix (dest @ [n]) q"
    then obtain r where "q = dest @ n # r" by (auto simp: prefix_def)
    with that show False by (auto simp: listed_def)
  qed
  show ?case
  proof (cases "e1 = None")
    case False
    with 1 Cons.prems(5) have "fs' = fs1" "e = e1" by (auto split: option.splits)
    with False ent(1,4) frame1 show ?thesis by auto
  next
    case True
    with 1 Cons.prems(5) have run: "copy_entries rec src dest ns fs1 = Some (fs', e)" by simp
    have dir1: "is_dir (get fs1 dest)" using other [of "[]"] Cons.prems(4) by simp
    note IH = Cons.IH [OF _ ent(1) Cons.prems(3) dir1 run]
    have n: "n \<notin> set ns" "distinct ns" using Cons.prems(1) by simp_all
    note IH = IH [OF n(2)]
    have A: "get fs' q = get fs q" if "\<forall>r. listed (n # ns) r \<longrightarrow> q \<noteq> dest @ r" for q
    proof -
      have "\<forall>r. listed ns r \<longrightarrow> q \<noteq> dest @ r" using that by (auto simp: listed_def)
      with IH have "get fs' q = get fs1 q" by blast
      with frame1 [OF that] show ?thesis by simp
    qed
    have B: "get fs' (dest @ r) = overlay env (get fs (dest @ r)) (get fs (src @ r))" if "e = None" and li: "listed (n # ns) r" for r
    proof (cases "hd r = n")
      case True
      then obtain r' where r': "r = n # r'" using li by (cases r) (auto simp: listed_def)
      have "\<forall>r''. listed ns r'' \<longrightarrow> dest @ r \<noteq> dest @ r''" using n r' by (auto simp: listed_def)
      with IH have "get fs' (dest @ r) = get fs1 (dest @ r)" by blast
      with ent(3) [OF \<open>e1 = None\<close>, of r'] r' show ?thesis by simp
    next
      case False
      with \<open>listed (n # ns) r\<close> have "listed ns r" by (auto simp: listed_def)
      with IH that(1) have "get fs' (dest @ r) = overlay env (get fs1 (dest @ r)) (get fs1 (src @ r))" by blast
      with False src1 other show ?thesis by simp
    qed
    have C: "e = None" if "calm env" "fits src dest fs" "\<forall>n \<in> set (n # ns). get fs (src @ [n]) \<noteq> None"
    proof -
      have "fits src dest fs1"
        unfolding fits_def
      proof (intro allI impI)
        fix r assume *: "get fs1 (src @ r) \<noteq> None" "get fs1 (dest @ r) \<noteq> None"
        show "is_dir (get fs1 (src @ r)) = is_dir (get fs1 (dest @ r))"
        proof (cases "r \<noteq> [] \<and> hd r = n")
          case False
          then have "get fs1 (dest @ r) = get fs (dest @ r)" using other by blast
          with * \<open>fits src dest fs\<close> src1 show ?thesis by (simp add: fits_def)
        next
          case True
          then obtain r' where r': "r = n # r'" by (cases r) auto
          with ent(3) [OF \<open>e1 = None\<close>, of r'] * src1 show ?thesis by (auto simp: overlay_def)
        qed
      qed
      with IH that src1 show ?thesis by simp
    qed
    from IH have "fs_ok fs'" by blast
    with A B C show ?thesis by blast
  qed
qed

lemma dcopy_spec:
  assumes rec: "rec_ok env rec" and ok: "fs_ok fs" and ap: "apart src dest" and src: "get fs src = Some (Directory m)"
    and run: "dcopy rec env src dest (Directory m) fs = Some (fs', e)"
  shows "copy_spec env src dest fs (fs', e)"
proof -
  obtain fs1 e1 where 1: "os_MkdirAll env dest m fs = (fs1, e1)" by fastforce
  note mk = MkdirAll_made [OF ok 1]
  have kept1: "kept dest fs fs1" using mk made_kept by blast
  have src1: "get fs1 (src @ r) = get fs (src @ r)" for r using kept1 ap by (rule kept_src)
  have calm1: "e1 = None" if "calm env" "fits src dest fs" and par: "is_dir (get fs (butlast dest))"
  proof -
    have "get fs q = None \<or> is_dir (get fs q)" if q: "prefix q dest" for q
    proof (cases "q = dest")
      case True
      with \<open>fits src dest fs\<close> [unfolded fits_def, rule_format, of "[]"] src True show ?thesis by (cases "get fs dest") auto
    next
      case False
      have "dest \<noteq> []" using ap by (auto simp: apart_def)
      with q False have "prefix q (butlast dest)"
        by (metis append_butlast_last_id prefix_snoc)
      with above_is_dir [OF ok, of "butlast dest" q] par show ?thesis
        by (cases "q = butlast dest") (auto simp: strict_prefix_def is_dir_not_None)
    qed
    with mk \<open>calm env\<close> show ?thesis by blast
  qed
  show ?thesis
  proof (cases e1)
    case (Some err)
    with 1 run have "fs' = fs1" "e = Some err" by (simp_all add: dcopy_def)
    with mk kept1 Some calm1 show ?thesis by (auto simp: copy_spec_def made_def)
  next
    case None
    have dir1: "get fs1 src = Some (Directory m)" using src1 [of "[]"] src by simp
    have ok1: "fs_ok fs1" using mk by (simp add: made_def)
    show ?thesis
    proof (cases "refuse env Op_ReadDir src")
      case (Some err)
      with 1 None run dir1 have "fs' = fs1" "e = Some err" by (simp_all add: dcopy_def os_ReadDir_def)
      with ok1 kept1 Some show ?thesis by (auto simp: copy_spec_def calm_def)
    next
      case readable: None
      with 1 None run dir1 have loop: "copy_entries rec src dest (entries fs1 src) fs1 = Some (fs', e)"
        by (simp add: dcopy_def os_ReadDir_def)
      have destdir: "is_dir (get fs1 dest)" using mk None by blast
      note L = entries_spec [OF rec distinct_entries ok1 ap destdir loop]
      have inside: "get fs1 (dest @ r) = get fs (dest @ r)" if "r \<noteq> []" for r
      proof -
        have "\<not> prefix (dest @ r) dest" using that by simp
        with mk show ?thesis unfolding made_def by blast
      qed
      have unlisted: "get fs (src @ r) = None" if "r \<noteq> []" "\<not> listed (entries fs1 src) r" for r
      proof (rule ccontr)
        assume *: "get fs (src @ r) \<noteq> None"
        have h: "src @ r = (src @ [hd r]) @ tl r" using that(1) by simp
        have "get fs (src @ [hd r]) \<noteq> None"
        proof (cases "tl r = []")
          case True then show ?thesis using * h by simp
        next
          case False
          then have "strict_prefix (src @ [hd r]) (src @ r)" unfolding h strict_prefix_def by simp
          with above_is_dir [OF ok *] show ?thesis using is_dir_not_None by blast
        qed
        then have "hd r \<in> set (entries fs1 src)" using src1 by (simp add: set_entries)
        with that show False by (simp add: listed_def)
      qed
      have top: "get fs1 dest = overlay env (get fs dest) (Some (Directory m))"
      proof -
        have "get fs1 dest = get fs dest \<and> is_dir (get fs dest) \<or>
            get fs dest = None \<and> get fs1 dest = Some (Directory (m AND NOT (umask env)))"
          using mk destdir unfolding made_def by metis
        then show ?thesis by (auto simp: overlay_def is_dir_iff)
      qed
      have "merged env src dest fs fs'" if "e = None"
        unfolding merged_def
      proof
        fix r
        show "get fs' (dest @ r) = overlay env (get fs (dest @ r)) (get fs (src @ r))"
        proof (cases "listed (entries fs1 src) r")
          case True
          with L that have "get fs' (dest @ r) = overlay env (get fs1 (dest @ r)) (get fs1 (src @ r))" by blast
          moreover have "r \<noteq> []" using True by (simp add: listed_def)
          ultimately show ?thesis using src1 inside by simp
        next
          case False
          then have "get fs' (dest @ r) = get fs1 (dest @ r)" using L by auto
          moreover have "get fs1 (dest @ r) = overlay env (get fs (dest @ r)) (get fs (src @ r))"
          proof (cases "r = []")
            case True then show ?thesis using top src by simp
          next
            case r: False
            with unlisted [OF r False] inside show ?thesis by (simp add: overlay_def)
          qed
          ultimately show ?thesis by simp
        qed
      qed
      moreover have "kept dest fs fs'"
      proof -
        have "get fs' q = get fs1 q" if "\<not> prefix dest q" for q
          using L that by (metis prefixI)
        with kept1 show ?thesis unfolding kept_def by metis
      qed
      moreover have "e = None" if "calm env" "fits src dest fs"
      proof -
        have "fits src dest fs1"
          unfolding fits_def
        proof (intro allI impI)
          fix r assume "get fs1 (src @ r) \<noteq> None" "get fs1 (dest @ r) \<noteq> None"
          then show "is_dir (get fs1 (src @ r)) = is_dir (get fs1 (dest @ r))"
            using that(2) src1 [of r] inside [of r] dir1 destdir by (cases "r = []") (simp_all add: fits_def src)
        qed
        with L that(1) show ?thesis by (simp add: set_entries)
      qed
      ultimately show ?thesis using L src by (simp add: copy_spec_def)
    qed
  qed
qed

lemma Copy_meets_spec: "rec_ok env (Copy env fuel)"
proof (induction fuel)
  case 0
  then show ?case by (simp add: rec_ok_def)
next
  case (Suc fuel)
  have "copy_spec env src dest fs (fs', e)"
    if *: "fs_ok fs" "apart src dest" "Copy env (Suc fuel) src dest fs = Some (fs', e)" for src dest fs fs' e
  proof (cases "os_Stat env src fs")
    case (Inl err)
    with * have "fs' = fs" "e = Some err" by simp_all
    with * Inl show ?thesis
      by (auto simp: copy_spec_def kept_refl os_Stat_def calm_def split: option.splits)
  next
    case (Inr info)
    then have src: "get fs src = Some info" by (simp add: os_Stat_def split: option.splits)
    show ?thesis
    proof (cases info)
      case (Regular m c)
      with * Inr have "(fs', e) = fcopy env src dest (Regular m c) fs" by simp
      then show ?thesis using fcopy_spec [OF *(1,2) src [unfolded Regular]] by simp
    next
      case (Directory m)
      with * Inr have "dcopy (Copy env fuel) env src dest (Directory m) fs = Some (fs', e)" by simp
      then show ?thesis using dcopy_spec [OF Suc *(1,2) src [unfolded Directory]] by simp
    qed
  qed
  then show ?case unfolding rec_ok_def by (metis surj_pair)
qed

subsection \<open>When the recursion ends\<close>

lemma entries_return:
  assumes "rec_ok env rec" "apart src dest"
    "\<And>n fs'. n \<in> set ns \<Longrightarrow> fs_ok fs' \<Longrightarrow> \<forall>r. get fs' (src @ r) = get fs (src @ r) \<Longrightarrow>
       rec (src @ [n]) (dest @ [n]) fs' \<noteq> None"
    "fs_ok fs1" "\<forall>r. get fs1 (src @ r) = get fs (src @ r)"
  shows "copy_entries rec src dest ns fs1 \<noteq> None"
  using assms(3-)
proof (induction ns arbitrary: fs1)
  case (Cons n ns)
  obtain fs2 e2 where 2: "rec (src @ [n]) (dest @ [n]) fs1 = Some (fs2, e2)"
    using Cons.prems(1) [of n fs1] Cons.prems(2,3) by auto
  have "copy_spec env (src @ [n]) (dest @ [n]) fs1 (fs2, e2)"
    using assms(1,2) Cons.prems(2) 2 apart_append unfolding rec_ok_def by blast
  then have ok: "fs_ok fs2" and k: "kept (dest @ [n]) fs1 fs2" by (auto simp: copy_spec_def)
  have same: "\<forall>r. get fs2 (src @ r) = get fs (src @ r)"
  proof
    fix r
    have "apart src (dest @ [n])" using apart_append [OF assms(2), of "[]" "[n]"] by simp
    from kept_src [OF k this] Cons.prems(3) show "get fs2 (src @ r) = get fs (src @ r)" by simp
  qed
  have "copy_entries rec src dest ns fs2 \<noteq> None"
    by (rule Cons.IH [OF _ ok same]) (rule Cons.prems(1), simp_all)
  with 2 show ?case by (cases e2) simp_all
qed simp

lemma Copy_returns:
  "fs_ok fs \<Longrightarrow> apart src dest \<Longrightarrow> get fs src \<noteq> None \<Longrightarrow> \<forall>r. get fs (src @ r) \<noteq> None \<longrightarrow> length r < fuel \<Longrightarrow>
   Copy env fuel src dest fs \<noteq> None"
proof (induction fuel arbitrary: src dest fs)
  case 0
  from "0.prems"(4) [rule_format, of "[]"] "0.prems"(3) show ?case by simp
next
  case (Suc fuel)
  have "dcopy (Copy env fuel) env src dest (Directory m) fs \<noteq> None" if src: "get fs src = Some (Directory m)" for m
  proof -
    obtain fs1 e1 where 1: "os_MkdirAll env dest m fs = (fs1, e1)" by fastforce
    note mk = MkdirAll_made [OF Suc.prems(1) 1]
    then have src1: "\<forall>r. get fs1 (src @ r) = get fs (src @ r)"
      using kept_src [OF made_kept Suc.prems(2)] by blast
    have "copy_entries (Copy env fuel) src dest (entries fs1 src) fs1 \<noteq> None"
    proof (rule entries_return [OF Copy_meets_spec Suc.prems(2) _ _ src1])
      fix n fs' assume n: "n \<in> set (entries fs1 src)" and ok: "fs_ok fs'" and same: "\<forall>r. get fs' (src @ r) = get fs (src @ r)"
      have "length r < fuel" if "get fs' ((src @ [n]) @ r) \<noteq> None" for r
        using Suc.prems(4) [rule_format, of "n # r"] that same by simp
      moreover have "get fs' (src @ [n]) \<noteq> None" using n same src1 by (simp add: set_entries)
      ultimately show "Copy env fuel (src @ [n]) (dest @ [n]) fs' \<noteq> None"
        by (intro Suc.IH ok apart_append Suc.prems(2)) blast+
    qed (use mk in \<open>simp add: made_def\<close>)
    moreover have "get fs1 src = Some (Directory m)" using src1 [rule_format, of "[]"] src by simp
    ultimately show ?thesis using 1 by (auto simp: dcopy_def os_ReadDir_def split: option.splits)
  qed
  then show ?case by (auto simp: os_Stat_def is_dir_iff split: option.splits)
qed

text \<open>
  C39: Copying to a place outside the source. With fuel for the depth of the source the call
  returns, whatever the operating system refuses. If it returns nil then the source tree has been
  laid over the destination: every file is there with its content and its mode, missing
  directories are made with the mode of the original but for the bits of the mask, directories
  that were there keep their mode, and the files that were there under other names stay. Also
  when it fails nothing outside the destination changes, the source included, but for missing
  directories above it. It does return nil when nothing is refused, the parent of the destination
  is a directory and no file lies where a directory is to be copied or the other way round.
\<close>

theorem Copy_merges_trees:
  assumes "fs_ok fs" "apart src dest" "get fs src \<noteq> None" "\<forall>r. get fs (src @ r) \<noteq> None \<longrightarrow> length r < fuel"
  shows "\<exists>fs' e. Copy env fuel src dest fs = Some (fs', e) \<and> fs_ok fs' \<and>
    (e = None \<longrightarrow> (\<forall>r. get fs' (dest @ r) = overlay env (get fs (dest @ r)) (get fs (src @ r)))) \<and>
    (\<forall>q. \<not> prefix dest q \<longrightarrow> get fs' q = get fs q \<or>
       strict_prefix q dest \<and> get fs q = None \<and> is_dir (get fs' q)) \<and>
    (calm env \<and> fits src dest fs \<and> is_dir (get fs (butlast dest)) \<longrightarrow> e = None)"
proof -
  from Copy_returns [OF assms, of env] obtain fs' e where run: "Copy env fuel src dest fs = Some (fs', e)" by auto
  with Copy_meets_spec assms have "copy_spec env src dest fs (fs', e)" unfolding rec_ok_def by blast
  with run assms(3) show ?thesis unfolding copy_spec_def merged_def kept_def by simp
qed

lemma fs0_dom: "get fs0 q \<noteq> None \<longleftrightarrow> q \<in> {[], [''a''], [''a'', ''x''], [''a'', ''d''], [''a'', ''d'', ''y'']}"
  by (auto simp: fs0_def)

lemma fs0_ok: "fs_ok fs0"
  unfolding fs_ok_def fs0_dom by (auto simp: fs0_def append_eq_Cons_conv)

theorem Copy_merges_trees_witness:
  "\<exists>fs'. Copy os0 5 [''a''] [''b''] fs0 = Some (fs', None) \<and>
    get fs' [''b'', ''d'', ''y''] = Some (Regular 0b110100100 ''2'') \<and> get fs' [''b''] = Some (Directory 0b111101101)"
proof -
  have b: "get fs0 ([''b''] @ r) = None" for r
    using fs0_dom [of "[''b''] @ r"] by auto
  have depth: "\<forall>r. get fs0 ([''a''] @ r) \<noteq> None \<longrightarrow> length r < 5"
    unfolding fs0_dom by auto
  have "calm os0" by (simp add: calm_def os0_def)
  moreover have "fits [''a''] [''b''] fs0" using b by (simp add: fits_def)
  moreover have "get fs0 [''a''] \<noteq> None" "is_dir (get fs0 (butlast [''b'']))" by (simp_all add: fs0_def)
  moreover have "apart [''a''] [''b'']" by (simp add: apart_def)
  ultimately obtain fs' where "Copy os0 5 [''a''] [''b''] fs0 = Some (fs', None)"
    "\<forall>r. get fs' ([''b''] @ r) = overlay os0 (get fs0 ([''b''] @ r)) (get fs0 ([''a''] @ r))"
    using Copy_merges_trees [OF fs0_ok _ _ depth, of "[''b'']" os0] by blast
  with this(2) [rule_format, of "[''d'', ''y'']"] this(2) [rule_format, of "[]"] b show ?thesis
    by (simp add: fs0_def overlay_def os0_def)
qed

text \<open>The entries that are copied before the one on the way to the destination.\<close>

lemma copy_entries_append:
  "copy_entries rec src dest (as @ bs) fs =
     (case copy_entries rec src dest as fs of
        None \<Rightarrow> None | Some (fs, Some err) \<Rightarrow> Some (fs, Some err)
      | Some (fs, None) \<Rightarrow> copy_entries rec src dest bs fs)"
  by (induction rec src dest as fs rule: copy_entries.induct) (auto split: option.splits)

lemma entries_before:
  assumes rec: "rec_ok env rec"
  shows "distinct as \<Longrightarrow> d \<notin> set as \<Longrightarrow> fs_ok fs \<Longrightarrow> is_dir (get fs (src @ d # r)) \<Longrightarrow>
    (\<And>n. n \<in> set as \<Longrightarrow> get fs (src @ [n]) \<noteq> None) \<Longrightarrow>
    (\<And>n q. n \<in> set as \<Longrightarrow> get fs (src @ d # r @ n # q) = None) \<Longrightarrow>
    copy_entries rec src (src @ d # r) as fs = Some (fs', e) \<Longrightarrow>
    (calm env \<longrightarrow> e = None) \<and> fs_ok fs' \<and> (\<forall>q. (\<forall>n \<in> set as. \<not> prefix (src @ d # r @ [n]) q) \<longrightarrow> get fs' q = get fs q)"
proof (induction as arbitrary: fs)
  case (Cons n as)
  obtain fs1 e1 where 1: "rec (src @ [n]) ((src @ d # r) @ [n]) fs = Some (fs1, e1)"
    using Cons.prems(7) by (auto split: option.splits)
  have "apart (src @ [n]) ((src @ d # r) @ [n])" using Cons.prems(2) by (auto simp: apart_def)
  with rec Cons.prems(3) 1 have spec: "copy_spec env (src @ [n]) ((src @ d # r) @ [n]) fs (fs1, e1)"
    unfolding rec_ok_def by blast
  have "fits (src @ [n]) ((src @ d # r) @ [n]) fs" using Cons.prems(6) by (simp add: fits_def)
  moreover have parent: "butlast ((src @ d # r) @ [n]) = src @ d # r" by (rule butlast_snoc)
  ultimately have calm1: "calm env \<Longrightarrow> e1 = None" using copy_specD(4) [OF spec] Cons.prems(4,5) by simp
  have same: "get fs1 q = get fs q" if "\<not> prefix (src @ d # r @ [n]) q" for q
    using kept_inside [OF copy_specD(2) [OF spec] Cons.prems(3) _ _, of q, unfolded parent] Cons.prems(4) that by simp
  show ?case
  proof (cases e1)
    case (Some x)
    with 1 Cons.prems(7) have "fs' = fs1" "e = Some x" by simp_all
    with calm1 Some same copy_specD(1) [OF spec] show ?thesis by auto
  next
    case None
    then have run: "copy_entries rec src (src @ d # r) as fs1 = Some (fs', e)" using 1 Cons.prems(7) by simp
    have "(calm env \<longrightarrow> e = None) \<and> fs_ok fs' \<and> (\<forall>q. (\<forall>n \<in> set as. \<not> prefix (src @ d # r @ [n]) q) \<longrightarrow> get fs' q = get fs1 q)"
    proof (rule Cons.IH [OF _ _ copy_specD(1) [OF spec] _ _ _ run])
      show "distinct as" "d \<notin> set as" using Cons.prems(1,2) by simp_all
      show "is_dir (get fs1 (src @ d # r))" using same [of "src @ d # r"] Cons.prems(4) by simp
      show "get fs1 (src @ [m]) \<noteq> None" if "m \<in> set as" for m
        using same [of "src @ [m]"] Cons.prems(5) [of m] that by simp
      show "get fs1 (src @ d # r @ m # q) = None" if "m \<in> set as" for m q
        using same [of "src @ d # r @ m # q"] Cons.prems(1,6) that by auto
    qed
    with same show ?thesis by simp
  qed
qed simp

text \<open>
  The part of the copy that lies before the recursion into the destination: the destination has been
  made, so it is an entry of the source, and what is copied before this entry leaves the way to the
  destination and the empty destination as they are.
\<close>

lemma destination_listed:
  assumes "fs_ok fs" "get fs src = Some (Directory m)" "\<forall>q. get fs (src @ d # r @ q) = None"
    and 1: "os_MkdirAll env (src @ d # r) m fs = (fs1, None)"
  shows "fs_ok fs1" "get fs1 src = Some (Directory m)" "is_dir (get fs1 (src @ d # r))" "is_dir (get fs1 (src @ [d]))"
    "\<And>n q. get fs1 ((src @ d # r) @ n # q) = None" "d \<in> set (entries fs1 src)"
proof -
  note mk = MkdirAll_made [OF assms(1) 1]
  show ok1: "fs_ok fs1" and dest1: "is_dir (get fs1 (src @ d # r))" using mk by (simp_all add: made_def)
  show "get fs1 src = Some (Directory m)" using mk assms(2) unfolding made_def by (metis option.distinct(1))
  show on_way: "is_dir (get fs1 (src @ [d]))"
  proof (cases "r = []")
    case True then show ?thesis using dest1 by simp
  next
    case False
    then have "strict_prefix (src @ [d]) (src @ d # r)" by (simp add: strict_prefix_def)
    then show ?thesis using above_is_dir [OF ok1 is_dir_not_None [OF dest1]] by blast
  qed
  show "get fs1 ((src @ d # r) @ n # q) = None" for n q
  proof -
    have "\<not> prefix ((src @ d # r) @ n # q) (src @ d # r)" by simp
    then have "get fs1 ((src @ d # r) @ n # q) = get fs ((src @ d # r) @ n # q)" using mk unfolding made_def by blast
    then show ?thesis using assms(3) by simp
  qed
  show "d \<in> set (entries fs1 src)" using on_way by (auto simp: set_entries is_dir_iff)
qed

lemma before_destination:
  assumes "fs_ok fs" "get fs src = Some (Directory m)" "\<forall>q. get fs (src @ d # r @ q) = None"
    and 1: "os_MkdirAll env (src @ d # r) m fs = (fs1, None)" and split: "entries fs1 src = as @ d # bs"
    and 2: "copy_entries (Copy env fuel) src (src @ d # r) as fs1 = Some (fs2, e2)"
  shows "calm env \<Longrightarrow> e2 = None" "fs_ok fs2" "is_dir (get fs2 (src @ [d]))" "get fs2 ((src @ d # r) @ d # q) = None"
    "prefix q (src @ d # r @ [d]) \<Longrightarrow> get fs2 q = None \<or> is_dir (get fs2 q)"
proof -
  let ?dest = "src @ d # r"
  note l = destination_listed [OF assms(1-4)]
  have dist: "distinct as" "d \<notin> set as" using distinct_entries [of fs1 src] by (simp_all add: split)
  have "(calm env \<longrightarrow> e2 = None) \<and> fs_ok fs2 \<and> (\<forall>q. (\<forall>n \<in> set as. \<not> prefix (src @ d # r @ [n]) q) \<longrightarrow> get fs2 q = get fs1 q)"
  proof (rule entries_before [OF Copy_meets_spec dist l(1,3) _ _ 2])
    show "get fs1 (src @ [n]) \<noteq> None" if "n \<in> set as" for n
      using that set_entries [of n fs1 src] by (simp add: split)
    show "get fs1 (src @ d # r @ n # q) = None" if "n \<in> set as" for n q using l(5) by simp
  qed
  then have same: "\<And>q. (\<forall>n \<in> set as. \<not> prefix (src @ d # r @ [n]) q) \<Longrightarrow> get fs2 q = get fs1 q"
    and ends: "calm env \<longrightarrow> e2 = None" "fs_ok fs2" by blast+
  show "calm env \<Longrightarrow> e2 = None" "fs_ok fs2" using ends by blast+
  show "is_dir (get fs2 (src @ [d]))" using same [of "src @ [d]"] l(4) by simp
  have new: "get fs2 (?dest @ d # q) = None" for q
  proof -
    have "get fs2 (?dest @ d # q) = get fs1 (?dest @ d # q)" using dist(2) by (intro same) auto
    then show ?thesis using l(5) by simp
  qed
  then show "get fs2 ((src @ d # r) @ d # q) = None" by blast
  show "get fs2 q = None \<or> is_dir (get fs2 q)" if q: "prefix q (src @ d # r @ [d])"
  proof (cases "q = ?dest @ [d]")
    case True
    with new [of "[]"] show ?thesis by simp
  next
    case False
    with q have pre: "prefix q ?dest" by (metis append.assoc append_Cons prefix_snoc)
    then have "get fs2 q = get fs1 q" by (intro same) (auto dest!: prefix_length_le)
    moreover have "is_dir (get fs1 q)"
      using above_is_dir [OF l(1) is_dir_not_None [OF l(3)], of q] l(3) pre
      by (cases "q = ?dest") (auto simp: strict_prefix_def)
    ultimately show ?thesis by simp
  qed
qed

text \<open>
  C40: A directory that is copied to a place below itself that does not exist yet. The destination is made
  before the source is listed, so the copy finds it among the entries and copies it into itself
  again. Whatever the operating system refuses, the call never returns nil: it ends only with an error
  that the system reports at some depth, such as that of a path that is too long. On a system that
  refuses nothing, and without a file on the way to the destination, it does not return at all,
  whatever the fuel.
\<close>

theorem Copy_into_itself_never_ends:
  assumes "fs_ok fs" "is_dir (get fs src)" "\<forall>q. get fs (src @ d # r @ q) = None"
  shows "Copy env fuel src (src @ d # r) fs \<noteq> Some (fs', None) \<and>
    (calm env \<and> (\<forall>q. prefix q (src @ d # r) \<longrightarrow> get fs q = None \<or> is_dir (get fs q)) \<longrightarrow>
      Copy env fuel src (src @ d # r) fs = None)"
  using assms
proof (induction fuel arbitrary: src d r fs fs')
  case (Suc fuel)
  let ?dest = "src @ d # r" and ?way = "\<lambda>fs p. \<forall>q. prefix q p \<longrightarrow> get fs q = None \<or> is_dir (get fs q)"
  obtain m where src: "get fs src = Some (Directory m)" using Suc.prems(2) by (auto simp: is_dir_iff)
  obtain fs1 e1 where 1: "os_MkdirAll env ?dest m fs = (fs1, e1)" by fastforce
  have e1: "e1 = None" if "calm env" "?way fs ?dest" using MkdirAll_made [OF Suc.prems(1) 1] that by blast
  obtain as bs where split: "entries fs1 src = as @ d # bs" if "e1 = None"
    using destination_listed(6) [OF Suc.prems(1) src Suc.prems(3)] 1 by (metis in_set_conv_decomp)
  have copied: "copy_entries (Copy env fuel) src ?dest (as @ d # bs) fs1 \<noteq> Some (fs', None) \<and>
      (calm env \<longrightarrow> copy_entries (Copy env fuel) src ?dest (as @ d # bs) fs1 = None)" if "e1 = None"
  proof (cases "copy_entries (Copy env fuel) src ?dest as fs1")
    case (Some res)
    obtain fs2 e2 where 2: "copy_entries (Copy env fuel) src ?dest as fs1 = Some (fs2, e2)" using Some by (cases res) simp
    note b = before_destination [OF Suc.prems(1) src Suc.prems(3) 1 [unfolded that] split [OF that] 2]
    obtain d' r' where r': "r @ [d] = d' # r'" by (cases r) auto
    have eq: "(src @ [d]) @ d' # r' @ q = ?dest @ d # q" for q using r' by (metis append.assoc append_Cons append_Nil)
    have "Copy env fuel (src @ [d]) ((src @ [d]) @ d' # r') fs2 \<noteq> Some (fs'', None) \<and>
      (calm env \<and> ?way fs2 ((src @ [d]) @ d' # r') \<longrightarrow> Copy env fuel (src @ [d]) ((src @ [d]) @ d' # r') fs2 = None)" for fs''
    proof (rule Suc.IH [where src = "src @ [d]" and d = d' and r = r', OF b(2,3)])
      show "\<forall>q. get fs2 ((src @ [d]) @ d' # r' @ q) = None" unfolding eq using b(4) by blast
    qed
    moreover have "?way fs2 (?dest @ [d])" using b(5) by simp
    ultimately have "Copy env fuel (src @ [d]) (?dest @ [d]) fs2 \<noteq> Some (fs'', None) \<and>
      (calm env \<longrightarrow> Copy env fuel (src @ [d]) (?dest @ [d]) fs2 = None)" for fs''
      using eq [of "[]"] by simp
    with 2 b(1) show ?thesis by (auto simp: copy_entries_append split: option.splits)
  qed (simp add: copy_entries_append)
  have calm: "refuse env op p = None" if "calm env" for op p using that by (simp add: calm_def)
  have "get fs1 src = Some (Directory m)" if "e1 = None"
    using destination_listed(2) [OF Suc.prems(1) src Suc.prems(3)] 1 that by simp
  then have "Copy env (Suc fuel) src ?dest fs \<noteq> Some (fs', None)"
    using src 1 split copied by (auto simp: os_Stat_def dcopy_def os_ReadDir_def split: option.splits)
  moreover have "Copy env (Suc fuel) src ?dest fs = None" if "calm env" "?way fs ?dest"
    using src 1 e1 [OF that] split copied calm [OF that(1)] that(1)
      destination_listed(2) [OF Suc.prems(1) src Suc.prems(3)] by (simp add: os_Stat_def dcopy_def os_ReadDir_def)
  ultimately show ?case by blast
qed simp

theorem Copy_into_itself_never_ends_witness:
  "Copy os0 1000 [''a''] [''a'', ''c'', ''e''] fs0 = None"
proof -
  have "calm os0" by (simp add: calm_def os0_def)
  moreover have "is_dir (get fs0 [''a''])" by (simp add: fs0_def)
  moreover have "\<forall>q. get fs0 ([''a''] @ ''c'' # [''e''] @ q) = None" by (simp add: fs0_def)
  moreover have "\<forall>q. prefix q ([''a''] @ ''c'' # [''e'']) \<longrightarrow> get fs0 q = None \<or> is_dir (get fs0 q)"
    by (auto simp: prefix_Cons fs0_def)
  ultimately show ?thesis using Copy_into_itself_never_ends [OF fs0_ok, of "[''a'']" "''c''" "[''e'']" os0 1000] by simp
qed

text \<open>
  A file that is copied onto itself is erased: the destination is truncated before the source is
  read.
\<close>

theorem Copy_onto_itself_erases:
  assumes "fs_ok fs" "calm env" "get fs p = Some (Regular m c)"
  shows "\<exists>fs'. Copy env (Suc fuel) p p fs = Some (fs', None) \<and> get fs' p = Some (Regular m []) \<and>
    (\<forall>q. q \<noteq> p \<longrightarrow> get fs' q = get fs q)"
  using assms
  by (simp add: os_Stat_def calm_def fcopy_def os_Create_def os_Chmod_def os_Open_def io_Copy_def)

theorem Copy_onto_itself_erases_witness:
  "\<exists>fs'. Copy os0 1 [''a'', ''x''] [''a'', ''x''] fs0 = Some (fs', None) \<and> get fs' [''a'', ''x''] = Some (Regular 0b110000000 [])"
proof -
  from Copy_onto_itself_erases [OF fs0_ok, of os0 "[''a'', ''x'']" _ _ 0] show ?thesis
    by (simp add: calm_def os0_def fs0_def) blast
qed

text \<open>The listing has the names of the entries in order; a path that cannot be read has none.\<close>

lemma ListFiles_entries:
  "ListFiles env p fs = (if refuse env Op_ReadDir p = None \<and> is_dir (get fs p) then entries fs p else [])"
  by (auto simp: ListFiles_def os_ReadDir_def split: option.splits node.splits)

end
