(* ===== verification/Metered_Queue.thy ===== *)
theory Metered_Queue
  imports Metrics Task_Worker Schedule_Worker
begin

section \<open>The queue with metrics\<close>

text \<open>
  The wrappers of \<open>pkg/queue/queue.go\<close> and \<open>scheduler.go\<close>, which count the calls to a queuer,
  a dequeuer or a scheduler. \<open>samples\<close> holds what the collectors have recorded: the values of
  counters and gauges and the number of observations of histograms, for the values of the variable
  labels. The state of a wrapped service is the state of the service with the samples. The global
  instances of the metrics are an argument.
\<close>

type_synonym labels = "(string \<times> string) list"

record samples =
  counts :: "collector \<Rightarrow> labels \<Rightarrow> int"
  observed :: "collector \<Rightarrow> labels \<Rightarrow> int"

definition add :: "int \<Rightarrow> collector \<Rightarrow> labels \<Rightarrow> samples \<Rightarrow> samples" where
  "add n c l m = m\<lparr>counts := (counts m)(c := (counts m c)(l := counts m c l + n))\<rparr>"

abbreviation inc :: "collector \<Rightarrow> labels \<Rightarrow> samples \<Rightarrow> samples" where "inc \<equiv> add 1"
abbreviation dec :: "collector \<Rightarrow> labels \<Rightarrow> samples \<Rightarrow> samples" where "dec \<equiv> add (- 1)"

definition observe :: "collector \<Rightarrow> labels \<Rightarrow> samples \<Rightarrow> samples" where
  "observe c l m = m\<lparr>observed := (observed m)(c := (observed m c)(l := observed m c l + 1))\<rparr>"

lemma counts_add [simp]:
  "counts (add n c l m) c' l' = counts m c' l' + (if c' = c \<and> l' = l then n else 0)"
  "observed (add n c l m) = observed m"
  by (simp_all add: add_def)

lemma observed_observe [simp]:
  "observed (observe c l m) c' l' = observed m c' l' + (if c' = c \<and> l' = l then 1 else 0)"
  "counts (observe c l m) = counts m"
  by (simp_all add: observe_def)

definition task_labels :: "string \<Rightarrow> string \<Rightarrow> labels" where
  "task_labels q k = [(''queue'', q), (''type'', k)]"

subsection \<open>The queuer\<close>

definition QueuerWithMetrics ::
  "metrics \<Rightarrow> ('e \<Rightarrow> task_enqueue_request \<Rightarrow> 's \<Rightarrow> 's \<times> error option) \<Rightarrow> 'e \<Rightarrow> task_enqueue_request \<Rightarrow>
    's \<times> samples \<Rightarrow> ('s \<times> samples) \<times> error option" where
  "QueuerWithMetrics g q e t = (\<lambda>(s, m).
     (let m = inc (TaskCounter (TaskQueueMetrics g)) (task_labels (Queue t) (Type t)) m;
          (s, err) = q e t s
      in ((s, observe (EnqueueDuration (TaskQueueMetrics g)) [(''queue'', Queue t)] m), err)))"

subsection \<open>The dequeuer\<close>

text \<open>The wrapper of the dequeuer passes every call on and counts nothing.\<close>

definition DequeuerWithMetrics :: "('x, 's) dequeuer \<Rightarrow> ('x, 's \<times> samples) dequeuer" where
  "DequeuerWithMetrics dq =
     \<lparr>dq_Dequeue = (\<lambda>x (s, m).
        (case dq_Dequeue dq x s of
           None \<Rightarrow> None | Some Panic \<Rightarrow> Some Panic | Some (Ret (s, t, err)) \<Rightarrow> Some (Ret ((s, m), t, err)))),
      dq_Heartbeat = (\<lambda>e i p (s, m). (case dq_Heartbeat dq e i p s of (s, err) \<Rightarrow> ((s, m), err))),
      dq_Finish = (\<lambda>e i p (s, m). (case dq_Finish dq e i p s of (s, err) \<Rightarrow> ((s, m), err))),
      dq_Fail = (\<lambda>e i p (s, m). (case dq_Fail dq e i p s of (s, err) \<Rightarrow> ((s, m), err)))\<rparr>"

subsection \<open>The scheduler\<close>

text \<open>The interface \<open>Scheduler\<close>, and the scheduler on Postgres as a value of it.\<close>

record ('a, 'b, 'c, 's) scheduler =
  sch_Schedule :: "'a \<Rightarrow> task_schedule_request \<Rightarrow> 's \<Rightarrow> 's \<times> error option"
  sch_Ensure :: "'b \<Rightarrow> task_schedule_request \<Rightarrow> 's \<Rightarrow> 's \<times> error option"
  sch_Assert :: "'c \<Rightarrow> task_schedule_request \<Rightarrow> 's \<Rightarrow> 's \<times> error option"

definition pg_scheduler :: "pg \<Rightarrow> cron \<Rightarrow> (schedule_env, error option, assert_env, db) scheduler" where
  "pg_scheduler p c =
     \<lparr>sch_Schedule = Schedule p c, sch_Ensure = (\<lambda>e t d. (d, EnsureSchedule p e t d)),
      sch_Assert = AssertSchedule p c\<rparr>"

definition metered_Schedule ::
  "metrics \<Rightarrow> ('a, 'b, 'c, 's) scheduler \<Rightarrow> 'a \<Rightarrow> task_schedule_request \<Rightarrow> 's \<times> samples \<Rightarrow>
    ('s \<times> samples) \<times> error option" where
  "metered_Schedule g sch e t = (\<lambda>(s, m).
     (let l = task_labels (Queue t) (Type t);
          m = inc (ScheduleCounter (SchedulerMetrics g)) l m;
          (s, err) = sch_Schedule sch e t s;
          m = (if err \<noteq> None then inc (ErrorCounter (SchedulerMetrics g)) l m else m)
      in ((s, m), err)))"

definition SchedulerWithMetrics ::
  "metrics \<Rightarrow> ('a, 'b, 'c, 's) scheduler \<Rightarrow> ('a, 'b, 'c, 's \<times> samples) scheduler" where
  "SchedulerWithMetrics g sch =
     \<lparr>sch_Schedule = metered_Schedule g sch,
      sch_Ensure = (\<lambda>e t (s, m). (case sch_Ensure sch e t s of (s, err) \<Rightarrow> ((s, m), err))),
      sch_Assert = (\<lambda>e t (s, m). (case sch_Assert sch e t s of (s, err) \<Rightarrow> ((s, m), err)))\<rparr>"

subsection \<open>The wrappers change nothing\<close>

text \<open>A sequence of calls to a scheduler with their results.\<close>

datatype ('a, 'b, 'c) sched_call =
    Call_Schedule 'a task_schedule_request
  | Call_Ensure 'b task_schedule_request
  | Call_Assert 'c task_schedule_request

fun do_call :: "('a, 'b, 'c, 's) scheduler \<Rightarrow> ('a, 'b, 'c) sched_call \<Rightarrow> 's \<Rightarrow> 's \<times> error option" where
  "do_call sch (Call_Schedule e t) s = sch_Schedule sch e t s"
| "do_call sch (Call_Ensure e t) s = sch_Ensure sch e t s"
| "do_call sch (Call_Assert e t) s = sch_Assert sch e t s"

fun do_calls :: "('a, 'b, 'c, 's) scheduler \<Rightarrow> ('a, 'b, 'c) sched_call list \<Rightarrow> 's \<Rightarrow> 's \<times> error option list" where
  "do_calls sch [] s = (s, [])"
| "do_calls sch (c # cs) s =
     (let (s, err) = do_call sch c s; (s, errs) = do_calls sch cs s in (s, err # errs))"

text \<open>The number of calls to \<open>Schedule\<close> with the labels \<open>l\<close>, and of those that failed.\<close>

fun schedules_with :: "labels \<Rightarrow> ('a, 'b, 'c) sched_call \<Rightarrow> bool" where
  "schedules_with l (Call_Schedule e t) \<longleftrightarrow> task_labels (Queue t) (Type t) = l"
| "schedules_with l _ \<longleftrightarrow> False"

definition scheduled_calls :: "labels \<Rightarrow> ('a, 'b, 'c) sched_call list \<Rightarrow> nat" where
  "scheduled_calls l cs = length (filter (schedules_with l) cs)"

definition failed_calls :: "labels \<Rightarrow> ('a, 'b, 'c) sched_call list \<Rightarrow> error option list \<Rightarrow> nat" where
  "failed_calls l cs errs = length (filter (\<lambda>(c, err). schedules_with l c \<and> err \<noteq> None) (zip cs errs))"

lemma scheduler_collectors:
  "ScheduleCounter (SchedulerMetrics (metrics_of cl)) \<noteq> ErrorCounter (SchedulerMetrics (metrics_of cl))"
  by (simp add: metrics_of_def metrics_defs)

text \<open>
  The scheduler with metrics, around any scheduler. Any sequence of calls has the results
  that it has without the metrics and leaves the same state. For every queue and type the first
  counter rises by the number of calls to \<open>Schedule\<close> for them, the refused ones included, and the
  counter of errors by the number of those that failed, so it never rises by more. Calls to
  \<open>AssertSchedule\<close> are not counted at all, also when they create a schedule: the wrapped scheduler
  then calls its own \<open>Schedule\<close>.
\<close>

theorem metered_scheduler_counts:
  "\<exists>m'. do_calls (SchedulerWithMetrics (metrics_of cl) sch) cs (s, m) =
      ((fst (do_calls sch cs s), m'), snd (do_calls sch cs s)) \<and>
    (\<forall>l. counts m' (ScheduleCounter (SchedulerMetrics (metrics_of cl))) l =
        counts m (ScheduleCounter (SchedulerMetrics (metrics_of cl))) l + int (scheduled_calls l cs) \<and>
      counts m' (ErrorCounter (SchedulerMetrics (metrics_of cl))) l =
        counts m (ErrorCounter (SchedulerMetrics (metrics_of cl))) l + int (failed_calls l cs (snd (do_calls sch cs s))))"
proof (induction cs arbitrary: s m)
  case Nil
  then show ?case by (simp add: scheduled_calls_def failed_calls_def)
next
  case (Cons c cs)
  let ?g = "metrics_of cl"
  obtain s1 err where c: "do_call sch c s = (s1, err)" by fastforce
  obtain m1 where m1: "do_call (SchedulerWithMetrics ?g sch) c (s, m) = ((s1, m1), err)"
    "\<forall>l. counts m1 (ScheduleCounter (SchedulerMetrics ?g)) l =
        counts m (ScheduleCounter (SchedulerMetrics ?g)) l + (if schedules_with l c then 1 else 0) \<and>
      counts m1 (ErrorCounter (SchedulerMetrics ?g)) l =
        counts m (ErrorCounter (SchedulerMetrics ?g)) l + (if schedules_with l c \<and> err \<noteq> None then 1 else 0)"
    using c scheduler_collectors [of cl]
    by (cases c) (auto simp: SchedulerWithMetrics_def metered_Schedule_def Let_def)
  obtain s2 errs where cs: "do_calls sch cs s1 = (s2, errs)" by fastforce
  from Cons [of s1 m1] m1 c cs show ?case
    by (auto simp: scheduled_calls_def failed_calls_def)
qed

text \<open>The queuer with metrics does what the queuer does, and counts the requests that it refuses too.\<close>

lemma metered_queuer_counts:
  "\<exists>m'. QueuerWithMetrics g q e t (s, m) = ((fst (q e t s), m'), snd (q e t s)) \<and>
    counts m' = counts (inc (TaskCounter (TaskQueueMetrics g)) (task_labels (Queue t) (Type t)) m)"
  by (simp add: QueuerWithMetrics_def split_beta)

subsection \<open>A worker on the dequeuer with metrics\<close>

text \<open>A result with the samples put beside its state.\<close>

definition beside :: "'m \<Rightarrow> ('s \<times> 'e) outcome option \<Rightarrow> (('s \<times> 'm) \<times> 'e) outcome option" where
  "beside m = map_option (map_outcome (\<lambda>(s, e). ((s, m), e)))"

lemma beside_simps [simp]:
  "beside m None = None" "beside m (Some Panic) = Some Panic" "beside m (Some (Ret (s, e))) = Some (Ret ((s, m), e))"
  by (simp_all add: beside_def)

lemma wrapped_dequeuer [simp]:
  "dq_Dequeue (DequeuerWithMetrics dq) x (s, m) = beside m (dq_Dequeue dq x s)"
  "dq_Heartbeat (DequeuerWithMetrics dq) e i p (s, m) = ((fst (dq_Heartbeat dq e i p s), m), snd (dq_Heartbeat dq e i p s))"
  "dq_Finish (DequeuerWithMetrics dq) e i p (s, m) = ((fst (dq_Finish dq e i p s), m), snd (dq_Finish dq e i p s))"
  "dq_Fail (DequeuerWithMetrics dq) e i p (s, m) = ((fst (dq_Fail dq e i p s), m), snd (dq_Fail dq e i p s))"
  by (simp_all add: DequeuerWithMetrics_def split_beta split: option.split outcome.split)

lemma wrapped_heartbeats:
  "processHeartbeats (DequeuerWithMetrics dq) i l beats evs (s, m) =
     map_option (\<lambda>(s, r). ((s, m), r)) (processHeartbeats dq i l beats evs s)"
proof (induction dq i l beats evs s rule: processHeartbeats.induct)
  case (5 dq i l b beats e evs s)
  obtain s' err where "dq_Heartbeat dq e i b s = (s', err)" by fastforce
  with "5" show ?case by (cases err) simp_all
qed simp_all

lemma wrapped_fail_task:
  "fail_task (DequeuerWithMetrics dq) um fe i l err (s, m) = map_outcome (\<lambda>(s, e). ((s, m), e)) (fail_task dq um fe i l err s)"
  by (simp add: fail_task_def split_beta split: outcome.split)

lemma wrapped_handleTask:
  "handleTask (DequeuerWithMetrics dq) um run evs fe t (s, m) = beside m (handleTask dq um run evs fe t s)"
  by (auto simp: handleTask_def wrapped_heartbeats wrapped_fail_task beside_def split_beta split: option.split)

lemma wrapped_iteration:
  "task_iteration (DequeuerWithMetrics dq) um handler ch x evs fe (s, m) = beside m (task_iteration dq um handler ch x evs fe s)"
  by (auto simp: task_iteration_def wrapped_handleTask split: iteration_choice.split option.split outcome.split)

lemma wrapped_loop:
  "task_loop (DequeuerWithMetrics dq) um handler its (s, m) = beside m (task_loop dq um handler its s)"
  by (induction dq um handler its s rule: task_loop.induct)
    (auto simp: wrapped_iteration split: option.split outcome.split)

lemma wrapped_Work:
  "task_Work (DequeuerWithMetrics dq) um handler it its (s, m) = beside m (task_Work dq um handler it its s)"
  by (simp add: task_Work_def wrapped_loop)

interpretation mpgd: dequeuer_contract "DequeuerWithMetrics (pg_dequeuer p cfg)"
  "\<lambda>i sm. task_status_is Finished i (fst sm)" "\<lambda>i sm. task_status_is Running i (fst sm)"
  "\<lambda>i sm. task_status_is Failed i (fst sm)" for p cfg
proof
  fix e i pr and s s' :: "db \<times> samples" and x
  obtain d m where s: "s = (d, m)" by fastforce
  show "task_status_is Finished i (fst s')" if "dq_Finish (DequeuerWithMetrics (pg_dequeuer p cfg)) e i pr s = (s', None)"
    using that pgd.finish_ok [of p cfg e i pr d] unfolding s by (auto simp: prod_eq_iff)
  show "task_status_is Failed i (fst s')" if "dq_Fail (DequeuerWithMetrics (pg_dequeuer p cfg)) e i pr s = (s', None)"
    using that pgd.fail_ok [of p cfg e i pr d] unfolding s by (auto simp: prod_eq_iff)
  show "task_status_is Running i (fst s')" if "dq_Heartbeat (DequeuerWithMetrics (pg_dequeuer p cfg)) e i pr s = (s', None)"
    using that pgd.beat_ok [of p cfg e i pr d] unfolding s by (auto simp: prod_eq_iff)
  show "s' = s" if "dq_Heartbeat (DequeuerWithMetrics (pg_dequeuer p cfg)) e i pr s = (s', Some x)"
    using that pgd.beat_err [of p cfg e i pr d _ x] unfolding s by (auto simp: prod_eq_iff)
qed

end
