(* ===== verification/Worker_Metrics.thy ===== *)
theory Worker_Metrics
  imports Metered_Queue
begin

section \<open>The metrics of the workers\<close>

text \<open>
  What \<open>task_worker.go\<close> and \<open>schedule_worker.go\<close> record while they work. The functions are those of
  \<open>Task_Worker\<close> and \<open>Schedule_Worker\<close> with the metrics: they yield the samples beside the result,
  also when there is no result yet because the worker is waiting. The collectors are an argument.
  A deferred call runs when the function returns or panics.
\<close>

text \<open>The error of a call that has returned one.\<close>

fun failed_with :: "('s \<times> error option) outcome \<Rightarrow> bool" where
  "failed_with (Ret (s, err)) \<longleftrightarrow> err \<noteq> None"
| "failed_with Panic \<longleftrightarrow> False"

definition deferred ::
  "('r \<Rightarrow> samples \<Rightarrow> samples) \<Rightarrow> samples \<times> 'r option \<Rightarrow> samples \<times> 'r option" where
  "deferred f = (\<lambda>(m, res). (case res of None \<Rightarrow> (m, None) | Some r \<Rightarrow> (f r m, Some r)))"

definition count_failure :: "collector \<Rightarrow> labels \<Rightarrow> ('s \<times> error option) outcome \<Rightarrow> samples \<Rightarrow> samples" where
  "count_failure c l r m = (if failed_with r then inc c l m else m)"

subsection \<open>The task worker\<close>

definition metered_Dequeue ::
  "WorkerMetricsType \<Rightarrow> ('x, 's) dequeuer \<Rightarrow> 'x \<Rightarrow> 's \<Rightarrow> samples \<Rightarrow>
    samples \<times> ('s \<times> task option \<times> error option) outcome option" where
  "metered_Dequeue w dq x s m =
     deferred (\<lambda>r m.
         let m = dec (DequeueingGauge w) [] (observe (DequeueingDuration w) [] m)
         in (case r of Ret (s, task, Some err) \<Rightarrow> inc (DequeueErrorCounter w) [] m | _ \<Rightarrow> m))
       (inc (DequeueingGauge w) [] m, dq_Dequeue dq x s)"

definition metered_handleTask ::
  "WorkerMetricsType \<Rightarrow> ('x, 's) dequeuer \<Rightarrow> unmarshal_map \<Rightarrow> handler_run \<Rightarrow> worker_event list \<Rightarrow> progress_env \<Rightarrow>
    task \<Rightarrow> 's \<Rightarrow> samples \<Rightarrow> samples \<times> ('s \<times> error option) outcome option" where
  "metered_handleTask w dq um run evs fe task s m =
     deferred (\<lambda>r. observe (ProcessingDuration w) [])
       (let l = task_labels (Queue task) (Type task) in
        case processHeartbeats dq (ID task) emptyJSON (run_beats run) evs s of
          None \<Rightarrow> (m, None)
        | Some (s', latest, err, rest) \<Rightarrow>
          if err = Some (Task_worker_err ErrHeartbeatTimeout)
          then (inc (ProcessingErrorsCounter w) l m,
            Some (fail_task dq um fe (ID task) latest (Task_worker_err ErrHeartbeatTimeout) s'))
          else if err \<noteq> None then (m, Some (Ret (s', err)))
          else if rest \<noteq> [] then (m, None)
          else (case work_err (run_result run) of
              Some x \<Rightarrow> (inc (ProcessingErrorsCounter w) l m, Some (fail_task dq um fe (ID task) latest x s'))
            | None \<Rightarrow>
                (case dq_Finish dq fe (ID task) latest s' of
                   (s'', Some err) \<Rightarrow> (m, Some (Ret (s'', Some err)))
                 | (s'', None) \<Rightarrow> (inc (ProcessedCounter w) l m, Some (Ret (s'', None))))))"

definition metered_task_iteration ::
  "WorkerMetricsType \<Rightarrow> ('x, 's) dequeuer \<Rightarrow> unmarshal_map \<Rightarrow> (task \<Rightarrow> handler_run) \<Rightarrow> iteration_choice \<Rightarrow> 'x \<Rightarrow>
    worker_event list \<Rightarrow> progress_env \<Rightarrow> 's \<Rightarrow> samples \<Rightarrow> samples \<times> ('s \<times> error option) outcome option" where
  "metered_task_iteration w dq um handler ch x evs fe s m =
     deferred (\<lambda>r m. count_failure (ErrorsCounter w) [] r (dec (WorkingGauge w) [] m))
       (let m = inc (WorkingGauge w) [] m in
        case ch of
          ItDone e \<Rightarrow> (m, Some (Ret (s, Some e)))
        | ItTimer \<Rightarrow> (m, Some (Ret (s, None)))
        | ItDefault \<Rightarrow>
          (case metered_Dequeue w dq x s m of
             (m, None) \<Rightarrow> (m, None)
           | (m, Some Panic) \<Rightarrow> (m, Some Panic)
           | (m, Some (Ret (s', task, err))) \<Rightarrow>
             if err = Some (Std_err ErrNoRows) then (m, Some (Ret (s', None)))
             else if err \<noteq> None then (m, Some (Ret (s', err)))
             else (case task of
                 None \<Rightarrow> (m, Some (Ret (s', Some (New ''task cannot be nil''))))
               | Some t \<Rightarrow> metered_handleTask w dq um (handler t) evs fe t s' m)))"

fun metered_task_loop ::
  "WorkerMetricsType \<Rightarrow> ('x, 's) dequeuer \<Rightarrow> unmarshal_map \<Rightarrow> (task \<Rightarrow> handler_run) \<Rightarrow>
    (error option \<times> 'x iteration_env) list \<Rightarrow> 's \<Rightarrow> samples \<Rightarrow> samples \<times> ('s \<times> error option) outcome option" where
  "metered_task_loop w dq um handler [] s m = (m, None)"
| "metered_task_loop w dq um handler ((done, ch, x, evs, fe) # its) s m =
     (case done of Some e \<Rightarrow> (m, Some (Ret (s, Some e)))
      | None \<Rightarrow>
        (case metered_task_iteration w dq um handler ch x evs fe s m of
           (m, None) \<Rightarrow> (m, None)
         | (m, Some Panic) \<Rightarrow> (m, Some Panic)
         | (m, Some (Ret (s', _))) \<Rightarrow> metered_task_loop w dq um handler its s' m))"

definition metered_task_Work ::
  "WorkerMetricsType \<Rightarrow> ('x, 's) dequeuer \<Rightarrow> unmarshal_map \<Rightarrow> (task \<Rightarrow> handler_run) \<Rightarrow> 'x iteration_env \<Rightarrow>
    (error option \<times> 'x iteration_env) list \<Rightarrow> 's \<Rightarrow> samples \<Rightarrow> samples \<times> ('s \<times> error option) outcome option" where
  "metered_task_Work w dq um handler it its s m =
     deferred (\<lambda>r. dec (ActiveGauge w) [])
       (metered_task_loop w dq um handler ((None, it) # its) s (inc (ActiveGauge w) [] m))"

subsection \<open>The schedule worker\<close>

text \<open>The work in the transaction; its deferred calls run before the transaction ends.\<close>

definition metered_schedule_body ::
  "ScheduleWorkerMetricsType \<Rightarrow> queuer \<Rightarrow> cron \<Rightarrow> schedule_worker_env \<Rightarrow> db \<Rightarrow> samples \<Rightarrow> samples \<times> db \<times> db \<times> error option" where
  "metered_schedule_body w enqueue c e d m =
     (let m = observe (DequeueingDuration w) [] m in
      case sw_select_err e of Some x \<Rightarrow> (inc (DequeueErrorCounter w) [] m, d, d, Some x)
      | None \<Rightarrow>
        (case select_schedule e d of
           None \<Rightarrow> (m, d, d, Some (Schedule_worker_err ErrScheduleQueueIsEmpty))
         | Some r \<Rightarrow>
           (let l = task_labels (task_queue r) (task_type r);
                (d1, err) = enqueue (sw_enqueue e) (schedule_request r) d;
                failed = inc (ProcessingErrorsCounter w) l (observe (ProcessingDuration w) [] m)
            in case err of Some x \<Rightarrow> (failed, d1, d1, Some x)
            | None \<Rightarrow>
              (case nextExecution c (sw_next_now e) (cron_schedule r) of
                 Inl x \<Rightarrow> (failed, d1, d1, Some x)
               | Inr nxt \<Rightarrow>
                 (case sw_update_err e of Some x \<Rightarrow> (failed, d1, d1, Some x)
                  | None \<Rightarrow>
                    (let d2 = set_next (schedule_id r) nxt d1 in
                     case sw_affected_err e of Some x \<Rightarrow> (failed, d1, d2, Some x)
                     | None \<Rightarrow> (observe (ProcessingDuration w) [] (inc (ProcessedCounter w) l m), d1, d2, None)))))))"

definition metered_scheduleTask ::
  "ScheduleWorkerMetricsType \<Rightarrow> queuer \<Rightarrow> cron \<Rightarrow> schedule_worker_env \<Rightarrow> db \<Rightarrow> samples \<Rightarrow>
    samples \<times> (db \<times> error option) outcome" where
  "metered_scheduleTask w enqueue c e d m =
     (if begin_err (sw_tx e) \<noteq> None then (m, Panic)
      else let (m, base, work, err) = metered_schedule_body w enqueue c e d m
        in (m, Ret (end_tx (sw_tx e) base (work, err))))"

fun metered_rounds ::
  "ScheduleWorkerMetricsType \<Rightarrow> queuer \<Rightarrow> cron \<Rightarrow> (error option \<times> schedule_worker_env) list \<Rightarrow> db \<Rightarrow> samples \<Rightarrow>
    samples \<times> (db \<times> error option) outcome option" where
  "metered_rounds w enqueue c [] d m = (m, None)"
| "metered_rounds w enqueue c ((ctx_err, e) # rounds) d m =
     (case ctx_err of Some x \<Rightarrow> (m, Some (Ret (d, Some x)))
      | None \<Rightarrow>
        (case metered_scheduleTask w enqueue c e d m of
           (m, Panic) \<Rightarrow> (m, Some Panic)
         | (m, Ret (d', err)) \<Rightarrow>
           if err = Some (Schedule_worker_err ErrScheduleQueueIsEmpty) then (m, Some (Ret (d', None)))
           else if err \<noteq> None then (m, Some (Ret (d', err)))
           else metered_rounds w enqueue c rounds d' m))"

definition metered_sched_iteration ::
  "ScheduleWorkerMetricsType \<Rightarrow> queuer \<Rightarrow> cron \<Rightarrow> (error option \<times> schedule_worker_env) list \<Rightarrow> db \<Rightarrow> samples \<Rightarrow>
    samples \<times> (db \<times> error option) outcome option" where
  "metered_sched_iteration w enqueue c rounds d m =
     deferred (\<lambda>r m. count_failure (ErrorsCounter w) [] r (dec (WorkingGauge w) [] m))
       (metered_rounds w enqueue c rounds d (inc (WorkingGauge w) [] m))"

fun metered_sched_loop ::
  "ScheduleWorkerMetricsType \<Rightarrow> queuer \<Rightarrow> cron \<Rightarrow> sched_event list \<Rightarrow> db \<Rightarrow> samples \<Rightarrow>
    samples \<times> (db \<times> error option) outcome option" where
  "metered_sched_loop w enqueue c [] d m = (inc (WaitingGauge w) [] m, None)"
| "metered_sched_loop w enqueue c (SDone x # evs) d m =
     (dec (WaitingGauge w) [] (inc (WaitingGauge w) [] m), Some (Ret (d, Some x)))"
| "metered_sched_loop w enqueue c (STick rounds # evs) d m =
     (case metered_sched_iteration w enqueue c rounds d (dec (WaitingGauge w) [] (inc (WaitingGauge w) [] m)) of
        (m, None) \<Rightarrow> (m, None)
      | (m, Some Panic) \<Rightarrow> (m, Some Panic)
      | (m, Some (Ret (d', _))) \<Rightarrow> metered_sched_loop w enqueue c evs d' m)"

definition metered_sched_Work ::
  "ScheduleWorkerMetricsType \<Rightarrow> queuer \<Rightarrow> cron \<Rightarrow> duration \<Rightarrow> (error option \<times> schedule_worker_env) list \<Rightarrow>
    sched_event list \<Rightarrow> db \<Rightarrow> samples \<Rightarrow> samples \<times> (db \<times> error option) outcome option" where
  "metered_sched_Work w enqueue c interval rounds evs d m =
     (if interval \<le> 0 then (m, Some Panic)
      else deferred (\<lambda>r. dec (ActiveGauge w) [])
        (case metered_sched_iteration w enqueue c rounds d (inc (ActiveGauge w) [] m) of
           (m, None) \<Rightarrow> (m, None)
         | (m, Some Panic) \<Rightarrow> (m, Some Panic)
         | (m, Some (Ret (d', _))) \<Rightarrow> metered_sched_loop w enqueue c evs d' m))"

subsection \<open>The task worker without the metrics\<close>

lemma snd_deferred [simp]: "snd (deferred f x) = snd x"
  by (cases x) (simp add: deferred_def split: option.split)

lemma snd_metered_Dequeue [simp]: "snd (metered_Dequeue w dq x s m) = dq_Dequeue dq x s"
  by (simp add: metered_Dequeue_def)

lemma snd_metered_handleTask [simp]:
  "snd (metered_handleTask w dq um run evs fe t s m) = handleTask dq um run evs fe t s"
  by (auto simp: metered_handleTask_def handleTask_def Let_def split: option.split prod.split)

lemma snd_metered_iteration [simp]:
  "snd (metered_task_iteration w dq um handler ch x evs fe s m) = task_iteration dq um handler ch x evs fe s"
proof (cases ch)
  case ItDefault
  obtain m1 r where m1: "metered_Dequeue w dq x s (inc (WorkingGauge w) [] m) = (m1, r)" by fastforce
  then have "r = dq_Dequeue dq x s" by (metis snd_conv snd_metered_Dequeue)
  with ItDefault m1 show ?thesis
    by (simp add: metered_task_iteration_def task_iteration_def Let_def split: option.split outcome.split prod.split)
qed (simp_all add: metered_task_iteration_def task_iteration_def)

lemma snd_metered_task_loop [simp]: "snd (metered_task_loop w dq um handler its s m) = task_loop dq um handler its s"
proof (induction w dq um handler its s m rule: metered_task_loop.induct)
  case (2 w dq um handler "done" ch x evs fe its s m)
  obtain m1 r where m1: "metered_task_iteration w dq um handler ch x evs fe s m = (m1, r)" by fastforce
  then have r: "task_iteration dq um handler ch x evs fe s = r" by (metis snd_conv snd_metered_iteration)
  show ?case
  proof (cases "done")
    case None
    show ?thesis
    proof (cases "(m1, r)" rule: prod.exhaust)
      show ?thesis using "2.IH" [OF None m1 [symmetric]] None m1 r
        by (cases r; cases "the r") auto
    qed
  qed simp
qed simp

lemma snd_metered_task_Work: "snd (metered_task_Work w dq um handler it its s m) = task_Work dq um handler it its s"
  by (simp add: metered_task_Work_def task_Work_def)

subsection \<open>The accounts of the task worker\<close>

text \<open>How much a counter has risen, and the number of observations of a histogram.\<close>

definition rise :: "samples \<Rightarrow> samples \<Rightarrow> collector \<Rightarrow> labels \<Rightarrow> int" where
  "rise m m' c l = counts m' c l - counts m c l"

definition timed :: "samples \<Rightarrow> samples \<Rightarrow> collector \<Rightarrow> labels \<Rightarrow> int" where
  "timed m m' c l = observed m' c l - observed m c l"

lemma rise_trans: "rise m m2 c l = rise m m1 c l + rise m1 m2 c l"
  by (simp add: rise_def)

lemma timed_trans: "timed m m2 c l = timed m m1 c l + timed m1 m2 c l"
  by (simp add: timed_def)

definition gauges_even :: "'a WorkerMetricsType_scheme \<Rightarrow> samples \<Rightarrow> samples \<Rightarrow> bool" where
  "gauges_even w m m' \<longleftrightarrow>
     (\<forall>c \<in> {ActiveGauge w, WorkingGauge w, DequeueingGauge w}. rise m m' c [] = 0)"

text \<open>
  No task is counted twice, only tasks that were timed are counted, and a task that was timed
  comes from a call to \<open>Dequeue\<close> that was timed and did not fail.
\<close>

definition accounts :: "'a WorkerMetricsType_scheme \<Rightarrow> samples \<Rightarrow> samples \<Rightarrow> bool" where
  "accounts w m m' \<longleftrightarrow>
     (\<forall>l. 0 \<le> rise m m' (ProcessedCounter w) l \<and> 0 \<le> rise m m' (ProcessingErrorsCounter w) l \<and>
       rise m m' (ProcessedCounter w) l + rise m m' (ProcessingErrorsCounter w) l \<le> timed m m' (ProcessingDuration w) []) \<and>
     0 \<le> rise m m' (DequeueErrorCounter w) [] \<and> 0 \<le> timed m m' (ProcessingDuration w) [] \<and>
     rise m m' (DequeueErrorCounter w) [] + timed m m' (ProcessingDuration w) [] \<le> timed m m' (DequeueingDuration w) []"

lemma accounts_refl: "accounts w m m"
  by (simp add: accounts_def rise_def timed_def)

lemma accounts_trans: "accounts w m m1 \<Longrightarrow> accounts w m1 m2 \<Longrightarrow> accounts w m m2"
  unfolding accounts_def rise_trans [of m m2 _ _ m1] timed_trans [of m m2 _ _ m1] by (smt (verit, best))

lemma gauges_even_refl: "gauges_even w m m"
  by (simp add: gauges_even_def rise_def)

lemma gauges_even_trans: "gauges_even w m m1 \<Longrightarrow> gauges_even w m1 m2 \<Longrightarrow> gauges_even w m m2"
  unfolding gauges_even_def rise_trans [of m m2 _ _ m1] by simp

lemma handled_samples:
  assumes "metered_handleTask w dq um run evs fe t s m = (m', res)"
  obtains (waiting) "res = None" "m' = m"
    | (uncounted) y where "res = Some y" "m' = observe (ProcessingDuration w) [] m"
    | (failed) y where "res = Some y" "m' = observe (ProcessingDuration w) [] (inc (ProcessingErrorsCounter w) (task_labels (Queue t) (Type t)) m)"
    | (processed) s' latest s1 where "res = Some (Ret (s', None))" "dq_Finish dq fe (ID t) latest s1 = (s', None)"
        "m' = observe (ProcessingDuration w) [] (inc (ProcessedCounter w) (task_labels (Queue t) (Type t)) m)"
  using assms unfolding metered_handleTask_def Let_def deferred_def
  by (auto split: option.splits if_splits prod.splits)

lemma dequeued_samples:
  assumes "metered_Dequeue w dq x s m = (m', res)"
  obtains (waiting) "res = None" "m' = inc (DequeueingGauge w) [] m"
    | (failed) s' t err where "res = Some (Ret (s', t, Some err))"
        "m' = inc (DequeueErrorCounter w) [] (dec (DequeueingGauge w) [] (observe (DequeueingDuration w) [] (inc (DequeueingGauge w) [] m)))"
    | (panicked) "res = Some Panic" "m' = dec (DequeueingGauge w) [] (observe (DequeueingDuration w) [] (inc (DequeueingGauge w) [] m))"
    | (taken) s' t where "res = Some (Ret (s', t, None))"
        "m' = dec (DequeueingGauge w) [] (observe (DequeueingDuration w) [] (inc (DequeueingGauge w) [] m))"
proof (cases "dq_Dequeue dq x s")
  case None
  with assms show thesis by (intro waiting) (simp_all add: metered_Dequeue_def deferred_def)
next
  case (Some r)
  show thesis
  proof (cases r)
    case Panic
    with Some assms show thesis by (intro panicked) (simp_all add: metered_Dequeue_def deferred_def Let_def)
  next
    case (Ret y)
    obtain s' t e where y: "y = (s', t, e)" by (cases y)
    show thesis
    proof (cases e)
      case None
      with Some Ret y assms show thesis by (intro taken [of s' t]) (simp_all add: metered_Dequeue_def deferred_def Let_def)
    next
      case e: (Some err)
      with Some Ret y assms show thesis by (intro failed [of s' t err]) (simp_all add: metered_Dequeue_def deferred_def Let_def)
    qed
  qed
qed

lemma collectors_apart:
  assumes "distinct (worker_created w)"
  shows "ActiveGauge w \<notin> {WorkingGauge w, DequeueingGauge w, ProcessedCounter w, DequeueErrorCounter w, ProcessingErrorsCounter w, ErrorsCounter w}"
    "WorkingGauge w \<notin> {ActiveGauge w, DequeueingGauge w, ProcessedCounter w, DequeueErrorCounter w, ProcessingErrorsCounter w, ErrorsCounter w}"
    "DequeueingGauge w \<notin> {ActiveGauge w, WorkingGauge w, ProcessedCounter w, DequeueErrorCounter w, ProcessingErrorsCounter w, ErrorsCounter w}"
    "ProcessedCounter w \<notin> {ActiveGauge w, WorkingGauge w, DequeueingGauge w, DequeueErrorCounter w, ProcessingErrorsCounter w, ErrorsCounter w}"
    "DequeueErrorCounter w \<notin> {ActiveGauge w, WorkingGauge w, DequeueingGauge w, ProcessedCounter w, ProcessingErrorsCounter w, ErrorsCounter w}"
    "ProcessingErrorsCounter w \<notin> {ActiveGauge w, WorkingGauge w, DequeueingGauge w, ProcessedCounter w, DequeueErrorCounter w, ErrorsCounter w}"
    "ProcessingDuration w \<noteq> DequeueingDuration w" "DequeueingDuration w \<noteq> ProcessingDuration w"
  using assms by (auto simp: worker_created_def)

lemmas account_simps = accounts_def gauges_even_def rise_def timed_def count_failure_def

lemma iteration_samples:
  assumes d: "distinct (worker_created w)"
    and run: "metered_task_iteration w dq um handler ch x evs fe s m = (m', res)"
  shows "accounts w m m' \<and> (res \<noteq> None \<longrightarrow> gauges_even w m m') \<and> rise m m' (ActiveGauge w) [] = 0"
proof -
  note apart = collectors_apart [OF d]
  show ?thesis
  proof (cases ch)
  case ItDefault
  obtain m1 r where m1: "metered_Dequeue w dq x s (inc (WorkingGauge w) [] m) = (m1, r)" by fastforce
  have run1: "(m', res) = deferred (\<lambda>r m. count_failure (ErrorsCounter w) [] r (dec (WorkingGauge w) [] m))
      (case r of None \<Rightarrow> (m1, None) | Some Panic \<Rightarrow> (m1, Some Panic)
       | Some (Ret (s', task, err)) \<Rightarrow>
         if err = Some (Std_err ErrNoRows) then (m1, Some (Ret (s', None)))
         else if err \<noteq> None then (m1, Some (Ret (s', err)))
         else (case task of
             None \<Rightarrow> (m1, Some (Ret (s', Some (New ''task cannot be nil''))))
           | Some t \<Rightarrow> metered_handleTask w dq um (handler t) evs fe t s' m1))"
    using run m1 ItDefault by (simp add: metered_task_iteration_def Let_def split: option.split outcome.split)
  from m1 show ?thesis
  proof (cases rule: dequeued_samples)
    case waiting
    with run1 apart show ?thesis by (simp add: deferred_def account_simps)
  next
    case (failed s' t err)
    with run1 have "\<exists>e'. m' = count_failure (ErrorsCounter w) [] (Ret (s', e')) (dec (WorkingGauge w) [] m1) \<and> res \<noteq> None"
      by (cases "err = Std_err ErrNoRows") (auto simp: deferred_def)
    then obtain e' where "m' = count_failure (ErrorsCounter w) [] (Ret (s', e')) (dec (WorkingGauge w) [] m1)" "res \<noteq> None"
      by blast
    with failed apart show ?thesis by (simp add: account_simps)
  next
    case panicked
    with run1 apart show ?thesis by (simp add: deferred_def account_simps)
  next
    case (taken s' t)
    show ?thesis
    proof (cases t)
      case None
      with taken run1 apart show ?thesis by (simp add: deferred_def account_simps)
    next
      case (Some tsk)
      obtain m2 r2 where m2: "metered_handleTask w dq um (handler tsk) evs fe tsk s' m1 = (m2, r2)" by fastforce
      have run2: "(m', res) = deferred (\<lambda>r m. count_failure (ErrorsCounter w) [] r (dec (WorkingGauge w) [] m)) (m2, r2)"
        using run1 taken Some m2 by simp
      from m2 show ?thesis
      proof (cases rule: handled_samples)
        case waiting
        with run2 taken apart show ?thesis by (simp add: deferred_def account_simps)
      next
        case (uncounted y)
        with run2 taken apart show ?thesis by (simp add: deferred_def account_simps)
      next
        case (failed y)
        with run2 taken apart show ?thesis by (simp add: deferred_def account_simps)
      next
        case (processed s'' latest s1)
        with run2 taken apart show ?thesis by (simp add: deferred_def account_simps)
      qed
    qed
  qed
qed (use run apart in \<open>auto simp: metered_task_iteration_def deferred_def account_simps\<close>)
qed

lemma loop_samples:
  assumes d: "distinct (worker_created w)"
  shows "metered_task_loop w dq um handler its s m = (m', res) \<Longrightarrow>
    accounts w m m' \<and> (res \<noteq> None \<longrightarrow> gauges_even w m m') \<and> rise m m' (ActiveGauge w) [] = 0"
  using d
proof (induction w dq um handler its s m arbitrary: m' res rule: metered_task_loop.induct)
  case (1 w dq um handler s m)
  then show ?case by (auto simp: accounts_refl rise_def)
next
  case (2 w dq um handler "done" ch x evs fe its s m)
  obtain m1 r where m1: "metered_task_iteration w dq um handler ch x evs fe s m = (m1, r)" by fastforce
  note it = iteration_samples [OF "2.prems"(2) m1]
  show ?case
  proof (cases "done")
    case (Some e)
    with "2.prems" show ?thesis by (auto simp: accounts_refl gauges_even_refl rise_def)
  next
    case None
    consider (stop) "m' = m1" "res = None \<longleftrightarrow> r = None" | (go) s' e where "r = Some (Ret (s', e))"
      using "2.prems"(1) None m1 by (cases r; cases "the r") auto
    then show ?thesis
    proof cases
      case stop
      with it show ?thesis by auto
    next
      case go
      with "2.prems"(1) None m1 have run: "metered_task_loop w dq um handler its s' m1 = (m', res)" by simp
      have "accounts w m1 m' \<and> (res \<noteq> None \<longrightarrow> gauges_even w m1 m') \<and> rise m1 m' (ActiveGauge w) [] = 0"
        using "2.IH" [OF None m1 [symmetric] go _ refl run "2.prems"(2)] by simp
      with it go show ?thesis
        using accounts_trans gauges_even_trans rise_trans [of m m' "ActiveGauge w" "[]" m1] by auto
    qed
  qed
qed

text \<open>
  C20: The metrics of a task worker, for any dequeuer and any run. The worker behaves as it does
  without them. However \<open>Work\<close> ends, by the context or by a panic, the gauges of active, working
  and dequeueing workers have their old values again; as long as it runs, one worker more is
  active. For every queue and type no task is counted both as processed and as failed, only
  tasks that were timed are counted, and every timed task comes from a call to \<open>Dequeue\<close> that was
  timed and not counted as an error.
\<close>

theorem worker_metrics_balance:
  "case metered_task_Work (task_worker_metrics cl) dq um handler it its s m of (m', res) \<Rightarrow>
    res = task_Work dq um handler it its s \<and> accounts (task_worker_metrics cl) m m' \<and>
    (if res = None then rise m m' (ActiveGauge (task_worker_metrics cl)) [] = 1
     else gauges_even (task_worker_metrics cl) m m')"
proof -
  define w where "w = task_worker_metrics cl"
  obtain m' res where run: "metered_task_Work w dq um handler it its s m = (m', res)" by fastforce
  have d: "distinct (worker_created w)"
    using distinct_names(3) [of cl] unfolding w_def by (simp add: distinct_map)
  obtain m1 where m1: "metered_task_loop w dq um handler ((None, it) # its) s (inc (ActiveGauge w) [] m) = (m1, res)"
    "m' = (if res = None then m1 else dec (ActiveGauge w) [] m1)"
    using run by (auto simp: metered_task_Work_def deferred_def split: prod.splits option.splits)
  have erased: "res = task_Work dq um handler it its s"
    using snd_metered_task_Work [of w dq um handler it its s m] unfolding run by simp
  note apart = collectors_apart [OF d]
  note loop = loop_samples [OF d m1(1)]
  have "accounts w m m' \<and> (if res = None then rise m m' (ActiveGauge w) [] = 1 else gauges_even w m m')"
  proof (cases "res = None")
    case True
    have "accounts w m m1 \<and> rise m m1 (ActiveGauge w) [] = 1"
      using loop apart by (simp add: account_simps)
    with True m1(2) show ?thesis by simp
  next
    case False
    then have m': "m' = dec (ActiveGauge w) [] m1" by (rule trans [OF m1(2) if_not_P])
    have "accounts w m m' \<and> gauges_even w m m'"
      using loop False apart unfolding m' by (simp add: account_simps)
    then show ?thesis unfolding if_not_P [OF False] by blast
  qed
  with erased run show ?thesis unfolding w_def by simp
qed

text \<open>
  A task that is counted as processed has been finished: the counter only rises when the dequeuer
  has accepted \<open>Finish\<close>.
\<close>

lemma processed_is_finished:
  assumes run: "metered_handleTask (task_worker_metrics cl) (pg_dequeuer p cfg) um run evs fe t d m = (m', res)"
    and up: "rise m m' (ProcessedCounter (task_worker_metrics cl)) l \<noteq> 0"
  shows "l = task_labels (Queue t) (Type t) \<and> (\<exists>d'. res = Some (Ret (d', None)) \<and> task_status_is Finished (ID t) d')"
proof -
  have "distinct (worker_created (task_worker_metrics cl))"
    using distinct_names(3) [of cl] by (simp add: distinct_map)
  note apart = collectors_apart [OF this]
  from run show ?thesis
  proof (cases rule: handled_samples)
    case (processed d' latest d1)
    with up show ?thesis using pgd.finish_ok [OF processed(2)] by (auto simp: rise_def split: if_splits)
  qed (use up apart in \<open>simp_all add: rise_def\<close>)
qed


subsection \<open>The accounts of the schedule worker\<close>

lemma snd_metered_body [simp]: "snd (metered_schedule_body w enqueue c e d m) = schedule_body enqueue c e d"
  by (auto simp: metered_schedule_body_def schedule_body_def Let_def split: option.split sum.split prod.split)

lemma snd_metered_scheduleTask [simp]:
  "snd (metered_scheduleTask w enqueue c e d m) = scheduleTask enqueue c e d"
proof -
  obtain m1 base work err where b: "metered_schedule_body w enqueue c e d m = (m1, base, work, err)" by (metis prod.collapse)
  then have "schedule_body enqueue c e d = (base, work, err)" by (metis snd_conv snd_metered_body)
  with b show ?thesis by (simp add: metered_scheduleTask_def scheduleTask_def)
qed

lemma snd_metered_rounds [simp]: "snd (metered_rounds w enqueue c rounds d m) = sched_iteration enqueue c rounds d"
proof (induction w enqueue c rounds d m rule: metered_rounds.induct)
  case (2 w enqueue c ctx_err e rounds d m)
  obtain m1 r where t: "metered_scheduleTask w enqueue c e d m = (m1, r)" by fastforce
  then have r: "scheduleTask enqueue c e d = r" by (metis snd_conv snd_metered_scheduleTask)
  show ?case
  proof (cases ctx_err)
    case None
    show ?thesis
    proof (cases r)
      case (Ret y)
      obtain d' err where y: "y = (d', err)" by fastforce
      show ?thesis using "2.IH" [OF None t [symmetric] Ret [unfolded y] refl] None t r Ret y by simp
    qed (use None t r in simp)
  qed simp
qed simp

lemma snd_metered_sched_iteration [simp]:
  "snd (metered_sched_iteration w enqueue c rounds d m) = sched_iteration enqueue c rounds d"
  by (simp add: metered_sched_iteration_def)

lemma snd_metered_sched_loop [simp]: "snd (metered_sched_loop w enqueue c evs d m) = sched_loop enqueue c evs d"
proof (induction w enqueue c evs d m rule: metered_sched_loop.induct)
  case (3 w enqueue c rounds evs d m)
  let ?m = "dec (WaitingGauge w) [] (inc (WaitingGauge w) [] m)"
  obtain m1 r where t: "metered_sched_iteration w enqueue c rounds d ?m = (m1, r)" by fastforce
  then have r: "sched_iteration enqueue c rounds d = r" by (metis snd_conv snd_metered_sched_iteration)
  show ?case
  proof (cases "r = None \<or> r = Some Panic")
    case False
    then obtain d' err where y: "r = Some (Ret (d', err))" by (metis not_None_eq outcome.exhaust surj_pair)
    show ?thesis using "3.IH" [OF t [symmetric] y _ refl] t r y by simp
  qed (use t r in auto)
qed simp_all

lemma snd_metered_sched_Work:
  "snd (metered_sched_Work w enqueue c interval rounds evs d m) = sched_Work enqueue c interval rounds evs d"
proof -
  obtain m1 r where t: "metered_sched_iteration w enqueue c rounds d (inc (ActiveGauge w) [] m) = (m1, r)" by fastforce
  then have r: "sched_iteration enqueue c rounds d = r" by (metis snd_conv snd_metered_sched_iteration)
  show ?thesis
  proof (cases "r = None \<or> r = Some Panic")
    case False
    then obtain d' err where y: "r = Some (Ret (d', err))" by (metis not_None_eq outcome.exhaust surj_pair)
    with t r show ?thesis by (simp add: metered_sched_Work_def sched_Work_def)
  qed (use t r in \<open>auto simp: metered_sched_Work_def sched_Work_def\<close>)
qed

lemma body_samples:
  assumes "metered_schedule_body w enqueue c e d m = (m', base, work, err)"
  obtains (unselected) "m' = inc (DequeueErrorCounter w) [] (observe (DequeueingDuration w) [] m)"
    | (empty) "m' = observe (DequeueingDuration w) [] m"
    | (failed) l where "m' = inc (ProcessingErrorsCounter w) l (observe (ProcessingDuration w) [] (observe (DequeueingDuration w) [] m))"
    | (processed) r where "err = None" "select_schedule e d = Some r"
        "m' = observe (ProcessingDuration w) [] (inc (ProcessedCounter w) (task_labels (task_queue r) (task_type r)) (observe (DequeueingDuration w) [] m))"
  using assms unfolding metered_schedule_body_def Let_def
  by (auto split: option.splits sum.splits prod.splits)

definition all_even :: "ScheduleWorkerMetricsType \<Rightarrow> samples \<Rightarrow> samples \<Rightarrow> bool" where
  "all_even w m m' \<longleftrightarrow> gauges_even w m m' \<and> rise m m' (WaitingGauge w) [] = 0"

lemma all_even_refl: "all_even w m m"
  by (simp add: all_even_def gauges_even_refl rise_def)

lemma all_even_trans: "all_even w m m1 \<Longrightarrow> all_even w m1 m2 \<Longrightarrow> all_even w m m2"
  using gauges_even_trans [of w m m1 m2] rise_trans [of m m2 "WaitingGauge w" "[]" m1] by (simp add: all_even_def)

lemma waiting_apart:
  assumes "distinct (schedule_worker_created w)"
  shows "distinct (worker_created w)"
    "WaitingGauge w \<notin> {ActiveGauge w, WorkingGauge w, DequeueingGauge w, ProcessedCounter w, DequeueErrorCounter w, ProcessingErrorsCounter w, ErrorsCounter w}"
    "ActiveGauge w \<noteq> WaitingGauge w" "WorkingGauge w \<noteq> WaitingGauge w" "DequeueingGauge w \<noteq> WaitingGauge w"
    "ProcessedCounter w \<noteq> WaitingGauge w" "DequeueErrorCounter w \<noteq> WaitingGauge w" "ProcessingErrorsCounter w \<noteq> WaitingGauge w"
  using assms by (auto simp: schedule_worker_created_def worker_created_def)

lemma scheduleTask_samples:
  assumes d: "distinct (schedule_worker_created w)"
    and run: "metered_scheduleTask w enqueue c e d' m = (m', res)"
  shows "accounts w m m' \<and> all_even w m m'"
proof -
  note apart = waiting_apart [OF d] collectors_apart [OF waiting_apart(1) [OF d]]
  show ?thesis
  proof (cases "begin_err (sw_tx e)")
    case None
    obtain base work err where b: "metered_schedule_body w enqueue c e d' m = (m', base, work, err)"
      using run None by (auto simp: metered_scheduleTask_def split: prod.splits)
    then show ?thesis
    proof (cases rule: body_samples)
      case unselected
      with apart show ?thesis by (simp add: account_simps all_even_def)
    next
      case empty
      with apart show ?thesis by (simp add: account_simps all_even_def)
    next
      case (failed l)
      with apart show ?thesis by (simp add: account_simps all_even_def)
    next
      case (processed r)
      with apart show ?thesis by (simp add: account_simps all_even_def)
    qed
  next
    case (Some x)
    with run have "m' = m" by (simp add: metered_scheduleTask_def)
    then show ?thesis by (simp add: accounts_refl all_even_refl)
  qed
qed

lemma rounds_samples:
  assumes d: "distinct (schedule_worker_created w)"
  shows "metered_rounds w enqueue c rounds d' m = (m', res) \<Longrightarrow> accounts w m m' \<and> all_even w m m'"
  using d
proof (induction w enqueue c rounds d' m arbitrary: m' res rule: metered_rounds.induct)
  case (1 w enqueue c d' m)
  then show ?case by (simp add: accounts_refl all_even_refl)
next
  case (2 w enqueue c ctx_err e rounds d' m)
  obtain m1 r where t: "metered_scheduleTask w enqueue c e d' m = (m1, r)" by fastforce
  note st = scheduleTask_samples [OF "2.prems"(2) t]
  show ?case
  proof (cases ctx_err)
    case (Some x)
    with "2.prems" show ?thesis by (simp add: accounts_refl all_even_refl)
  next
    case None
    show ?thesis
    proof (cases "\<exists>d1. r = Ret (d1, None)")
      case True
      then obtain d1 where r: "r = Ret (d1, None)" ..
      with "2.prems"(1) None t have run: "metered_rounds w enqueue c rounds d1 m1 = (m', res)" by simp
      from "2.IH" [OF None t [symmetric] r refl _ _ run "2.prems"(2)] st show ?thesis
        using accounts_trans all_even_trans by auto
    next
      case False
      then have "m' = m1"
        using "2.prems"(1) None t by (cases r) (auto split: if_splits)
      with st show ?thesis by simp
    qed
  qed
qed

lemma sched_iteration_samples:
  assumes d: "distinct (schedule_worker_created w)"
    and run: "metered_sched_iteration w enqueue c rounds d' m = (m', res)"
  shows "accounts w m m' \<and> (res \<noteq> None \<longrightarrow> all_even w m m') \<and>
    rise m m' (ActiveGauge w) [] = 0 \<and> rise m m' (DequeueingGauge w) [] = 0"
proof -
  note apart = waiting_apart [OF d] collectors_apart [OF waiting_apart(1) [OF d]]
  obtain m1 where m1: "metered_rounds w enqueue c rounds d' (inc (WorkingGauge w) [] m) = (m1, res)"
    "m' = (case res of None \<Rightarrow> m1 | Some r \<Rightarrow> count_failure (ErrorsCounter w) [] r (dec (WorkingGauge w) [] m1))"
    using run by (auto simp: metered_sched_iteration_def deferred_def split: prod.splits option.splits)
  note rs = rounds_samples [OF d m1(1)]
  have errors: "ErrorsCounter w \<notin> {WaitingGauge w, WorkingGauge w, ActiveGauge w, DequeueingGauge w, ProcessedCounter w, DequeueErrorCounter w, ProcessingErrorsCounter w}"
    using d by (auto simp: schedule_worker_created_def worker_created_def)
  show ?thesis
  proof (cases res)
    case None
    with m1(2) rs apart show ?thesis by (simp add: account_simps all_even_def)
  next
    case (Some r)
    with m1(2) rs apart errors show ?thesis by (simp add: account_simps all_even_def)
  qed
qed

lemma sched_loop_samples:
  assumes d: "distinct (schedule_worker_created w)"
  shows "metered_sched_loop w enqueue c evs d' m = (m', res) \<Longrightarrow>
    accounts w m m' \<and> (res \<noteq> None \<longrightarrow> all_even w m m') \<and>
    rise m m' (ActiveGauge w) [] = 0 \<and> rise m m' (DequeueingGauge w) [] = 0"
  using d
proof (induction w enqueue c evs d' m arbitrary: m' res rule: metered_sched_loop.induct)
  case (1 w enqueue c d' m)
  note apart = waiting_apart [OF "1.prems"(2)]
  from "1.prems"(1) have "m' = inc (WaitingGauge w) [] m" "res = None" by auto
  with apart show ?case by (simp add: account_simps)
next
  case (2 w enqueue c x evs d' m)
  note apart = waiting_apart [OF "2.prems"(2)]
  from "2.prems"(1) have "m' = dec (WaitingGauge w) [] (inc (WaitingGauge w) [] m)" by auto
  with apart show ?case by (simp add: account_simps all_even_def)
next
  case (3 w enqueue c rounds evs d' m)
  let ?m = "dec (WaitingGauge w) [] (inc (WaitingGauge w) [] m)"
  have start: "accounts w m ?m \<and> all_even w m ?m"
    using waiting_apart [OF "3.prems"(2)] by (simp add: account_simps all_even_def)
  obtain m1 r where t: "metered_sched_iteration w enqueue c rounds d' ?m = (m1, r)" by fastforce
  note it = sched_iteration_samples [OF "3.prems"(2) t]
  have first: "accounts w m m1 \<and> (r \<noteq> None \<longrightarrow> all_even w m m1) \<and>
      rise m m1 (ActiveGauge w) [] = 0 \<and> rise m m1 (DequeueingGauge w) [] = 0"
  proof -
    have "rise m ?m (ActiveGauge w) [] = 0" "rise m ?m (DequeueingGauge w) [] = 0"
      using start by (simp_all add: all_even_def gauges_even_def)
    with it start show ?thesis
      using accounts_trans [of w m ?m m1] all_even_trans [of w m ?m m1] rise_trans [of m m1 _ _ ?m] by simp
  qed
  show ?case
  proof (cases "r = None \<or> r = Some Panic")
    case True
    with "3.prems"(1) t have "m' = m1" "res = None \<longleftrightarrow> r = None" by auto
    with first show ?thesis by simp
  next
    case False
    then obtain d1 err where y: "r = Some (Ret (d1, err))" by (metis not_None_eq outcome.exhaust surj_pair)
    with "3.prems"(1) t have run: "metered_sched_loop w enqueue c evs d1 m1 = (m', res)" by simp
    from "3.IH" [OF t [symmetric] y _ refl run "3.prems"(2)] first y show ?thesis
      using accounts_trans [of w m m1 m'] all_even_trans [of w m m1 m'] rise_trans [of m m' _ _ m1] by simp
  qed
qed

text \<open>
  The metrics of a schedule worker, for any queuer and any run. The worker behaves as it does
  without them. However \<open>Work\<close> ends, the gauges of active, working and waiting workers have their
  old values again. For every queue and type no schedule is counted both as processed and as
  failed, only schedules that were timed are counted, and every timed schedule comes from a timed
  query that did not fail. The gauge of dequeueing workers, which is registered as the number of
  the workers that look for a schedule, never moves.
\<close>

theorem schedule_metrics_balance:
  "case metered_sched_Work (schedule_worker_metrics cl) enqueue c interval rounds evs d m of (m', res) \<Rightarrow>
    res = sched_Work enqueue c interval rounds evs d \<and> accounts (schedule_worker_metrics cl) m m' \<and>
    rise m m' (DequeueingGauge (schedule_worker_metrics cl)) [] = 0 \<and>
    (if res = None then rise m m' (ActiveGauge (schedule_worker_metrics cl)) [] = 1
     else all_even (schedule_worker_metrics cl) m m')"
proof -
  define w where "w = schedule_worker_metrics cl"
  obtain m' res where run: "metered_sched_Work w enqueue c interval rounds evs d m = (m', res)" by fastforce
  have dist: "distinct (schedule_worker_created w)"
    using distinct_names(4) [of cl] unfolding w_def by (simp add: distinct_map)
  have erased: "res = sched_Work enqueue c interval rounds evs d"
    using snd_metered_sched_Work [of w enqueue c interval rounds evs d m] unfolding run by simp
  note apart = waiting_apart [OF dist] collectors_apart [OF waiting_apart(1) [OF dist]]
  have "accounts w m m' \<and> rise m m' (DequeueingGauge w) [] = 0 \<and>
    (if res = None then rise m m' (ActiveGauge w) [] = 1 else all_even w m m')"
  proof (cases "interval \<le> 0")
    case True
    with run have "m' = m" "res = Some Panic" by (simp_all add: metered_sched_Work_def)
    then show ?thesis by (simp add: accounts_refl all_even_refl rise_def)
  next
    case False
    let ?m = "inc (ActiveGauge w) [] m"
    obtain m1 r where t: "metered_sched_iteration w enqueue c rounds d ?m = (m1, r)" by fastforce
    note it = sched_iteration_samples [OF dist t]
    have "\<exists>m2. m' = (case res of None \<Rightarrow> m2 | Some x \<Rightarrow> dec (ActiveGauge w) [] m2) \<and>
      accounts w ?m m2 \<and> (res \<noteq> None \<longrightarrow> all_even w ?m m2) \<and>
      rise ?m m2 (ActiveGauge w) [] = 0 \<and> rise ?m m2 (DequeueingGauge w) [] = 0"
    proof (cases "r = None \<or> r = Some Panic")
      case True
      with run t False have "m' = (case res of None \<Rightarrow> m1 | Some x \<Rightarrow> dec (ActiveGauge w) [] m1)" "res = r"
        by (auto simp: metered_sched_Work_def deferred_def)
      with it show ?thesis by blast
    next
      case F: False
      then obtain d1 err where y: "r = Some (Ret (d1, err))" by (metis not_None_eq outcome.exhaust surj_pair)
      obtain m2 res2 where l: "metered_sched_loop w enqueue c evs d1 m1 = (m2, res2)" by fastforce
      have d: "(m', res) = deferred (\<lambda>r. dec (ActiveGauge w) []) (m2, res2)"
        using run t False y l by (simp add: metered_sched_Work_def)
      then have "m' = (case res of None \<Rightarrow> m2 | Some x \<Rightarrow> dec (ActiveGauge w) [] m2)" "res = res2"
        by (cases res2; simp add: deferred_def)+
      moreover note sched_loop_samples [OF dist l] it
      ultimately show ?thesis
        using y accounts_trans [of w ?m m1 m2] all_even_trans [of w ?m m1 m2] rise_trans [of ?m m2 _ _ m1] by auto
    qed
    then obtain m2 where m2: "m' = (case res of None \<Rightarrow> m2 | Some x \<Rightarrow> dec (ActiveGauge w) [] m2)"
      "accounts w ?m m2" "res \<noteq> None \<longrightarrow> all_even w ?m m2"
      "rise ?m m2 (ActiveGauge w) [] = 0" "rise ?m m2 (DequeueingGauge w) [] = 0" by blast
    show ?thesis
    proof (cases res)
      case None
      with m2 apart show ?thesis by (simp add: account_simps)
    next
      case (Some x)
      with m2 apart show ?thesis by (simp add: account_simps all_even_def)
    qed
  qed
  with erased run show ?thesis unfolding w_def by simp
qed

text \<open>
  A schedule is counted as processed before its transaction ends: when the commit fails the
  schedule is still due and will be processed again, but the counter has risen, and the counter of
  errors has not.
\<close>

theorem processed_without_commit:
  assumes "begin_err (sw_tx e) = None" "commit_err (sw_tx e) = Some x"
    "schedule_body (Enqueue p) c e d = (base, work, None)" "select_schedule e d = Some r"
  shows "\<exists>m'. metered_scheduleTask (schedule_worker_metrics cl) (Enqueue p) c e d m = (m', Ret (base, Some x)) \<and>
    schedules base = schedules d \<and>
    rise m m' (ProcessedCounter (schedule_worker_metrics cl)) (task_labels (task_queue r) (task_type r)) = 1 \<and>
    (\<forall>l. rise m m' (ProcessingErrorsCounter (schedule_worker_metrics cl)) l = 0)"
proof -
  let ?w = "schedule_worker_metrics cl"
  have dist: "distinct (schedule_worker_created ?w)"
    using distinct_names(4) [of cl] by (simp add: distinct_map)
  note apart = collectors_apart [OF waiting_apart(1) [OF dist]]
  obtain m' where b: "metered_schedule_body ?w (Enqueue p) c e d m = (m', base, work, None)"
    using snd_metered_body [of ?w "Enqueue p" c e d m] assms(3) by (metis prod.collapse)
  then have run: "metered_scheduleTask ?w (Enqueue p) c e d m = (m', Ret (base, Some x))"
    using assms(1,2) by (simp add: metered_scheduleTask_def)
  have m': "m' = observe (ProcessingDuration ?w) [] (inc (ProcessedCounter ?w) (task_labels (task_queue r) (task_type r))
      (observe (DequeueingDuration ?w) [] m))"
    using b assms(4) unfolding metered_schedule_body_def Let_def
    by (auto split: option.splits sum.splits prod.splits)
  have "schedules base = schedules d"
    using assms(3) by (cases rule: pgq.schedule_body_cases) simp_all
  with run m' apart show ?thesis by (simp add: rise_def)
qed

theorem processed_without_commit_witness:
  "let e = (snd (ex_round ''t1'' 10))\<lparr>sw_tx := tx_ok\<lparr>commit_err := Some (Ext ''gone'')\<rparr>\<rparr>; w = schedule_worker_metrics cl in
   \<exists>m' base. metered_scheduleTask w (Enqueue sample_pg) sample_cron e (ex_schedules []) m =
       (m', Ret (base, Some (Ext ''gone''))) \<and>
     rise m m' (ProcessedCounter w) (task_labels ''q'' ''mail'') = 1"
proof -
  let ?d = "ex_schedules []"
  let ?e = "(snd (ex_round ''t1'' 10))\<lparr>sw_tx := tx_ok\<lparr>commit_err := Some (Ext ''gone'')\<rparr>\<rparr>"
  have c: "begin_err (sw_tx ?e) = None" "commit_err (sw_tx ?e) = Some (Ext ''gone'')"
    "snd (snd (schedule_body (Enqueue sample_pg) sample_cron ?e ?d)) = None"
    "select_schedule ?e ?d = Some (hd (schedules ?d))"
    "task_queue (hd (schedules ?d)) = ''q''" "task_type (hd (schedules ?d)) = ''mail''"
    by code_simp+
  obtain base work where b: "schedule_body (Enqueue sample_pg) sample_cron ?e ?d = (base, work, None)"
    using c(3) by (metis prod.collapse)
  from processed_without_commit [OF c(1,2) b c(4), of cl m] c(5,6) show ?thesis
    unfolding Let_def by auto
qed

end
