(* ===== verification/Http_Metrics.thy ===== *)
theory Http_Metrics
  imports Metrics Http_Server
begin

section \<open>The registration of the HTTP metrics\<close>

text \<open>
  \<open>pkg/http/middlewares/metrics.go\<close>: \<open>WithMetrics\<close> creates three collectors for an application,
  takes the ones with the same names and labels out of the registry and registers its own. Two
  calls for one application create equal collectors that count apart, so a collector here has a
  serial number; the state is the next number with the registry of Prometheus, which is a
  parameter: it knows which collector it exports under an identifier, and replaces nothing by
  itself. How often a collector has been incremented or has observed a value is a \<open>tally\<close>.
\<close>

type_synonym numbered = "nat \<times> collector"
type_synonym tally = "numbered \<Rightarrow> (string \<times> string) list \<Rightarrow> nat"

record 'r exporter_registry =
  exp_register :: "numbered \<Rightarrow> 'r \<Rightarrow> 'r outcome"
  exp_unregister :: "collector \<Rightarrow> 'r \<Rightarrow> 'r"
  exp_holds :: "'r \<Rightarrow> collector_id \<Rightarrow> nat option"
  exp_dims :: "'r \<Rightarrow> string \<times> string \<times> string \<Rightarrow> dimension option"

text \<open>
  A collector is registered when its identifier is free and its help text and labels are those of
  its name (the names of applications and hosts, which are values of labels, are taken to be valid
  UTF-8, without which a descriptor is refused in any case); otherwise \<open>MustRegister\<close> panics. \<open>Unregister\<close> frees the identifier, whichever collector
  holds it, and the name keeps its help text and labels.
\<close>

definition exporter_ok :: "'r exporter_registry \<Rightarrow> bool" where
  "exporter_ok R \<longleftrightarrow>
     (\<forall>k c r. exp_holds R r (desc_id c) = None \<longrightarrow> exp_dims R r (full_name c) \<in> {None, Some (desc_dim c)} \<longrightarrow>
        (\<exists>r'. exp_register R (k, c) r = Ret r' \<and> exp_holds R r' = (exp_holds R r)(desc_id c \<mapsto> k) \<and>
          exp_dims R r' = (exp_dims R r)(full_name c \<mapsto> desc_dim c))) \<and>
     (\<forall>k c r. exp_holds R r (desc_id c) \<noteq> None \<or> exp_dims R r (full_name c) \<notin> {None, Some (desc_dim c)} \<longrightarrow>
        exp_register R (k, c) r = Panic) \<and>
     (\<forall>c r. exp_holds R (exp_unregister R c r) = (exp_holds R r)(desc_id c := None) \<and>
        exp_dims R (exp_unregister R c r) = exp_dims R r)"

subsection \<open>The option\<close>

definition httpDurationMsBuckets :: "nat list" where
  "httpDurationMsBuckets = [10, 50, 100, 200, 300, 500, 1000, 2000, 3000, 5000, 10000, 15000, 20000, 30000]"

definition sizeBytesBuckets :: "nat list" where
  "sizeBytesBuckets = map (\<lambda>i. 2 ^ i) [0..<23]"

definition request_labels :: "string list" where
  "request_labels = [''code'', ''method'', ''path'']"

definition requestDuration :: "const_labels \<Rightarrow> collector" where
  "requestDuration cl = vec
     \<lparr>Namespace = ''http'', Subsystem = ''request'', metric_name = ''duration_ms'',
      Help = ''The duration of a request in milliseconds by status, method, and path.'',
      Buckets = httpDurationMsBuckets, ConstLabels = cl\<rparr> request_labels"

definition requestCounter :: "const_labels \<Rightarrow> collector" where
  "requestCounter cl = vec
     \<lparr>Namespace = ''http'', Subsystem = ''request'', metric_name = ''total'',
      Help = ''Count of the requests by status, method, and path.'', Buckets = [], ConstLabels = cl\<rparr> request_labels"

definition responseSize :: "const_labels \<Rightarrow> collector" where
  "responseSize cl = vec
     \<lparr>Namespace = ''http'', Subsystem = ''response'', metric_name = ''size_bytes'',
      Help = ''The size of the response in bytes by status, method, and path.'',
      Buckets = sizeBytesBuckets, ConstLabels = cl\<rparr> request_labels"

record metricsOption =
  mo_app :: string
  mo_opNameFunc :: "http_request \<Rightarrow> string"
  mo_requestDuration :: numbered
  mo_requestCounter :: numbered
  mo_responseSize :: numbered

fun must_register :: "'r exporter_registry \<Rightarrow> numbered list \<Rightarrow> 'r \<Rightarrow> 'r outcome" where
  "must_register R [] r = Ret r"
| "must_register R (c # cs) r = (case exp_register R c r of Panic \<Rightarrow> Panic | Ret r \<Rightarrow> must_register R cs r)"

definition register_metrics ::
  "'r exporter_registry \<Rightarrow> string \<Rightarrow> (string \<Rightarrow> bool) \<Rightarrow> string \<Rightarrow> (http_request \<Rightarrow> string) option \<Rightarrow> nat \<times> 'r \<Rightarrow>
    (metricsOption \<times> nat \<times> 'r) outcome" where
  "register_metrics R host is_uuid app opName = (\<lambda>(n, r).
     (let f = WithMetrics is_uuid opName;
          cl = \<lparr>service_label = app, instance_label = host\<rparr>;
          r = exp_unregister R (requestDuration cl) r;
          r = exp_unregister R (requestCounter cl) r;
          r = exp_unregister R (responseSize cl) r
      in case must_register R [(n, requestDuration cl), (n, requestCounter cl), (n, responseSize cl)] r of
           Panic \<Rightarrow> Panic
         | Ret r \<Rightarrow> Ret (\<lparr>mo_app = app, mo_opNameFunc = f, mo_requestDuration = (n, requestDuration cl),
             mo_requestCounter = (n, requestCounter cl), mo_responseSize = (n, responseSize cl)\<rparr>, Suc n, r)))"

text \<open>The handler of an option. The deferred function records the request also when it panics.\<close>

definition bump :: "numbered \<Rightarrow> (string \<times> string) list \<Rightarrow> tally \<Rightarrow> tally" where
  "bump c l v = v(c := (v c)(l := Suc (v c l)))"

definition counting_WrapHandler ::
  "metricsOption \<Rightarrow> handler \<Rightarrow> http_request \<Rightarrow> tally \<Rightarrow> tally \<times> http_event list \<times> reply" where
  "counting_WrapHandler opt handler r v =
     (case handler r of (evs, rep) \<Rightarrow>
        (let l = [(''code'', nat_text (written rep)), (''method'', map to_lower (rq_Method r)), (''path'', mo_opNameFunc opt r)]
         in (bump (mo_responseSize opt) l (bump (mo_requestDuration opt) l (bump (mo_requestCounter opt) l v)), evs, rep)))"

subsection \<open>Several options in one program\<close>

fun register_options ::
  "'r exporter_registry \<Rightarrow> string \<Rightarrow> (string \<Rightarrow> bool) \<Rightarrow> (string \<times> (http_request \<Rightarrow> string) option) list \<Rightarrow> nat \<times> 'r \<Rightarrow>
    (metricsOption list \<times> nat \<times> 'r) outcome" where
  "register_options R host u [] s = Ret ([], s)"
| "register_options R host u ((app, f) # apps) s =
     (case register_metrics R host u app f s of
        Panic \<Rightarrow> Panic
      | Ret (opt, s) \<Rightarrow>
          (case register_options R host u apps s of Panic \<Rightarrow> Panic | Ret (opts, s) \<Rightarrow> Ret (opt # opts, s)))"

text \<open>The registry exports what the option counts.\<close>

definition exported :: "'r exporter_registry \<Rightarrow> 'r \<Rightarrow> metricsOption \<Rightarrow> bool" where
  "exported R r opt \<longleftrightarrow>
     list_all (\<lambda>(n, c). exp_holds R r (desc_id c) = Some n) [mo_requestDuration opt, mo_requestCounter opt, mo_responseSize opt]"

definition http_collectors :: "const_labels \<Rightarrow> collector list" where
  "http_collectors cl = [requestDuration cl, requestCounter cl, responseSize cl]"

lemmas http_collector_defs = requestDuration_def requestCounter_def responseSize_def vec_def desc_id_def full_name_def

text \<open>The names of the three collectors are free or have their help texts and labels.\<close>

definition http_names_ok :: "'r exporter_registry \<Rightarrow> 'r \<Rightarrow> bool" where
  "http_names_ok R r \<longleftrightarrow>
     (\<forall>cl. \<forall>c \<in> set (http_collectors cl). exp_dims R r (full_name c) \<in> {None, Some (desc_dim c)})"

lemma same_name_same_dim:
  "c \<in> set (http_collectors cl) \<Longrightarrow> c' \<in> set (http_collectors cl') \<Longrightarrow> full_name c = full_name c' \<Longrightarrow> desc_dim c = desc_dim c'"
  by (auto simp: http_collectors_def http_collector_defs desc_dim_def)

lemma http_ids:
  assumes "c \<in> set (http_collectors cl)" "c' \<in> set (http_collectors cl')" "desc_id c = desc_id c'"
  shows "cl = cl'"
  using assms by (auto simp: http_collectors_def http_collector_defs)

lemma must_register_ok:
  assumes R: "exporter_ok R" and "http_names_ok R r" "set (map snd ncs) \<subseteq> set (http_collectors cl)"
    "distinct (map (desc_id \<circ> snd) ncs)" "\<forall>(n, c) \<in> set ncs. exp_holds R r (desc_id c) = None"
  shows "\<exists>r'. must_register R ncs r = Ret r' \<and> http_names_ok R r' \<and>
    exp_holds R r' = exp_holds R r ++ map_of (map (\<lambda>(n, c). (desc_id c, n)) ncs)"
  using assms(2-)
proof (induction ncs arbitrary: r)
  case (Cons nc ncs)
  obtain n c where nc: "nc = (n, c)" by fastforce
  have c: "c \<in> set (http_collectors cl)" using Cons.prems(2) nc by simp
  have "exp_holds R r (desc_id c) = None" "exp_dims R r (full_name c) \<in> {None, Some (desc_dim c)}"
    using Cons.prems(1,4) c nc unfolding http_names_ok_def by (simp, blast)
  then obtain r1 where r1: "exp_register R (n, c) r = Ret r1" "exp_holds R r1 = (exp_holds R r)(desc_id c \<mapsto> n)"
    "exp_dims R r1 = (exp_dims R r)(full_name c \<mapsto> desc_dim c)"
    using R unfolding exporter_ok_def by meson
  have names: "http_names_ok R r1"
    unfolding http_names_ok_def
  proof (intro allI ballI)
    fix cl' c' assume c': "c' \<in> set (http_collectors cl')"
    show "exp_dims R r1 (full_name c') \<in> {None, Some (desc_dim c')}"
    proof (cases "full_name c' = full_name c")
      case True
      with same_name_same_dim [OF c' c] show ?thesis by (simp add: r1(3))
    next
      case False
      with Cons.prems(1) c' show ?thesis unfolding http_names_ok_def r1(3) by simp
    qed
  qed
  have "\<exists>r'. must_register R ncs r1 = Ret r' \<and> http_names_ok R r' \<and>
      exp_holds R r' = exp_holds R r1 ++ map_of (map (\<lambda>(n, c). (desc_id c, n)) ncs)"
  proof (rule Cons.IH [OF names])
    show "\<forall>(n, c) \<in> set ncs. exp_holds R r1 (desc_id c) = None"
      using Cons.prems(3,4) nc by (force simp: r1(2))
  qed (use Cons.prems(2,3) in simp_all)
  then obtain r' where r': "must_register R ncs r1 = Ret r'" "http_names_ok R r'"
    "exp_holds R r' = exp_holds R r1 ++ map_of (map (\<lambda>(n, c). (desc_id c, n)) ncs)" by blast
  have "desc_id c \<notin> fst ` set (map (\<lambda>(n, c). (desc_id c, n)) ncs)"
    using Cons.prems(3) nc by (auto simp: image_iff split_beta)
  then have fresh: "map_of (map (\<lambda>(n, c). (desc_id c, n)) ncs) (desc_id c) = None"
    by (simp add: map_of_eq_None_iff)
  have "exp_holds R r' x = (exp_holds R r ++ map_of (map (\<lambda>(n, c). (desc_id c, n)) (nc # ncs))) x" for x
    using fresh by (cases "x = desc_id c") (simp_all add: r'(3) nc r1(2) map_add_def split: option.split)
  then have "exp_holds R r' = exp_holds R r ++ map_of (map (\<lambda>(n, c). (desc_id c, n)) (nc # ncs))" by (rule ext)
  moreover have "must_register R (nc # ncs) r = Ret r'" using r'(1) r1(1) nc by simp
  ultimately show ?case using r'(2) by blast
qed simp

text \<open>One call: it succeeds, and the collectors of the application are the new ones.\<close>

lemma register_metrics_ok:
  assumes R: "exporter_ok R" and "http_names_ok R r"
  shows "\<exists>opt r'. register_metrics R host u app f (n, r) = Ret (opt, Suc n, r') \<and> http_names_ok R r' \<and> exported R r' opt \<and>
    mo_app opt = app \<and>
    set [mo_requestDuration opt, mo_requestCounter opt, mo_responseSize opt] =
      Pair n ` set (http_collectors \<lparr>service_label = app, instance_label = host\<rparr>) \<and>
    (\<forall>app' c. app' \<noteq> app \<longrightarrow> c \<in> set (http_collectors \<lparr>service_label = app', instance_label = host\<rparr>) \<longrightarrow>
       exp_holds R r' (desc_id c) = exp_holds R r (desc_id c))"
proof -
  let ?cl = "\<lparr>service_label = app, instance_label = host\<rparr>"
  let ?r = "exp_unregister R (responseSize ?cl) (exp_unregister R (requestCounter ?cl) (exp_unregister R (requestDuration ?cl) r))"
  let ?new = "[(n, requestDuration ?cl), (n, requestCounter ?cl), (n, responseSize ?cl)]"
  have un: "exp_holds R (exp_unregister R c r) = (exp_holds R r)(desc_id c := None)"
      "exp_dims R (exp_unregister R c r) = exp_dims R r" for c r
    using R by (simp_all add: exporter_ok_def)
  have "\<exists>r'. must_register R ?new ?r = Ret r' \<and> http_names_ok R r' \<and>
      exp_holds R r' = exp_holds R ?r ++ map_of (map (\<lambda>(n, c). (desc_id c, n)) ?new)"
  proof (rule must_register_ok [OF R, of _ _ ?cl])
    show "http_names_ok R ?r" using assms(2) by (simp add: http_names_ok_def un)
    show "distinct (map (desc_id \<circ> snd) ?new)" by (simp add: http_collector_defs)
  qed (simp_all add: http_collectors_def un)
  then obtain r' where r': "must_register R ?new ?r = Ret r'" "http_names_ok R r'"
    "exp_holds R r' = exp_holds R ?r ++ map_of (map (\<lambda>(n, c). (desc_id c, n)) ?new)" by blast
  have holds: "exp_holds R r' (desc_id c) = Some n" if "c \<in> set (http_collectors ?cl)" for c
    using that unfolding r'(3) by (auto simp: http_collectors_def map_add_def)
  have others: "exp_holds R r' (desc_id c) = exp_holds R r (desc_id c)"
    if "app' \<noteq> app" "c \<in> set (http_collectors \<lparr>service_label = app', instance_label = host\<rparr>)" for app' c
  proof -
    have "desc_id c \<noteq> desc_id c'" if "c' \<in> set (http_collectors ?cl)" for c'
      using http_ids [OF \<open>c \<in> _\<close> that] \<open>app' \<noteq> app\<close> by auto
    then have "desc_id c \<notin> {desc_id (requestDuration ?cl), desc_id (requestCounter ?cl), desc_id (responseSize ?cl)}"
      by (simp add: http_collectors_def)
    then show ?thesis unfolding r'(3) by (simp add: map_add_def un)
  qed
  let ?opt = "\<lparr>mo_app = app, mo_opNameFunc = WithMetrics u f, mo_requestDuration = (n, requestDuration ?cl),
    mo_requestCounter = (n, requestCounter ?cl), mo_responseSize = (n, responseSize ?cl)\<rparr>"
  have "register_metrics R host u app f (n, r) = Ret (?opt, Suc n, r')"
    using r'(1) by (simp add: register_metrics_def Let_def)
  moreover have "exported R r' ?opt" using holds by (simp add: exported_def http_collectors_def)
  moreover have "set [mo_requestDuration ?opt, mo_requestCounter ?opt, mo_responseSize ?opt] = Pair n ` set (http_collectors ?cl)"
    by (simp add: http_collectors_def)
  ultimately show ?thesis using r'(2) others by (intro exI [of _ ?opt] exI [of _ r']) simp
qed

text \<open>The collectors of an application after several calls are those of the last call for it.\<close>

lemma register_options_ok:
  assumes R: "exporter_ok R"
  shows "http_names_ok R r \<Longrightarrow>
    \<exists>opts n' r'. register_options R host u apps (n, r) = Ret (opts, n', r') \<and> map mo_app opts = map fst apps \<and>
    (\<forall>i < length apps. exported R r' (opts ! i) \<longleftrightarrow> fst (apps ! i) \<notin> set (map fst (drop (Suc i) apps))) \<and>
    (\<forall>app. \<forall>c \<in> set (http_collectors \<lparr>service_label = app, instance_label = host\<rparr>).
       (app \<notin> set (map fst apps) \<longrightarrow> exp_holds R r' (desc_id c) = exp_holds R r (desc_id c)) \<and>
       (app \<in> set (map fst apps) \<longrightarrow> (\<exists>k \<ge> n. exp_holds R r' (desc_id c) = Some k)))"
proof (induction apps arbitrary: n r)
  case Nil
  then show ?case by simp
next
  case (Cons a apps)
  obtain app f where a: "a = (app, f)" by fastforce
  let ?cs = "\<lambda>app. set (http_collectors \<lparr>service_label = app, instance_label = host\<rparr>)"
  obtain opt r1 where 1: "register_metrics R host u app f (n, r) = Ret (opt, Suc n, r1)" "http_names_ok R r1" "exported R r1 opt"
    "mo_app opt = app" "set [mo_requestDuration opt, mo_requestCounter opt, mo_responseSize opt] = Pair n ` ?cs app"
    "\<forall>app' c. app' \<noteq> app \<longrightarrow> c \<in> ?cs app' \<longrightarrow> exp_holds R r1 (desc_id c) = exp_holds R r (desc_id c)"
    using register_metrics_ok [OF R Cons.prems, of host u app f n] by blast
  obtain opts n' r' where 2: "register_options R host u apps (Suc n, r1) = Ret (opts, n', r')" "map mo_app opts = map fst apps"
    "\<forall>i < length apps. exported R r' (opts ! i) \<longleftrightarrow> fst (apps ! i) \<notin> set (map fst (drop (Suc i) apps))"
    "\<forall>app. \<forall>c \<in> ?cs app.
       (app \<notin> set (map fst apps) \<longrightarrow> exp_holds R r' (desc_id c) = exp_holds R r1 (desc_id c)) \<and>
       (app \<in> set (map fst apps) \<longrightarrow> (\<exists>k \<ge> Suc n. exp_holds R r' (desc_id c) = Some k))"
    using Cons.IH [OF 1(2), of "Suc n"] by blast
  have exp: "exported R r'' opt \<longleftrightarrow> (\<forall>c \<in> ?cs app. exp_holds R r'' (desc_id c) = Some n)" for r''
  proof -
    have "exported R r'' opt \<longleftrightarrow>
        (\<forall>(k, c) \<in> set [mo_requestDuration opt, mo_requestCounter opt, mo_responseSize opt]. exp_holds R r'' (desc_id c) = Some k)"
      by (simp only: exported_def list_all_iff)
    then show ?thesis unfolding 1(5) by simp
  qed
  have first: "exported R r' opt \<longleftrightarrow> app \<notin> set (map fst apps)"
  proof (cases "app \<in> set (map fst apps)")
    case True
    have "requestCounter \<lparr>service_label = app, instance_label = host\<rparr> \<in> ?cs app" by (simp add: http_collectors_def)
    with 2(4) True obtain k where "k \<ge> Suc n"
      "exp_holds R r' (desc_id (requestCounter \<lparr>service_label = app, instance_label = host\<rparr>)) = Some k" by blast
    with True exp [of r'] show ?thesis by (auto simp: http_collectors_def)
  next
    case False
    with 2(4) 1(3) exp show ?thesis by simp
  qed
  have all: "\<forall>i < length (a # apps). exported R r' ((opt # opts) ! i) \<longleftrightarrow> fst ((a # apps) ! i) \<notin> set (map fst (drop (Suc i) (a # apps)))"
  proof (intro allI impI)
    fix i assume "i < length (a # apps)"
    then show "exported R r' ((opt # opts) ! i) \<longleftrightarrow> fst ((a # apps) ! i) \<notin> set (map fst (drop (Suc i) (a # apps)))"
      using first 2(3) by (cases i) (simp_all add: a)
  qed
  have frame: "(app' \<notin> set (map fst (a # apps)) \<longrightarrow> exp_holds R r' (desc_id c) = exp_holds R r (desc_id c)) \<and>
      (app' \<in> set (map fst (a # apps)) \<longrightarrow> (\<exists>k \<ge> n. exp_holds R r' (desc_id c) = Some k))" if "c \<in> ?cs app'" for app' c
  proof (cases "app' \<in> set (map fst apps)")
    case True
    with 2(4) that obtain k where "k \<ge> Suc n" "exp_holds R r' (desc_id c) = Some k" by blast
    then show ?thesis using True by (auto intro: exI [of _ k])
  next
    case False
    with 2(4) that have "exp_holds R r' (desc_id c) = exp_holds R r1 (desc_id c)" by blast
    with 1(3,6) exp that False a show ?thesis by (cases "app' = app") auto
  qed
  have "register_options R host u (a # apps) (n, r) = Ret (opt # opts, n', r')" using 1(1) 2(1) a by simp
  moreover have "map mo_app (opt # opts) = map fst (a # apps)" using 1(4) 2(2) a by simp
  ultimately show ?case using all frame by blast
qed

text \<open>
  C37: The HTTP metrics of a program that creates any number of options, for any applications in
  any order. No call panics, as every one first takes the collectors of its application out of the
  registry. At the end the registry exports the collectors of exactly those options after which
  no other was created for the same application: a second option for an application silently
  disconnects the first one, whose requests are still counted, in collectors that nobody exports.
\<close>

theorem last_option_is_exported:
  assumes "exporter_ok R" "http_names_ok R r"
  shows "\<exists>opts n' r'. register_options R host u apps (n, r) = Ret (opts, n', r') \<and> map mo_app opts = map fst apps \<and>
    (\<forall>i < length apps. exported R r' (opts ! i) \<longleftrightarrow> fst (apps ! i) \<notin> set (map fst (drop (Suc i) apps)))"
  using register_options_ok [OF assms, of host u apps n] by blast

text \<open>A registry as the two maps.\<close>

definition sample_exporter ::
  "((collector_id \<Rightarrow> nat option) \<times> (string \<times> string \<times> string \<Rightarrow> dimension option)) exporter_registry" where
  "sample_exporter =
     \<lparr>exp_register = (\<lambda>(k, c) (ids, dims).
        if ids (desc_id c) \<noteq> None \<or> dims (full_name c) \<notin> {None, Some (desc_dim c)} then Panic
        else Ret (ids(desc_id c \<mapsto> k), dims(full_name c \<mapsto> desc_dim c))),
      exp_unregister = (\<lambda>c (ids, dims). (ids(desc_id c := None), dims)), exp_holds = fst, exp_dims = snd\<rparr>"

lemma sample_exporter_ok: "exporter_ok sample_exporter"
  by (auto simp: exporter_ok_def sample_exporter_def)

theorem last_option_is_exported_witness:
  "\<exists>opts n' r'. register_options sample_exporter ''host'' (\<lambda>s. False) [(''a'', None), (''b'', None), (''a'', None)] (0, Map.empty, Map.empty) =
      Ret (opts, n', r') \<and> \<not> exported sample_exporter r' (opts ! 0) \<and> exported sample_exporter r' (opts ! 1) \<and>
    exported sample_exporter r' (opts ! 2)"
proof -
  have names: "http_names_ok sample_exporter (Map.empty, Map.empty)"
    by (simp add: http_names_ok_def sample_exporter_def)
  obtain opts n' r' where run: "register_options sample_exporter ''host'' (\<lambda>s. False) [(''a'', None), (''b'', None), (''a'', None)]
      (0, Map.empty, Map.empty) = Ret (opts, n', r')" and
    exp: "\<forall>i < length [(''a'', None :: (http_request \<Rightarrow> string) option), (''b'', None), (''a'', None)].
      exported sample_exporter r' (opts ! i) \<longleftrightarrow>
        fst ([(''a'', None :: (http_request \<Rightarrow> string) option), (''b'', None), (''a'', None)] ! i) \<notin>
        set (map fst (drop (Suc i) [(''a'', None :: (http_request \<Rightarrow> string) option), (''b'', None), (''a'', None)]))"
    using last_option_is_exported [OF sample_exporter_ok names] by blast
  from run exp [rule_format, of 0] exp [rule_format, of 1] exp [rule_format, of 2] show ?thesis by simp
qed

text \<open>A request is recorded once, in the collectors of its option, under its status, method and path.\<close>

lemma request_counted_once:
  assumes "distinct [mo_requestDuration opt, mo_requestCounter opt, mo_responseSize opt]"
    "counting_WrapHandler opt handler r v = (v', evs, rep)"
  shows "(evs, rep) = handler r"
    "v' c l = v c l + (if c \<in> {mo_requestDuration opt, mo_requestCounter opt, mo_responseSize opt} \<and>
      l = [(''code'', nat_text (written rep)), (''method'', map to_lower (rq_Method r)), (''path'', mo_opNameFunc opt r)]
     then 1 else 0)"
  using assms by (auto simp: counting_WrapHandler_def bump_def Let_def split: prod.splits)

end
