(* ===== verification/Claims_Jwt.thy ===== *)
theory Claims_Jwt
  imports Claims_Json Tokens "HOL-Library.Multiset"
begin

section \<open>Claims as JSON and as a JSON Web Token\<close>

text \<open>
  The conversions of \<open>claims.go\<close> in \<open>pkg/http/middlewares/authorization\<close> and \<open>parseClaims\<close> of the
  middleware. The claims of a token are a map from names to JSON values; a map is an association
  list here. Encoding and decoding follow \<open>encoding/json\<close>: the names of the fields and their order
  are those of the struct tags, decoding takes the names of a map in order, matches them with the
  fields without regard to ASCII case, leaves a field alone for a null, reports the first value of
  a wrong type at the end and stops at an error of a time stamp. A number that is decoded into an
  interface becomes a floating point number; \<open>through_float\<close> is what an integer becomes when it is
  encoded again, a parameter. A nil slice is not distinguished from an empty one.
\<close>

definition string_list :: "string list \<Rightarrow> json" where
  "string_list xs = JArr (map JStr xs)"

text \<open>The names of the struct tags.\<close>

definition claims_fields :: "claims \<Rightarrow> (string \<times> json) list" where
  "claims_fields a =
     [(''id'', JStr (cl_ID a)), (''iss'', JStr (cl_Issuer a)), (''iat'', JNum (unix_seconds (cl_IssuedAt a))),
      (''nbf'', JNum (unix_seconds (cl_NotBefore a))), (''exp'', JNum (unix_seconds (cl_Expires a)))] @
     omitempty ''aud'' (cl_Audience a) @
     [(''sub'', JStr (cl_UserID a)), (''name'', JStr (cl_UserName a)), (''email'', JStr (cl_Email a)),
      (''tenantID'', JStr (cl_TenantID a)), (''realmIDs'', string_list (cl_RealmIDs a)),
      (''groupIDs'', string_list (cl_GroupIDs a)), (''allowedIPs'', string_list (cl_AllowedIPs a)),
      (''isTenantAdmin'', JBool (cl_IsTenantAdmin a)), (''adminRealmIDs'', string_list (cl_AdminRealmIDs a)),
      (''amr'', string_list (cl_AuthenticationMethodReferences a))] @
     omitempty ''azp'' (cl_AuthorizedParty a)"

text \<open>\<open>DataStoreClaims\<close>, and the claims with zero values.\<close>

definition zero_claims :: claims where
  "zero_claims = \<lparr>cl_ID = [], cl_Issuer = [], cl_IssuedAt = zero_time, cl_NotBefore = zero_time, cl_Expires = zero_time,
     cl_Audience = [], cl_UserID = [], cl_UserName = [], cl_Email = [], cl_TenantID = [], cl_RealmIDs = [],
     cl_GroupIDs = [], cl_AllowedIPs = [], cl_IsTenantAdmin = False, cl_AdminRealmIDs = [],
     cl_AuthenticationMethodReferences = [], cl_AuthorizedParty = [], cl_SourceToken = []\<rparr>"

definition DataStoreClaims :: claims where
  "DataStoreClaims = zero_claims\<lparr>cl_UserID := nil_uuid, cl_UserName := ''datastore''\<rparr>"

subsection \<open>Decoding\<close>

text \<open>A value of a wrong type is remembered, an error of a time stamp ends the decoding.\<close>

datatype decoded = Decoded claims | Mismatch claims error | Stopped claims error

definition type_error :: "json \<Rightarrow> error" where
  "type_error v = New (''json: cannot unmarshal '' @ Marshal v)"

definition decode_string :: "json \<Rightarrow> (string \<Rightarrow> claims) \<Rightarrow> claims \<Rightarrow> decoded" where
  "decode_string v set_field a =
     (case v of JStr s \<Rightarrow> Decoded (set_field s) | JNull \<Rightarrow> Decoded a | _ \<Rightarrow> Mismatch a (type_error v))"

definition decode_bool :: "json \<Rightarrow> (bool \<Rightarrow> claims) \<Rightarrow> claims \<Rightarrow> decoded" where
  "decode_bool v set_field a =
     (case v of JBool b \<Rightarrow> Decoded (set_field b) | JNull \<Rightarrow> Decoded a | _ \<Rightarrow> Mismatch a (type_error v))"

fun decode_element :: "json \<Rightarrow> string" where
  "decode_element (JStr s) = s"
| "decode_element _ = []"

definition bad_elements :: "json list \<Rightarrow> json list" where
  "bad_elements = filter (\<lambda>v. case v of JStr s \<Rightarrow> False | JNull \<Rightarrow> False | _ \<Rightarrow> True)"

definition decode_strings :: "json \<Rightarrow> (string list \<Rightarrow> claims) \<Rightarrow> claims \<Rightarrow> decoded" where
  "decode_strings v set_field a =
     (case v of
        JArr vs \<Rightarrow>
          (let b = set_field (map decode_element vs)
           in case bad_elements vs of [] \<Rightarrow> Decoded b | bad # _ \<Rightarrow> Mismatch b (type_error bad))
      | JNull \<Rightarrow> Decoded (set_field [])
      | _ \<Rightarrow> Mismatch a (type_error v))"

definition decode_time :: "time_codec \<Rightarrow> json \<Rightarrow> (time \<Rightarrow> claims) \<Rightarrow> time \<Rightarrow> decoded" where
  "decode_time c v set_field old =
     (case Timestamp_UnmarshalJSON c (Marshal v) old of
        (t, None) \<Rightarrow> Decoded (set_field t) | (t, Some err) \<Rightarrow> Stopped (set_field t) err)"

definition decode_field :: "time_codec \<Rightarrow> string \<Rightarrow> json \<Rightarrow> claims \<Rightarrow> decoded" where
  "decode_field c key v a =
     (let is = (\<lambda>name. map to_lower key = name) in
      if is ''id'' then decode_string v (\<lambda>x. a\<lparr>cl_ID := x\<rparr>) a
      else if is ''iss'' then decode_string v (\<lambda>x. a\<lparr>cl_Issuer := x\<rparr>) a
      else if is ''iat'' then decode_time c v (\<lambda>x. a\<lparr>cl_IssuedAt := x\<rparr>) (cl_IssuedAt a)
      else if is ''nbf'' then decode_time c v (\<lambda>x. a\<lparr>cl_NotBefore := x\<rparr>) (cl_NotBefore a)
      else if is ''exp'' then decode_time c v (\<lambda>x. a\<lparr>cl_Expires := x\<rparr>) (cl_Expires a)
      else if is ''aud'' then decode_string v (\<lambda>x. a\<lparr>cl_Audience := x\<rparr>) a
      else if is ''sub'' then decode_string v (\<lambda>x. a\<lparr>cl_UserID := x\<rparr>) a
      else if is ''name'' then decode_string v (\<lambda>x. a\<lparr>cl_UserName := x\<rparr>) a
      else if is ''email'' then decode_string v (\<lambda>x. a\<lparr>cl_Email := x\<rparr>) a
      else if is ''tenantid'' then decode_string v (\<lambda>x. a\<lparr>cl_TenantID := x\<rparr>) a
      else if is ''realmids'' then decode_strings v (\<lambda>x. a\<lparr>cl_RealmIDs := x\<rparr>) a
      else if is ''groupids'' then decode_strings v (\<lambda>x. a\<lparr>cl_GroupIDs := x\<rparr>) a
      else if is ''allowedips'' then decode_strings v (\<lambda>x. a\<lparr>cl_AllowedIPs := x\<rparr>) a
      else if is ''istenantadmin'' then decode_bool v (\<lambda>x. a\<lparr>cl_IsTenantAdmin := x\<rparr>) a
      else if is ''adminrealmids'' then decode_strings v (\<lambda>x. a\<lparr>cl_AdminRealmIDs := x\<rparr>) a
      else if is ''amr'' then decode_strings v (\<lambda>x. a\<lparr>cl_AuthenticationMethodReferences := x\<rparr>) a
      else if is ''azp'' then decode_string v (\<lambda>x. a\<lparr>cl_AuthorizedParty := x\<rparr>) a
      else Decoded a)"

fun decode_fields :: "time_codec \<Rightarrow> (string \<times> json) list \<Rightarrow> claims \<Rightarrow> error option \<Rightarrow> claims \<times> error option" where
  "decode_fields c [] a saved = (a, saved)"
| "decode_fields c ((k, v) # kvs) a saved =
     (case decode_field c k v a of
        Decoded a \<Rightarrow> decode_fields c kvs a saved
      | Mismatch a err \<Rightarrow> decode_fields c kvs a (case saved of None \<Rightarrow> Some err | Some e \<Rightarrow> Some e)
      | Stopped a err \<Rightarrow> (a, Some err))"

definition FromClaimsMap :: "time_codec \<Rightarrow> claims \<Rightarrow> (string \<times> json) list \<Rightarrow> claims \<times> error option" where
  "FromClaimsMap c a kvs = decode_fields c (sort_key fst kvs) a None"

text \<open>\<open>parseClaims\<close> decodes the map of the token into new claims.\<close>

definition parseClaimsMap :: "time_codec \<Rightarrow> (string \<times> json) list \<Rightarrow> error + claims" where
  "parseClaimsMap c kvs =
     (case FromClaimsMap c zero_claims kvs of (a, None) \<Rightarrow> Inr a | (a, Some err) \<Rightarrow> Inl err)"

subsection \<open>Encoding\<close>

fun as_interface :: "(int \<Rightarrow> int) \<Rightarrow> json \<Rightarrow> json" where
  "as_interface through_float (JNum i) = JNum (through_float i)"
| "as_interface through_float v = v"

definition ToClaims :: "(int \<Rightarrow> int) \<Rightarrow> claims \<Rightarrow> (string \<times> json) list" where
  "ToClaims through_float a = map (\<lambda>(k, v). (k, as_interface through_float v)) (claims_fields a)"

text \<open>\<open>CreateToken\<close> of \<open>github.com/contiamo/jwt\<close> is a parameter.\<close>

definition ToJWT ::
  "((string \<times> json) list \<Rightarrow> 'k \<Rightarrow> error + string) \<Rightarrow> (int \<Rightarrow> int) \<Rightarrow> claims \<Rightarrow> 'k \<Rightarrow> error + string" where
  "ToJWT CreateToken through_float a privateKey = CreateToken (ToClaims through_float a) privateKey"

definition float_ok :: "(int \<Rightarrow> int) \<Rightarrow> bool" where
  "float_ok through_float \<longleftrightarrow> (\<forall>i. - (2 ^ 53) \<le> i \<longrightarrow> i \<le> 2 ^ 53 \<longrightarrow> through_float i = i)"

subsection \<open>The round trip\<close>

lemma decode_strings_list [simp]: "decode_strings (string_list xs) set_field a = Decoded (set_field xs)"
proof -
  have "bad_elements (map JStr xs) = []" by (simp add: bad_elements_def filter_empty_conv)
  moreover have "map decode_element (map JStr xs) = xs" by (simp add: comp_def)
  ultimately show ?thesis by (simp add: decode_strings_def string_list_def)
qed

lemma decode_string_str [simp]: "decode_string (JStr s) set_field a = Decoded (set_field s)"
  by (simp add: decode_string_def)

lemma decode_bool_bool [simp]: "decode_bool (JBool b) set_field a = Decoded (set_field b)"
  by (simp add: decode_bool_def)

lemma decode_time_num:
  assumes "codec_ok c" "- (2 ^ 63) \<le> i" "i < 2 ^ 63"
  shows "decode_time c (JNum i) set_field old = Decoded (set_field (i * 1000000000))"
  using assms int_text_plain [of i] int_text_parse [OF assms(2,3)]
  by (simp add: decode_time_def Timestamp_UnmarshalJSON_def codec_ok_def)

definition exact_time :: "time \<Rightarrow> bool" where
  "exact_time t \<longleftrightarrow> - (2 ^ 53) \<le> unix_seconds t \<and> unix_seconds t \<le> 2 ^ 53"

text \<open>The fields in the order of their names.\<close>

definition sorted_fields :: "claims \<Rightarrow> (string \<times> json) list" where
  "sorted_fields a =
     [(''adminRealmIDs'', string_list (cl_AdminRealmIDs a)), (''allowedIPs'', string_list (cl_AllowedIPs a)),
      (''amr'', string_list (cl_AuthenticationMethodReferences a))] @
     omitempty ''aud'' (cl_Audience a) @ omitempty ''azp'' (cl_AuthorizedParty a) @
     [(''email'', JStr (cl_Email a)), (''exp'', JNum (unix_seconds (cl_Expires a))),
      (''groupIDs'', string_list (cl_GroupIDs a)), (''iat'', JNum (unix_seconds (cl_IssuedAt a))), (''id'', JStr (cl_ID a)),
      (''isTenantAdmin'', JBool (cl_IsTenantAdmin a)), (''iss'', JStr (cl_Issuer a)), (''name'', JStr (cl_UserName a)),
      (''nbf'', JNum (unix_seconds (cl_NotBefore a))), (''realmIDs'', string_list (cl_RealmIDs a)),
      (''sub'', JStr (cl_UserID a)), (''tenantID'', JStr (cl_TenantID a))]"

lemma ToClaims_exact:
  assumes "float_ok tf" "exact_time (cl_IssuedAt a)" "exact_time (cl_NotBefore a)" "exact_time (cl_Expires a)"
  shows "ToClaims tf a = claims_fields a"
  using assms by (simp add: ToClaims_def claims_fields_def omitempty_def string_list_def float_ok_def exact_time_def)

lemma keys_sorted:
  "sorted [''adminRealmIDs'', ''allowedIPs'', ''amr'', ''aud'', ''azp'', ''email'', ''exp'', ''groupIDs'', ''iat'', ''id'',
     ''isTenantAdmin'', ''iss'', ''name'', ''nbf'', ''realmIDs'', ''sub'', ''tenantID'']"
  "sorted [''adminRealmIDs'', ''allowedIPs'', ''amr'', ''azp'', ''email'', ''exp'', ''groupIDs'', ''iat'', ''id'',
     ''isTenantAdmin'', ''iss'', ''name'', ''nbf'', ''realmIDs'', ''sub'', ''tenantID'']"
  "sorted [''adminRealmIDs'', ''allowedIPs'', ''amr'', ''aud'', ''email'', ''exp'', ''groupIDs'', ''iat'', ''id'',
     ''isTenantAdmin'', ''iss'', ''name'', ''nbf'', ''realmIDs'', ''sub'', ''tenantID'']"
  "sorted [''adminRealmIDs'', ''allowedIPs'', ''amr'', ''email'', ''exp'', ''groupIDs'', ''iat'', ''id'',
     ''isTenantAdmin'', ''iss'', ''name'', ''nbf'', ''realmIDs'', ''sub'', ''tenantID'']"
  by code_simp+

lemma sort_claims_fields: "sort_key fst (claims_fields a) = sorted_fields a"
proof (rule sort_key_inj_key_eq)
  show "mset (claims_fields a) = mset (sorted_fields a)"
    by (simp add: claims_fields_def sorted_fields_def)
  have "distinct (map fst (sorted_fields a))"
    by (simp add: sorted_fields_def omitempty_def)
  then have "inj_on fst (set (sorted_fields a))" by (simp add: distinct_map)
  moreover have "set (claims_fields a) = set (sorted_fields a)"
    by (auto simp: claims_fields_def sorted_fields_def)
  ultimately show "inj_on fst (set (claims_fields a))" by simp
  show "sorted (map fst (sorted_fields a))"
  proof (cases "cl_Audience a = []"; cases "cl_AuthorizedParty a = []")
  qed (simp_all only: sorted_fields_def omitempty_def if_True if_False list.map append.simps fst_conv not_True_eq_False not_False_eq_True keys_sorted simp_thms)
qed

lemma lower_keys [simp]:
  "map to_lower ''adminRealmIDs'' = ''adminrealmids''" "map to_lower ''allowedIPs'' = ''allowedips''"
  "map to_lower ''amr'' = ''amr''" "map to_lower ''aud'' = ''aud''" "map to_lower ''azp'' = ''azp''"
  "map to_lower ''email'' = ''email''" "map to_lower ''exp'' = ''exp''" "map to_lower ''groupIDs'' = ''groupids''"
  "map to_lower ''iat'' = ''iat''" "map to_lower ''id'' = ''id''" "map to_lower ''isTenantAdmin'' = ''istenantadmin''"
  "map to_lower ''iss'' = ''iss''" "map to_lower ''name'' = ''name''" "map to_lower ''nbf'' = ''nbf''"
  "map to_lower ''realmIDs'' = ''realmids''" "map to_lower ''sub'' = ''sub''" "map to_lower ''tenantID'' = ''tenantid''"
  by code_simp+

text \<open>The claims of a token decoded over claims that are there already.\<close>

definition decoded_over :: "claims \<Rightarrow> claims \<Rightarrow> claims" where
  "decoded_over old a = (json_claims a)\<lparr>
     cl_Audience := (if cl_Audience a = [] then cl_Audience old else cl_Audience a),
     cl_AuthorizedParty := (if cl_AuthorizedParty a = [] then cl_AuthorizedParty old else cl_AuthorizedParty a),
     cl_SourceToken := cl_SourceToken old\<rparr>"

lemma exact_range:
  assumes "exact_time t"
  shows "- (2 ^ 63) \<le> unix_seconds t" "unix_seconds t < 2 ^ 63"
  using assms by (simp_all add: exact_time_def)

lemma decode_field_simps:
  "decode_field c ''adminRealmIDs'' v a = decode_strings v (\<lambda>x. a\<lparr>cl_AdminRealmIDs := x\<rparr>) a"
  "decode_field c ''allowedIPs'' v a = decode_strings v (\<lambda>x. a\<lparr>cl_AllowedIPs := x\<rparr>) a"
  "decode_field c ''amr'' v a = decode_strings v (\<lambda>x. a\<lparr>cl_AuthenticationMethodReferences := x\<rparr>) a"
  "decode_field c ''aud'' v a = decode_string v (\<lambda>x. a\<lparr>cl_Audience := x\<rparr>) a"
  "decode_field c ''azp'' v a = decode_string v (\<lambda>x. a\<lparr>cl_AuthorizedParty := x\<rparr>) a"
  "decode_field c ''email'' v a = decode_string v (\<lambda>x. a\<lparr>cl_Email := x\<rparr>) a"
  "decode_field c ''exp'' v a = decode_time c v (\<lambda>x. a\<lparr>cl_Expires := x\<rparr>) (cl_Expires a)"
  "decode_field c ''groupIDs'' v a = decode_strings v (\<lambda>x. a\<lparr>cl_GroupIDs := x\<rparr>) a"
  "decode_field c ''iat'' v a = decode_time c v (\<lambda>x. a\<lparr>cl_IssuedAt := x\<rparr>) (cl_IssuedAt a)"
  "decode_field c ''id'' v a = decode_string v (\<lambda>x. a\<lparr>cl_ID := x\<rparr>) a"
  "decode_field c ''isTenantAdmin'' v a = decode_bool v (\<lambda>x. a\<lparr>cl_IsTenantAdmin := x\<rparr>) a"
  "decode_field c ''iss'' v a = decode_string v (\<lambda>x. a\<lparr>cl_Issuer := x\<rparr>) a"
  "decode_field c ''name'' v a = decode_string v (\<lambda>x. a\<lparr>cl_UserName := x\<rparr>) a"
  "decode_field c ''nbf'' v a = decode_time c v (\<lambda>x. a\<lparr>cl_NotBefore := x\<rparr>) (cl_NotBefore a)"
  "decode_field c ''realmIDs'' v a = decode_strings v (\<lambda>x. a\<lparr>cl_RealmIDs := x\<rparr>) a"
  "decode_field c ''sub'' v a = decode_string v (\<lambda>x. a\<lparr>cl_UserID := x\<rparr>) a"
  "decode_field c ''tenantID'' v a = decode_string v (\<lambda>x. a\<lparr>cl_TenantID := x\<rparr>) a"
  unfolding decode_field_def Let_def lower_keys by simp_all

lemma decode_sorted_fields:
  assumes "codec_ok c" "exact_time (cl_IssuedAt a)" "exact_time (cl_NotBefore a)" "exact_time (cl_Expires a)"
  shows "decode_fields c (sorted_fields a) old None = (decoded_over old a, None)"
proof -
  note t = decode_time_num [OF assms(1) exact_range [OF assms(2)]]
    decode_time_num [OF assms(1) exact_range [OF assms(3)]] decode_time_num [OF assms(1) exact_range [OF assms(4)]]
  note steps = decode_field_simps t decode_string_str decode_bool_bool decode_strings_list decode_fields.simps decoded.case
  let ?b1 = "old\<lparr>cl_AdminRealmIDs := cl_AdminRealmIDs a, cl_AllowedIPs := cl_AllowedIPs a,
    cl_AuthenticationMethodReferences := cl_AuthenticationMethodReferences a\<rparr>"
  let ?aud = "if cl_Audience a = [] then cl_Audience old else cl_Audience a"
  let ?azp = "if cl_AuthorizedParty a = [] then cl_AuthorizedParty old else cl_AuthorizedParty a"
  have middle: "decode_fields c (omitempty ''aud'' (cl_Audience a) @ omitempty ''azp'' (cl_AuthorizedParty a) @ rest) ?b1 None =
      decode_fields c rest (?b1\<lparr>cl_Audience := ?aud, cl_AuthorizedParty := ?azp\<rparr>) None" for rest
    by (cases "cl_Audience a = []"; cases "cl_AuthorizedParty a = []") (simp_all add: omitempty_def steps)
  have tail: "decode_fields c (drop 3 (sorted_fields (a\<lparr>cl_Audience := [], cl_AuthorizedParty := []\<rparr>))) b None =
      (b\<lparr>cl_Email := cl_Email a, cl_Expires := json_time (cl_Expires a), cl_GroupIDs := cl_GroupIDs a,
        cl_IssuedAt := json_time (cl_IssuedAt a), cl_ID := cl_ID a, cl_IsTenantAdmin := cl_IsTenantAdmin a,
        cl_Issuer := cl_Issuer a, cl_UserName := cl_UserName a, cl_NotBefore := json_time (cl_NotBefore a),
        cl_RealmIDs := cl_RealmIDs a, cl_UserID := cl_UserID a, cl_TenantID := cl_TenantID a\<rparr>, None)" for b
    by (simp add: sorted_fields_def omitempty_def steps json_time_def)
  have start: "decode_fields c (sorted_fields a) old None =
      decode_fields c (omitempty ''aud'' (cl_Audience a) @ omitempty ''azp'' (cl_AuthorizedParty a) @
        drop 3 (sorted_fields (a\<lparr>cl_Audience := [], cl_AuthorizedParty := []\<rparr>))) ?b1 None"
    by (simp add: sorted_fields_def omitempty_def steps)
  show ?thesis
    unfolding start middle tail prod.inject
    by (rule conjI [OF claims.equality refl]) (simp_all add: decoded_over_def json_claims_def)
qed

lemma claims_map_roundtrip:
  assumes "codec_ok c" "float_ok tf" "exact_time (cl_IssuedAt a)" "exact_time (cl_NotBefore a)" "exact_time (cl_Expires a)"
  shows "FromClaimsMap c old (ToClaims tf a) = (decoded_over old a, None)"
    "parseClaimsMap c (ToClaims tf a) = Inr (json_claims a)"
proof -
  show "FromClaimsMap c old (ToClaims tf a) = (decoded_over old a, None)" for old
    unfolding FromClaimsMap_def ToClaims_exact [OF assms(2-5)] sort_claims_fields
    by (rule decode_sorted_fields [OF assms(1,3-5)])
  moreover have "decoded_over zero_claims a = json_claims a"
    by (simp add: decoded_over_def zero_claims_def json_claims_def)
  ultimately show "parseClaimsMap c (ToClaims tf a) = Inr (json_claims a)" by (simp add: parseClaimsMap_def)
qed

text \<open>
  C27: Claims through a token. The map that \<open>ToClaims\<close> makes, decoded into claims that are there
  already, gives back every field, with the times cut to whole seconds; an audience and an
  authorized party that are empty are left out of the map, so the old ones stay, and so does the
  source of the old token. The middleware decodes into new claims and gets the claims that were
  signed. The times must be within 2 to the power of 53 seconds, as the map holds floating point
  numbers.
\<close>

theorem claims_through_map:
  assumes "codec_ok c" "float_ok tf" "exact_time (cl_IssuedAt a)" "exact_time (cl_NotBefore a)" "exact_time (cl_Expires a)"
  shows "FromClaimsMap c old (ToClaims tf a) = (decoded_over old a, None) \<and>
    parseClaimsMap c (ToClaims tf a) = Inr (json_claims a)"
  by (intro conjI claims_map_roundtrip assms)

theorem claims_through_map_witness:
  "parseClaimsMap sample_codec (ToClaims id DataStoreClaims) = Inr (json_claims DataStoreClaims) \<and>
   FromClaimsMap sample_codec (zero_claims\<lparr>cl_AuthorizedParty := ''hub''\<rparr>) (ToClaims id DataStoreClaims) =
     ((json_claims DataStoreClaims)\<lparr>cl_AuthorizedParty := ''hub''\<rparr>, None)"
proof -
  have f: "float_ok id" by (simp add: float_ok_def)
  have e: "exact_time (cl_IssuedAt DataStoreClaims)" "exact_time (cl_NotBefore DataStoreClaims)" "exact_time (cl_Expires DataStoreClaims)"
    by (simp_all add: exact_time_def DataStoreClaims_def zero_claims_def zero_time_def unix_seconds_def)
  show ?thesis using claims_through_map [OF sample_codec_ok f e]
    by (simp add: decoded_over_def) (simp add: DataStoreClaims_def zero_claims_def json_claims_def)
qed

end
