(* ===== verification/End_To_End.thy ===== *)
theory End_To_End
  imports Worker_Metrics Handlers Retention Claims_Jwt
begin

section \<open>Components together\<close>

text \<open>
  What the parts of the program give together: a schedule that is due ends as a finished task, a
  retention schedule ends in the execution of its statement, and a token that one service creates
  is admitted by the middleware of another.
\<close>

subsection \<open>What a worker leaves alone\<close>

text \<open>A property that the calls for a task keep is kept by the whole handling of the task.\<close>

lemma processHeartbeats_keeps:
  assumes "\<And>e b s. P s \<Longrightarrow> P (fst (dq_Heartbeat dq e i b s))"
  shows "P s \<Longrightarrow> processHeartbeats dq i l beats evs s = Some (s', r) \<Longrightarrow> P s'"
  using assms
proof (induction dq i l beats evs s rule: processHeartbeats.induct)
  case (5 dq i l b beats e evs s)
  obtain s1 err where hb: "dq_Heartbeat dq e i b s = (s1, err)" by fastforce
  have P1: "P s1" using "5.prems"(3) [OF "5.prems"(1), of e b] hb by simp
  show ?case
  proof (cases err)
    case None
    have "processHeartbeats dq i b beats evs s1 = Some (s', r)" using "5.prems"(2) hb None by simp
    then show ?thesis using "5.IH" [OF hb [symmetric] refl None P1 _ "5.prems"(3)] by blast
  next
    case (Some x)
    with "5.prems"(2) hb have "s' = s1" by (auto split: if_splits)
    with P1 show ?thesis by simp
  qed
qed auto

lemma handleTask_keeps:
  assumes "\<And>e b s. P s \<Longrightarrow> P (fst (dq_Heartbeat dq e (ID t) b s))" "\<And>e b s. P s \<Longrightarrow> P (fst (dq_Finish dq e (ID t) b s))"
    "\<And>e b s. P s \<Longrightarrow> P (fst (dq_Fail dq e (ID t) b s))"
    and "P s" "handleTask dq um run evs fe t s = Some (Ret (s', err))"
  shows "P s'"
proof -
  obtain s1 latest e1 rest where hb: "processHeartbeats dq (ID t) emptyJSON (run_beats run) evs s = Some (s1, latest, e1, rest)"
    using assms(5) by (auto simp: handleTask_def split: option.splits)
  have P1: "P s1" using processHeartbeats_keeps [of P dq "ID t", OF assms(1) assms(4) hb] by blast
  have fl: "P s2" if "fail_task dq um fe (ID t) latest x s1 = Ret (s2, e2)" for x s2 e2
    using that assms(3) [OF P1] by (auto simp: fail_task_def split: outcome.splits) (metis fst_conv)
  have fi: "P s2" if "dq_Finish dq fe (ID t) latest s1 = (s2, e2)" for s2 e2
    using that assms(2) [OF P1, of fe latest] by simp
  show ?thesis
    using assms(5) hb P1 fl fi by (auto simp: handleTask_def split: if_splits option.splits)
qed

text \<open>The requests of all tasks, the other tasks and the schedules.\<close>

definition request_of :: "task_row \<Rightarrow> string \<times> string \<times> string \<times> bytes \<times> (string \<times> sql_value) list" where
  "request_of r = (task_id r, queue r, task_kind r, spec r, refs r)"

definition kept_by_worker :: "string \<Rightarrow> db \<Rightarrow> db \<Rightarrow> bool" where
  "kept_by_worker i d d' \<longleftrightarrow> map request_of (tasks d') = map request_of (tasks d) \<and> schedules d' = schedules d \<and>
     filter (\<lambda>r. task_id r \<noteq> i) (tasks d') = filter (\<lambda>r. task_id r \<noteq> i) (tasks d)"

lemma filter_update_where:
  "(\<And>r. g (f r) = g r) \<Longrightarrow> filter (\<lambda>r. g r \<noteq> i) (update_where (\<lambda>r. g r = i) f rows) = filter (\<lambda>r. g r \<noteq> i) rows"
  by (induction rows) auto

lemma progressed_kept: "kept_by_worker i d0 d \<Longrightarrow> kept_by_worker i d0 (progressed e i b fin fl d)"
  by (simp add: kept_by_worker_def progressed_def request_of_def map_update_where filter_update_where)

lemma updateProgress_kept: "kept_by_worker i d0 d \<Longrightarrow> kept_by_worker i d0 (fst (updateProgress p e i pr fin fl d))"
proof -
  assume k: "kept_by_worker i d0 d"
  obtain d' err where u: "updateProgress p e i pr fin fl d = (d', err)" by fastforce
  then have "kept_by_worker i d0 d'"
    by (cases rule: updateProgress_cases) (use k progressed_kept in auto)
  with u show ?thesis by simp
qed

lemma started_kept: "task_id r = i \<Longrightarrow> kept_by_worker i d (started e r d)"
  by (auto simp: kept_by_worker_def started_def request_of_def start_row_def map_update_where filter_update_where)

lemma handleTask_kept:
  assumes "handleTask (pg_dequeuer p cfg) um run evs fe t d = Some (Ret (d', err))" "kept_by_worker (ID t) d0 d"
  shows "kept_by_worker (ID t) d0 d'"
  by (rule handleTask_keeps [where P = "kept_by_worker (ID t) d0", OF _ _ _ assms(2,1)])
    (simp_all add: pg_dequeuer_def Heartbeat_def Finish_def Fail_def updateProgress_kept)

lemma kept_task:
  assumes "kept_by_worker i d d'" "task_of d i = Some r" "task_of d' i = Some r'" "distinct (map task_id (tasks d))"
  shows "request_of r' = request_of r"
proof -
  have r: "r \<in> set (tasks d)" "task_id r = i" and r': "r' \<in> set (tasks d')" "task_id r' = i"
    using assms(2,3) by (auto dest: task_of_in)
  from r'(1) assms(1) have "request_of r' \<in> request_of ` set (tasks d)"
    unfolding kept_by_worker_def by (metis imageI list.set_map)
  then obtain r1 where r1: "r1 \<in> set (tasks d)" "request_of r1 = request_of r'" by force
  then have "task_id r1 = i" using r'(2) by (simp add: request_of_def)
  with distinct_map_inj [OF assms(4) r1(1) r(1)] r(2) r1(2) show ?thesis by simp
qed

subsection \<open>A due schedule is executed\<close>

lemma lone_task_dequeued:
  assumes "db_ok d" "\<forall>r \<in> set (tasks d). finished_at r \<noteq> None" "deq_ok de"
    "tasks d1 = tasks d @ [r]" "started_at r = None" "finished_at r = None" "last_heartbeat_at r = None"
  shows "attemptDequeue p cfg de [] d1 = (started de r d1, Some (started_task de r), None)"
proof -
  have unf: "generateUnfinishedQueueList p de d1 = ([queue r], None)"
    using assms by (simp add: generateUnfinishedQueueList_def generateQueueList_def deq_ok_def filter_empty_conv)
  have infl: "generateInflightQueueList p de (doubleTTL cfg de) d1 = ([], None)"
    using assms by (simp add: generateInflightQueueList_def generateQueueList_def deq_ok_def inflight_def filter_empty_conv)
  have "\<not> dequeuable p q t r'" if "r' \<in> set (tasks d)" for q t r'
    using dequeuable_not_final [OF db_ok_row [OF assms(1) that]] assms(2) that by blast
  then have "filter (dequeuable p (queue r) (doubleTTL cfg de)) (tasks d1) = [r]"
    using assms(4,5) by (simp add: filter_empty_conv dequeuable_def ci_eq_def)
  then have "select_task p (queue r) (doubleTTL cfg de) d1 = Some r" by (simp add: select_task_def)
  with unf infl assms(3) show ?thesis
    by (simp add: attemptDequeue_def attempt_dequeue_at_def attempt_body_def processableQueues_eq take_task_ok deq_ok_def)
qed

lemma scheduleTask_enqueued:
  assumes "scheduleTask (Enqueue p) c e d = Ret (d1, None)" "select_schedule e d = Some s"
  shows "\<exists>d'. Enqueue p (sw_enqueue e) (schedule_request s) d = (d', None)"
proof -
  obtain d' err where enq: "Enqueue p (sw_enqueue e) (schedule_request s) d = (d', err)" by fastforce
  obtain base work err' where b: "schedule_body (Enqueue p) c e d = (base, work, err')" by (metis prod.collapse)
  with assms(1) have "err' = None" by (auto simp: scheduleTask_def end_tx_None split: if_splits)
  with b enq assms(2) have "err = None"
    by (cases "sw_select_err e"; cases err) (auto simp: schedule_body_def)
  with enq show ?thesis by blast
qed

lemma Enqueue_spec:
  assumes "Enqueue p e t d = (d', None)"
  shows "jsonb p (case Spec t of None \<Rightarrow> emptyJSON | Some b \<Rightarrow> b) = Some (spec (enqueued_row p e t))"
  using assms by (auto simp: Enqueue_unfold insert_task_def enqueued_row_def split: if_splits option.splits)

text \<open>
  C12: From a due schedule to a finished task. In a database in which all earlier tasks have ended,
  a successful round of the schedule worker is followed by an iteration of a task worker that gets
  exactly the new task: the task that the handler is called with has the queue, the type and the
  specification of a schedule that was due. If the handler returns nil for tasks with this request, its
  heartbeats arrive in time and the database answers, the iteration returns without an error and
  the task is finished, with the same request and a reference to the schedule, and neither the other
  tasks nor the schedules have been touched by the worker. Nothing is asked of the handler for any
  other task.
\<close>

definition handled_well :: "pg \<Rightarrow> (task \<Rightarrow> handler_run) \<Rightarrow> progress_env list \<Rightarrow> progress_env \<Rightarrow> task \<Rightarrow> bool" where
  "handled_well p handler es fe t \<longleftrightarrow> run_result (handler t) = Ret None \<and>
     list_all2 (prog_ok p) es (run_beats (handler t)) \<and> prog_ok p fe (last (emptyJSON # run_beats (handler t)))"

theorem due_schedule_is_executed:
  assumes "pg_ok p" "db_ok d" "\<forall>r \<in> set (tasks d). finished_at r \<noteq> None" "deq_ok de"
    and round: "scheduleTask (Enqueue p) c e d = Ret (d1, None)"
    and handled: "\<And>t s. s \<in> set (schedules d) \<Longrightarrow> due (sw_now e) s \<Longrightarrow> ID t = new_task_id (sw_enqueue e) \<Longrightarrow>
      Queue t = task_queue s \<Longrightarrow> Type t = task_type s \<Longrightarrow> Spec t = jsonb p (task_spec s) \<Longrightarrow> handled_well p handler es fe t"
  shows "\<exists>s t r d2. s \<in> set (schedules d) \<and> due (sw_now e) s \<and>
    (\<exists>d'. attemptDequeue p cfg de [] d1 = (d', Some t, None)) \<and> ID t = new_task_id (sw_enqueue e) \<and>
    Queue t = task_queue s \<and> Type t = task_type s \<and> Spec t = jsonb p (task_spec s) \<and> Spec t \<noteq> None \<and>
    task_iteration (pg_dequeuer p cfg) um handler ItDefault (de, l, wevs) (map WRecv es @ WRecv x # evs) fe d1 = Some (Ret (d2, None)) \<and>
    task_of d2 (ID t) = Some r \<and> status r = Finished \<and> finished_at r = Some (up_now fe) \<and>
    queue r = task_queue s \<and> task_kind r = task_type s \<and> jsonb p (task_spec s) = Some (spec r) \<and>
    refs r = [(''schedule_id'', VText (schedule_id s))] \<and>
    filter (\<lambda>r. task_id r \<noteq> ID t) (tasks d2) = tasks d \<and> schedules d2 = schedules d1"
proof -
  let ?i = "new_task_id (sw_enqueue e)"
  obtain s where sel: "select_schedule e d = Some s"
    and tasks1: "tasks d1 = tasks d @ [enqueued_row p (sw_enqueue e) (schedule_request s)]"
    using pgq.scheduleTask_tasks [OF round] by auto
  let ?row = "enqueued_row p (sw_enqueue e) (schedule_request s)"
  obtain d' where enq: "Enqueue p (sw_enqueue e) (schedule_request s) d = (d', None)"
    using scheduleTask_enqueued [OF round sel] by blast
  have row: "task_id ?row = ?i" "started_at ?row = None" "finished_at ?row = None" "last_heartbeat_at ?row = None"
    "queue ?row = task_queue s" "task_kind ?row = task_type s" "refs ?row = [(''schedule_id'', VText (schedule_id s))]"
    by (simp_all add: enqueued_row_def schedule_request_def)
  have spec: "jsonb p (task_spec s) = Some (spec ?row)"
    using Enqueue_spec [OF enq] by (simp add: schedule_request_def)
  have fresh: "?i \<notin> task_id ` set (tasks d)" by (rule Enqueue_ok(4) [OF enq])
  have dist: "distinct (map task_id (tasks d1))"
    using assms(2) fresh by (simp add: tasks1 row(1) db_ok_def)
  let ?d2 = "started de ?row d1" and ?t = "started_task de ?row"
  have att: "attemptDequeue p cfg de [] d1 = (?d2, Some ?t, None)"
    by (rule lone_task_dequeued [OF assms(2-4) tasks1 row(2-4)])
  have id: "ID ?t = ?i" by (simp add: row(1))
  have found: "task_of d1 ?i = Some ?row"
    using task_of_row [OF dist, of ?row] row(1) by (simp add: tasks1)
  then have run: "task_of ?d2 (ID ?t) = Some (start_row (dq_now de) ?row)"
    unfolding id by (simp add: task_of_def started_def find_update_where_key row(1) start_row_def)
  have "spec ?row \<noteq> []" using spec assms(1) unfolding pg_ok_def by metis
  then have req_t: "Queue ?t = task_queue s" "Type ?t = task_type s" "Spec ?t = jsonb p (task_spec s)"
    by (simp_all add: started_task_def scan_def schedule_request_def spec)
  have h: "run_result (handler ?t) = Ret None" "list_all2 (prog_ok p) es (run_beats (handler ?t))"
    "prog_ok p fe (last (emptyJSON # run_beats (handler ?t)))"
    using handled [OF select_schedule_Some(1,2) [OF sel] id req_t] unfolding handled_well_def by blast+
  have running: "status (start_row (dq_now de) ?row) = Running" by (simp add: start_row_def)
  have w: "work_err (run_result (handler ?t)) = None" by (simp add: h(1) work_err_def)
  obtain d3 r where ended: "handleTask (pg_dequeuer p cfg) um (handler ?t) (map WRecv es @ WRecv x # evs) fe ?t ?d2 = Some (Ret (d3, None))"
    "task_of d3 (ID ?t) = Some r" "status r = Finished" "finished_at r = Some (up_now fe)"
    using handleTask_finishes [OF run running h(2,3) w, where e = x and evs = evs and um = um and cfg = cfg] by blast
  have kept: "kept_by_worker ?i d1 d3"
    using handleTask_kept [OF ended(1), unfolded id, OF started_kept [OF row(1)]] .
  have "request_of r = request_of ?row"
    by (rule kept_task [OF kept found _ dist]) (use ended(2) id in simp)
  then have req: "queue r = task_queue s" "task_kind r = task_type s" "spec r = spec ?row"
    "refs r = [(''schedule_id'', VText (schedule_id s))]"
    using row(5-7) by (simp_all add: request_of_def)
  have others: "filter (\<lambda>r. task_id r \<noteq> ?i) (tasks d3) = tasks d"
  proof -
    have "filter (\<lambda>r. task_id r \<noteq> ?i) (tasks d3) = filter (\<lambda>r. task_id r \<noteq> ?i) (tasks d1)"
      using kept by (simp add: kept_by_worker_def)
    also have "\<dots> = tasks d" using fresh by (auto simp: tasks1 row(1) filter_id_conv image_iff)
    finally show ?thesis .
  qed
  have iteration: "task_iteration (pg_dequeuer p cfg) um handler ItDefault (de, l, wevs) (map WRecv es @ WRecv x # evs) fe d1 =
      Some (Ret (d3, None))"
    using ended(1) by (simp add: task_iteration_def pg_dequeuer_def Dequeue_def att)
  have "schedules d3 = schedules d1" using kept by (simp add: kept_by_worker_def)
  with iteration ended(2-4) id req req_t spec others select_schedule_Some(1,2) [OF sel] att show ?thesis
    by (intro exI [of _ s] exI [of _ ?t] exI [of _ r] exI [of _ d3]) simp
qed

definition ex_silent :: handler_run where
  "ex_silent = \<lparr>run_beats = [], run_result = Ret None\<rparr>"

theorem due_schedule_is_executed_witness:
  "\<exists>d1 d2 r. scheduleTask (Enqueue sample_pg) sample_cron (snd (ex_round ''t1'' 10)) (ex_schedules []) = Ret (d1, None) \<and>
    task_iteration (pg_dequeuer sample_pg Queue_System.ex_cfg) sample_um (\<lambda>t. ex_silent) ItDefault
      (ex_deq 100, \<lparr>listen_err = None, unlisten_err = None\<rparr>, []) [WRecv (ex_prog 105)] (ex_prog 107) d1 = Some (Ret (d2, None)) \<and>
    task_of d2 ''t1'' = Some r \<and> status r = Finished"
proof -
  let ?e = "snd (ex_round ''t1'' 10)" and ?d = "ex_schedules []"
  have "(case scheduleTask (Enqueue sample_pg) sample_cron ?e ?d of Ret (d1, None) \<Rightarrow> True | _ \<Rightarrow> False)" by code_simp
  then obtain d1 where round: "scheduleTask (Enqueue sample_pg) sample_cron ?e ?d = Ret (d1, None)"
    by (auto split: outcome.splits option.splits)
  have "tasks ?d = []" by code_simp
  then have db: "db_ok ?d" "\<forall>r \<in> set (tasks ?d). finished_at r \<noteq> None" by (simp_all add: db_ok_def)
  have de: "deq_ok (ex_deq 100)" by code_simp
  have id: "new_task_id (sw_enqueue ?e) = ''t1''" by code_simp
  have "prog_ok sample_pg (ex_prog 107) emptyJSON" by code_simp
  then have h: "handled_well sample_pg (\<lambda>t. ex_silent) [] (ex_prog 107) t" for t
    by (simp add: handled_well_def ex_silent_def)
  from due_schedule_is_executed [OF sample_pg_ok db de round h, of Queue_System.ex_cfg sample_um "\<lparr>listen_err = None, unlisten_err = None\<rparr>" "[]" "ex_prog 105" "[]"]
  show ?thesis using round by (auto simp: id)
qed

subsection \<open>A created token is admitted\<close>

text \<open>
  What the library of tokens does with the JSON object of the claims that it signs. A signed text that is
  parsed again has the same object as its claims, with its numbers as floating point numbers
  (\<open>as_interface\<close>). The key function is asked for the key; with the key that belongs to the private
  one the token is returned, unless the default validation of its times refuses it. A time is a
  number of seconds, and a missing time or 0 is not checked.
\<close>

fun time_field :: "json option \<Rightarrow> int" where
  "time_field (Some (JNum i)) = i"
| "time_field _ = 0"

definition times_accepted :: "time \<Rightarrow> (string \<times> json) list \<Rightarrow> bool" where
  "times_accepted now kvs \<longleftrightarrow>
     (let t = (\<lambda>k. time_field (map_of kvs k)); s = unix_seconds now
      in (t ''exp'' = 0 \<or> s < t ''exp'') \<and> (t ''iat'' = 0 \<or> t ''iat'' \<le> s) \<and> (t ''nbf'' = 0 \<or> t ''nbf'' \<le> s))"

definition signs_objects ::
  "'k jwt_lib \<Rightarrow> (bytes \<Rightarrow> (string \<times> json) list) \<Rightarrow> (int \<Rightarrow> int) \<Rightarrow> ('s \<Rightarrow> (string \<times> json) list \<Rightarrow> error + string) \<Rightarrow>
    's \<Rightarrow> 'k \<Rightarrow> time \<Rightarrow> bool" where
  "signs_objects lib object_of through_float sign private public now \<longleftrightarrow>
     (\<forall>kvs s. sign private kvs = Inr s \<longrightarrow> s \<noteq> [] \<and>
        (\<exists>tok. method_rsa tok \<and> object_of (raw_claims tok) = map (\<lambda>(k, v). (k, as_interface through_float v)) kvs \<and>
          (\<forall>kf. kf tok = Inr public \<longrightarrow>
             (if times_accepted now (object_of (raw_claims tok)) then jwt_parse lib s kf = Inr tok
              else \<exists>x. jwt_parse lib s kf = Inl x))))"

text \<open>The times of a token in its object.\<close>

lemma claims_fields_times:
  "map_of (claims_fields a) ''exp'' = Some (JNum (unix_seconds (cl_Expires a)))"
  "map_of (claims_fields a) ''iat'' = Some (JNum (unix_seconds (cl_IssuedAt a)))"
  "map_of (claims_fields a) ''nbf'' = Some (JNum (unix_seconds (cl_NotBefore a)))"
  by (simp_all add: claims_fields_def)

lemma seconds_le: "json_time t \<le> t' \<longleftrightarrow> unix_seconds t \<le> unix_seconds t'"
proof
  assume "json_time t \<le> t'"
  then have "(t div 1000000000) * 1000000000 div 1000000000 \<le> t' div 1000000000"
    unfolding json_time_def unix_seconds_def by (rule zdiv_mono1) simp
  then show "unix_seconds t \<le> unix_seconds t'" by (simp add: unix_seconds_def)
next
  assume "unix_seconds t \<le> unix_seconds t'"
  then have "json_time t \<le> json_time t'" by (simp add: json_time_def)
  also have "\<dots> \<le> t'" using pos_mod_sign [of 1000000000 t'] div_mult_mod_eq [of t' 1000000000]
    by (simp add: json_time_def unix_seconds_def del: pos_mod_sign)
  finally show "json_time t \<le> t'" .
qed

text \<open>
  C25: A token between two services. A token made by \<open>Create\<close>, whose claims the library signs as
  the object that the struct tags make of them, and sent in the header that the middleware of
  another service reads, is admitted from the second in which it was made until the second in which
  its lifetime ends, and the handler then sees the claims of the creator as \<open>parseClaims\<close> decodes
  them, with the times cut to seconds and the token itself as their source; before and after, the
  request is refused. The times must be within 2 to the power of 53 seconds.
\<close>

theorem created_token_admitted:
  assumes "signs_objects lib object_of tf sign private public t" "codec_ok tc" "float_ok tf"
    and "5 * second \<le> now" "0 \<le> lifetime c" "exact_time (now + lifetime c)" "jwtKey c = Some private"
    and "Create (\<lambda>k a. sign k (claims_fields a)) c newID now reference opts = Inr tk"
    and "headerName \<noteq> []" "method \<noteq> ''OPTIONS''" "header headerName = tk"
  shows "let middleware = WrapHandler (lib\<lparr>decode_claims := \<lambda>raw. parseClaimsMap tc (object_of raw)\<rparr>) headerName public t method header
    in if json_time now \<le> t \<and> t < json_time (now + lifetime c)
      then middleware = Next (Some ((json_claims (request_token c newID now reference opts))\<lparr>cl_SourceToken := tk\<rparr>))
      else \<exists>err. middleware = Unauthorized err"
proof -
  let ?r = "request_token c newID now reference opts"
  let ?a = "json_claims ?r" and ?lib = "lib\<lparr>decode_claims := \<lambda>raw. parseClaimsMap tc (object_of raw)\<rparr>"
  have times: "cl_Expires ?r = now + lifetime c" "cl_IssuedAt ?r = now" "cl_NotBefore ?r = now - 5 * second"
    by (simp_all add: request_token_def Let_def)
  have exact: "exact_time (cl_IssuedAt ?r)" "exact_time (cl_NotBefore ?r)" "exact_time (cl_Expires ?r)"
  proof -
    have between: "exact_time u" if "0 \<le> u" "u \<le> now + lifetime c" for u
    proof -
      have "0 \<le> unix_seconds u" "unix_seconds u \<le> unix_seconds (now + lifetime c)"
        using that by (simp_all add: unix_seconds_def zdiv_mono1)
      with assms(6) show ?thesis by (simp add: exact_time_def)
    qed
    show "exact_time (cl_IssuedAt ?r)" "exact_time (cl_NotBefore ?r)" "exact_time (cl_Expires ?r)"
      using assms(4,5) by (auto simp: times second_def intro!: between)
  qed
  have "sign private (claims_fields ?r) = Inr tk" using assms(7,8) by (simp add: Create_def)
  with assms(1) obtain tok where tok: "tk \<noteq> []" "method_rsa tok" "object_of (raw_claims tok) = ToClaims tf ?r"
    "\<And>kf. kf tok = Inr public \<Longrightarrow>
       (if times_accepted t (object_of (raw_claims tok)) then jwt_parse lib tk kf = Inr tok else \<exists>x. jwt_parse lib tk kf = Inl x)"
    unfolding signs_objects_def ToClaims_def by metis
  have object: "object_of (raw_claims tok) = claims_fields ?r" using tok(3) ToClaims_exact [OF assms(3) exact] by simp
  have decoded: "parseClaimsMap tc (object_of (raw_claims tok)) = Inr ?a"
    unfolding tok(3) by (rule claims_map_roundtrip(2) [OF assms(2,3) exact])
  have "getKeyFunction public tok = Inr public" using tok(2) by (simp add: getKeyFunction_def)
  from tok(4) [where kf = "getKeyFunction public", OF this] have parse:
    "if times_accepted t (claims_fields ?r) then jwt_parse ?lib tk (getKeyFunction public) = Inr tok
     else \<exists>x. jwt_parse ?lib tk (getKeyFunction public) = Inl x" unfolding object by simp
  note window = created_token_valid_iff [OF assms(4,5), of t newID reference opts]
  have wrap: "WrapHandler ?lib headerName public t method header =
      (case jwt_parse ?lib tk (getKeyFunction public) of
         Inl x \<Rightarrow> Unauthorized (errors_Wrap x ''could not parse and verify auth claims'')
       | Inr tok' \<Rightarrow> (case parseClaimsMap tc (object_of (raw_claims tok')) of
           Inl x \<Rightarrow> Unauthorized (errors_Wrap x ''could not parse request token from claims'')
         | Inr a \<Rightarrow> (case Validate t a of Some x \<Rightarrow> Unauthorized x | None \<Rightarrow> Next (Some (a\<lparr>cl_SourceToken := tk\<rparr>)))))"
    using assms(9-11) tok(1) by (simp add: WrapHandler_def parseClaims_def split: sum.split)
  show ?thesis
  proof (cases "json_time now \<le> t \<and> t < json_time (now + lifetime c)")
    case True
    have "json_time (now - 5 * second) \<le> json_time now"
      by (simp add: json_time_def unix_seconds_def second_def zdiv_mono1)
    with True have "times_accepted t (claims_fields ?r)"
      using seconds_le [of "now + lifetime c" t] seconds_le [of now t] seconds_le [of "now - 5 * second" t]
      by (simp add: times_accepted_def claims_fields_times times Let_def)
    moreover have "Validate t ?a = None" using True window by (simp add: Valid_def)
    ultimately show ?thesis using True parse decoded wrap by simp
  next
    case False
    then have "Validate t ?a \<noteq> None" using window by (simp add: Valid_def)
    then obtain x where x: "Validate t ?a = Some x" by blast
    have "\<exists>err. WrapHandler ?lib headerName public t method header = Unauthorized err"
    proof (cases "times_accepted t (claims_fields ?r)")
      case True
      with parse x decoded wrap show ?thesis by simp
    next
      case F: False
      with parse obtain y where "jwt_parse ?lib tk (getKeyFunction public) = Inl y" by auto
      with wrap show ?thesis by simp
    qed
    then show ?thesis unfolding Let_def if_not_P [OF False] .
  qed
qed

definition ex_creator :: "nat token_creator" where
  "ex_creator = NewCreator ''hub'' (Some 7) (60 * second)"

definition ex_created :: claims where
  "ex_created = request_token ex_creator ''i'' (7 * second) ''r'' ex_opts"

text \<open>A library that signs one object, at a time of its clock.\<close>

definition ex_token_lib :: "time \<Rightarrow> nat jwt_lib" where
  "ex_token_lib now =
     (let tok = \<lparr>method_rsa = True, alg = ''RS512'', kid = None, raw_claims = ''c''\<rparr>
      in \<lparr>jwt_parse = (\<lambda>s kf. (case kf tok of Inl x \<Rightarrow> Inl x
            | Inr k \<Rightarrow> if k = 8 \<and> times_accepted now (claims_fields ex_created) then Inr tok else Inl (Ext ''refused''))),
          decode_claims = (\<lambda>_. Inl (Ext ''unused'')), verified = (\<lambda>s k t. k = 8)\<rparr>)"

definition ex_sign :: "nat \<Rightarrow> (string \<times> json) list \<Rightarrow> error + string" where
  "ex_sign k kvs = (if kvs = claims_fields ex_created then Inr ''tok'' else Inl (Ext ''other''))"

definition ex_middleware :: "time \<Rightarrow> middleware_result" where
  "ex_middleware t = WrapHandler ((ex_token_lib t)\<lparr>decode_claims := \<lambda>raw. parseClaimsMap sample_codec (claims_fields ex_created)\<rparr>)
     ''X'' 8 t ''GET'' (\<lambda>_. ''tok'')"

theorem created_token_admitted_witness:
  "ex_middleware (8 * second) = Next (Some ((json_claims ex_created)\<lparr>cl_SourceToken := ''tok''\<rparr>)) \<and>
   (\<exists>err. ex_middleware (67 * second) = Unauthorized err)"
proof -
  have i: "map (\<lambda>(k, v). (k, as_interface id v)) kvs = kvs" for kvs :: "(string \<times> json) list"
  proof -
    have "as_interface id v = v" for v by (cases v) simp_all
    then show ?thesis by (simp add: map_idI split_beta)
  qed
  have rt: "signs_objects (ex_token_lib t) (\<lambda>_. claims_fields ex_created) id ex_sign 7 8 t" for t
    by (auto simp: signs_objects_def ex_token_lib_def ex_sign_def Let_def i
        intro!: exI [of _ "\<lparr>method_rsa = True, alg = ''RS512'', kid = None, raw_claims = ''c''\<rparr>"])
  have c: "5 * second \<le> 7 * second" "0 \<le> lifetime ex_creator" "exact_time (7 * second + lifetime ex_creator)" "jwtKey ex_creator = Some 7"
    by (simp_all add: second_def ex_creator_def NewCreator_def exact_time_def unix_seconds_def)
  have f: "float_ok id" by (simp add: float_ok_def)
  have cr: "Create (\<lambda>k a. ex_sign k (claims_fields a)) ex_creator ''i'' (7 * second) ''r'' ex_opts = Inr ''tok''"
    by (simp add: Create_def c(4) ex_sign_def ex_created_def)
  have w: "json_time (7 * second) \<le> 8 * second \<and> 8 * second < json_time (7 * second + lifetime ex_creator)"
    "\<not> (json_time (7 * second) \<le> 67 * second \<and> 67 * second < json_time (7 * second + lifetime ex_creator))"
    by (simp_all add: second_def ex_creator_def NewCreator_def json_time_def unix_seconds_def)
  from created_token_admitted [OF rt sample_codec_ok f c cr, of "''X''" "''GET''" "\<lambda>_. ''tok''" "8 * second"]
    created_token_admitted [OF rt sample_codec_ok f c cr, of "''X''" "''GET''" "\<lambda>_. ''tok''" "67 * second"] w
  show ?thesis by (simp add: ex_created_def [symmetric] ex_middleware_def)
qed

subsection \<open>A retention schedule runs its statement\<close>

text \<open>
  What is used of \<open>encoding/json\<close> and of the type \<open>jsonb\<close>: the text of a stored specification has
  the field \<open>sql\<close> that was encoded.
\<close>

definition sql_field_kept :: "pg \<Rightarrow> sql_env \<Rightarrow> retention_spec \<Rightarrow> bool" where
  "sql_field_kept p se s \<longleftrightarrow>
     (\<forall>b. jsonb p (Marshal (retention_json s)) = Some b \<longrightarrow> sql_unmarshal se b = Inr (SQL s))"

text \<open>
  C13: From a retention schedule to its statement. In a database without other schedules, a
  successful \<open>AssertRetentionSchedule\<close> followed by a successful round of the schedule worker puts one
  task into the maintenance queue. The handler that is registered for it, \<open>NewRetentionHandler\<close>,
  gives the database the printed form of exactly this statement and reports its result: a deletion
  from the tasks with the status, an end that lies at least the age back, in minutes as they are
  printed, and the queue and the type where they are given.
\<close>

theorem retention_runs_its_statement:
  assumes "pg_ok p" "schedules d = []" "sql_field_kept p se (createRetentionSpec ds minutes q k st age)"
    and assert: "AssertRetentionSchedule p c ds minutes ue q k st age d = (d1, None)"
    and round: "scheduleTask (Enqueue p) c e d1 = Ret (d2, None)"
  shows "\<exists>row. tasks d2 = tasks d @ [row] \<and> queue row = ''queue-maintenance'' \<and> task_kind row = ''retention'' \<and>
    run_result (dispatch_Process [RetentionTask \<mapsto> sql_Process se] (started_task de row)) =
      Ret (case sql_exec se (ds \<lparr>from_table = ''tasks'', wheres =
               [Eq_cond ''status'' (status_text st),
                Text_cond (''finished_at <= now() - interval '' @ [CHR 0x27] @ minutes age @ '' minutes'' @ [CHR 0x27])] @
               (if q = [] then [] else [Eq_cond ''queue'' q]) @ (if k = [] then [] else [Eq_cond ''type'' k])\<rparr>) of
             Inl x \<Rightarrow> Some (Wrap ''sql execution failed: '' x)
           | Inr (Inl x) \<Rightarrow> Some (Wrap ''can not get rows affected: '' x)
           | Inr (Inr n) \<Rightarrow> None)"
proof -
  let ?s = "createRetentionSpec ds minutes q k st age"
  obtain b where b: "jsonb p (Marshal (retention_json ?s)) = Some b" and
    d1: "schedules d1 = [\<lparr>schedule_id = up_id ue, task_queue = MaintenanceTaskQueue, task_type = RetentionTask, task_spec = b,
        cron_schedule = nat_text (when_minute ue mod 60) @ '' * * * *'', next_execution_time = Some (up_clock ue),
        sched_created_at = up_insert_now ue, sched_updated_at = up_insert_now ue, sched_refs = []\<rparr>]" "tasks d1 = tasks d"
    using assert assms(2)
    by (auto simp: AssertRetentionSchedule_def AssertRetentionScheduleWithSpec_def upsert_schedule_def Let_def
        split: option.splits prod.splits if_splits)
  obtain s where sel: "select_schedule e d1 = Some s"
    and tasks2: "tasks d2 = tasks d1 @ [enqueued_row p (sw_enqueue e) (schedule_request s)]"
    using pgq.scheduleTask_tasks [OF round] by auto
  let ?row = "enqueued_row p (sw_enqueue e) (schedule_request s)"
  have s: "task_queue s = MaintenanceTaskQueue" "task_type s = RetentionTask" "task_spec s = b"
    using select_schedule_Some(1) [OF sel] d1(1) by simp_all
  obtain d' where enq: "Enqueue p (sw_enqueue e) (schedule_request s) d1 = (d', None)"
    using scheduleTask_enqueued [OF round sel] by blast
  have "jsonb p b = Some (spec ?row)"
    using Enqueue_spec [OF enq] s(3) by (simp add: schedule_request_def)
  then have spec: "spec ?row = b" "b \<noteq> []"
    using b assms(1) unfolding pg_ok_def by (metis option.inject)+
  have row: "queue ?row = MaintenanceTaskQueue" "task_kind ?row = RetentionTask"
    by (simp_all add: enqueued_row_def schedule_request_def s)
  have stmt: "sql_unmarshal se (task_spec_bytes (started_task de ?row)) = Inr (ds (retention_delete minutes q k st age))"
    using assms(3) b spec by (simp add: sql_field_kept_def task_spec_bytes_def started_task_def scan_def createRetentionSpec_def)
  have result: "run_result (sql_Process se t) = Ret (snd (snd (sql_body se t)))" for t
    by (simp add: sql_Process_def sql_deferred_def split: prod.split)
  have "Type (started_task de ?row) = RetentionTask"
    by (simp add: started_task_def scan_def enqueued_row_def schedule_request_def s)
  then have dispatch: "dispatch_Process [RetentionTask \<mapsto> sql_Process se] (started_task de ?row) =
      sql_Process se (started_task de ?row)" by (simp add: dispatch_Process_def)
  have "run_result (dispatch_Process [RetentionTask \<mapsto> sql_Process se] (started_task de ?row)) =
      Ret (case sql_exec se (ds (retention_delete minutes q k st age)) of
             Inl x \<Rightarrow> Some (Wrap ''sql execution failed: '' x)
           | Inr (Inl x) \<Rightarrow> Some (Wrap ''can not get rows affected: '' x)
           | Inr (Inr n) \<Rightarrow> None)"
    unfolding dispatch result sql_body_def stmt Let_def by (simp split: sum.split)
  moreover have "retention_delete minutes q k st age = \<lparr>from_table = ''tasks'', wheres =
      [Eq_cond ''status'' (status_text st),
       Text_cond (''finished_at <= now() - interval '' @ [CHR 0x27] @ minutes age @ '' minutes'' @ [CHR 0x27])] @
      (if q = [] then [] else [Eq_cond ''queue'' q]) @ (if k = [] then [] else [Eq_cond ''type'' k])\<rparr>"
    by (simp add: retention_delete_def older_than_def)
  moreover have "queue ?row = ''queue-maintenance''" "task_kind ?row = ''retention''"
    using row by (simp_all add: MaintenanceTaskQueue_def RetentionTask_def)
  ultimately show ?thesis using tasks2 d1(2) by (intro exI [of _ ?row]) simp
qed

definition ex_upsert :: upsert_env where
  "ex_upsert = \<lparr>up_id = ''s'', when_minute = 5, up_clock = 3, up_insert_now = 3, upsert_err = None, affected_err = None\<rparr>"

text \<open>A printer of statements, a decoder that knows one specification, and a database that deletes two rows.\<close>

definition ex_print :: "delete_stmt \<Rightarrow> string" where
  "ex_print st = ''DELETE FROM '' @ from_table st"

definition ex_sql :: sql_env where
  "ex_sql = \<lparr>sql_unmarshal = (\<lambda>b. Inr ''DELETE FROM tasks''), sql_exec = (\<lambda>s. if s = ''DELETE FROM tasks'' then Inr (Inr 2) else Inl (Ext s)),
     sql_millis = 1\<rparr>"

theorem retention_runs_its_statement_witness:
  "\<exists>d1 d2 row. AssertRetentionSchedule sample_pg sample_cron ex_print (\<lambda>_. ''0.000001'') ex_upsert ''q'' [] Finished 60 no_rows_db = (d1, None) \<and>
    scheduleTask (Enqueue sample_pg) sample_cron (snd (ex_round ''t1'' 10)) d1 = Ret (d2, None) \<and>
    tasks d2 = [row] \<and> queue row = MaintenanceTaskQueue \<and>
    run_result (dispatch_Process [RetentionTask \<mapsto> sql_Process ex_sql] (started_task (ex_deq 100) row)) = Ret None"
proof -
  let ?a = "AssertRetentionSchedule sample_pg sample_cron ex_print (\<lambda>_. ''0.000001'') ex_upsert ''q'' [] Finished 60 no_rows_db"
  have "snd ?a = None" by code_simp
  then obtain d1 where a: "?a = (d1, None)" by (metis prod.collapse)
  have "(case scheduleTask (Enqueue sample_pg) sample_cron (snd (ex_round ''t1'' 10)) (fst ?a) of Ret (d, None) \<Rightarrow> True | _ \<Rightarrow> False)"
    by code_simp
  with a obtain d2 where r: "scheduleTask (Enqueue sample_pg) sample_cron (snd (ex_round ''t1'' 10)) d1 = Ret (d2, None)"
    by (auto split: outcome.splits option.splits)
  have e: "schedules no_rows_db = []" "tasks no_rows_db = []" by (simp_all add: no_rows_db_def)
  have k: "sql_field_kept sample_pg ex_sql (createRetentionSpec ex_print (\<lambda>_. ''0.000001'') ''q'' [] Finished 60)"
    by (simp add: sql_field_kept_def ex_sql_def createRetentionSpec_def retention_delete_def ex_print_def)
  have x: "sql_exec ex_sql (ex_print \<lparr>from_table = ''tasks'', wheres = ws\<rparr>) = Inr (Inr 2)" for ws
    by (simp add: ex_sql_def ex_print_def)
  from retention_runs_its_statement [OF sample_pg_ok e(1) k a r, of "ex_deq 100"] a r e(2)
  show ?thesis by (auto simp: x MaintenanceTaskQueue_def)
qed

end
