(* ===== verification/Contexts.thy ===== *)
theory Contexts
  imports Prelude
begin

section \<open>Contexts that end with a signal\<close>

text \<open>
  \<open>pkg/contexts/signals.go\<close>. \<open>WithSignals\<close> derives a context, asks the runtime to deliver the given
  signals to a channel with room for one, and starts a goroutine that cancels the context when it
  receives from the channel. The events are what happens to the process afterwards, in any order:
  a signal arrives, the goroutine is scheduled, the parent context ends, the caller cancels. The
  runtime drops a signal for which the channel has no room, and applies the default action only to
  signals that nobody asked for; \<open>fatal\<close> are the signals whose default action ends the process.
\<close>

datatype sig_event = Got_signal string | Goroutine_runs | Parent_ends | Cancel_called

record sig_state =
  notified :: "string list"
  pending :: "string option"
  receiving :: bool
  ctx_done :: bool
  terminated :: bool

definition WithSignals :: "bool \<Rightarrow> string list \<Rightarrow> sig_state" where
  "WithSignals parent_done signals =
     (let signals = (if length signals = 0 then [''interrupt''] else signals)
      in \<lparr>notified = signals, pending = None, receiving = True, ctx_done = parent_done, terminated = False\<rparr>)"

text \<open>The goroutine: it receives one signal, cancels and ends.\<close>

definition signal_goroutine :: "sig_state \<Rightarrow> sig_state" where
  "signal_goroutine s =
     (case pending s of
        None \<Rightarrow> s
      | Some sig \<Rightarrow> if receiving s then s\<lparr>pending := None, receiving := False, ctx_done := True\<rparr> else s)"

definition deliver :: "(string \<Rightarrow> bool) \<Rightarrow> string \<Rightarrow> sig_state \<Rightarrow> sig_state" where
  "deliver fatal sig s =
     (if sig \<in> set (notified s) then (if pending s = None then s\<lparr>pending := Some sig\<rparr> else s)
      else if fatal sig then s\<lparr>terminated := True\<rparr> else s)"

fun sig_step :: "(string \<Rightarrow> bool) \<Rightarrow> sig_event \<Rightarrow> sig_state \<Rightarrow> sig_state" where
  "sig_step fatal (Got_signal sig) s = (if terminated s then s else deliver fatal sig s)"
| "sig_step fatal Goroutine_runs s = (if terminated s then s else signal_goroutine s)"
| "sig_step fatal Parent_ends s = (if terminated s then s else s\<lparr>ctx_done := True\<rparr>)"
| "sig_step fatal Cancel_called s = (if terminated s then s else s\<lparr>ctx_done := True\<rparr>)"

definition sig_run :: "(string \<Rightarrow> bool) \<Rightarrow> sig_event list \<Rightarrow> sig_state \<Rightarrow> sig_state" where
  "sig_run fatal evs s = fold (sig_step fatal) evs s"

text \<open>A signal of the list has arrived, and the goroutine has been scheduled after one.\<close>

definition arrived :: "string list \<Rightarrow> sig_event list \<Rightarrow> bool" where
  "arrived sigs evs \<longleftrightarrow> (\<exists>sig \<in> set sigs. Got_signal sig \<in> set evs)"

definition handled :: "string list \<Rightarrow> sig_event list \<Rightarrow> bool" where
  "handled sigs evs \<longleftrightarrow> (\<exists>xs ys. evs = xs @ Goroutine_runs # ys \<and> arrived sigs xs)"

lemma arrived_snoc [simp]: "arrived sigs (evs @ [e]) \<longleftrightarrow> arrived sigs evs \<or> (\<exists>sig \<in> set sigs. e = Got_signal sig)"
  by (auto simp: arrived_def)

lemma handled_snoc [simp]: "handled sigs (evs @ [e]) \<longleftrightarrow> handled sigs evs \<or> e = Goroutine_runs \<and> arrived sigs evs"
proof
  assume "handled sigs (evs @ [e])"
  then obtain xs ys where xs: "evs @ [e] = xs @ Goroutine_runs # ys" "arrived sigs xs" unfolding handled_def by blast
  show "handled sigs evs \<or> e = Goroutine_runs \<and> arrived sigs evs"
  proof (cases ys rule: rev_cases)
    case Nil
    with xs show ?thesis by simp
  next
    case (snoc zs z)
    with xs show ?thesis by (auto simp: handled_def)
  qed
next
  assume "handled sigs evs \<or> e = Goroutine_runs \<and> arrived sigs evs"
  then show "handled sigs (evs @ [e])"
    unfolding handled_def by (metis append.assoc append_Cons append_Nil)
qed

definition sig_inv :: "string list \<Rightarrow> bool \<Rightarrow> sig_event list \<Rightarrow> sig_state \<Rightarrow> bool" where
  "sig_inv sigs parent_done evs s \<longleftrightarrow> notified s = sigs \<and> \<not> terminated s \<and>
     (receiving s \<longleftrightarrow> \<not> handled sigs evs) \<and> (receiving s \<longrightarrow> (pending s \<noteq> None \<longleftrightarrow> arrived sigs evs)) \<and>
     (ctx_done s \<longleftrightarrow> parent_done \<or> Parent_ends \<in> set evs \<or> Cancel_called \<in> set evs \<or> handled sigs evs)"

lemma sig_run_inv:
  assumes "sigs = (if signals = [] then [''interrupt''] else signals)"
  shows "\<forall>sig. Got_signal sig \<in> set evs \<longrightarrow> fatal sig \<longrightarrow> sig \<in> set sigs \<Longrightarrow>
    sig_inv sigs parent_done evs (sig_run fatal evs (WithSignals parent_done signals))"
proof (induction evs rule: rev_induct)
  case Nil
  then show ?case using assms by (simp add: sig_run_def sig_inv_def WithSignals_def handled_def arrived_def)
next
  case (snoc e evs)
  let ?s = "sig_run fatal evs (WithSignals parent_done signals)"
  from snoc have inv: "sig_inv sigs parent_done evs ?s" by simp
  have run: "sig_run fatal (evs @ [e]) (WithSignals parent_done signals) = sig_step fatal e ?s"
    by (simp add: sig_run_def)
  show ?case
  proof (cases e)
    case (Got_signal sig)
    with inv snoc.prems show ?thesis unfolding run by (auto simp: sig_inv_def deliver_def)
  next
    case Goroutine_runs
    with inv show ?thesis unfolding run by (auto simp: sig_inv_def signal_goroutine_def split: option.split)
  qed (use inv run in \<open>auto simp: sig_inv_def\<close>)
qed

text \<open>
  A context with signals ends exactly when its parent ends, when it is cancelled, or when the
  goroutine runs after one of the signals has arrived. The signals are taken over for good: as the
  channel is never stopped, no number of them ends the process, not even after the first has
  cancelled the context, so a program that hangs in its shutdown cannot be interrupted again.
\<close>

theorem signals_cancel_once:
  assumes "sigs = (if signals = [] then [''interrupt''] else signals)"
    "\<forall>sig. Got_signal sig \<in> set evs \<longrightarrow> fatal sig \<longrightarrow> sig \<in> set sigs"
  shows "\<not> terminated (sig_run fatal evs (WithSignals parent_done signals)) \<and>
    (ctx_done (sig_run fatal evs (WithSignals parent_done signals)) \<longleftrightarrow>
       parent_done \<or> Parent_ends \<in> set evs \<or> Cancel_called \<in> set evs \<or> handled sigs evs)"
  using sig_run_inv [OF assms, of parent_done] by (simp add: sig_inv_def)

theorem signals_cancel_once_witness:
  "\<not> terminated (sig_run (\<lambda>s. True) [Got_signal ''interrupt'', Goroutine_runs, Got_signal ''interrupt'', Got_signal ''interrupt'']
      (WithSignals False [])) \<and>
   ctx_done (sig_run (\<lambda>s. True) [Got_signal ''interrupt'', Goroutine_runs, Got_signal ''interrupt'', Got_signal ''interrupt'']
      (WithSignals False []))"
proof -
  let ?evs = "[Got_signal ''interrupt'', Goroutine_runs, Got_signal ''interrupt'', Got_signal ''interrupt'']"
  have "handled [''interrupt''] ?evs"
    unfolding handled_def arrived_def
    by (intro exI [of _ "[Got_signal ''interrupt'']"] exI [of _ "[Got_signal ''interrupt'', Got_signal ''interrupt'']"]) simp
  with signals_cancel_once [of "[''interrupt'']" "[]" ?evs "\<lambda>s. True" False] show ?thesis by simp
qed

end
