(* ===== verification/Queue_Lifecycle.thy ===== *)
theory Queue_Lifecycle
  imports Queue_Service
begin

section \<open>The life of a task\<close>

text \<open>
  What the queue promises of a task, without the database: an automaton over the calls that
  succeed. A call of the queue on Postgres, with all its failures and for any outdated lists of
  queues, is a step that the automaton allows, or changes nothing. So the sequence of successful
  calls of any number of processes, the trace of a run, is a path of the automaton for every task;
  and for one task alone the traces are exactly the paths.
\<close>

datatype action = Submit | Claim | Beat | Complete | Give_up

datatype phase = Pending | Active | Errored | Revived | Succeeded | Stopped

text \<open>
  A failed task that is reported on again is revived: it counts as running but has an end, so
  nobody can claim it. Nothing in the repository stops a task.
\<close>

fun advance :: "action \<Rightarrow> phase option \<Rightarrow> phase option" where
  "advance Submit None = Some Pending"
| "advance Claim (Some Pending) = Some Active"
| "advance Claim (Some Active) = Some Active"
| "advance Beat (Some Active) = Some Active"
| "advance Beat (Some Errored) = Some Revived"
| "advance Beat (Some Revived) = Some Revived"
| "advance Complete (Some Active) = Some Succeeded"
| "advance Complete (Some Errored) = Some Succeeded"
| "advance Complete (Some Revived) = Some Succeeded"
| "advance Give_up (Some Active) = Some Errored"
| "advance Give_up (Some Errored) = Some Errored"
| "advance Give_up (Some Revived) = Some Errored"
| "advance _ _ = None"

text \<open>The abstract queue: the phases of all tasks, and a trace of calls played on it.\<close>

type_synonym event = "action \<times> string"

fun play :: "event list \<Rightarrow> (string \<Rightarrow> phase option) \<Rightarrow> (string \<Rightarrow> phase option) option" where
  "play [] q = Some q"
| "play ((a, i) # tr) q = (case advance a (q i) of None \<Rightarrow> None | Some ph \<Rightarrow> play tr (q(i \<mapsto> ph)))"

lemma play_Cons: "play ((a, i) # tr) q = Option.bind (advance a (q i)) (\<lambda>ph. play tr (q(i \<mapsto> ph)))"
  by (simp add: fun_upd_def split: option.split)

declare play.simps(2) [simp del] play_Cons [simp]

lemma play_append: "play (xs @ ys) q = Option.bind (play xs q) (play ys)"
proof (induction xs arbitrary: q)
  case (Cons x xs)
  obtain a i where "x = (a, i)" by fastforce
  with Cons show ?case by (cases "advance a (q i)") (simp_all add: fun_upd_def)
qed simp

subsection \<open>Calls of the queue and their traces\<close>

text \<open>A call with the event that it is when it succeeds, none when it fails or finds nothing.\<close>

inductive queue_call :: "pg \<Rightarrow> queue_config \<Rightarrow> event option \<Rightarrow> db \<Rightarrow> db \<Rightarrow> bool" for p cfg where
  enqueued: "Enqueue p e t d = (d', err) \<Longrightarrow>
     queue_call p cfg (if err = None then Some (Submit, new_task_id e) else None) d d'"
| dequeued: "attempt_dequeue_at p cfg e queues du di d = (d', tk, err) \<Longrightarrow>
     queue_call p cfg (if err = None then map_option (\<lambda>t. (Claim, ID t)) tk else None) d d'"
| beaten: "Heartbeat p e i pr d = (d', err) \<Longrightarrow> queue_call p cfg (if err = None then Some (Beat, i) else None) d d'"
| completed: "Finish p e i pr d = (d', err) \<Longrightarrow> queue_call p cfg (if err = None then Some (Complete, i) else None) d d'"
| given_up: "Fail p e i pr d = (d', err) \<Longrightarrow> queue_call p cfg (if err = None then Some (Give_up, i) else None) d d'"

lemma queue_call_success:
  "Enqueue p e1 t d = (d', None) \<Longrightarrow> queue_call p cfg (Some (Submit, new_task_id e1)) d d'"
  "attempt_dequeue_at p cfg e2 queues du di d = (d', Some tk, None) \<Longrightarrow> queue_call p cfg (Some (Claim, ID tk)) d d'"
  "Heartbeat p e3 i pr d = (d', None) \<Longrightarrow> queue_call p cfg (Some (Beat, i)) d d'"
  "Finish p e3 i pr d = (d', None) \<Longrightarrow> queue_call p cfg (Some (Complete, i)) d d'"
  "Fail p e3 i pr d = (d', None) \<Longrightarrow> queue_call p cfg (Some (Give_up, i)) d d'"
  using queue_call.intros by fastforce+

inductive_cases queue_callE: "queue_call p cfg ev d d'"

inductive queue_trace :: "pg \<Rightarrow> queue_config \<Rightarrow> db \<Rightarrow> event list \<Rightarrow> db \<Rightarrow> bool" for p cfg d where
  start: "queue_trace p cfg d [] d"
| silent: "queue_trace p cfg d tr d1 \<Longrightarrow> queue_call p cfg None d1 d2 \<Longrightarrow> queue_trace p cfg d tr d2"
| event: "queue_trace p cfg d tr d1 \<Longrightarrow> queue_call p cfg (Some ev) d1 d2 \<Longrightarrow> queue_trace p cfg d (tr @ [ev]) d2"

lemma queue_call_step: "queue_call p cfg ev d d' \<Longrightarrow> queue_step p cfg d d'"
  by (elim queue_callE) (auto intro: queue_step.intros)

lemma queue_trace_steps: "queue_trace p cfg d tr d' \<Longrightarrow> queue_steps p cfg d d'"
  by (induction rule: queue_trace.induct) (auto dest: queue_call_step)

lemma queue_call_ok: "queue_call p cfg ev d d' \<Longrightarrow> db_ok d \<Longrightarrow> db_ok d'"
  by (rule queue_step_inv [OF queue_call_step])

subsection \<open>The phase of a row\<close>

definition phase_of :: "task_row \<Rightarrow> phase" where
  "phase_of r =
     (case status r of
        Waiting \<Rightarrow> Pending
      | Running \<Rightarrow> if finished_at r = None then Active else Revived
      | Cancelled \<Rightarrow> Stopped
      | Finished \<Rightarrow> Succeeded
      | Failed \<Rightarrow> Errored)"

definition phases :: "db \<Rightarrow> string \<Rightarrow> phase option" where
  "phases d i = map_option phase_of (task_of d i)"

lemma phase_enqueued [simp]: "phase_of (enqueued_row p e t) = Pending"
  by (simp add: phase_of_def)

lemma phase_started:
  assumes "row_ok r" "dequeuable p q t r"
  shows "phase_of r \<in> {Pending, Active}" "phase_of (start_row n r) = Active"
  using dequeuable_not_final [OF assms] assms(1) by (auto simp: phase_of_def row_ok_def)

lemma phase_progressed:
  assumes "row_ok r" "status r \<notin> {Waiting, Cancelled, Finished}"
  shows "advance Beat (Some (phase_of r)) = Some (phase_of (set_progress n b False False r))"
    "advance Complete (Some (phase_of r)) = Some (phase_of (set_progress n b True False r))"
    "advance Give_up (Some (phase_of r)) = Some (phase_of (set_progress n b True True r))"
  using assms by (auto simp: phase_of_def row_ok_def)

lemma task_of_update:
  assumes "\<And>r. task_id (f r) = task_id r"
  shows "task_of (d\<lparr>tasks := update_where (\<lambda>r. task_id r = i) f (tasks d)\<rparr>) j =
    (if j = i then map_option f (task_of d j) else task_of d j)"
  using find_update_where_key [of task_id f j i "tasks d", OF assms] by (simp add: task_of_def)

lemma phases_update:
  assumes "\<And>r. task_id (f r) = task_id r" "task_of d i = Some r"
  shows "phases (d\<lparr>tasks := update_where (\<lambda>r. task_id r = i) f (tasks d)\<rparr>) = (phases d)(i \<mapsto> phase_of (f r))"
  by (rule ext) (simp add: phases_def task_of_update [OF assms(1)] assms(2))

lemma phases_append:
  assumes "task_id r \<notin> task_id ` set (tasks d)"
  shows "phases (d\<lparr>tasks := tasks d @ [r]\<rparr>) = (phases d)(task_id r \<mapsto> phase_of r)" "phases d (task_id r) = None"
proof -
  have "task_of (d\<lparr>tasks := rows @ [r]\<rparr>) j = (if task_of (d\<lparr>tasks := rows\<rparr>) j = None \<and> j = task_id r then Some r else task_of (d\<lparr>tasks := rows\<rparr>) j)"
    for j rows by (induction rows) (auto simp: task_of_def)
  from this [of "tasks d"] assms task_of_None [of d "task_id r"]
  show "phases (d\<lparr>tasks := tasks d @ [r]\<rparr>) = (phases d)(task_id r \<mapsto> phase_of r)" "phases d (task_id r) = None"
    by (auto simp: phases_def)
qed

subsection \<open>Every call is a step of the automaton\<close>

lemma progress_advances:
  assumes "updateProgress p e i pr fin fl d = (d', None)" "db_ok d"
    and a: "\<And>r b. row_ok r \<Longrightarrow> status r \<notin> {Waiting, Cancelled, Finished} \<Longrightarrow>
      advance a (Some (phase_of r)) = Some (phase_of (set_progress (up_now e) b fin fl r))"
  shows "\<exists>ph. advance a (phases d i) = Some ph \<and> phases d' = (phases d)(i \<mapsto> ph)"
  using assms(1)
proof (cases rule: updateProgress_cases)
  case (written r b)
  then have "row_ok r" using assms(2) by (auto dest: task_of_in db_ok_row)
  from a [OF this written(3)] have "advance a (phases d i) = Some (phase_of (set_progress (up_now e) b fin fl r))"
    using written(2) by (simp add: phases_def)
  moreover have "phases d' = (phases d)(i \<mapsto> phase_of (set_progress (up_now e) b fin fl r))"
    unfolding written(5) progressed_def by (rule phases_update) (simp_all add: written(2))
  ultimately show ?thesis by blast
qed simp

lemma queue_call_advances:
  assumes "queue_call p cfg ev d d'" "db_ok d"
  shows "case ev of
      None \<Rightarrow> phases d' = phases d
    | Some (a, i) \<Rightarrow> \<exists>ph. advance a (phases d i) = Some ph \<and> phases d' = (phases d)(i \<mapsto> ph)"
  using assms(1)
proof cases
  case (enqueued e t err)
  show ?thesis
  proof (cases err)
    case None
    with enqueued Enqueue_ok [of p e t d d'] phases_append [of "enqueued_row p e t" d] show ?thesis by simp
  next
    case (Some x)
    with enqueued(2) Enqueue_err_unchanged [of p e t d d'] have "d' = d" by simp
    with Some enqueued(1) show ?thesis by simp
  qed
next
  case (dequeued e queues du di tk err)
  from dequeued(2) show ?thesis
  proof (cases rule: attempt_dequeue_at_cases)
    case unchanged
    with dequeued(1) show ?thesis by simp
  next
    case (taken qs infl q r)
    from select_task_Some [OF taken(9)] have r: "r \<in> set (tasks d)" "dequeuable p q (doubleTTL cfg e) r" by auto
    note ph = phase_started [OF db_ok_row [OF assms(2) r(1)] r(2)]
    have t: "task_of d (task_id r) = Some r" using assms(2) r(1) by (simp add: db_ok_def task_of_row)
    have "phases d' = (phases d)(task_id r \<mapsto> Active)"
      unfolding taken(3) started_def using phases_update [OF _ t, of "start_row (dq_now e)"] ph(2) by simp
    moreover have "advance Claim (phases d (task_id r)) = Some Active" using ph(1) t by (auto simp: phases_def)
    ultimately show ?thesis using dequeued(1) taken(1,2) by simp
  qed
next
  case (beaten e i pr err)
  show ?thesis
  proof (cases err)
    case None
    with beaten progress_advances [of p e i pr False False d d' Beat] assms(2) show ?thesis
      by (simp add: Heartbeat_def phase_progressed)
  next
    case (Some x)
    with beaten show ?thesis by (auto simp: Heartbeat_def elim: updateProgress_cases)
  qed
next
  case (completed e i pr err)
  show ?thesis
  proof (cases err)
    case None
    with completed progress_advances [of p e i pr True False d d' Complete] assms(2) show ?thesis
      by (simp add: Finish_def phase_progressed)
  next
    case (Some x)
    with completed show ?thesis by (auto simp: Finish_def elim: updateProgress_cases)
  qed
next
  case (given_up e i pr err)
  show ?thesis
  proof (cases err)
    case None
    with given_up progress_advances [of p e i pr True True d d' Give_up] assms(2) show ?thesis
      by (simp add: Fail_def phase_progressed)
  next
    case (Some x)
    with given_up show ?thesis by (auto simp: Fail_def elim: updateProgress_cases)
  qed
qed

lemma trace_plays:
  assumes "queue_trace p cfg d tr d'" "db_ok d"
  shows "play tr (phases d) = Some (phases d') \<and> db_ok d'"
  using assms
proof (induction rule: queue_trace.induct)
  case (silent tr d1 d2)
  with queue_call_advances [OF silent.hyps(2)] queue_call_ok [OF silent.hyps(2)] show ?case by simp
next
  case (event tr d1 ev d2)
  then have 1: "play tr (phases d) = Some (phases d1)" "db_ok d1" by simp_all
  obtain a i where ev: "ev = (a, i)" by fastforce
  from queue_call_advances [OF event.hyps(2) 1(2)] ev
  obtain ph where "advance a (phases d1 i) = Some ph" "phases d2 = (phases d1)(i \<mapsto> ph)" by auto
  with 1 ev queue_call_ok [OF event.hyps(2)] show ?case by (simp add: play_append fun_upd_def)
qed simp

lemma phases_empty [simp]: "phases empty_db = Map.empty"
  by (rule ext) (simp add: phases_def task_of_def empty_db_def)


subsection \<open>The calls for one task\<close>

definition calls_for :: "string \<Rightarrow> event list \<Rightarrow> action list" where
  "calls_for i tr = map fst (filter (\<lambda>(a, j). j = i) tr)"

fun walk :: "action list \<Rightarrow> phase option \<Rightarrow> bool" where
  "walk [] ph \<longleftrightarrow> True"
| "walk (a # acts) ph \<longleftrightarrow> (case advance a ph of None \<Rightarrow> False | Some ph' \<Rightarrow> walk acts (Some ph'))"

lemma play_walks: "play tr q = Some q' \<Longrightarrow> walk (calls_for i tr) (q i)"
proof (induction tr arbitrary: q)
  case (Cons ev tr)
  obtain a j where ev: "ev = (a, j)" by fastforce
  from Cons.prems ev obtain ph where ph: "advance a (q j) = Some ph" "play tr (q(j \<mapsto> ph)) = Some q'"
    by (auto simp: bind_eq_Some_conv)
  from Cons.IH [OF ph(2)] ph(1) ev show ?case by (cases "j = i") (simp_all add: calls_for_def)
qed (simp add: calls_for_def)

text \<open>
  The order of the successful calls for one task: it is submitted first and once, nothing comes
  after its completion, and it is not claimed after a failure.
\<close>

definition orderly :: "action list \<Rightarrow> bool" where
  "orderly acts \<longleftrightarrow>
     (acts \<noteq> [] \<longrightarrow> hd acts = Submit \<and> Submit \<notin> set (tl acts)) \<and>
     (\<forall>k < length acts. acts ! k = Complete \<longrightarrow> Suc k = length acts) \<and>
     (\<forall>k < length acts. acts ! k = Give_up \<longrightarrow> Claim \<notin> set (drop k acts))"

lemma walk_no_submit: "walk acts (Some ph) \<Longrightarrow> Submit \<notin> set acts"
  by (induction acts arbitrary: ph) (auto split: option.splits)

lemma walk_from_succeeded: "walk acts (Some Succeeded) \<Longrightarrow> acts = []"
  by (cases "(hd acts, Some Succeeded)" rule: advance.cases; cases acts) auto

lemma walk_after_end: "walk acts (Some ph) \<Longrightarrow> ph \<in> {Errored, Revived, Succeeded} \<Longrightarrow> Claim \<notin> set acts"
proof (induction acts arbitrary: ph)
  case (Cons a acts)
  then obtain ph' where ph': "advance a (Some ph) = Some ph'" "walk acts (Some ph')" by (auto split: option.splits)
  moreover from ph'(1) Cons.prems(2) have "a \<noteq> Claim" "ph' \<in> {Errored, Revived, Succeeded}"
    by (cases a; auto)+
  ultimately show ?case using Cons.IH by auto
qed simp

lemma walk_ends:
  "walk acts ph \<Longrightarrow> k < length acts \<Longrightarrow>
    (acts ! k = Complete \<longrightarrow> Suc k = length acts) \<and> (acts ! k = Give_up \<longrightarrow> Claim \<notin> set (drop k acts))"
proof (induction acts arbitrary: ph k)
  case (Cons a acts)
  then obtain ph' where ph': "advance a ph = Some ph'" "walk acts (Some ph')" by (auto split: option.splits)
  show ?case
  proof (cases k)
    case 0
    have "acts = []" if "a = Complete"
      using that ph' walk_from_succeeded by (cases "(a, ph)" rule: advance.cases) auto
    moreover have "Claim \<notin> set acts" if "a = Give_up"
      using that ph' walk_after_end by (cases "(a, ph)" rule: advance.cases) auto
    ultimately show ?thesis using 0 by auto
  next
    case (Suc m)
    with Cons.prems(2) Cons.IH [OF ph'(2), of m] show ?thesis by simp
  qed
qed simp

lemma walk_orderly: "walk acts None \<Longrightarrow> orderly acts"
proof (cases acts)
  case (Cons a rest)
  assume w: "walk acts None"
  with Cons have "a = Submit" by (cases a) auto
  with w Cons have "walk rest (Some Pending)" by simp
  with walk_no_submit Cons \<open>a = Submit\<close> walk_ends [OF w] show ?thesis by (auto simp: orderly_def)
qed (simp add: orderly_def)

text \<open>
  C1: The queue on Postgres implements the life of a task. Any run of any number of queuers and
  dequeuers from the empty database, with failing statements and with outdated lists of queues, is
  a run of the abstract queue: the calls that succeed are allowed by the automaton and lead to the
  phases of the tasks in the database, and those that fail change no phase. So every task is
  submitted first and once, nothing succeeds after its completion, and it is never claimed after
  it failed, not even when a late heartbeat has set it to running again.
\<close>

theorem queue_refines_lifecycle:
  assumes "queue_trace p cfg empty_db tr d"
  shows "play tr Map.empty = Some (phases d) \<and> (\<forall>i. orderly (calls_for i tr))"
proof -
  have play: "play tr Map.empty = Some (phases d)" using trace_plays [OF assms empty_db_ok] by simp
  have "orderly (calls_for i tr)" for i
    using play_walks [OF play, of i] by (intro walk_orderly) simp
  with play show ?thesis by blast
qed

lemma ex_failed_trace: "queue_trace sample_pg ex_cfg empty_db [(Submit, ''t1''), (Claim, ''t1''), (Give_up, ''t1'')] ex_failed"
proof -
  have "Enqueue sample_pg (ex_enq ''t1'' 1) (ex_req ''q'') empty_db = (ex_db1, None)" by code_simp
  from queue_call_success(1) [OF this] have 1: "queue_call sample_pg ex_cfg (Some (Submit, ''t1'')) empty_db ex_db1"
    by (simp add: ex_enq_def)
  have "attempt_dequeue_at sample_pg ex_cfg (ex_deq 100) [] ex_db1 ex_db1 ex_db1 =
      (ex_run, Some (started_task (ex_deq 100) (ex_row ''t1'' 1)), None)" by code_simp
  from queue_call_success(2) [OF this] have 2: "queue_call sample_pg ex_cfg (Some (Claim, ''t1'')) ex_db1 ex_run"
    by (simp add: ex_row_def ex_enq_def)
  have "Fail sample_pg (ex_prog 105) ''t1'' [] ex_run = (ex_failed, None)" by code_simp
  from queue_call_success(5) [OF this] have 3: "queue_call sample_pg ex_cfg (Some (Give_up, ''t1'')) ex_run ex_failed" .
  from queue_trace.event [OF queue_trace.event [OF queue_trace.event [OF queue_trace.start 1] 2] 3] show ?thesis by simp
qed

theorem queue_refines_lifecycle_witness:
  "play [(Submit, ''t1''), (Claim, ''t1''), (Give_up, ''t1'')] Map.empty = Some (phases ex_failed) \<and>
   orderly [Submit, Claim, Give_up]"
proof -
  have "calls_for ''t1'' [(Submit, ''t1''), (Claim, ''t1''), (Give_up, ''t1'')] = [Submit, Claim, Give_up]"
    by (simp add: calls_for_def)
  with queue_refines_lifecycle [OF ex_failed_trace] show ?thesis by metis
qed

subsection \<open>Every path of the automaton happens\<close>

lemma one_task_call:
  assumes "pg_ok p" "tasks d = [r]" "row_ok r" "advance a (Some (phase_of r)) = Some ph"
  shows "\<exists>d' r'. queue_call p cfg (Some (a, task_id r)) d d' \<and> tasks d' = [r'] \<and> row_ok r' \<and>
    task_id r' = task_id r \<and> phase_of r' = ph"
proof -
  have ok: "db_ok d" and t: "task_of d (task_id r) = Some r" using assms(2,3) by (simp_all add: db_ok_def task_of_def)
  have prog: "prog_ok p (ex_prog 0) []"
    using pg_okD(1) [OF assms(1)] by (simp add: prog_ok_def ex_prog_def tx_ok_def progress_text_def)
  have open_row: "status r \<notin> {Waiting, Cancelled, Finished}" if "a \<notin> {Submit, Claim}"
    using that assms(4) by (cases a; cases "status r") (simp_all add: phase_of_def)
  have "\<exists>d' r'. queue_call p cfg (Some (a, task_id r)) d d' \<and> tasks d' = [r'] \<and> task_id r' = task_id r"
  proof (cases a)
    case Submit
    with assms(4) show ?thesis by simp
  next
    case Claim
    define e where "e = ex_deq ((case last_heartbeat_at r of None \<Rightarrow> 0 | Some h \<Rightarrow> h) + 1 - wrap64 (- 2 * HeartbeatTTL cfg))"
    have deq: "dequeuable p (queue r) (doubleTTL cfg e) r"
      using assms(3,4) Claim
      by (cases "status r") (auto simp: dequeuable_def phase_of_def row_ok_def e_def ex_deq_def doubleTTL_def split: if_splits)
    have idle: "\<not> inflight (doubleTTL cfg e) r"
      by (cases "last_heartbeat_at r") (simp_all add: inflight_def e_def ex_deq_def doubleTTL_def)
    have lists: "generateInflightQueueList p e (doubleTTL cfg e) d = ([], None)"
      using assms(2) idle by (simp add: generateInflightQueueList_def generateQueueList_def e_def ex_deq_def)
    have "attemptDequeue p cfg e [queue r] d = (started e r d, Some (started_task e r), None)"
    proof (rule attemptDequeue_ok [where n = 0 and q = "queue r", OF _ _ lists])
      show "select_task p (queue r) (doubleTTL cfg e) d = Some r" using assms(2) deq by (simp add: select_task_def)
    qed (auto simp: deq_ok_def e_def ex_deq_def tx_ok_def processableQueues_eq)
    from queue_call_success(2) [where cfg = cfg, OF this [unfolded attemptDequeue_def]] assms(2) Claim show ?thesis
      by (intro exI [of _ "started e r d"] exI [of _ "start_row (dq_now e) r"]) (simp add: started_def)
  next
    case Beat
    with updateProgress_ok [OF prog t open_row, of False False] obtain b where
      "Heartbeat p (ex_prog 0) (task_id r) [] d = (progressed (ex_prog 0) (task_id r) b False False d, None)"
      by (auto simp: Heartbeat_def)
    from queue_call_success(3) [where cfg = cfg, OF this] assms(2) Beat show ?thesis by (auto simp: progressed_def)
  next
    case Complete
    with updateProgress_ok [OF prog t open_row, of True False] obtain b where
      "Finish p (ex_prog 0) (task_id r) [] d = (progressed (ex_prog 0) (task_id r) b True False d, None)"
      by (auto simp: Finish_def)
    from queue_call_success(4) [where cfg = cfg, OF this] assms(2) Complete show ?thesis by (auto simp: progressed_def)
  next
    case Give_up
    with updateProgress_ok [OF prog t open_row, of True True] obtain b where
      "Fail p (ex_prog 0) (task_id r) [] d = (progressed (ex_prog 0) (task_id r) b True True d, None)"
      by (auto simp: Fail_def)
    from queue_call_success(5) [where cfg = cfg, OF this] assms(2) Give_up show ?thesis by (auto simp: progressed_def)
  qed
  then obtain d' r' where call: "queue_call p cfg (Some (a, task_id r)) d d'" and r': "tasks d' = [r']" "task_id r' = task_id r"
    by blast
  from queue_call_advances [OF call ok] assms(4) t have "phases d' (task_id r) = Some ph" by (auto simp: phases_def)
  with r' queue_call_ok [OF call ok] call show ?thesis by (auto simp: phases_def task_of_def db_ok_def)
qed

lemma one_task_walk:
  assumes "pg_ok p"
  shows "tasks d = [r] \<Longrightarrow> row_ok r \<Longrightarrow> task_id r = i \<Longrightarrow> walk acts (Some (phase_of r)) \<Longrightarrow>
    queue_trace p cfg d0 tr d \<Longrightarrow> \<exists>d'. queue_trace p cfg d0 (tr @ map (\<lambda>a. (a, i)) acts) d'"
proof (induction acts arbitrary: r d tr)
  case Nil
  then show ?case by auto
next
  case (Cons a acts)
  then obtain ph where ph: "advance a (Some (phase_of r)) = Some ph" "walk acts (Some ph)" by (auto split: option.splits)
  from one_task_call [OF assms Cons.prems(1,2) ph(1)] Cons.prems(3) obtain d' r' where
    call: "queue_call p cfg (Some (a, i)) d d'" and r': "tasks d' = [r']" "row_ok r'" "task_id r' = i" "phase_of r' = ph"
    by blast
  from Cons.IH [OF r'(1-3) _ queue_trace.event [OF Cons.prems(5) call]] ph(2) r'(4) show ?case by simp
qed

lemma submit_empty:
  assumes "pg_ok p"
  shows "\<exists>d r. queue_call p cfg (Some (Submit, i)) empty_db d \<and> tasks d = [r] \<and> row_ok r \<and> task_id r = i \<and> phase_of r = Pending"
proof -
  let ?e = "ex_enq i 0" and ?t = "ex_req ''q''"
  have "Enqueue p ?e ?t empty_db = (empty_db\<lparr>tasks := tasks empty_db @ [enqueued_row p ?e ?t]\<rparr>, None)"
    using pg_okD(1) [OF assms]
    by (simp add: Enqueue_def ex_enq_def ex_req_def insert_task_def GetNamesAndValues_def task_insert_columns_def empty_db_def
        enqueued_row_def)
  from queue_call_success(1) [where cfg = cfg, OF this] show ?thesis
    by (auto simp: ex_enq_def empty_db_def row_ok_enqueued)
qed

text \<open>
  C2: The automaton says all there is to say about one task. On any Postgres that stores JSON
  as documented, a sequence of calls is the trace of a run from the empty database in which
  all calls succeed and name the same task if and only if the automaton allows it: nothing that
  it forbids ever happens, and everything that it allows, also a failed task that is revived by a
  heartbeat and completed after all, does happen.
\<close>

theorem traces_of_one_task:
  assumes "pg_ok p"
  shows "(\<exists>d. queue_trace p cfg empty_db (map (\<lambda>a. (a, i)) acts) d) \<longleftrightarrow> walk acts None"
proof
  assume "\<exists>d. queue_trace p cfg empty_db (map (\<lambda>a. (a, i)) acts) d"
  then obtain d where "queue_trace p cfg empty_db (map (\<lambda>a. (a, i)) acts) d" ..
  from trace_plays [OF this empty_db_ok] have "play (map (\<lambda>a. (a, i)) acts) Map.empty = Some (phases d)" by simp
  from play_walks [OF this, of i] show "walk acts None"
    by (simp add: calls_for_def filter_map comp_def)
next
  assume w: "walk acts None"
  show "\<exists>d. queue_trace p cfg empty_db (map (\<lambda>a. (a, i)) acts) d"
  proof (cases acts)
    case Nil
    then show ?thesis by (auto intro: queue_trace.start)
  next
    case (Cons a rest)
    with w have a: "a = Submit" "walk rest (Some Pending)" by (cases a; auto)+
    from submit_empty [OF assms] obtain d r where call: "queue_call p cfg (Some (Submit, i)) empty_db d"
      and r: "tasks d = [r]" "row_ok r" "task_id r = i" "phase_of r = Pending" by blast
    from one_task_walk [OF assms r(1-3) _ queue_trace.event [OF queue_trace.start call]] a r(4) Cons show ?thesis by simp
  qed
qed

theorem traces_of_one_task_witness:
  "\<exists>d. queue_trace sample_pg ex_cfg empty_db
     (map (\<lambda>a. (a, ''t'')) [Submit, Claim, Beat, Claim, Give_up, Beat, Complete]) d"
  using traces_of_one_task [OF sample_pg_ok, of ex_cfg "''t''" "[Submit, Claim, Beat, Claim, Give_up, Beat, Complete]"] by simp

end
