(* ===== verification/Key_Races.thy ===== *)
theory Key_Races
  imports Tokens Queue_System
begin

section \<open>The cache of public keys between goroutines\<close>

text \<open>
  \<open>pkg/tokens/public_keys.go\<close> guards the field \<open>keysByHashes\<close> by a read-write lock. Here the
  methods are the sequences of what they do with the lock and the field; what they compute
  in between is that of \<open>Tokens\<close>. A goroutine is the lock that it holds with what it has still to
  do, and a step executes the next operation of any of them that need not wait. A data race
  is a state in which two goroutines are about to access the field and one of them writes.
\<close>

datatype access = RLock | RUnlock | Lock | Unlock | Read | Write

datatype held = Free | Shared | Exclusive

type_synonym goroutine = "held \<times> access list"

subsection \<open>The methods\<close>

definition lookup_ops :: "access list" where
  "lookup_ops = [RLock, Read, RUnlock]"

definition clear_ops :: "access list" where
  "clear_ops = [RLock, Write, RUnlock]"

definition KeyFunction_ops :: "jwt_token \<Rightarrow> access list" where
  "KeyFunction_ops t = (if \<not> method_rsa t then [] else (case kid t of None \<Rightarrow> [] | Some k \<Rightarrow> lookup_ops))"

definition sync_ops ::
  "'k key_lib \<Rightarrow> error option \<Rightarrow> error + (error option \<times> key_file) list \<Rightarrow> error option \<Rightarrow> 'k key_cache \<Rightarrow> access list" where
  "sync_ops lib ctx1 dir ctx2 cache =
     (case ctx1 of Some x \<Rightarrow> []
      | None \<Rightarrow>
        (case dir of
           Inl x \<Rightarrow> clear_ops
         | Inr files \<Rightarrow>
           if files = [] then clear_ops
           else (case ctx2 of Some x \<Rightarrow> []
             | None \<Rightarrow>
               [RLock, Read, RUnlock] @
               (case sync_files lib files (start_state cache) of
                  Inl x \<Rightarrow> []
                | Inr s \<Rightarrow> if keysAdded s = 0 \<and> keysUpdated s = 0 \<and> deletes s = [] then [] else [Lock, Write, Unlock]))))"

type_synonym tick = "error option \<times> (error + (error option \<times> key_file) list) \<times> error option"

fun MaintainCache_ops :: "'k key_lib \<Rightarrow> tick list \<Rightarrow> 'k key_cache \<Rightarrow> access list" where
  "MaintainCache_ops lib [] cache = []"
| "MaintainCache_ops lib ((ctx1, dir, ctx2) # ticks) cache =
     sync_ops lib ctx1 dir ctx2 cache @
     (case sync lib ctx1 dir ctx2 cache of
        (cache', Some x) \<Rightarrow> []
      | (cache', None) \<Rightarrow> MaintainCache_ops lib ticks cache')"

text \<open>The goroutine that maintains the cache, and clients that verify tokens.\<close>

definition goroutines :: "'k key_lib \<Rightarrow> tick list \<Rightarrow> 'k key_cache \<Rightarrow> jwt_token list list \<Rightarrow> goroutine list" where
  "goroutines lib ticks cache clients =
     (Free, MaintainCache_ops lib ticks cache) # map (\<lambda>ts. (Free, concat (map KeyFunction_ops ts))) clients"

subsection \<open>Steps\<close>

text \<open>
  A reader waits for a writer to leave and a writer for everybody. The order in which \<open>sync\<close>
  serves those who wait is left open.
\<close>

fun ready :: "goroutine list \<Rightarrow> held \<Rightarrow> access \<Rightarrow> bool" where
  "ready gs h RLock \<longleftrightarrow> Exclusive \<notin> fst ` set gs"
| "ready gs h Lock \<longleftrightarrow> fst ` set gs \<subseteq> {Free}"
| "ready gs h RUnlock \<longleftrightarrow> h = Shared"
| "ready gs h Unlock \<longleftrightarrow> h = Exclusive"
| "ready gs h _ \<longleftrightarrow> True"

fun after :: "access \<Rightarrow> held \<Rightarrow> held" where
  "after RLock h = Shared"
| "after Lock h = Exclusive"
| "after RUnlock h = Free"
| "after Unlock h = Free"
| "after _ h = h"

inductive go_step :: "goroutine list \<Rightarrow> goroutine list \<Rightarrow> bool" where
  go: "i < length gs \<Longrightarrow> gs ! i = (h, a # rest) \<Longrightarrow> ready gs h a \<Longrightarrow> go_step gs (gs[i := (after a h, rest)])"

inductive_cases go_stepE: "go_step gs gs'"

abbreviation go_steps :: "goroutine list \<Rightarrow> goroutine list \<Rightarrow> bool" where
  "go_steps \<equiv> go_step\<^sup>*\<^sup>*"

definition race :: "goroutine list \<Rightarrow> bool" where
  "race gs \<longleftrightarrow> (\<exists>i < length gs. \<exists>j < length gs. i \<noteq> j \<and>
     (\<exists>rest. snd (gs ! i) = Write # rest) \<and> (\<exists>a rest. snd (gs ! j) = a # rest \<and> a \<in> {Read, Write}))"

definition finished :: "goroutine list \<Rightarrow> bool" where
  "finished gs \<longleftrightarrow> (\<forall>g \<in> set gs. g = (Free, []))"

subsection \<open>Locks are paired\<close>

text \<open>The lock that is held for an access: \<open>w\<close> is what a write needs.\<close>

fun paired :: "held set \<Rightarrow> goroutine \<Rightarrow> bool" where
  "paired w (h, []) \<longleftrightarrow> h = Free"
| "paired w (h, RLock # as) \<longleftrightarrow> h = Free \<and> paired w (Shared, as)"
| "paired w (h, Lock # as) \<longleftrightarrow> h = Free \<and> paired w (Exclusive, as)"
| "paired w (h, RUnlock # as) \<longleftrightarrow> h = Shared \<and> paired w (Free, as)"
| "paired w (h, Unlock # as) \<longleftrightarrow> h = Exclusive \<and> paired w (Free, as)"
| "paired w (h, Read # as) \<longleftrightarrow> h \<noteq> Free \<and> paired w (h, as)"
| "paired w (h, Write # as) \<longleftrightarrow> h \<in> w \<and> paired w (h, as)"

definition locks_ok :: "held set \<Rightarrow> goroutine list \<Rightarrow> bool" where
  "locks_ok w gs \<longleftrightarrow> (\<forall>g \<in> set gs. paired w g) \<and>
     (\<forall>i < length gs. fst (gs ! i) = Exclusive \<longrightarrow> (\<forall>j < length gs. j \<noteq> i \<longrightarrow> fst (gs ! j) = Free))"

definition work :: "goroutine list \<Rightarrow> nat" where
  "work gs = sum_list (map (length \<circ> snd) gs)"

lemma paired_append: "paired w (h, as) \<Longrightarrow> paired w (Free, bs) \<Longrightarrow> paired w (h, as @ bs)"
  by (induction w "(h, as)" arbitrary: h as rule: paired.induct) simp_all

lemma paired_concat: "(\<And>as. as \<in> set ass \<Longrightarrow> paired w (Free, as)) \<Longrightarrow> paired w (Free, concat ass)"
  by (induction ass) (auto intro: paired_append)

lemma paired_step: "paired w (h, a # as) \<Longrightarrow> paired w (after a h, as)"
  by (cases a) auto

lemma locks_ok_step:
  assumes "go_step gs gs'" "locks_ok w gs"
  shows "locks_ok w gs'"
  using assms(1)
proof cases
  case (go i h a rest)
  have p: "\<forall>g \<in> set gs. paired w g" and ex: "\<And>i j. i < length gs \<Longrightarrow> j < length gs \<Longrightarrow> fst (gs ! i) = Exclusive \<Longrightarrow> j \<noteq> i \<Longrightarrow> fst (gs ! j) = Free"
    using assms(2) unfolding locks_ok_def by blast+
  have "paired w (h, a # rest)" using bspec [OF p nth_mem [OF go(2)]] go(3) by simp
  then have "paired w (after a h, rest)" by (rule paired_step)
  then have "\<forall>g \<in> insert (after a h, rest) (set gs). paired w g" using p by simp
  then have "\<forall>g \<in> set gs'. paired w g" unfolding go(1) using set_update_subset_insert [of gs i "(after a h, rest)"] by blast
  moreover have "fst (gs' ! k) = Free" if jk: "j < length gs'" "k < length gs'" "fst (gs' ! j) = Exclusive" "k \<noteq> j" for j k
  proof -
    have len: "j < length gs" "k < length gs" using jk(1,2) go(1) by simp_all
    have all: "fst (gs ! m) = Free" if "m < length gs" "a = Lock" for m
      using go(4) that by (auto simp: image_subset_iff)
    have none: "fst (gs ! m) \<noteq> Exclusive" if "m < length gs" "a = RLock" for m
      using go(4) that nth_mem [OF that(1)] by (metis image_eqI ready.simps(1))
    consider "j = i" "k \<noteq> i" | "k = i" "j \<noteq> i" | "j \<noteq> i" "k \<noteq> i" using jk(4) by blast
    then show ?thesis
    proof cases
      case 1
      with jk(3) go(1,2) have "after a h = Exclusive" by simp
      then have "a = Lock \<or> h = Exclusive" by (cases a) simp_all
      with all [OF len(2)] ex [OF go(2) len(2)] go(3) 1 have "fst (gs ! k) = Free" by auto
      with 1 go(1) show ?thesis by simp
    next
      case 2
      with jk(3) go(1) have j: "fst (gs ! j) = Exclusive" by simp
      with ex [OF len(1) go(2)] 2 go(3) have "h = Free" by simp
      moreover from none [OF len(1)] all [OF len(1)] j have "a \<noteq> RLock" "a \<noteq> Lock" by auto
      ultimately have "after a h = Free" by (cases a) simp_all
      with 2 go(1,2) show ?thesis by simp
    next
      case 3
      with jk(3) go(1) ex [OF len] jk(4) show ?thesis by simp
    qed
  qed
  ultimately show ?thesis unfolding locks_ok_def by blast
qed

lemma work_step:
  assumes "go_step gs gs'"
  shows "work gs' < work gs"
  using assms
proof cases
  case (go i h a rest)
  have "sum_list (map (length \<circ> snd) gs') = sum_list (map (length \<circ> snd) gs) + length rest - Suc (length rest)"
    using go by (simp add: map_update sum_list_update)
  moreover have "Suc (length rest) \<le> sum_list (map (length \<circ> snd) gs)"
    using elem_le_sum_list [of i "map (length \<circ> snd) gs"] go by simp
  ultimately show ?thesis by (simp add: work_def)
qed

interpretation goq: guaranteed_steps go_step "locks_ok w" "\<lambda>gs gs'. work gs' \<le> work gs" for w
  by unfold_locales (auto intro: locks_ok_step dest: work_step)

lemma no_race: "locks_ok {Exclusive} gs \<Longrightarrow> \<not> race gs"
proof
  assume ok: "locks_ok {Exclusive} gs" and "race gs"
  then obtain i j r a r' where ij: "i < length gs" "j < length gs" "i \<noteq> j" "snd (gs ! i) = Write # r"
    "snd (gs ! j) = a # r'" "a \<in> {Read, Write}" unfolding race_def by blast
  have p: "paired {Exclusive} (gs ! k)" if "k < length gs" for k
    using ok nth_mem [OF that] unfolding locks_ok_def by blast
  from p [OF ij(1)] ij(4) have "fst (gs ! i) = Exclusive" by (cases "gs ! i") simp
  with ok ij(1-3) have "fst (gs ! j) = Free" unfolding locks_ok_def by metis
  with p [OF ij(2)] ij(5,6) show False by (cases "gs ! j") auto
qed

lemma goes_on:
  assumes "locks_ok {Shared, Exclusive} gs" "\<not> finished gs"
  shows "\<exists>gs'. go_step gs gs'"
proof -
  let ?w = "{Shared, Exclusive}"
  have p: "paired ?w g" if "g \<in> set gs" for g using assms(1) that unfolding locks_ok_def by blast
  have step: "\<exists>gs'. go_step gs gs'" if "(h, a # r) \<in> set gs" "ready gs h a" for h a r
    using that go_step.go by (metis in_set_conv_nth)
  show ?thesis
  proof (cases "fst ` set gs \<subseteq> {Free}")
    case True
    from assms(2) obtain g where g: "g \<in> set gs" "g \<noteq> (Free, [])" unfolding finished_def by blast
    obtain h as where h: "g = (h, as)" by fastforce
    with g True have "h = Free" by force
    with g h obtain a r where "as = a # r" by (cases as) auto
    with p [OF g(1)] h \<open>h = Free\<close> have "a = RLock \<or> a = Lock" by (cases a) auto
    then have "ready gs h a" using True by auto
    with step [of h a r] g(1) h \<open>as = a # r\<close> show ?thesis by blast
  next
    case False
    then obtain h as where g: "(h, as) \<in> set gs" "h \<noteq> Free" by fastforce
    with p [OF g(1)] obtain a r where "as = a # r" by (cases as) auto
    with p [OF g(1)] g(2) have "ready gs h a" by (cases a) auto
    with step [of h a r] g(1) \<open>as = a # r\<close> show ?thesis by blast
  qed
qed

lemma all_finish: "locks_ok {Shared, Exclusive} gs \<Longrightarrow> \<exists>gs'. go_steps gs gs' \<and> finished gs'"
proof (induction "work gs" arbitrary: gs rule: less_induct)
  case less
  show ?case
  proof (cases "finished gs")
    case False
    with goes_on [OF less.prems] obtain g1 where g1: "go_step gs g1" by blast
    from less.hyps [OF work_step [OF g1] locks_ok_step [OF g1 less.prems]] g1 show ?thesis
      by (meson converse_rtranclp_into_rtranclp)
  qed auto
qed

subsection \<open>The programs\<close>

text \<open>A tick at which the directory cannot be read or is empty.\<close>

fun clears :: "'k key_lib \<Rightarrow> tick list \<Rightarrow> 'k key_cache \<Rightarrow> bool" where
  "clears lib [] cache \<longleftrightarrow> False"
| "clears lib ((ctx1, dir, ctx2) # ticks) cache \<longleftrightarrow>
     ctx1 = None \<and> (case dir of Inl x \<Rightarrow> True | Inr files \<Rightarrow> files = []) \<or>
     (case sync lib ctx1 dir ctx2 cache of (cache', Some x) \<Rightarrow> False | (cache', None) \<Rightarrow> clears lib ticks cache')"

lemma KeyFunction_ops_cases: "KeyFunction_ops t = [] \<or> KeyFunction_ops t = lookup_ops"
  by (simp add: KeyFunction_ops_def split: option.split)

lemma paired_client: "paired w (Free, concat (map KeyFunction_ops ts))"
proof (rule paired_concat)
  fix as assume "as \<in> set (map KeyFunction_ops ts)"
  then obtain t where "as = KeyFunction_ops t" by auto
  with KeyFunction_ops_cases [of t] show "paired w (Free, as)" by (auto simp: lookup_ops_def)
qed

lemma paired_sync:
  "paired {Shared, Exclusive} (Free, sync_ops lib ctx1 dir ctx2 cache)"
  "\<not> (ctx1 = None \<and> (case dir of Inl x \<Rightarrow> True | Inr files \<Rightarrow> files = [])) \<Longrightarrow> paired {Exclusive} (Free, sync_ops lib ctx1 dir ctx2 cache)"
  by (auto simp: sync_ops_def clear_ops_def split: option.split sum.split)

lemma paired_maintain:
  "paired {Shared, Exclusive} (Free, MaintainCache_ops lib ticks cache)"
  "\<not> clears lib ticks cache \<Longrightarrow> paired {Exclusive} (Free, MaintainCache_ops lib ticks cache)"
  by (induction lib ticks cache rule: MaintainCache_ops.induct)
    (auto intro!: paired_append paired_sync split: prod.split option.split)

lemma start_ok:
  assumes "paired w (Free, MaintainCache_ops lib ticks cache)"
  shows "locks_ok w (goroutines lib ticks cache clients)"
proof -
  have "fst g = Free" if "g \<in> set (goroutines lib ticks cache clients)" for g
    using that by (auto simp: goroutines_def)
  then have "fst (goroutines lib ticks cache clients ! i) \<noteq> Exclusive" if "i < length (goroutines lib ticks cache clients)" for i
    using that by (metis held.distinct(3) nth_mem)
  moreover have "\<forall>g \<in> set (goroutines lib ticks cache clients). paired w g"
    using assms paired_client by (auto simp: goroutines_def)
  ultimately show ?thesis unfolding locks_ok_def by blast
qed

lemma clears_ops:
  "clears lib ticks cache \<Longrightarrow>
    \<exists>as bs. MaintainCache_ops lib ticks cache = as @ clear_ops @ bs \<and> paired {Shared, Exclusive} (Free, as)"
proof (induction lib ticks cache rule: clears.induct)
  case (2 lib ctx1 dir ctx2 ticks cache)
  show ?case
  proof (cases "ctx1 = None \<and> (case dir of Inl x \<Rightarrow> True | Inr files \<Rightarrow> files = [])")
    case True
    then have "sync_ops lib ctx1 dir ctx2 cache = clear_ops" by (auto simp: sync_ops_def split: sum.split_asm)
    moreover obtain rest where "MaintainCache_ops lib ((ctx1, dir, ctx2) # ticks) cache = sync_ops lib ctx1 dir ctx2 cache @ rest"
      by simp
    ultimately have "MaintainCache_ops lib ((ctx1, dir, ctx2) # ticks) cache = [] @ clear_ops @ rest" by simp
    then show ?thesis by (metis paired.simps(1))
  next
    case False
    then obtain c' where c': "sync lib ctx1 dir ctx2 cache = (c', None)" "clears lib ticks c'"
      using "2.prems" by (auto split: prod.splits option.splits)
    from "2.IH" [OF c'(1) [symmetric] refl c'(2)] obtain as bs where
      "MaintainCache_ops lib ticks c' = as @ clear_ops @ bs" "paired {Shared, Exclusive} (Free, as)" by blast
    with c'(1) paired_append [OF paired_sync(1)] show ?thesis
      by (intro exI [of _ "sync_ops lib ctx1 dir ctx2 cache @ as"] exI [of _ bs]) simp
  qed
qed simp

text \<open>A goroutine runs alone while the others hold nothing.\<close>

lemma runs_alone:
  assumes "\<And>j. j < length gs \<Longrightarrow> j \<noteq> i \<Longrightarrow> fst (gs ! j) = Free"
  shows "paired w (h, as) \<Longrightarrow> Free \<notin> w \<Longrightarrow> i < length gs \<Longrightarrow> go_steps (gs[i := (h, as @ bs)]) (gs[i := (Free, bs)])"
proof (induction as arbitrary: h)
  case (Cons a as)
  have free: "fst g = Free \<or> g = (h, a # as @ bs)" if "g \<in> set (gs[i := (h, a # as @ bs)])" for g
  proof -
    from that obtain j where "j < length gs" "g = gs[i := (h, a # as @ bs)] ! j" by (auto simp: in_set_conv_nth)
    with assms [of j] show ?thesis by (cases "j = i") simp_all
  qed
  have "ready (gs[i := (h, a # as @ bs)]) h a"
    using Cons.prems(1,2) free by (cases a) force+
  then have "go_step (gs[i := (h, a # as @ bs)]) (gs[i := (h, a # as @ bs), i := (after a h, as @ bs)])"
    using Cons.prems(3) by (intro go_step.go) simp_all
  with Cons.IH [OF paired_step [OF Cons.prems(1)] Cons.prems(2,3)] show ?case
    by (simp add: converse_rtranclp_into_rtranclp)
qed simp

lemma client_ops:
  "concat (map KeyFunction_ops ts) = [] \<or> (\<exists>r. concat (map KeyFunction_ops ts) = RLock # Read # r)"
proof (induction ts)
  case (Cons t ts)
  then show ?case using KeyFunction_ops_cases [of t] by (auto simp: lookup_ops_def)
qed simp

lemma client_idle: "concat (map KeyFunction_ops ts) = [] \<longleftrightarrow> (\<forall>t \<in> set ts. KeyFunction_ops t = [])"
  by auto

lemma idle_clients:
  assumes "go_steps gs gs'" "\<forall>j < length gs. j \<noteq> 0 \<longrightarrow> snd (gs ! j) = []"
  shows "\<forall>j < length gs'. j \<noteq> 0 \<longrightarrow> snd (gs' ! j) = []"
  using assms
proof (induction rule: rtranclp_induct)
  case (step gs1 gs2)
  from step.hyps(2) show ?case
  proof cases
    case (go i h a rest)
    with step.IH [OF step.prems] have "i = 0" by (metis list.distinct(1) snd_conv)
    with go step.IH [OF step.prems] show ?thesis by simp
  qed
qed simp

lemma race_happens:
  assumes "clears lib ticks cache" "ts \<in> set clients" "t \<in> set ts" "KeyFunction_ops t \<noteq> []"
  shows "\<exists>gs. go_steps (goroutines lib ticks cache clients) gs \<and> race gs"
proof -
  let ?gs = "goroutines lib ticks cache clients"
  have free: "fst (?gs ! j) = Free" if "j < length ?gs" for j
    using nth_mem [OF that] by (auto simp: goroutines_def)
  from clears_ops [OF assms(1)] obtain as bs where
    as: "MaintainCache_ops lib ticks cache = as @ clear_ops @ bs" "paired {Shared, Exclusive} (Free, as)" by blast
  obtain k where k: "k < length clients" "clients ! k = ts" using assms(2) by (auto simp: in_set_conv_nth)
  obtain r where r: "concat (map KeyFunction_ops ts) = RLock # Read # r"
    using client_ops [of ts] client_idle [of ts] assms(3,4) by blast
  have cl: "?gs ! Suc k = (Free, RLock # Read # r)" "Suc k < length ?gs" "?gs ! 0 = (Free, as @ clear_ops @ bs)" "0 < length ?gs"
    using k r as(1) by (simp_all add: goroutines_def)
  define g1 where "g1 = ?gs[0 := (Free, clear_ops @ bs)]"
  define g2 where "g2 = g1[0 := (Shared, Write # RUnlock # bs)]"
  define g3 where "g3 = g2[Suc k := (Shared, Read # r)]"
  have "go_steps (?gs[0 := (Free, as @ clear_ops @ bs)]) g1"
    unfolding g1_def by (rule runs_alone [OF free as(2)]) (use cl in auto)
  moreover have "?gs[0 := (Free, as @ clear_ops @ bs)] = ?gs" using cl(3) by (metis list_update_id)
  ultimately have 1: "go_steps ?gs g1" by simp
  have free1: "fst g = Free" if "g \<in> set g1" for g
  proof -
    from that obtain j where "j < length ?gs" "g = ?gs[0 := (Free, clear_ops @ bs)] ! j" by (auto simp: g1_def in_set_conv_nth)
    with free [of j] show ?thesis by (cases "j = 0") simp_all
  qed
  have 2: "go_step g1 g2"
    unfolding g2_def using go_step.go [of 0 g1 Free RLock "Write # RUnlock # bs"] free1 cl(4)
    by (auto simp: g1_def clear_ops_def)
  have "fst g \<noteq> Exclusive" if "g \<in> set g2" for g
    using that free1 unfolding g2_def by (metis (no_types, lifting) fst_conv held.distinct insertE set_update_subset_insert subset_eq)
  then have "Exclusive \<notin> fst ` set g2" by (metis image_iff)
  then have 3: "go_step g2 g3"
    unfolding g3_def using go_step.go [of "Suc k" g2 Free RLock "Read # r"] cl(1,2) by (simp add: g2_def g1_def)
  have "race g3"
    unfolding race_def using cl(2,4)
    by (intro exI [of _ 0] conjI exI [of _ "Suc k"]) (auto simp: g3_def g2_def g1_def)
  with 1 2 3 show ?thesis by (meson rtranclp.rtrancl_into_rtrancl)
qed

text \<open>
  C24: The data race in the cache of public keys. The goroutine that maintains the cache and
  any number of clients can reach a state in which one writes the map of keys while another
  accesses it if and only if the directory of the keys cannot be read or is empty at some tick and
  some client looks up a key: \<open>clear\<close> writes under the lock for reading. Replacing the map after a
  change never races. No run can block: from every reachable state all goroutines can finish.
\<close>

theorem cache_race_iff_cleared:
  "((\<exists>gs. go_steps (goroutines lib ticks cache clients) gs \<and> race gs) \<longleftrightarrow>
      clears lib ticks cache \<and> (\<exists>ts t. ts \<in> set clients \<and> t \<in> set ts \<and> KeyFunction_ops t \<noteq> [])) \<and>
    {gs. go_steps (goroutines lib ticks cache clients) gs} \<subseteq> {gs. \<exists>gs'. go_steps gs gs' \<and> finished gs'}"
proof (intro conjI iffI)
  assume "\<exists>gs. go_steps (goroutines lib ticks cache clients) gs \<and> race gs"
  then obtain gs where gs: "go_steps (goroutines lib ticks cache clients) gs" "race gs" by blast
  show "clears lib ticks cache"
    using no_race goq.steps_inv [OF gs(1) start_ok] paired_maintain(2) gs(2) by blast
  show "\<exists>ts t. ts \<in> set clients \<and> t \<in> set ts \<and> KeyFunction_ops t \<noteq> []"
  proof (rule ccontr)
    assume "\<not> ?thesis"
    then have "concat (map KeyFunction_ops (clients ! k)) = []" if "k < length clients" for k
      using nth_mem [OF that] client_idle by blast
    then have "\<forall>j < length (goroutines lib ticks cache clients). j \<noteq> 0 \<longrightarrow> snd (goroutines lib ticks cache clients ! j) = []"
      by (simp add: goroutines_def nth_Cons' del: concat_eq_Nil_conv)
    from idle_clients [OF gs(1) this] gs(2) show False unfolding race_def by (metis list.distinct(1))
  qed
next
  assume "clears lib ticks cache \<and> (\<exists>ts t. ts \<in> set clients \<and> t \<in> set ts \<and> KeyFunction_ops t \<noteq> [])"
  then show "\<exists>gs. go_steps (goroutines lib ticks cache clients) gs \<and> race gs" using race_happens by blast
next
  show "{gs. go_steps (goroutines lib ticks cache clients) gs} \<subseteq> {gs. \<exists>gs'. go_steps gs gs' \<and> finished gs'}"
    using goq.steps_inv [OF _ start_ok [OF paired_maintain(1)]] all_finish by blast
qed

end
