(* ===== verification/Otel_Metrics.thy ===== *)
theory Otel_Metrics
  imports Tracing
begin

section \<open>Metrics of OpenTelemetry, and the end of tracing\<close>

text \<open>
  \<open>Setup\<close> of \<open>pkg/otel/metrics/prom.go\<close>, and the function with which \<open>Provider\<close> of
  \<open>pkg/otel/tracing/provider.go\<close> lets a program end its tracing. The SDK is a parameter: what its
  constructors answer, and how it shuts a provider down. The state is what is global in the
  process, the exporters in the default registry of Prometheus and the global meter provider, and
  the sums that the counters of the exporters hold. An exporter has a serial number.
\<close>

record meter_globals =
  mg_next :: nat
  mg_registered :: "nat list"
  mg_provider :: "nat option"
  mg_runtime :: "nat list"
  mg_counters :: "(nat \<times> string \<times> (string \<times> string) list) \<Rightarrow> int"

record meter_lib =
  metric_resource :: "(string \<times> string) list \<Rightarrow> error option"
  prometheus_New :: "nat list \<Rightarrow> error option"
  runtime_Start :: "error option"
  UpDownCounter :: "string \<Rightarrow> string \<Rightarrow> error option"

text \<open>\<open>log.Fatalln\<close> ends the process.\<close>

datatype 'a ended = Exited string | Returned 'a

definition component_labels :: "component_info \<Rightarrow> (string \<times> string) list" where
  "component_labels c = [(''version'', Info_Version c), (''commit'', Info_Commit c), (''name'', Info_Name c)]"

definition Setup :: "meter_lib \<Rightarrow> component_info \<Rightarrow> meter_globals \<Rightarrow> meter_globals \<times> (error + nat) ended" where
  "Setup lib component g =
     (case metric_resource lib [(''service.version'', Info_Version component), (''service.name'', Info_Name component)] of
        Some err \<Rightarrow> (g, Returned (Inl err))
      | None \<Rightarrow>
        (case prometheus_New lib (mg_registered g) of
           Some err \<Rightarrow> (g, Returned (Inl (Wrap ''failed to initialize prometheus exporter: '' err)))
         | None \<Rightarrow>
           (let ex = mg_next g;
                g = g\<lparr>mg_next := Suc ex, mg_registered := mg_registered g @ [ex], mg_provider := Some ex\<rparr>
            in case runtime_Start lib of
                 Some err \<Rightarrow> (g, Exited (''failed to start runtime instrumentation: '' @ error_msg err))
               | None \<Rightarrow>
                 (let g = g\<lparr>mg_runtime := mg_runtime g @ [ex]\<rparr>
                  in case UpDownCounter lib ''component_info'' ''version information of the component'' of
                       Some err \<Rightarrow> (g, Returned (Inl (Wrap ''failed to create component_info metric: '' err)))
                     | None \<Rightarrow>
                       (g\<lparr>mg_counters := (mg_counters g)((ex, ''component_info'', component_labels component) :=
                          mg_counters g (ex, ''component_info'', component_labels component) + 1)\<rparr>, Returned (Inr ex))))))"

text \<open>
  The function that ends tracing: \<open>sdk\<close> is the shutdown of the provider, with how long it takes
  and its error for the time that it is given.
\<close>

definition shutdown_tracing :: "(duration \<Rightarrow> duration \<times> error option) \<Rightarrow> duration option \<Rightarrow> duration \<times> string list" where
  "shutdown_tracing sdk remaining =
     (let limit = (case remaining of None \<Rightarrow> 5 * 1000000000 | Some r \<Rightarrow> min r (5 * 1000000000));
          (took, err) = sdk limit
      in (took, case err of None \<Rightarrow> [] | Some e \<Rightarrow> [''failed to shutdown tracing provider: '' @ error_msg e]))"

subsection \<open>Properties\<close>

definition meters_ok :: "meter_globals \<Rightarrow> bool" where
  "meters_ok g \<longleftrightarrow> distinct (mg_registered g) \<and> (\<forall>e \<in> set (mg_registered g). e < mg_next g) \<and>
     (mg_provider g = None \<longleftrightarrow> mg_registered g = []) \<and>
     (\<forall>e. mg_provider g = Some e \<longrightarrow> last (mg_registered g) = e) \<and>
     (\<forall>k. mg_counters g k \<noteq> 0 \<longrightarrow> fst k \<in> set (mg_registered g))"

lemma Setup_keeps_ok:
  assumes "meters_ok g" "Setup lib c g = (g', res)"
  shows "meters_ok g'"
proof -
  let ?ex = "mg_next g"
  have fresh: "?ex \<notin> set (mg_registered g)" using assms(1) by (auto simp: meters_ok_def)
  let ?h = "g\<lparr>mg_next := Suc ?ex, mg_registered := mg_registered g @ [?ex], mg_provider := Some ?ex\<rparr>"
  have h: "meters_ok ?h" using assms(1) fresh by (auto simp: meters_ok_def less_Suc_eq)
  then have run: "meters_ok (?h\<lparr>mg_runtime := rt\<rparr>)" for rt by (simp add: meters_ok_def)
  have count: "meters_ok (k\<lparr>mg_counters := (mg_counters k)((e, n, l) := v)\<rparr>)" if "meters_ok k" "e \<in> set (mg_registered k)" for k e n l v
    using that by (simp add: meters_ok_def) metis
  have counted: "meters_ok (?h\<lparr>mg_runtime := rt, mg_counters := (mg_counters g)((?ex, n, l) := v)\<rparr>)" for rt n l v
    using count [OF run, of ?ex] by simp
  consider "g' = g" | "g' = ?h" | "g' = ?h\<lparr>mg_runtime := mg_runtime g @ [?ex]\<rparr>"
    | l v where "g' = ?h\<lparr>mg_runtime := mg_runtime g @ [?ex], mg_counters := (mg_counters g)((?ex, ''component_info'', l) := v)\<rparr>"
    using assms(2) by (auto simp: Setup_def Let_def split: option.splits)
  then show ?thesis by cases (use assms(1) h run counted in \<open>simp_all only:\<close>)
qed

text \<open>
  What a call of \<open>Setup\<close> leaves behind. It returns an exporter exactly when the component is
  counted once, with its version, commit and name; but the exporter is registered and is the
  global provider as soon as it exists, so a failure after that, which returns an error, leaves
  them in the process, and one in between ends the process.
\<close>

lemma Setup_effects:
  assumes "meters_ok g" "Setup lib c g = (g', res)"
  shows "mg_counters g' (mg_next g, ''component_info'', component_labels c) = (case res of Returned (Inr ex) \<Rightarrow> 1 | _ \<Rightarrow> 0)"
    "res = Returned (Inr ex) \<Longrightarrow> ex = mg_next g \<and> mg_provider g' = Some ex"
    "mg_provider g' \<in> {mg_provider g, Some (mg_next g)}"
    "mg_provider g' = mg_provider g \<longleftrightarrow> mg_registered g' = mg_registered g"
proof -
  have fresh: "mg_next g \<notin> set (mg_registered g)" using assms(1) by (auto simp: meters_ok_def)
  then have zero: "mg_counters g (mg_next g, n, l) = 0" for n l using assms(1) unfolding meters_ok_def by (metis fst_conv)
  have other: "mg_provider g \<noteq> Some (mg_next g)"
  proof
    assume p: "mg_provider g = Some (mg_next g)"
    then have "mg_registered g \<noteq> []" "last (mg_registered g) = mg_next g" using assms(1) by (auto simp: meters_ok_def)
    with fresh show False by (metis last_in_set)
  qed
  show "mg_counters g' (mg_next g, ''component_info'', component_labels c) = (case res of Returned (Inr ex) \<Rightarrow> 1 | _ \<Rightarrow> 0)"
    "res = Returned (Inr ex) \<Longrightarrow> ex = mg_next g \<and> mg_provider g' = Some ex"
    "mg_provider g' \<in> {mg_provider g, Some (mg_next g)}"
    "mg_provider g' = mg_provider g \<longleftrightarrow> mg_registered g' = mg_registered g"
    using assms(2) zero other by (auto simp: Setup_def Let_def split: option.splits)
qed

text \<open>An end of tracing takes at most five seconds when the SDK keeps to its deadline.\<close>

lemma shutdown_in_time:
  assumes "\<And>d. fst (sdk d) \<le> max 0 d"
  shows "fst (shutdown_tracing sdk remaining) \<le> 5 * 1000000000"
  using assms [of "case remaining of None \<Rightarrow> 5 * 1000000000 | Some r \<Rightarrow> min r (5 * 1000000000)"]
  by (auto simp: shutdown_tracing_def split_beta Let_def split: option.splits)

end
