(* ===== verification/Jitter.thy ===== *)
theory Jitter
  imports Complex_Main Prelude
begin

section \<open>The pause before migrations\<close>

text \<open>
  \<open>GetJitter\<close> of \<open>pkg/db/migrations/prepare.go\<close>, with which several instances of a service spread
  their attempts. It computes with floating point numbers. Here they are reals and \<open>rnd\<close> rounds a
  real to the nearest number of type \<open>float64\<close>; \<open>rounding_ok\<close> is what IEEE 754 says of it away
  from overflow and underflow. \<open>rand.Float64\<close> returns a multiple of \<open>2^-53\<close> below one. A compiler may
  fuse the last product and the sum into one operation that rounds once, which \<open>fused\<close> says.
\<close>

definition rounding_ok :: "(real \<Rightarrow> real) \<Rightarrow> bool" where
  "rounding_ok rnd \<longleftrightarrow> rnd 0 = 0 \<and>
     (\<forall>x. 1 / 2 ^ 100 \<le> \<bar>x\<bar> \<longrightarrow> \<bar>x\<bar> \<le> 2 ^ 100 \<longrightarrow> \<bar>rnd x - x\<bar> \<le> \<bar>x\<bar> / 2 ^ 53)"

definition random_Float64 :: "nat \<Rightarrow> real" where
  "random_Float64 k = of_nat (k mod 2 ^ 53) / 2 ^ 53"

text \<open>The conversion of a floating point number to a duration cuts off its fraction.\<close>

definition to_duration :: "real \<Rightarrow> duration" where
  "to_duration x = (if 0 \<le> x then \<lfloor>x\<rfloor> else \<lceil>x\<rceil>)"

definition GetJitter :: "(real \<Rightarrow> real) \<Rightarrow> bool \<Rightarrow> nat \<Rightarrow> duration \<Rightarrow> duration" where
  "GetJitter rnd fused k interval =
     (let random = random_Float64 k;
          minJitter = rnd (rnd (5 / 100) * rnd (of_int interval));
          maxJitter = rnd (of_int interval);
          product = random * rnd (maxJitter - minJitter)
      in to_duration (rnd (minJitter + (if fused then product else rnd product))))"

definition JitterInterval :: "duration \<Rightarrow> duration" where
  "JitterInterval configured = (if configured = 0 then 500 * 1000000 else configured)"

lemma random_bounds: "0 \<le> random_Float64 k" "random_Float64 k < 1" "random_Float64 k = 0 \<or> 1 / 2 ^ 53 \<le> random_Float64 k"
proof -
  have "k mod 2 ^ 53 < 2 ^ 53" by simp
  then have "real (k mod 2 ^ 53) < 2 ^ 53" by (metis of_nat_less_iff of_nat_numeral of_nat_power)
  then show "random_Float64 k < 1" by (simp add: random_Float64_def)
  show "0 \<le> random_Float64 k" by (simp add: random_Float64_def)
  show "random_Float64 k = 0 \<or> 1 / 2 ^ 53 \<le> random_Float64 k"
    by (cases "k mod 2 ^ 53 = 0") (simp_all add: random_Float64_def divide_right_mono)
qed

definition ulp :: real where
  "ulp = 1 / 2 ^ 53"

lemma rounded:
  assumes "rounding_ok rnd" "x = 0 \<or> 1 / 2 ^ 100 \<le> x" "x \<le> 2 ^ 100"
  shows "x * (1 - ulp) \<le> rnd x" "rnd x \<le> x * (1 + ulp)" "0 \<le> rnd x"
proof -
  have "\<bar>rnd x - x\<bar> \<le> x * ulp"
  proof (cases "x = 0")
    case True
    with assms(1) show ?thesis by (simp add: rounding_ok_def)
  next
    case False
    with assms(2) have x: "1 / 2 ^ 100 \<le> x" by simp
    then have "0 < x" by (smt (verit) divide_pos_pos zero_less_power)
    with x assms(1,3) show ?thesis unfolding rounding_ok_def ulp_def by (metis abs_of_pos times_divide_eq_right mult.right_neutral)
  qed
  then show 1: "x * (1 - ulp) \<le> rnd x" and "rnd x \<le> x * (1 + ulp)" by (simp_all add: algebra_simps abs_le_iff)
  have "0 \<le> x" using assms(2) by (smt (verit) divide_pos_pos zero_less_power)
  then have "0 \<le> x * (1 - ulp)" by (simp add: ulp_def)
  with 1 show "0 \<le> rnd x" by linarith
qed

text \<open>The errors of the seven roundings add up to less than one nanosecond.\<close>

lemma four_errors:
  fixes u :: real
  assumes "0 \<le> u" "u \<le> 1 / 1000"
  shows "(1 + u) ^ 4 \<le> 1 + 5 * u" "1 - 4 * u \<le> (1 - u) ^ 4"
proof -
  have u2: "u * u \<le> u * (1 / 1000)" "0 \<le> u * u" using mult_left_mono [OF assms(2,1)] assms(1) by simp_all
  have sq: "(1 + u) ^ 4 = (1 + (2 * u + u * u)) ^ 2" "(1 - u) ^ 4 = (1 - (2 * u - u * u)) ^ 2"
    by (simp_all add: power4_eq_xxxx power2_eq_square algebra_simps)
  have "0 \<le> 2 * u + u * u" "2 * u + u * u \<le> 3 * u" "2 * u + u * u \<le> 1 / 300" using u2 assms by linarith+
  then have "(2 * u + u * u) ^ 2 \<le> 3 * u * (1 / 300)"
    unfolding power2_eq_square by (intro mult_mono) (use assms in linarith)+
  moreover have "(1 + w) ^ 2 \<le> 1 + 5 * u" if "w ^ 2 \<le> 3 * u * (1 / 300)" "2 * w \<le> 4 * u + u * (1 / 500)" for w
    using that power2_sum [of 1 w] assms(1) by simp
  ultimately show "(1 + u) ^ 4 \<le> 1 + 5 * u" unfolding sq using u2 by simp
  have "1 - 4 * u \<le> (1 - w) ^ 2" if "w \<le> 2 * u" for w
  proof -
    have "(1 - w) ^ 2 = 1 + w ^ 2 - 2 * w" by (simp add: power2_diff)
    moreover have "1 - 4 * u \<le> 1 + x - 2 * w" if "0 \<le> x" for x using that \<open>w \<le> 2 * u\<close> by linarith
    ultimately show ?thesis by simp
  qed
  then show "1 - 4 * u \<le> (1 - u) ^ 4" unfolding sq using u2 by simp
qed

lemma jitter_arith:
  fixes u c m a d q s M :: real
  assumes u: "0 \<le> u" "u \<le> 1 / 2 ^ 53" and M: "1 \<le> M" "M \<le> 2 ^ 50"
    and c: "(1 - u) / 20 \<le> c" and m: "M * (1 - u) \<le> m" "m \<le> M * (1 + u)" and a: "c * m * (1 - u) \<le> a" "0 \<le> a"
    and d: "d \<le> (m - a) * (1 + u)" and q: "0 \<le> q" "q \<le> d * (1 + u)" and s: "(a + q) * (1 - u) \<le> s" "s \<le> (a + q) * (1 + u)"
  shows "s < M + 1" "M - 1 < 20 * s"
proof -
  have u1: "u \<le> 1 / 1000" using u(2) by simp
  have Mu: "M * u \<le> 2 ^ 50 * (1 / 2 ^ 53)" using M u by (intro mult_mono) simp_all
  have "q \<le> (m - a) * (1 + u) * (1 + u)" using q(2) d mult_right_mono [OF d, of "1 + u"] u(1) by linarith
  moreover have "a \<le> a * (1 + u) * (1 + u)"
    using a(2) u(1) by (simp add: algebra_simps)
  ultimately have "a + q \<le> m * (1 + u) * (1 + u)" by (simp add: algebra_simps)
  then have "(a + q) * (1 + u) \<le> m * (1 + u) * (1 + u) * (1 + u)" using u(1) by (intro mult_right_mono) simp_all
  also have "\<dots> \<le> M * (1 + u) * (1 + u) * (1 + u) * (1 + u)" using m(2) u(1) by (intro mult_right_mono) simp_all
  also have "\<dots> = M * (1 + u) ^ 4" by (simp add: power4_eq_xxxx)
  also have "\<dots> \<le> M * (1 + 5 * u)" using four_errors(1) [OF u(1) u1] M by (intro mult_left_mono) simp_all
  finally show "s < M + 1" using s(2) Mu by (simp add: algebra_simps)
  have m0: "0 \<le> m" using m(1) M u u1 mult_nonneg_nonneg [of M "1 - u"] by linarith
  have "(1 - u) / 20 * (M * (1 - u)) \<le> c * m" using c m(1) m0 M u1 by (intro mult_mono) simp_all
  then have "(1 - u) / 20 * (M * (1 - u)) * (1 - u) \<le> c * m * (1 - u)" using u1 by (intro mult_right_mono) simp_all
  then have "(1 - u) / 20 * (M * (1 - u)) * (1 - u) \<le> a + q" using a(1) q(1) by linarith
  then have "(1 - u) / 20 * (M * (1 - u)) * (1 - u) * (1 - u) \<le> s"
    using s(1) mult_right_mono [of "(1 - u) / 20 * (M * (1 - u)) * (1 - u)" "a + q" "1 - u"] u1 by linarith
  then have "M * (1 - u) ^ 4 \<le> 20 * s" by (simp add: power4_eq_xxxx algebra_simps)
  moreover have "M * (1 - 4 * u) \<le> M * (1 - u) ^ 4" using four_errors(2) [OF u(1) u1] M by (intro mult_left_mono) simp_all
  ultimately show "M - 1 < 20 * s" using Mu by (simp add: algebra_simps)
qed

lemma jitter_reals:
  fixes M :: real and fused :: bool
  assumes R: "rounding_ok rnd" and M: "1 \<le> M" "M \<le> 2 ^ 50" and r: "0 \<le> r" "r < 1" "r = 0 \<or> 1 / 2 ^ 53 \<le> r"
  defines "c \<equiv> rnd (5 / 100)" and "m \<equiv> rnd M"
  defines "a \<equiv> rnd (c * m)"
  defines "s \<equiv> rnd (a + (if fused then r * rnd (m - a) else rnd (r * rnd (m - a))))"
  shows "s < M + 1" "M - 1 < 20 * s" "0 \<le> s"
proof -
  define u where "u = ulp"
  have u: "0 \<le> u" "u \<le> 1 / 2 ^ 53" "u \<le> 1 / 1000" by (simp_all add: u_def ulp_def)
  have big: "(2::real) ^ 51 = 2 * 2 ^ 50" "(2::real) ^ 52 = 4 * 2 ^ 50" "(2::real) ^ 53 = 8 * 2 ^ 50" "16 * 2 ^ 50 \<le> (2::real) ^ 100" "0 \<le> (2::real) ^ 50"
    and small: "1 / 2 ^ 100 \<le> 1 / (1000 :: real)" by simp_all
  have "5 / 100 * (1 - u) \<le> c" "c \<le> 5 / 100 * (1 + u)"
    using rounded [OF R, of "5 / 100"] by (simp_all add: c_def u_def)
  then have c: "(1 - u) / 20 \<le> c" "4 / 100 \<le> c" "c \<le> 6 / 100" using u(1,3) by argo+
  have m: "M * (1 - u) \<le> m" "m \<le> M * (1 + u)" using rounded [OF R, of M] M by (simp_all add: m_def u_def)
  have "M * (1 / 2) \<le> M * (1 - u)" "M * (1 + u) \<le> M * 2" using M u by (intro mult_left_mono; linarith)+
  then have m1: "1 / 2 \<le> m" "m \<le> 2 ^ 51" using m M big small by linarith+
  have "4 / 100 * m \<le> c * m" "c * m \<le> 6 / 100 * m" using c m1 by (intro mult_right_mono; linarith)+
  then have cm: "1 / 50 \<le> c * m" "c * m \<le> 6 / 100 * m" using m1 big small by linarith+
  have "c * m \<le> 2 ^ 100" "1 / 2 ^ 100 \<le> c * m" using cm m1 big small by linarith+
  then have a: "c * m * (1 - u) \<le> a" "a \<le> c * m * (1 + u)" "0 \<le> a"
    unfolding a_def u_def using rounded [OF R, of "c * m"] by simp_all
  have "c * m * (1 + u) \<le> c * m * 2" "c * m * (1 / 2) \<le> c * m * (1 - u)" using cm u by (intro mult_left_mono; linarith)+
  then have a1: "1 / 100 \<le> a" and D: "1 / 4 \<le> m - a" "m - a \<le> 2 ^ 51" using a cm m1 big small by linarith+
  define d where "d = rnd (m - a)"
  have "m - a \<le> 2 ^ 100" "1 / 2 ^ 100 \<le> m - a" using D big small by linarith+
  then have d: "(m - a) * (1 - u) \<le> d" "d \<le> (m - a) * (1 + u)"
    unfolding d_def u_def using rounded [OF R, of "m - a"] by simp_all
  have "(m - a) * (1 / 2) \<le> (m - a) * (1 - u)" "(m - a) * (1 + u) \<le> (m - a) * 2"
    using D u by (intro mult_left_mono; linarith)+
  then have "(m - a) * (1 / 2) \<le> d" "d \<le> (m - a) * 2" using d by (blast intro: order_trans)+
  then have d1: "1 / 8 \<le> d" "d \<le> 2 ^ 52" using D by simp_all
  have rd: "0 \<le> r * d" "r * d \<le> d" using r d1 by (simp_all add: mult_left_le_one_le)
  have rd1: "r * d = 0 \<or> 1 / 2 ^ 100 \<le> r * d"
  proof (cases "r = 0")
    case False
    with r(3) have "1 / 2 ^ 53 * (1 / 8) \<le> r * d" using d1(1) by (intro mult_mono) simp_all
    then show ?thesis by simp
  qed simp
  define q where "q = (if fused then r * d else rnd (r * d))"
  have "r * d \<le> 2 ^ 100" using rd(2) d1(2) big small by linarith
  moreover have "r * d \<le> r * d * (1 + u)" using mult_left_mono [of 1 "1 + u" "r * d"] rd(1) u(1) by simp
  ultimately have q: "0 \<le> q" "q \<le> r * d * (1 + u)" unfolding q_def u_def using rounded [OF R rd1] rd(1) by auto
  have "r * d * (1 + u) \<le> d * (1 + u)" using rd u by (intro mult_right_mono) simp_all
  moreover have "d * (1 + u) \<le> d * 2" using d1 u by (intro mult_left_mono) linarith+
  ultimately have q1: "q \<le> d * (1 + u)" "q \<le> 2 ^ 53" using q(2) d1(2) big small by linarith+
  have "a + q \<le> 2 ^ 100" "1 / 2 ^ 100 \<le> a + q" using a1 q(1) q1(2) D m1 big small by linarith+
  then have s: "(a + q) * (1 - u) \<le> s" "s \<le> (a + q) * (1 + u)" "0 \<le> s"
    unfolding s_def d_def [symmetric] q_def [symmetric] u_def using rounded [OF R, of "a + q"] by simp_all
  show "s < M + 1" "M - 1 < 20 * s"
    using jitter_arith [OF u(1,2) M c(1) m a(1,3) d(2) q(1) q1(1) s(1,2)] by blast+
  show "0 \<le> s" by (rule s(3))
qed

text \<open>
  C34: The pause for every random number and every interval from 0 to \<open>2^50\<close> nanoseconds (thirteen
  days), whatever the roundings are. It is at most the interval, and at least a twentieth of the
  interval less one nanosecond: the conversion to a duration cuts off the fraction. So the lower
  bound of the comment, a twentieth of the interval, does not hold: with an interval of ten
  nanoseconds and the random number 0 the pause is 0 in exact arithmetic.
\<close>

theorem jitter_bounds:
  assumes "rounding_ok rnd" "0 \<le> interval" "interval \<le> 2 ^ 50"
  shows "interval \<le> 20 * (GetJitter rnd fused k interval + 1) \<and> 0 \<le> GetJitter rnd fused k interval \<and>
    GetJitter rnd fused k interval \<le> interval \<and> GetJitter (\<lambda>x. x) fused 0 10 = 0"
proof (cases "interval = 0")
  case True
  with assms(1) show ?thesis by (simp add: GetJitter_def rounding_ok_def to_duration_def random_Float64_def)
next
  case False
  let ?M = "of_int interval :: real"
  have M: "1 \<le> ?M" using False assms(2) by linarith
  have "?M \<le> of_int (2 ^ 50)" using assms(3) by (simp only: of_int_le_iff)
  then have M2: "?M \<le> 2 ^ 50" by simp
  define s where "s = rnd (rnd (rnd (5 / 100) * rnd ?M) +
    (if fused then random_Float64 k * rnd (rnd ?M - rnd (rnd (5 / 100) * rnd ?M))
     else rnd (random_Float64 k * rnd (rnd ?M - rnd (rnd (5 / 100) * rnd ?M)))))"
  note b = jitter_reals [where fused = fused, OF assms(1) M M2 random_bounds [of k], folded s_def]
  have "GetJitter rnd fused k interval = to_duration s" by (simp only: GetJitter_def Let_def s_def)
  then have j: "GetJitter rnd fused k interval = \<lfloor>s\<rfloor>" using b(3) by (simp add: to_duration_def)
  have "\<lfloor>s\<rfloor> \<le> interval" using b(1) by linarith
  moreover have "?M < 20 * (of_int \<lfloor>s\<rfloor> + 1) + 1"
  proof -
    have "s < of_int \<lfloor>s\<rfloor> + 1" by linarith
    with b(2) show ?thesis by argo
  qed
  then have "(of_int interval :: real) < of_int (20 * (\<lfloor>s\<rfloor> + 1) + 1)" by simp
  then have "interval \<le> 20 * (\<lfloor>s\<rfloor> + 1)" by (simp only: of_int_less_iff)
  moreover have "0 \<le> \<lfloor>s\<rfloor>" using b(3) by simp
  moreover have "GetJitter (\<lambda>x. x) fused 0 10 = 0" by (simp add: GetJitter_def to_duration_def random_Float64_def)
  ultimately show ?thesis unfolding j by blast
qed

theorem jitter_bounds_witness:
  "500000000 \<le> 20 * (GetJitter (\<lambda>x. x) False 0 500000000 + 1) \<and> GetJitter (\<lambda>x. x) False 0 500000000 \<le> 500000000"
proof -
  have "rounding_ok (\<lambda>x. x)" by (simp add: rounding_ok_def)
  from jitter_bounds [OF this, of 500000000 False 0] show ?thesis by simp
qed

end
