(* ===== verification/Server_Life.thy ===== *)
theory Server_Life
  imports Http_Server
begin

section \<open>Serving until the context ends\<close>

text \<open>
  \<open>ListenAndServe\<close> of \<open>pkg/http/server.go\<close> and \<open>ListenAndServeMonitoring\<close> of \<open>monitoring.go\<close>: the
  control flow of the two goroutines of a call. One waits for the end of the context and then
  calls \<open>Shutdown\<close>, while the function itself runs the server and returns what that returns.
  \<open>net/http\<close> is not modelled: the events are what its two calls return, and that the context has
  ended, in any order. What \<open>Shutdown\<close> does to the listeners and the requests, and when the
  server returns, is left to it.
\<close>

datatype waiter = Awaits_ctx | Shuts_down | Gone

record serving =
  sv_addr :: string
  sv_waiter :: waiter
  sv_result :: "error option"
  sv_exited :: bool
  sv_errors :: "error list"

datatype serving_event = Context_ends | Serve_returns error | Shutdown_returns "error option"

definition ListenAndServe :: "string \<Rightarrow> string \<Rightarrow> serving" where
  "ListenAndServe addr srv_addr =
     \<lparr>sv_addr = (if addr \<noteq> [] then addr else srv_addr), sv_waiter = Awaits_ctx, sv_result = None,
      sv_exited = False, sv_errors = []\<rparr>"

text \<open>
  The two functions differ in what they do with an error of the shutdown: \<open>logrus.Fatal\<close> ends
  the process, \<open>logrus.Error\<close> writes a line.
\<close>

definition shutdown_failed :: "bool \<Rightarrow> error \<Rightarrow> serving \<Rightarrow> serving" where
  "shutdown_failed fatal err s = (if fatal then s\<lparr>sv_exited := True\<rparr> else s\<lparr>sv_errors := sv_errors s @ [err]\<rparr>)"

text \<open>
  One event; \<open>None\<close> when the code is not at the call that returns. The end of the context makes the
  goroutine call \<open>Shutdown\<close>.
\<close>

fun serve_step :: "bool \<Rightarrow> serving_event \<Rightarrow> serving \<Rightarrow> serving option" where
  "serve_step fatal Context_ends s =
     (if sv_waiter s = Awaits_ctx then Some (s\<lparr>sv_waiter := Shuts_down\<rparr>) else None)"
| "serve_step fatal (Serve_returns err) s =
     (if sv_result s = None then Some (s\<lparr>sv_result := Some err\<rparr>) else None)"
| "serve_step fatal (Shutdown_returns r) s =
     (if sv_waiter s \<noteq> Shuts_down then None
      else (case r of None \<Rightarrow> Some (s\<lparr>sv_waiter := Gone\<rparr>)
            | Some err \<Rightarrow> Some (shutdown_failed fatal err (s\<lparr>sv_waiter := Gone\<rparr>))))"

text \<open>A run ends with the process.\<close>

fun serve_run :: "bool \<Rightarrow> serving_event list \<Rightarrow> serving \<Rightarrow> serving option" where
  "serve_run fatal [] s = Some s"
| "serve_run fatal (ev # evs) s =
     (if sv_exited s then None else case serve_step fatal ev s of None \<Rightarrow> None | Some s' \<Rightarrow> serve_run fatal evs s')"

subsection \<open>Properties\<close>

lemma serve_run_cases:
  assumes "serve_run fatal (ev # evs) s = Some s'"
  obtains s1 where "serve_step fatal ev s = Some s1" "serve_run fatal evs s1 = Some s'" "\<not> sv_exited s"
  using assms by (auto split: if_splits option.splits)

lemma serve_run_result:
  "serve_run fatal evs s = Some s' \<Longrightarrow> sv_result s' = Some err \<longleftrightarrow> sv_result s = Some err \<or> Serve_returns err \<in> set evs"
proof (induction evs arbitrary: s)
  case (Cons ev evs)
  from Cons.prems obtain s1 where s1: "serve_step fatal ev s = Some s1" "serve_run fatal evs s1 = Some s'"
    by (rule serve_run_cases)
  from Cons.IH [OF s1(2)] s1(1) show ?case
    by (cases ev) (auto simp: shutdown_failed_def split: if_splits option.splits)
qed simp

lemma serve_run_gone:
  "serve_run fatal evs s = Some s' \<Longrightarrow> sv_waiter s \<noteq> Awaits_ctx \<Longrightarrow> sv_waiter s' \<noteq> Awaits_ctx"
proof (induction evs arbitrary: s)
  case (Cons ev evs)
  from Cons.prems(1) obtain s1 where s1: "serve_step fatal ev s = Some s1" "serve_run fatal evs s1 = Some s'"
    by (rule serve_run_cases)
  have "sv_waiter s1 \<noteq> Awaits_ctx"
    using s1(1) Cons.prems(2) by (cases ev) (auto simp: shutdown_failed_def split: if_splits option.splits)
  with Cons.IH s1(2) show ?case by blast
qed simp

lemma serve_run_waiter:
  "serve_run fatal evs s = Some s' \<Longrightarrow> sv_waiter s = Awaits_ctx \<Longrightarrow> sv_waiter s' \<noteq> Awaits_ctx \<longleftrightarrow> Context_ends \<in> set evs"
proof (induction evs arbitrary: s)
  case (Cons ev evs)
  from Cons.prems(1) obtain s1 where s1: "serve_step fatal ev s = Some s1" "serve_run fatal evs s1 = Some s'"
    by (rule serve_run_cases)
  show ?case
  proof (cases ev)
    case Context_ends
    with s1(1) Cons.prems(2) have "sv_waiter s1 \<noteq> Awaits_ctx" by auto
    with serve_run_gone [OF s1(2)] Context_ends show ?thesis by simp
  next
    case (Serve_returns err)
    with s1(1) Cons.prems(2) have "sv_waiter s1 = Awaits_ctx" by (auto split: if_splits)
    with Cons.IH [OF s1(2)] Serve_returns show ?thesis by simp
  next
    case (Shutdown_returns r)
    with s1(1) Cons.prems(2) show ?thesis by simp
  qed
qed simp

lemma serve_run_exited:
  "serve_run fatal evs s = Some s' \<Longrightarrow>
    sv_exited s' \<longleftrightarrow> sv_exited s \<or> (fatal \<and> (\<exists>err. Shutdown_returns (Some err) \<in> set evs))"
proof (induction evs arbitrary: s)
  case (Cons ev evs)
  from Cons.prems obtain s1 where s1: "serve_step fatal ev s = Some s1" "serve_run fatal evs s1 = Some s'" "\<not> sv_exited s"
    by (rule serve_run_cases)
  from Cons.IH [OF s1(2)] s1(1,3) show ?case
    by (cases ev) (auto simp: shutdown_failed_def split: if_splits option.splits)
qed simp

text \<open>
  A call returns exactly what the server returned, and does so whether or not the shutdown has
  ended. The shutdown is called exactly when the context has ended, and the process is ended
  exactly when \<open>ListenAndServe\<close> got an error from it, which the monitoring server only reports.
\<close>

theorem server_life:
  assumes "serve_run fatal evs (ListenAndServe addr a) = Some s"
  shows "(sv_result s = Some err \<longleftrightarrow> Serve_returns err \<in> set evs) \<and>
    (sv_waiter s \<noteq> Awaits_ctx \<longleftrightarrow> Context_ends \<in> set evs) \<and>
    (sv_exited s \<longleftrightarrow> fatal \<and> (\<exists>err. Shutdown_returns (Some err) \<in> set evs))"
  using serve_run_result [OF assms] serve_run_waiter [OF assms] serve_run_exited [OF assms]
  by (simp add: ListenAndServe_def)

theorem server_life_witness:
  "sv_exited (the (serve_run True [Context_ends, Serve_returns (New ''http: Server closed''),
     Shutdown_returns (Some (Ext ''context deadline exceeded''))] (ListenAndServe [] '':80'')))"
proof -
  obtain s where s: "serve_run True [Context_ends, Serve_returns (New ''http: Server closed''),
     Shutdown_returns (Some (Ext ''context deadline exceeded''))] (ListenAndServe [] '':80'') = Some s"
    by (simp add: ListenAndServe_def)
  from server_life [OF s] show ?thesis unfolding s by simp
qed

end
