(* ===== verification/Task_Goroutines.thy ===== *)
theory Task_Goroutines
  imports Task_Worker
begin

section \<open>The two goroutines of a task\<close>

text \<open>
  \<open>handleTask\<close> of \<open>pkg/queue/workers/task_worker.go\<close> starts a goroutine that runs the handler and
  itself receives the heartbeats. \<open>Task_Worker\<close> computes what the worker does from the list of what
  it receives. Here both goroutines are explicit, with the unbuffered channel of heartbeats between
  them and the channel \<open>processDone\<close>, which has room for one value: a configuration is where each of
  them is and what the channels hold, and a step is what one of them does, or both when a heartbeat
  is handed over. The label of a step is what the worker received in its \<open>select\<close>, if anything.

  The handler is a \<open>handler_run\<close>, and \<open>closes\<close> says whether it closes the channel of heartbeats
  itself, as the interface asks for. When it has returned, the goroutine puts the result into
  \<open>processDone\<close> and its deferred functions close both channels; closing the heartbeats a
  second time panics, which the outermost deferred function recovers.
\<close>

datatype handler_pc = Sends "bytes list" | Returns | Deferred_done | Deferred_beats | Gone

datatype 's worker_pc = Loops 's bytes | Waits 's bytes | Over "('s \<times> error option) outcome"

record 's task_config =
  tc_handler :: handler_pc
  tc_beats_closed :: bool
  tc_done :: "error option option"
  tc_done_closed :: bool
  tc_worker :: "'s worker_pc"

definition spawn :: "handler_run \<Rightarrow> 's \<Rightarrow> 's task_config" where
  "spawn run s = \<lparr>tc_handler = Sends (run_beats run), tc_beats_closed = False, tc_done = None, tc_done_closed = False,
     tc_worker = Loops s emptyJSON\<rparr>"

text \<open>What the worker does with an error of the loop, and with the result of the handler.\<close>

definition loop_failed ::
  "('x, 's) dequeuer \<Rightarrow> unmarshal_map \<Rightarrow> progress_env \<Rightarrow> task \<Rightarrow> 's \<Rightarrow> bytes \<Rightarrow> error \<Rightarrow> 's worker_pc" where
  "loop_failed dq um fe t s latest err =
     Over (if err = Task_worker_err ErrHeartbeatTimeout then fail_task dq um fe (ID t) latest err s else Ret (s, Some err))"

definition beat_received ::
  "('x, 's) dequeuer \<Rightarrow> unmarshal_map \<Rightarrow> progress_env \<Rightarrow> task \<Rightarrow> progress_env \<Rightarrow> bytes \<Rightarrow> 's \<Rightarrow> 's worker_pc" where
  "beat_received dq um fe t e b s =
     (case dq_Heartbeat dq e (ID t) b s of
        (s', None) \<Rightarrow> Loops s' b
      | (s', Some x) \<Rightarrow>
          if x \<in> Queue_err ` {ErrTaskCancelled, ErrTaskFinished, ErrTaskNotFound, ErrTaskNotRunning} then Waits s' b
          else loop_failed dq um fe t s' b x)"

definition result_received ::
  "('x, 's) dequeuer \<Rightarrow> unmarshal_map \<Rightarrow> progress_env \<Rightarrow> task \<Rightarrow> 's \<Rightarrow> bytes \<Rightarrow> error option \<Rightarrow> 's worker_pc" where
  "result_received dq um fe t s latest workErr =
     Over (case workErr of Some x \<Rightarrow> fail_task dq um fe (ID t) latest x s | None \<Rightarrow> Ret (dq_Finish dq fe (ID t) latest s))"

inductive task_step ::
  "('x, 's) dequeuer \<Rightarrow> unmarshal_map \<Rightarrow> progress_env \<Rightarrow> task \<Rightarrow> handler_run \<Rightarrow> bool \<Rightarrow>
    worker_event option \<Rightarrow> 's task_config \<Rightarrow> 's task_config \<Rightarrow> bool"
  for dq um fe t run closes where
  ctx_done: "tc_worker c = Loops s l \<Longrightarrow>
     task_step dq um fe t run closes (Some (WDone x)) c (c\<lparr>tc_worker := loop_failed dq um fe t s l x\<rparr>)"
| timed_out: "tc_worker c = Loops s l \<Longrightarrow>
     task_step dq um fe t run closes (Some WTimeout) c
       (c\<lparr>tc_worker := loop_failed dq um fe t s l (Task_worker_err ErrHeartbeatTimeout)\<rparr>)"
| handed_over: "tc_worker c = Loops s l \<Longrightarrow> tc_handler c = Sends (b # bs) \<Longrightarrow>
     task_step dq um fe t run closes (Some (WRecv e)) c
       (c\<lparr>tc_handler := Sends bs, tc_worker := beat_received dq um fe t e b s\<rparr>)"
| beats_closed: "tc_worker c = Loops s l \<Longrightarrow> tc_beats_closed c \<Longrightarrow>
     task_step dq um fe t run closes (Some (WRecv e)) c (c\<lparr>tc_worker := Waits s l\<rparr>)"
| result: "tc_worker c = Waits s l \<Longrightarrow> tc_done c = Some r \<Longrightarrow>
     task_step dq um fe t run closes None c (c\<lparr>tc_done := None, tc_worker := result_received dq um fe t s l r\<rparr>)"
| no_result: "tc_worker c = Waits s l \<Longrightarrow> tc_done c = None \<Longrightarrow> tc_done_closed c \<Longrightarrow>
     task_step dq um fe t run closes None c (c\<lparr>tc_worker := result_received dq um fe t s l None\<rparr>)"
| body_ends: "tc_handler c = Sends [] \<Longrightarrow>
     task_step dq um fe t run closes None c (c\<lparr>tc_handler := Returns, tc_beats_closed := closes\<rparr>)"
| returned: "tc_handler c = Returns \<Longrightarrow>
     task_step dq um fe t run closes None c
       (c\<lparr>tc_handler := Deferred_done, tc_done := (case run_result run of Ret r \<Rightarrow> Some r | Panic \<Rightarrow> None)\<rparr>)"
| done_closed: "tc_handler c = Deferred_done \<Longrightarrow>
     task_step dq um fe t run closes None c (c\<lparr>tc_handler := Deferred_beats, tc_done_closed := True\<rparr>)"
| goroutine_ends: "tc_handler c = Deferred_beats \<Longrightarrow>
     task_step dq um fe t run closes None c (c\<lparr>tc_handler := Gone, tc_beats_closed := True\<rparr>)"

inductive_cases task_stepE: "task_step dq um fe t run closes l c c'"

text \<open>A run with the list of what the worker received.\<close>

inductive task_trace ::
  "('x, 's) dequeuer \<Rightarrow> unmarshal_map \<Rightarrow> progress_env \<Rightarrow> task \<Rightarrow> handler_run \<Rightarrow> bool \<Rightarrow>
    's task_config \<Rightarrow> worker_event list \<Rightarrow> 's task_config \<Rightarrow> bool"
  for dq um fe t run closes c where
  here: "task_trace dq um fe t run closes c [] c"
| silently: "task_trace dq um fe t run closes c evs c1 \<Longrightarrow> task_step dq um fe t run closes None c1 c2 \<Longrightarrow>
     task_trace dq um fe t run closes c evs c2"
| receiving: "task_trace dq um fe t run closes c evs c1 \<Longrightarrow> task_step dq um fe t run closes (Some ev) c1 c2 \<Longrightarrow>
     task_trace dq um fe t run closes c (evs @ [ev]) c2"

lemma task_trace_append:
  "task_trace dq um fe t run closes c1 evs' c2 \<Longrightarrow> task_trace dq um fe t run closes c evs c1 \<Longrightarrow>
    task_trace dq um fe t run closes c (evs @ evs') c2"
proof (induction rule: task_trace.induct)
  case (receiving evs' c1 ev c2)
  then show ?case by (metis append_assoc task_trace.receiving)
qed (auto intro: task_trace.intros)

subsection \<open>What the worker does is what \<open>handleTask\<close> says\<close>

text \<open>What the handler has still to send.\<close>

fun unsent :: "handler_pc \<Rightarrow> bytes list" where
  "unsent (Sends bs) = bs"
| "unsent _ = []"

text \<open>
  The invariant of a run: the worker is where the list of events has brought it, and
  \<open>processDone\<close> holds nothing but the result of the handler.
\<close>

definition task_inv ::
  "('x, 's) dequeuer \<Rightarrow> unmarshal_map \<Rightarrow> progress_env \<Rightarrow> task \<Rightarrow> handler_run \<Rightarrow> 's \<Rightarrow> worker_event list \<Rightarrow> 's task_config \<Rightarrow> bool" where
  "task_inv dq um fe t run s evs c \<longleftrightarrow>
     (case tc_worker c of
        Loops s' l \<Rightarrow> \<forall>evs'. processHeartbeats dq (ID t) emptyJSON (run_beats run) (evs @ evs') s =
          processHeartbeats dq (ID t) l (unsent (tc_handler c)) evs' s'
      | Waits s' l \<Rightarrow> \<forall>evs'. processHeartbeats dq (ID t) emptyJSON (run_beats run) (evs @ evs') s =
          Some (s', l, None, unsent (tc_handler c))
      | Over out \<Rightarrow> \<forall>evs'. handleTask dq um run (evs @ evs') fe t s = Some out) \<and>
     (tc_beats_closed c \<longrightarrow> unsent (tc_handler c) = []) \<and>
     (\<forall>r. tc_done c = Some r \<longrightarrow> run_result run = Ret r \<and> unsent (tc_handler c) = []) \<and>
     (tc_done_closed c \<longrightarrow> tc_handler c \<in> {Deferred_beats, Gone}) \<and>
     ((\<forall>out. tc_worker c \<noteq> Over out) \<longrightarrow> tc_handler c \<in> {Deferred_done, Deferred_beats, Gone} \<longrightarrow>
        tc_done c = (case run_result run of Ret r \<Rightarrow> Some r | Panic \<Rightarrow> None))"

lemma spawn_inv: "task_inv dq um fe t run s [] (spawn run s)"
  by (simp add: task_inv_def spawn_def)

lemma loop_failed_handleTask:
  assumes "processHeartbeats dq (ID t) emptyJSON (run_beats run) evs s = Some (s', l, Some x, rest)"
  shows "\<exists>out. loop_failed dq um fe t s' l x = Over out \<and> handleTask dq um run evs fe t s = Some out"
  using assms by (simp add: loop_failed_def handleTask_def)

lemma result_received_handleTask:
  assumes "processHeartbeats dq (ID t) emptyJSON (run_beats run) evs s = Some (s', l, None, [])"
  shows "\<exists>out. result_received dq um fe t s' l (work_err (run_result run)) = Over out \<and> handleTask dq um run evs fe t s = Some out"
  using assms by (simp add: result_received_def handleTask_def split: option.split)

text \<open>Every step keeps the invariant.\<close>

lemma loop_failed_inv:
  assumes inv: "task_inv dq um fe t run s evs c" and w: "tc_worker c = Loops s' l"
    and ph: "\<And>evs'. processHeartbeats dq (ID t) l (unsent (tc_handler c)) (ev # evs') s' = Some (s', l, Some x, unsent (tc_handler c))"
  shows "task_inv dq um fe t run s (evs @ [ev]) (c\<lparr>tc_worker := loop_failed dq um fe t s' l x\<rparr>)"
proof -
  have "processHeartbeats dq (ID t) emptyJSON (run_beats run) (evs @ ev # evs') s = Some (s', l, Some x, unsent (tc_handler c))" for evs'
    using inv w ph by (simp add: task_inv_def)
  then have "handleTask dq um run (evs @ ev # evs') fe t s =
      Some (if x = Task_worker_err ErrHeartbeatTimeout then fail_task dq um fe (ID t) l x s' else Ret (s', Some x))" for evs'
    by (simp add: handleTask_def)
  with inv show ?thesis by (simp add: task_inv_def loop_failed_def)
qed

lemma beat_received_inv:
  assumes inv: "task_inv dq um fe t run s evs c" and w: "tc_worker c = Loops s' l" and h: "tc_handler c = Sends (b # bs)"
  shows "task_inv dq um fe t run s (evs @ [WRecv e]) (c\<lparr>tc_handler := Sends bs, tc_worker := beat_received dq um fe t e b s'\<rparr>)"
proof -
  have ph: "processHeartbeats dq (ID t) emptyJSON (run_beats run) (evs @ WRecv e # evs') s =
      processHeartbeats dq (ID t) l (b # bs) (WRecv e # evs') s'" for evs'
    using inv w h by (simp add: task_inv_def)
  have q: "\<not> tc_beats_closed c" "tc_done c = None" "\<not> tc_done_closed c"
    using inv h by (auto simp: task_inv_def)
  obtain s1 r where hb: "dq_Heartbeat dq e (ID t) b s' = (s1, r)" by fastforce
  show ?thesis
  proof (cases r)
    case None
    with ph hb q show ?thesis by (simp add: task_inv_def beat_received_def)
  next
    case (Some x)
    show ?thesis
    proof (cases "x \<in> Queue_err ` {ErrTaskCancelled, ErrTaskFinished, ErrTaskNotFound, ErrTaskNotRunning}")
      case True
      with Some ph hb q show ?thesis by (simp add: task_inv_def beat_received_def)
    next
      case False
      with Some ph hb have "processHeartbeats dq (ID t) emptyJSON (run_beats run) (evs @ WRecv e # evs') s = Some (s1, b, Some x, bs)" for evs'
        by simp
      then have "handleTask dq um run (evs @ WRecv e # evs') fe t s =
          Some (if x = Task_worker_err ErrHeartbeatTimeout then fail_task dq um fe (ID t) b x s1 else Ret (s1, Some x))" for evs'
        by (simp add: handleTask_def)
      with Some False hb q show ?thesis by (simp add: task_inv_def beat_received_def loop_failed_def)
    qed
  qed
qed

lemma result_received_inv:
  assumes inv: "task_inv dq um fe t run s evs c" and w: "tc_worker c = Waits s' l" and h: "unsent (tc_handler c) = []"
  shows "task_inv dq um fe t run s evs (c\<lparr>tc_done := None, tc_worker := result_received dq um fe t s' l (work_err (run_result run))\<rparr>)"
proof -
  have "processHeartbeats dq (ID t) emptyJSON (run_beats run) (evs @ evs') s = Some (s', l, None, [])" for evs'
    using inv w h by (simp add: task_inv_def)
  then have "handleTask dq um run (evs @ evs') fe t s =
      Some (case work_err (run_result run) of Some x \<Rightarrow> fail_task dq um fe (ID t) l x s' | None \<Rightarrow> Ret (dq_Finish dq fe (ID t) l s'))" for evs'
    by (simp add: handleTask_def split: option.split)
  with inv h show ?thesis by (simp add: task_inv_def result_received_def)
qed

lemma task_step_inv:
  assumes "task_step dq um fe t run closes lab c c'" and "task_inv dq um fe t run s evs c"
  shows "task_inv dq um fe t run s (evs @ (case lab of None \<Rightarrow> [] | Some ev \<Rightarrow> [ev])) c'"
  using assms
proof (induction rule: task_step.induct)
  case (ctx_done c s' l x)
  then show ?case by (simp add: loop_failed_inv)
next
  case (timed_out c s' l)
  then show ?case by (simp add: loop_failed_inv)
next
  case (handed_over c s' l b bs e)
  then show ?case by (simp add: beat_received_inv)
next
  case (beats_closed c s' l e)
  then have "unsent (tc_handler c) = []" by (simp add: task_inv_def)
  with beats_closed show ?case by (simp add: task_inv_def)
next
  case (result c s' l r)
  then have "run_result run = Ret r" "unsent (tc_handler c) = []" by (simp_all add: task_inv_def)
  with result_received_inv [OF result.prems result.hyps(1)] show ?case by (simp add: work_err_def)
next
  case (no_result c s' l)
  then have "tc_handler c \<in> {Deferred_beats, Gone}" by (simp add: task_inv_def)
  then have u: "unsent (tc_handler c) = []" and "run_result run = Panic"
    using no_result by (auto simp: task_inv_def split: outcome.splits)
  then have "work_err (run_result run) = None" by (simp add: work_err_def)
  moreover have "c\<lparr>tc_worker := x\<rparr> = c\<lparr>tc_done := None, tc_worker := x\<rparr>" for x
    using no_result.hyps(2) by simp
  ultimately show ?case using result_received_inv [OF no_result.prems no_result.hyps(1) u] by simp
next
  case (body_ends c)
  then show ?case by (auto simp: task_inv_def split: worker_pc.splits)
next
  case (returned c)
  then show ?case by (auto simp: task_inv_def split: worker_pc.splits outcome.splits)
next
  case (done_closed c)
  then show ?case by (auto simp: task_inv_def split: worker_pc.splits)
next
  case (goroutine_ends c)
  then show ?case by (auto simp: task_inv_def split: worker_pc.splits)
qed

lemma task_trace_inv:
  "task_trace dq um fe t run closes (spawn run s) evs c \<Longrightarrow> task_inv dq um fe t run s evs c"
proof (induction rule: task_trace.induct)
  case here
  show ?case by (rule spawn_inv)
next
  case (silently evs c1 c2)
  then show ?case using task_step_inv [OF silently.hyps(2)] by fastforce
next
  case (receiving evs c1 ev c2)
  then show ?case using task_step_inv [OF receiving.hyps(2)] by fastforce
qed

subsection \<open>Every list of events is a run\<close>

text \<open>The configuration of a task whose handler has still to send \<open>bs\<close>.\<close>

definition sending :: "bytes list \<Rightarrow> 's worker_pc \<Rightarrow> 's task_config" where
  "sending bs w = \<lparr>tc_handler = Sends bs, tc_beats_closed = False, tc_done = None, tc_done_closed = False, tc_worker = w\<rparr>"

text \<open>And after the handler's goroutine has ended.\<close>

definition handler_gone :: "handler_run \<Rightarrow> 's worker_pc \<Rightarrow> 's task_config" where
  "handler_gone run w = \<lparr>tc_handler = Gone, tc_beats_closed = True,
     tc_done = (case run_result run of Ret r \<Rightarrow> Some r | Panic \<Rightarrow> None), tc_done_closed = True, tc_worker = w\<rparr>"

lemma handler_ends: "task_trace dq um fe t run closes (sending [] w) [] (handler_gone run w)"
proof -
  let ?r = "case run_result run of Ret r \<Rightarrow> Some r | Panic \<Rightarrow> None"
  let ?T = "task_trace dq um fe t run closes (sending [] w) []"
  have "?T (sending [] w)" by (rule task_trace.here)
  from task_trace.silently [OF this task_step.body_ends]
  have "?T \<lparr>tc_handler = Returns, tc_beats_closed = closes, tc_done = None, tc_done_closed = False, tc_worker = w\<rparr>"
    by (simp add: sending_def)
  from task_trace.silently [OF this task_step.returned]
  have "?T \<lparr>tc_handler = Deferred_done, tc_beats_closed = closes, tc_done = ?r, tc_done_closed = False, tc_worker = w\<rparr>"
    by simp
  from task_trace.silently [OF this task_step.done_closed]
  have "?T \<lparr>tc_handler = Deferred_beats, tc_beats_closed = closes, tc_done = ?r, tc_done_closed = True, tc_worker = w\<rparr>"
    by simp
  from task_trace.silently [OF this task_step.goroutine_ends]
  show ?thesis by (simp add: handler_gone_def)
qed

lemma one_silent: "task_step dq um fe t run closes None c c' \<Longrightarrow> task_trace dq um fe t run closes c [] c'"
  by (rule task_trace.silently [OF task_trace.here])

lemma one_received: "task_step dq um fe t run closes (Some ev) c c' \<Longrightarrow> task_trace dq um fe t run closes c [ev] c'"
  using task_trace.receiving [OF task_trace.here] by fastforce

lemma gone_result:
  "\<exists>c. task_trace dq um fe t run closes (handler_gone run (Waits s l)) [] c \<and>
     tc_worker c = result_received dq um fe t s l (work_err (run_result run))"
proof (cases "run_result run")
  case (Ret r)
  let ?c = "handler_gone run (Waits s l)"
  have "task_step dq um fe t run closes None ?c (?c\<lparr>tc_done := None, tc_worker := result_received dq um fe t s l r\<rparr>)"
    by (rule task_step.result) (simp_all add: handler_gone_def Ret)
  from one_silent [OF this] show ?thesis using Ret by (fastforce simp: work_err_def)
next
  case Panic
  let ?c = "handler_gone run (Waits s l)"
  have "task_step dq um fe t run closes None ?c (?c\<lparr>tc_worker := result_received dq um fe t s l None\<rparr>)"
    by (rule task_step.no_result) (simp_all add: handler_gone_def Panic)
  from one_silent [OF this] show ?thesis using Panic by (fastforce simp: work_err_def)
qed

lemma wait_runs:
  "\<exists>c. task_trace dq um fe t run closes (sending [] (Waits s l)) [] c \<and>
     tc_worker c = result_received dq um fe t s l (work_err (run_result run))"
  using task_trace_append [OF _ handler_ends] gone_result by (metis append_Nil)

text \<open>The worker's loop, from any heartbeat on.\<close>

lemma heartbeats_run:
  assumes "processHeartbeats dq (ID t) l bs evs s = Some (s', l', err, rest)" and "err = None \<Longrightarrow> rest = []"
  shows "\<exists>evs' c. task_trace dq um fe t run closes (sending bs (Loops s l)) evs' c \<and>
    tc_worker c = (case err of Some x \<Rightarrow> loop_failed dq um fe t s' l' x
      | None \<Rightarrow> result_received dq um fe t s' l' (work_err (run_result run)))"
  using assms
proof (induction dq "ID t" l bs evs s rule: processHeartbeats.induct)
  case (2 dq l bs x evs s)
  have "task_trace dq um fe t run closes (sending bs (Loops s l)) [WDone x] ((sending bs (Loops s l))\<lparr>tc_worker := loop_failed dq um fe t s l x\<rparr>)"
    by (intro one_received task_step.ctx_done) (simp add: sending_def)
  with 2 show ?case by fastforce
next
  case (3 dq l bs evs s)
  have "task_trace dq um fe t run closes (sending bs (Loops s l)) [WTimeout]
      ((sending bs (Loops s l))\<lparr>tc_worker := loop_failed dq um fe t s l (Task_worker_err ErrHeartbeatTimeout)\<rparr>)"
    by (intro one_received task_step.timed_out) (simp add: sending_def)
  with 3 show ?case by fastforce
next
  case (4 dq l e evs s)
  let ?g = "handler_gone run (Waits s l)"
  have "task_step dq um fe t run closes (Some (WRecv e)) (handler_gone run (Loops s l)) ?g"
    using task_step.beats_closed [of "handler_gone run (Loops s l)" s l] by (simp add: handler_gone_def)
  from task_trace.receiving [OF handler_ends this]
  have "task_trace dq um fe t run closes (sending [] (Loops s l)) [WRecv e] ?g" by simp
  with gone_result [of dq um fe t run closes s l] 4 show ?case using task_trace_append by fastforce
next
  case (5 dq l b bs e evs s)
  have st: "task_trace dq um fe t run closes (sending (b # bs) (Loops s l)) [WRecv e] (sending bs (beat_received dq um fe t e b s))"
    using task_trace.receiving [OF task_trace.here task_step.handed_over [of "sending (b # bs) (Loops s l)" s l b bs dq um fe t run closes e]]
    by (simp add: sending_def)
  obtain s1 r where hb: "dq_Heartbeat dq e (ID t) b s = (s1, r)" by fastforce
  show ?case
  proof (cases r)
    case None
    with 5 hb obtain evs' c where "task_trace dq um fe t run closes (sending bs (Loops s1 b)) evs' c"
      and "tc_worker c = (case err of Some x \<Rightarrow> loop_failed dq um fe t s' l' x
        | None \<Rightarrow> result_received dq um fe t s' l' (work_err (run_result run)))" by fastforce
    with st None hb show ?thesis using task_trace_append by (fastforce simp: beat_received_def)
  next
    case (Some x)
    show ?thesis
    proof (cases "x \<in> Queue_err ` {ErrTaskCancelled, ErrTaskFinished, ErrTaskNotFound, ErrTaskNotRunning}")
      case True
      with 5 hb Some have "bs = []" "s' = s1" "l' = b" "err = None" by simp_all
      moreover from True hb Some have "beat_received dq um fe t e b s = Waits s1 b" by (simp add: beat_received_def)
      ultimately show ?thesis using st task_trace_append wait_runs [of dq um fe t run closes s1 b] by fastforce
    next
      case False
      with 5 hb Some have "s' = s1" "l' = b" "err = Some x" by simp_all
      moreover from False hb Some have "beat_received dq um fe t e b s = loop_failed dq um fe t s1 b x" by (simp add: beat_received_def)
      moreover have "tc_worker (sending bs w) = w" for w :: "'s worker_pc" by (simp add: sending_def)
      ultimately show ?thesis using st by (metis option.simps(5))
    qed
  qed
qed simp

lemma handleTask_runs:
  assumes "handleTask dq um run evs fe t s = Some out"
  shows "\<exists>evs' c. task_trace dq um fe t run closes (spawn run s) evs' c \<and> tc_worker c = Over out"
proof -
  from assms obtain s' l' err rest where ph: "processHeartbeats dq (ID t) emptyJSON (run_beats run) evs s = Some (s', l', err, rest)"
    by (auto simp: handleTask_def split: option.splits)
  have r: "err = None \<Longrightarrow> rest = []" using assms ph by (auto simp: handleTask_def split: if_splits)
  have "(case err of Some x \<Rightarrow> loop_failed dq um fe t s' l' x
      | None \<Rightarrow> result_received dq um fe t s' l' (work_err (run_result run))) = Over out"
    using assms ph r by (auto simp: handleTask_def loop_failed_def result_received_def split: option.splits)
  with heartbeats_run [OF ph r, of um fe run closes] show ?thesis by (simp add: spawn_def sending_def)
qed

text \<open>
  C15: The two goroutines do what the function says. For any dequeuer, any handler and whether or not the handler
  closes the channel of heartbeats itself, the worker can return with an outcome in some
  interleaving exactly when \<open>handleTask\<close> has this outcome for some list of what the worker
  receives. An interleaving in which the worker never returns is one for which \<open>handleTask\<close> has
  no value.
\<close>

theorem goroutines_equal_handleTask:
  "(\<exists>evs c. task_trace dq um fe t run closes (spawn run s) evs c \<and> tc_worker c = Over out) \<longleftrightarrow>
   (\<exists>evs. handleTask dq um run evs fe t s = Some out)"
proof
  assume "\<exists>evs c. task_trace dq um fe t run closes (spawn run s) evs c \<and> tc_worker c = Over out"
  then obtain evs c where "task_inv dq um fe t run s evs c" "tc_worker c = Over out" using task_trace_inv by metis
  then have "handleTask dq um run (evs @ []) fe t s = Some out" by (simp only: task_inv_def worker_pc.case)
  then show "\<exists>evs. handleTask dq um run evs fe t s = Some out" by blast
qed (auto dest: handleTask_runs)

subsection \<open>How the goroutines end\<close>

text \<open>A configuration in which neither goroutine can do anything.\<close>

definition halted ::
  "('x, 's) dequeuer \<Rightarrow> unmarshal_map \<Rightarrow> progress_env \<Rightarrow> task \<Rightarrow> handler_run \<Rightarrow> bool \<Rightarrow> 's task_config \<Rightarrow> bool" where
  "halted dq um fe t run closes c \<longleftrightarrow> (\<forall>lab c'. \<not> task_step dq um fe t run closes lab c c')"

text \<open>Every step takes something from this measure, so every run halts.\<close>

fun handler_rank :: "handler_pc \<Rightarrow> nat" where
  "handler_rank (Sends bs) = 4 + length bs"
| "handler_rank Returns = 3"
| "handler_rank Deferred_done = 2"
| "handler_rank Deferred_beats = 1"
| "handler_rank Gone = 0"

fun worker_rank :: "'s worker_pc \<Rightarrow> nat" where
  "worker_rank (Loops s l) = 2"
| "worker_rank (Waits s l) = 1"
| "worker_rank (Over out) = 0"

definition steps_left :: "'s task_config \<Rightarrow> nat" where
  "steps_left c = handler_rank (tc_handler c) + worker_rank (tc_worker c)"

lemma task_step_decreases:
  "task_step dq um fe t run closes lab c c' \<Longrightarrow> steps_left c' < steps_left c"
proof (induction rule: task_step.induct)
  case (handed_over c s l b bs e)
  have "worker_rank (beat_received dq um fe t e b s) \<le> 2" by (simp add: beat_received_def loop_failed_def split: prod.split option.split)
  with handed_over show ?case by (simp add: steps_left_def)
qed (simp_all add: steps_left_def loop_failed_def result_received_def)

lemma goroutines_halt:
  "\<exists>evs c'. task_trace dq um fe t run closes c evs c' \<and> halted dq um fe t run closes c'"
proof (induction "steps_left c" arbitrary: c rule: less_induct)
  case less
  show ?case
  proof (cases "halted dq um fe t run closes c")
    case True
    then show ?thesis using task_trace.here by blast
  next
    case False
    then obtain lab c1 where st: "task_step dq um fe t run closes lab c c1" by (auto simp: halted_def)
    then obtain evs where "task_trace dq um fe t run closes c evs c1"
      by (metis task_trace.here task_trace.silently task_trace.receiving option.exhaust)
    with less [OF task_step_decreases [OF st]] show ?thesis using task_trace_append by blast
  qed
qed

text \<open>Where a run can halt.\<close>

lemma done_before_gone:
  "task_trace dq um fe t run closes (spawn run s) evs c \<Longrightarrow> tc_handler c = Gone \<Longrightarrow> tc_done_closed c"
proof -
  assume "task_trace dq um fe t run closes (spawn run s) evs c"
  then have "tc_handler c \<in> {Deferred_beats, Gone} \<longrightarrow> tc_done_closed c"
  proof (induction rule: task_trace.induct)
    case here
    show ?case by (simp add: spawn_def)
  qed (auto elim!: task_stepE)
  then show "tc_handler c = Gone \<Longrightarrow> tc_done_closed c" by simp
qed

lemma handler_moves:
  assumes "halted dq um fe t run closes c"
  shows "tc_handler c = Gone \<or> (\<exists>b bs. tc_handler c = Sends (b # bs))"
proof (cases "tc_handler c")
  case (Sends bs)
  then show ?thesis using assms task_step.body_ends by (cases bs) (fastforce simp: halted_def)+
next
  case Returns
  then show ?thesis using assms task_step.returned unfolding halted_def by blast
next
  case Deferred_done
  then show ?thesis using assms task_step.done_closed unfolding halted_def by blast
next
  case Deferred_beats
  then show ?thesis using assms task_step.goroutine_ends unfolding halted_def by blast
qed simp

lemma halted_worker:
  assumes "halted dq um fe t run closes c"
  shows "tc_worker c \<noteq> Loops s l"
proof
  assume "tc_worker c = Loops s l"
  from task_step.timed_out [OF this] assms show False unfolding halted_def by blast
qed

text \<open>
  A task whose goroutines have come to rest has either ended on both sides, or its handler is
  blocked for good in a heartbeat that nobody will receive: the worker has returned, or waits for
  the handler's result.
\<close>

theorem goroutines_end_or_leak:
  assumes "task_trace dq um fe t run closes (spawn run s) evs c"
  shows "halted dq um fe t run closes c \<longleftrightarrow>
    (\<exists>out. tc_worker c = Over out) \<and> tc_handler c = Gone \<or>
    (\<nexists>s' l. tc_worker c = Loops s' l) \<and> (\<exists>b bs. tc_handler c = Sends (b # bs))"
    (is "_ \<longleftrightarrow> ?E \<or> ?L")
proof
  assume h: "halted dq um fe t run closes c"
  show "?E \<or> ?L"
  proof (cases "tc_worker c")
    case (Waits s' l)
    have "tc_handler c \<noteq> Gone"
    proof
      assume "tc_handler c = Gone"
      then have "tc_done_closed c" by (rule done_before_gone [OF assms])
      with Waits h show False using task_step.result task_step.no_result unfolding halted_def by (metis option.exhaust)
    qed
    with Waits handler_moves [OF h] show ?thesis by simp
  qed (use halted_worker [OF h] handler_moves [OF h] in auto)
next
  assume "?E \<or> ?L"
  then show "halted dq um fe t run closes c"
  proof
    assume "?E"
    then show ?thesis by (auto simp: halted_def elim!: task_stepE)
  next
    assume L: "?L"
    then obtain b bs where b: "tc_handler c = Sends (b # bs)" by blast
    with task_trace_inv [OF assms] have "tc_done c = None" unfolding task_inv_def by (metis list.distinct(1) not_Some_eq unsent.simps(1))
    moreover from b task_trace_inv [OF assms] have "\<not> tc_done_closed c" by (auto simp: task_inv_def)
    ultimately show ?thesis using L b by (auto simp: halted_def elim!: task_stepE)
  qed
qed

text \<open>How many heartbeats the worker has received, or found the channel closed.\<close>

fun received :: "worker_event list \<Rightarrow> nat" where
  "received [] = 0"
| "received (WRecv e # evs) = Suc (received evs)"
| "received (_ # evs) = received evs"

lemma received_append [simp]: "received (evs @ evs') = received evs + received evs'"
  by (induction evs rule: received.induct) simp_all

lemma received_unsent:
  assumes "task_trace dq um fe t run closes (spawn run s) evs c"
  shows "length (run_beats run) \<le> received evs + length (unsent (tc_handler c)) \<and>
    (\<forall>bs. tc_handler c = Sends bs \<longrightarrow> received evs + length bs = length (run_beats run)) \<and>
    (tc_beats_closed c \<longrightarrow> (\<forall>bs. tc_handler c \<noteq> Sends bs))"
  using assms
proof (induction rule: task_trace.induct)
  case here
  show ?case by (simp add: spawn_def)
next
  case (silently evs c1 c2)
  from silently.hyps(2) silently.IH show ?case by (cases rule: task_step.cases) auto
next
  case (receiving evs c1 ev c2)
  from receiving.hyps(2) receiving.IH show ?case by (cases rule: task_step.cases) auto
qed

text \<open>
  C16: Handlers that are left behind. Every run of the two goroutines comes to rest
  (\<open>goroutines_halt\<close>). When it has, the goroutine of the handler has not ended exactly when the
  worker took fewer heartbeats than the handler sends: after a timeout, the end of the context or a refused
  heartbeat nobody receives any more, and the forced cleanup, which would close the channel, only
  runs after the handler has returned. Here a handler sends without looking at its context, as the
  handlers of the library do.
\<close>

theorem handler_leaks_iff:
  assumes "task_trace dq um fe t run closes (spawn run s) evs c" and "halted dq um fe t run closes c"
  shows "tc_handler c \<noteq> Gone \<longleftrightarrow> received evs < length (run_beats run)"
proof
  assume "tc_handler c \<noteq> Gone"
  with handler_moves [OF assms(2)] obtain b bs where "tc_handler c = Sends (b # bs)" by blast
  with received_unsent [OF assms(1)] show "received evs < length (run_beats run)" by fastforce
next
  assume "received evs < length (run_beats run)"
  with received_unsent [OF assms(1)] show "tc_handler c \<noteq> Gone" by auto
qed

text \<open>A handler with two heartbeats, the worker's timer fires first: the handler stays in its send for ever.\<close>

theorem handler_leaks_iff_witness:
  "\<exists>c. halted (pg_dequeuer sample_pg ex_cfg) sample_um (ex_prog 104) ex_task (ex_run_of (Ret None)) True c \<and>
     tc_handler c \<noteq> Gone"
proof -
  let ?dq = "pg_dequeuer sample_pg ex_cfg" and ?run = "ex_run_of (Ret None)" and ?c = "spawn (ex_run_of (Ret None)) ex_run"
  let ?c' = "?c\<lparr>tc_worker := loop_failed ?dq sample_um (ex_prog 104) ex_task ex_run emptyJSON (Task_worker_err ErrHeartbeatTimeout)\<rparr>"
  have tr: "task_trace ?dq sample_um (ex_prog 104) ex_task ?run True ?c [WTimeout] ?c'"
    by (intro one_received task_step.timed_out) (simp add: spawn_def)
  have h: "halted ?dq sample_um (ex_prog 104) ex_task ?run True ?c'"
    by (subst goroutines_end_or_leak [OF tr]) (simp add: spawn_def ex_run_of_def loop_failed_def)
  have "received [WTimeout] < length (run_beats ?run)" by (simp add: ex_run_of_def)
  with handler_leaks_iff [OF tr h] h show ?thesis by blast
qed

end
