(* ===== verification/Mocks.thy ===== *)
theory Mocks
  imports Metered_Queue Tokens
begin

section \<open>Mocks\<close>

text \<open>
  What the library gives to the tests of its clients: \<open>pkg/queue/queue_mock.go\<close>,
  \<open>scheduler_mock.go\<close>, \<open>pkg/tokens/creator_mock.go\<close>, the resolver of \<open>pkg/http/parameters/test\<close> and the helpers of
  \<open>pkg/testing/logs.go\<close>.
  The theorems say where a client that passes its tests with a mock sees the behaviour of the real
  service, and where it does not.
\<close>

subsection \<open>The queue\<close>

text \<open>The channel of tasks is the list of what it holds, with its capacity.\<close>

record queue_mock =
  qm_Queue :: "task list"
  qm_capacity :: nat
  EnqueueErr :: "error option"
  DequeueErr :: "error option"
  HeartbeatErr :: "error option"
  FinishErr :: "error option"
  FailErr :: "error option"
  EnqueueCount :: int
  DequeueCount :: int
  HeartbeatCount :: int
  FinishCount :: int
  FailCount :: int

text \<open>A task with the fields of a request and the zero values of Go elsewhere.\<close>

definition mock_task :: "task_enqueue_request \<Rightarrow> task" where
  "mock_task t = \<lparr>Queue = Queue t, Type = Type t, Spec = Spec t, ID = [], Status = Unlisted [], Progress = [],
     CreatedAt = zero_time, UpdatedAt = zero_time, StartedAt = None, FinishedAt = None, LastHeartbeatAt = None\<rparr>"

text \<open>\<open>None\<close> is a call that blocks, since the channel is full.\<close>

definition mock_Enqueue :: "task_enqueue_request \<Rightarrow> queue_mock \<Rightarrow> (queue_mock \<times> error option) option" where
  "mock_Enqueue t q =
     (let q = q\<lparr>EnqueueCount := EnqueueCount q + 1\<rparr>
      in if length (qm_Queue q) < qm_capacity q
         then Some (q\<lparr>qm_Queue := qm_Queue q @ [mock_task t]\<rparr>, EnqueueErr q) else None)"

text \<open>
  The error of the context, when it has ended, and which case the \<open>select\<close> takes when both are
  ready; \<open>None\<close> is a call that blocks.
\<close>

definition mock_Dequeue ::
  "error option \<times> bool \<Rightarrow> queue_mock \<Rightarrow> (queue_mock \<times> task option \<times> error option) outcome option" where
  "mock_Dequeue x q =
     (let q = q\<lparr>DequeueCount := DequeueCount q + 1\<rparr>
      in if DequeueErr q \<noteq> None then Some (Ret (q, None, DequeueErr q))
         else (case (fst x, qm_Queue q) of
             (Some e, []) \<Rightarrow> Some (Ret (q, None, Some e))
           | (None, []) \<Rightarrow> None
           | (ended, t # ts) \<Rightarrow>
             if ended \<noteq> None \<and> snd x then Some (Ret (q, None, ended))
             else Some (Ret (q\<lparr>qm_Queue := ts\<rparr>, Some t, DequeueErr q))))"

definition mock_Heartbeat :: "queue_mock \<Rightarrow> queue_mock \<times> error option" where
  "mock_Heartbeat q = (q\<lparr>HeartbeatCount := HeartbeatCount q + 1\<rparr>, HeartbeatErr q)"

definition mock_Finish :: "queue_mock \<Rightarrow> queue_mock \<times> error option" where
  "mock_Finish q = (q\<lparr>FinishCount := FinishCount q + 1\<rparr>, FinishErr q)"

definition mock_Fail :: "queue_mock \<Rightarrow> queue_mock \<times> error option" where
  "mock_Fail q = (q\<lparr>FailCount := FailCount q + 1\<rparr>, FailErr q)"

text \<open>The mock as a value of the interface \<open>Dequeuer\<close>.\<close>

definition mock_dequeuer :: "(error option \<times> bool, queue_mock) dequeuer" where
  "mock_dequeuer =
     \<lparr>dq_Dequeue = mock_Dequeue, dq_Heartbeat = (\<lambda>e i p. mock_Heartbeat),
      dq_Finish = (\<lambda>e i p. mock_Finish), dq_Fail = (\<lambda>e i p. mock_Fail)\<rparr>"

text \<open>Several tasks in a row.\<close>

fun mock_Enqueue_all :: "task_enqueue_request list \<Rightarrow> queue_mock \<Rightarrow> queue_mock option" where
  "mock_Enqueue_all [] q = Some q"
| "mock_Enqueue_all (t # ts) q = (case mock_Enqueue t q of None \<Rightarrow> None | Some (q, err) \<Rightarrow> mock_Enqueue_all ts q)"

fun mock_Dequeue_all :: "(error option \<times> bool) list \<Rightarrow> queue_mock \<Rightarrow> task option list" where
  "mock_Dequeue_all [] q = []"
| "mock_Dequeue_all (x # xs) q =
     (case mock_Dequeue x q of Some (Ret (q, t, err)) \<Rightarrow> t # mock_Dequeue_all xs q | _ \<Rightarrow> [])"

lemma mock_Enqueue_all_queue:
  "mock_Enqueue_all ts q = Some q' \<Longrightarrow>
    qm_Queue q' = qm_Queue q @ map mock_task ts \<and> DequeueErr q' = DequeueErr q"
  by (induction ts arbitrary: q) (auto simp: mock_Enqueue_def Let_def split: if_splits)

lemma mock_Dequeue_all_queue:
  "DequeueErr q = None \<Longrightarrow> mock_Dequeue_all (replicate (length (qm_Queue q)) (None, b)) q = map Some (qm_Queue q)"
proof (induction "qm_Queue q" arbitrary: q)
  case (Cons t ts)
  let ?q = "q\<lparr>DequeueCount := DequeueCount q + 1, qm_Queue := ts\<rparr>"
  have "mock_Dequeue (None, b) q = Some (Ret (?q, Some t, None))"
    using Cons.hyps(2) [symmetric] Cons.prems by (simp add: mock_Dequeue_def)
  moreover have "mock_Dequeue_all (replicate (length ts) (None, b)) ?q = map Some ts"
    using Cons.hyps(1) [of ?q] Cons.prems by simp
  ultimately show ?case using Cons.hyps(2) [symmetric] by simp
qed simp

text \<open>
  The mock is a queue: tasks are handed out in the order in which they were enqueued. The queue on
  Postgres hands out the newest first.
\<close>

theorem mock_queue_fifo:
  assumes "mock_Enqueue_all ts q = Some q'" and "qm_Queue q = []" and "DequeueErr q = None"
  shows "mock_Dequeue_all (replicate (length ts) (None, b)) q' = map (\<lambda>t. Some (mock_task t)) ts"
  using mock_Enqueue_all_queue [OF assms(1)] mock_Dequeue_all_queue [of q' b] assms(2,3) by (simp add: comp_def)

text \<open>An error of the mock does not keep the task out of the queue; \<open>Enqueue\<close> on Postgres fails without a trace.\<close>

theorem mock_error_still_enqueues:
  assumes "EnqueueErr q = Some x" and "length (qm_Queue q) < qm_capacity q"
  shows "\<exists>q'. mock_Enqueue t q = Some (q', Some x) \<and> qm_Queue q' = qm_Queue q @ [mock_task t]"
  using assms by (simp add: mock_Enqueue_def)

subsection \<open>A worker with the mock\<close>

text \<open>What the calls of the worker leave unchanged, and the calls with which it ends a task.\<close>

definition same_setup :: "queue_mock \<Rightarrow> queue_mock \<Rightarrow> bool" where
  "same_setup q q' \<longleftrightarrow> qm_Queue q' = qm_Queue q \<and> HeartbeatErr q' = HeartbeatErr q \<and> FinishErr q' = FinishErr q \<and>
     FailErr q' = FailErr q \<and> DequeueErr q' = DequeueErr q"

lemma mock_heartbeats:
  assumes "processHeartbeats mock_dequeuer i l bs evs q = Some (q', l', err, rest)"
  shows "same_setup q q' \<and> FinishCount q' = FinishCount q \<and> FailCount q' = FailCount q \<and>
    HeartbeatCount q' = HeartbeatCount q + int (length bs - length rest) \<and> length rest \<le> length bs"
  using assms
proof (induction "mock_dequeuer" i l bs evs q rule: processHeartbeats.induct)
  case (5 i l b bs e evs q)
  let ?q = "q\<lparr>HeartbeatCount := HeartbeatCount q + 1\<rparr>"
  have hb: "dq_Heartbeat mock_dequeuer e i b q = (?q, HeartbeatErr q)"
    by (simp add: mock_dequeuer_def mock_Heartbeat_def)
  show ?case
  proof (cases "HeartbeatErr q")
    case None
    with 5 hb have "same_setup ?q q' \<and> FinishCount q' = FinishCount ?q \<and> FailCount q' = FailCount ?q \<and>
        HeartbeatCount q' = HeartbeatCount ?q + int (length bs - length rest) \<and> length rest \<le> length bs"
      by simp
    then show ?thesis by (auto simp: same_setup_def)
  next
    case (Some x)
    with 5 hb have "q' = ?q" "rest = bs" by (simp_all split: if_splits)
    then show ?thesis by (simp add: same_setup_def)
  qed
qed (auto simp: same_setup_def)

text \<open>
  A worker with the mock: whatever its handler does, a task for which it reports no error has been
  ended by exactly one call, of \<open>Fail\<close> or of \<open>Finish\<close>, and only of \<open>Finish\<close> when the handler
  succeeded and the heartbeats were in time; and \<open>Heartbeat\<close> was called at most once for every heartbeat
  of the handler.
\<close>

theorem mock_counts_one_end:
  assumes "handleTask mock_dequeuer um run evs fe t q = Some (Ret (q', None))"
  shows "FinishCount q' + FailCount q' = FinishCount q + FailCount q + 1 \<and>
    (work_err (run_result run) \<noteq> None \<longrightarrow> FailCount q' = FailCount q + 1) \<and>
    HeartbeatCount q \<le> HeartbeatCount q' \<and> HeartbeatCount q' \<le> HeartbeatCount q + int (length (run_beats run))"
proof -
  obtain q1 l err rest where ph: "processHeartbeats mock_dequeuer (ID t) emptyJSON (run_beats run) evs q = Some (q1, l, err, rest)"
    using assms by (auto simp: handleTask_def split: option.splits)
  have f: "fail_task mock_dequeuer um fe i l x q1 = Ret (q', None) \<Longrightarrow> q' = q1\<lparr>FailCount := FailCount q1 + 1\<rparr>" for i x
    by (auto simp: fail_task_def mock_dequeuer_def mock_Fail_def split: outcome.splits)
  have "q' = q1\<lparr>FailCount := FailCount q1 + 1\<rparr> \<or>
      q' = q1\<lparr>FinishCount := FinishCount q1 + 1\<rparr> \<and> work_err (run_result run) = None"
    using assms ph f
    by (auto simp: handleTask_def mock_dequeuer_def mock_Finish_def split: option.splits if_splits)
  with mock_heartbeats [OF ph] show ?thesis by auto
qed

subsection \<open>The scheduler and the creator of tokens\<close>

record scheduler_mock =
  ScheduleErr :: "error option"
  ScheduleCount :: int
  EnsureError :: "error option"
  EnsureCount :: int
  AssertError :: "error option"
  AssertCount :: int

definition SchedulerMock :: "('a, 'b, 'c, scheduler_mock) scheduler" where
  "SchedulerMock =
     \<lparr>sch_Schedule = (\<lambda>e t s. (s\<lparr>ScheduleCount := ScheduleCount s + 1\<rparr>, ScheduleErr s)),
      sch_Ensure = (\<lambda>e t s. (s\<lparr>EnsureCount := EnsureCount s + 1\<rparr>, EnsureError s)),
      sch_Assert = (\<lambda>e t s. (s\<lparr>AssertCount := AssertCount s + 1\<rparr>, AssertError s))\<rparr>"

text \<open>The counts are the numbers of calls of each kind.\<close>

fun is_Schedule :: "('a, 'b, 'c) sched_call \<Rightarrow> bool" where
  "is_Schedule (Call_Schedule e t) \<longleftrightarrow> True" | "is_Schedule _ \<longleftrightarrow> False"

fun is_Ensure :: "('a, 'b, 'c) sched_call \<Rightarrow> bool" where
  "is_Ensure (Call_Ensure e t) \<longleftrightarrow> True" | "is_Ensure _ \<longleftrightarrow> False"

theorem scheduler_mock_counts:
  "fst (do_calls SchedulerMock cs s) = s\<lparr>ScheduleCount := ScheduleCount s + int (length (filter is_Schedule cs)),
     EnsureCount := EnsureCount s + int (length (filter is_Ensure cs)),
     AssertCount := AssertCount s + int (length (filter (\<lambda>c. \<not> is_Schedule c \<and> \<not> is_Ensure c) cs))\<rparr>"
proof (induction cs arbitrary: s)
  case (Cons c cs)
  then show ?case by (cases c) (simp_all add: SchedulerMock_def case_prod_unfold)
qed simp

record creator_mock =
  cm_Err :: "error option"
  cm_Token :: string
  cm_Opts :: token_options

definition mock_Create :: "creator_mock \<Rightarrow> string \<Rightarrow> token_options \<Rightarrow> string \<times> error option" where
  "mock_Create m reference opts = (cm_Token m, cm_Err m)"

text \<open>\<open>mockResolver\<close> of \<open>pkg/http/parameters/test\<close>: the parameters of a request are a given map.\<close>

definition mock_Resolve :: "(string \<rightharpoonup> string) \<Rightarrow> string \<Rightarrow> string" where
  "mock_Resolve values name = (case values name of None \<Rightarrow> [] | Some v \<Rightarrow> v)"

subsection \<open>The log in tests\<close>

text \<open>The standard logger of logrus: its formatter, where it writes to and its level.\<close>

datatype log_level = PanicLevel | FatalLevel | ErrorLevel | WarnLevel | InfoLevel | DebugLevel | TraceLevel

record ('f, 'o) logger =
  Formatter :: 'f
  Out :: 'o
  Level :: log_level

text \<open>Both functions yield the changed logger and the function that restores it.\<close>

definition SetupLoggingBuffer ::
  "'f \<Rightarrow> 'o \<Rightarrow> ('f, 'o) logger \<Rightarrow> ('f, 'o) logger \<times> (('f, 'o) logger \<Rightarrow> ('f, 'o) logger)" where
  "SetupLoggingBuffer fmtr buf std =
     (std\<lparr>Formatter := fmtr, Out := buf, Level := DebugLevel\<rparr>,
      \<lambda>cur. cur\<lparr>Formatter := Formatter std, Out := Out std, Level := Level std\<rparr>)"

definition DiscardLogging :: "'o \<Rightarrow> ('f, 'o) logger \<Rightarrow> ('f, 'o) logger \<times> (('f, 'o) logger \<Rightarrow> ('f, 'o) logger)" where
  "DiscardLogging discard std =
     (std\<lparr>Out := discard, Level := FatalLevel\<rparr>, \<lambda>cur. cur\<lparr>Out := Out std, Level := Level std\<rparr>)"

text \<open>
  Redirections that are nested as deferred calls nest them leave the logger as it was; \<open>Inl buf\<close> is a
  buffer, \<open>Inr ()\<close> stands for \<open>DiscardLogging\<close>.
\<close>

fun redirected :: "'f \<Rightarrow> 'o \<Rightarrow> ('o + unit) list \<Rightarrow> ('f, 'o) logger \<Rightarrow> ('f, 'o) logger" where
  "redirected fmtr discard [] std = std"
| "redirected fmtr discard (r # rs) std =
     (let (cur, restore) = (case r of Inl buf \<Rightarrow> SetupLoggingBuffer fmtr buf std | Inr _ \<Rightarrow> DiscardLogging discard std)
      in restore (redirected fmtr discard rs cur))"

theorem redirections_restored: "redirected fmtr discard rs (std :: ('f, 'o) logger) = std"
proof (induction rs arbitrary: std)
  case (Cons r rs)
  then show ?case by (cases r) (simp_all add: SetupLoggingBuffer_def DiscardLogging_def)
qed simp

end
