(* ===== verification/Spec2Isabelle.thy ===== *)
theory Spec2Isabelle
  imports Schedule_Worker Retention Handlers Tokens Api_Client Serialization Union_FS Metrics Rules Http_Server Tracing Claims_Json
    File_Copy Metered_Queue Worker_Metrics Http_Metrics Claims_Jwt End_To_End Contexts
    Queue_Lifecycle Key_Races Otel_Metrics Jitter Server_Life Task_Goroutines Mocks
begin

text \<open>
  \<^bold>\<open>Verification of go-base\<close>

  \<open>go-base\<close> is a library for Go services: a task queue on PostgreSQL with its workers, and around it the
  parts that services share (migrations, HTTP servers and clients, authorization, tokens,
  cryptography, configuration, tracing). This development translates it into HOL, one theory for
  each part, and proves what makes each part correct, and where the code does not do what it means
  to, what it does instead. Paths are relative to \<open>src/pkg\<close>.

  \<^bold>\<open>The queue.\<close> Services enqueue tasks (\<open>queue/postgres/queuer.go\<close>, theory \<open>Queuer\<close>), workers take them
  (\<open>dequeuer.go\<close>, \<open>Dequeuer\<close>), send heartbeats and end them; schedules (\<open>scheduler.go\<close>, \<open>Scheduler\<close>)
  are turned into tasks by the schedule worker, and retention schedules (\<open>retention.go\<close>, \<open>Retention\<close>)
  into tasks that delete old rows. All meet in the tables that \<open>setup.go\<close> creates (\<open>Setup_Tables\<close>,
  whose names of indexes come from \<open>strings/casing.go\<close>, \<open>Casing\<close>). The tables are \<open>Pg_Store\<close>: lists
  of rows, as records, in their physical order. A statement is a function on them, and a
  transaction one step. \<open>SetupTables\<close> establishes the columns with their definitions and the indexes
  from any earlier schema; names are folded as Postgres folds them, so reference columns with
  upper-case letters and references whose indexes get one name are shown to go wrong.
  \<^item> \<open>Queue_Types\<close>, \<open>Go_Errors\<close>: the structs of \<open>queue/task.go\<close> and the error values of all packages.
  \<^item> \<open>Queue_System\<close>: the transactions of any number of processes as an inductive step relation; an
    invariant of the reachable databases, the safety of the states of a task, exclusive dequeueing
    by an attempt that nobody interrupts, and when two concurrent attempts break it. The locale \<open>guaranteed_steps\<close> lifts
    a guarantee of single steps to runs, and is interpreted on the step relation.
  \<^item> \<open>Queue_Lifecycle\<close>: the abstract specification of a task, an automaton of its phases. The calls of
    \<open>Queuer\<close> and \<open>Dequeuer\<close> refine it, and the successful calls for one task are exactly its paths.
  \<^item> \<open>Queue_Service\<close>: what a client gets: available work is handed out, and is what was enqueued.
  \<^item> \<open>Task_Worker\<close>, \<open>Schedule_Worker\<close> (\<open>queue/workers\<close>): the loops with their error paths, timeouts and
    panics. They use the queue through the locales \<open>dequeuer_contract\<close> and \<open>queuer_contract\<close>, which
    are interpreted on the functions of \<open>Dequeuer\<close> and \<open>Queuer\<close>.
  \<^item> \<open>Task_Goroutines\<close>: the worker and the goroutine of its handler as a step relation with the channels
    between them. Its runs end exactly as the function \<open>handleTask\<close> of \<open>Task_Worker\<close> says; every run
    comes to rest, and the handler's goroutine is left behind, blocked in a send, exactly when the
    worker took fewer heartbeats than there were.
  \<^item> \<open>Handlers\<close> (\<open>queue/handlers\<close>): the dispatcher, the SQL task and the two API tasks.
  \<^item> \<open>Metrics\<close> (\<open>queue/metrics.go\<close>): the options of the 23 collectors, their registration, and that any
    sequence of changes of the service name leaves exactly the collectors of the last name.
    \<open>Metered_Queue\<close> (\<open>queue/queue.go\<close>, \<open>scheduler.go\<close>) has the wrappers that count calls, \<open>Worker_Metrics\<close> the
    workers of \<open>queue/workers\<close> with everything they record: the behaviour is that of \<open>Task_Worker\<close> and
    \<open>Schedule_Worker\<close>, the gauges are even at the end, the counters account for the tasks.
  \<^item> \<open>End_To_End\<close>: compositions. The task that a worker gets for a due schedule has the request of the
    schedule and ends as finished; a retention schedule makes the SQL handler give the database the
    printed form of its statement; a token that \<open>Tokens\<close> makes is admitted by the middleware of
    \<open>Authorization\<close> in its window, with its claims.
  \<^item> \<open>Mocks\<close> (\<open>queue_mock.go\<close>, \<open>scheduler_mock.go\<close>, \<open>tokens/creator_mock.go\<close>, \<open>testing/logs.go\<close>, \<open>http/parameters/test\<close>): what
    tests with them observe, and where they differ from the real services.

  \<^bold>\<open>Database.\<close> \<open>Migrations\<close> (\<open>db/migrations\<close>): initialization, migrations and views with their
  transactions; a successful preparation executes what is pending, once, and one whose views fail
  leaves migrations that the next one repeats. \<open>Jitter\<close>: the random pause
  before them, in floating point, whose rounding is the parameter \<open>rounding_ok\<close>. \<open>Union_FS\<close>
  (\<open>fileutils/union\<close>, \<open>db/migrations/assets.go\<close>): the union of file systems from which they are
  read; the result does not depend on the order in which Go visits the map of mount points.
  \<open>File_Copy\<close> (\<open>fileutils/copy.go\<close>): copying of trees in a file system of nodes; a copy merges the trees,
  and a directory that is copied into itself is never copied: the call does not end unless the system
  refuses an operation.
  \<open>Serialization\<close> (\<open>db/serialization\<close>, \<open>proto\<close>): round trips of nullable values. \<open>Managers\<close>
  (\<open>data/managers\<close>, \<open>http/parameters\<close>): pages, counts and the resolution of identifiers. \<open>Config\<close>
  (\<open>config\<close>, \<open>db/open.go\<close>): the connection string, read back as it is documented, and the retry
  loop of the connection. \<open>Rules\<close> (\<open>validation\<close>, \<open>db/names.go\<close>, \<open>data/strings/format.go\<close>).

  \<^bold>\<open>HTTP.\<close> \<open>Error_Response\<close> (\<open>errors\<close>) and \<open>Base_Handler\<close> (\<open>http/handlers\<close>): how errors become
  responses, and that internal ones are not shown. \<open>Api_Client\<close> (\<open>http/clients\<close>): requests with
  retries. \<open>Authorization\<close>, \<open>Claims_Json\<close> (\<open>http/middlewares/authorization\<close>) and \<open>Tokens\<close> (\<open>tokens\<close>):
  claims, the middleware, creation of tokens, and the cache of public keys, which refines the
  function from the files of a directory to keys. \<open>Key_Races\<close>: what the methods of that cache do with its
  lock and its map, interleaved between any number of goroutines (a second interpretation of
  \<open>guaranteed_steps\<close>), and when the map is raced for. \<open>Claims_Jwt\<close> (\<open>claims.go\<close>): the conversions between
  claims and the map of a token. \<open>Http_Server\<close> (\<open>http\<close>, \<open>http/middlewares\<close>): the
  composition of options and what a request leaves in logs, metrics and spans, entry by entry, also
  after a panic and when CORS answers a preflight. \<open>Http_Metrics\<close> (\<open>http/middlewares/metrics.go\<close>): the registration of the collectors.
  \<open>Server_Life\<close> (\<open>http/server.go\<close>, \<open>http/monitoring.go\<close>): the control flow of a server and of the goroutine that
  shuts it down, with what the calls of \<open>net/http\<close> return as events in any order.
  \<open>Contexts\<close> (\<open>contexts/signals.go\<close>): the end of a context by a signal. \<open>Tracing\<close> (\<open>tracing\<close>,
  \<open>db/tracing.go\<close>, \<open>otel\<close>), \<open>Otel_Metrics\<close> (\<open>otel/metrics/prom.go\<close>: the set-up and shutdown of the meters). \<open>Crypto\<close> (\<open>crypto\<close>): sealed texts and
  tokens over given primitives. \<open>Json\<close>: the texts that \<open>encoding/json\<close> writes.

  \<^bold>\<open>Conventions.\<close> A Go string is a list of bytes; letters, blanks and cases are those of ASCII.
  Instants and durations are integers, in nanoseconds, with \<open>wrap64\<close> where the code may overflow;
  fixed widths are words where they matter (pages, ports, limits). A result with an error is a sum
  or a pair with an optional error, a panic is \<open>Panic\<close> of \<open>outcome\<close>. What happens around a loop
  (results of calls, ticks of timers, the end of a context) is an explicit list of events or
  environments, so a loop is a total function of them, and theorems about its end say for which
  lists it ends; fuel is used only where a theorem states how much is enough
  (\<open>read_pieces\<close> of \<open>Union_FS\<close>: one more than the number of entries; \<open>Copy\<close> of \<open>File_Copy\<close>: the number of
  nested calls, one more than the depth of the tree, and that no fuel is enough for a directory that
  is copied into itself on a system that refuses nothing). Maps are lists or functions;
  where Go leaves the order open, theorems hold for every order or say that it matters.

  \<^bold>\<open>Parameters.\<close> Code of other packages is a parameter with its documented behaviour as a named
  hypothesis, each shown satisfiable by an instance: the parser of cron expressions (\<open>cron\<close>), the
  JWT package (\<open>jwt_ok\<close>), ciphers and hashes, the registry of Prometheus (\<open>registry_ok\<close>),
  \<open>ozzo-validation\<close> (\<open>ozzo_ok\<close>), texts of times and identifiers (\<open>time_lib_ok\<close>, \<open>uuid_lib_ok\<close>,
  \<open>codec_ok\<close>), the text of an age in minutes and the printing of a statement (\<open>Retention\<close>), and what
  an SQL text of the application does.

  \<^bold>\<open>Not modelled.\<close> The handlers of other packages that recover from panics and set the headers of
  CORS, and the calls that hand tasks to drivers, brokers and the network; the values that are
  observed as durations and sizes (that they are observed is modelled); data races other than those
  of the cache of keys (some are findings); constructors that only fill a struct, interfaces and
  structs without code, and the package comment \<open>db/migrations/doc.go\<close>; the set-up of a test database
  with docker (\<open>db/test\<close>), and assertions that only call the package of tests (\<open>testing/json.go\<close>).
\<close>

end
